(* ===== verification/Prelude.thy ===== *)
theory Prelude
  imports Main "HOL-Library.Word" "HOL-Library.Sublist" "HOL-Library.AList"
begin

unbundle bit_operations_syntax

text \<open>
  Shared vocabulary of the development.

  Rust's fixed-width integers are \<^typ>\<open>'a word\<close> values; \<open>str\<close> and \<open>String\<close> are
  \<^typ>\<open>string\<close>, read as the UTF-8 byte sequence that Rust stores (so \<open>length\<close> is
  Rust's \<open>str::len\<close>); \<open>Result<T, E>\<close> is the sum type with \<open>Inl\<close> for the error.
  The theory holds the pieces of the Rust standard library the components use
  (splitting, trimming, line reading, hexadecimal and little-endian encodings) and the
  generic lemmas about them, collected in \<open>str_simps\<close> and \<open>bytes_simps\<close>.
\<close>

named_theorems str_simps \<open>facts on the string operations of the standard library\<close>
named_theorems bytes_simps \<open>facts on byte encodings of machine integers\<close>

type_synonym byte = "8 word"
type_synonym bytes = "8 word list"
type_synonym u8 = "8 word"
type_synonym u16 = "16 word"
type_synonym u32 = "32 word"
type_synonym u64 = "64 word"
type_synonym u128 = "128 word"

section \<open>Results\<close>

abbreviation Ok :: "'a \<Rightarrow> 'e + 'a" where
  "Ok \<equiv> Inr"

abbreviation Err :: "'e \<Rightarrow> 'e + 'a" where
  "Err \<equiv> Inl"

fun is_ok :: "'e + 'a \<Rightarrow> bool" where
  "is_ok (Inr _) = True"
| "is_ok (Inl _) = False"

section \<open>Strings\<close>

text \<open>\<open>str::as_bytes\<close>.\<close>

definition as_bytes :: "string \<Rightarrow> bytes" where
  "as_bytes s = map of_char s"

text \<open>\<open>str::split(c)\<close>: the pieces between the separators, one more than there are separators.\<close>

fun split_on :: "char \<Rightarrow> string \<Rightarrow> string list" where
  "split_on c [] = [[]]"
| "split_on c (x # xs) =
     (if x = c then [] # split_on c xs
      else (case split_on c xs of [] \<Rightarrow> [[x]] | y # ys \<Rightarrow> (x # y) # ys))"

text \<open>\<open>str::split_once("://")\<close> for an arbitrary pattern: the text before and after its first occurrence.\<close>

fun split_once :: "string \<Rightarrow> string \<Rightarrow> (string \<times> string) option" where
  "split_once pat [] = (if pat = [] then Some ([], []) else None)"
| "split_once pat (x # xs) =
     (if take (length pat) (x # xs) = pat then Some ([], drop (length pat) (x # xs))
      else map_option (\<lambda>(a, b). (x # a, b)) (split_once pat xs))"

text \<open>\<open>[&str]::join\<close>.\<close>

fun join_with :: "string \<Rightarrow> string list \<Rightarrow> string" where
  "join_with sep [] = []"
| "join_with sep [x] = x"
| "join_with sep (x # y # ys) = x @ sep @ join_with sep (y # ys)"

text \<open>\<open>char::is_ascii_*\<close> predicates, on the byte of an ASCII character.\<close>

definition is_ascii_digit :: "char \<Rightarrow> bool" where
  "is_ascii_digit c \<longleftrightarrow> 48 \<le> (of_char c :: nat) \<and> (of_char c :: nat) \<le> 57"

definition is_ascii_upper :: "char \<Rightarrow> bool" where
  "is_ascii_upper c \<longleftrightarrow> 65 \<le> (of_char c :: nat) \<and> (of_char c :: nat) \<le> 90"

definition is_ascii_lower :: "char \<Rightarrow> bool" where
  "is_ascii_lower c \<longleftrightarrow> 97 \<le> (of_char c :: nat) \<and> (of_char c :: nat) \<le> 122"

definition is_ascii_alphabetic :: "char \<Rightarrow> bool" where
  "is_ascii_alphabetic c \<longleftrightarrow> is_ascii_upper c \<or> is_ascii_lower c"

definition is_ascii_alphanumeric :: "char \<Rightarrow> bool" where
  "is_ascii_alphanumeric c \<longleftrightarrow> is_ascii_alphabetic c \<or> is_ascii_digit c"

text \<open>
  \<open>u8::is_ascii_whitespace\<close>: space, tab, line feed, form feed, carriage return
  (not vertical tab).
\<close>

definition is_ascii_whitespace :: "char \<Rightarrow> bool" where
  "is_ascii_whitespace c \<longleftrightarrow> (of_char c :: nat) \<in> {32, 9, 10, 12, 13}"

text \<open>\<open>to_ascii_lowercase\<close> and \<open>to_ascii_uppercase\<close> of one character.\<close>

definition to_ascii_lower :: "char \<Rightarrow> char" where
  "to_ascii_lower c = (if is_ascii_upper c then char_of ((of_char c :: nat) + 32) else c)"

definition to_ascii_upper :: "char \<Rightarrow> char" where
  "to_ascii_upper c = (if is_ascii_lower c then char_of ((of_char c :: nat) - 32) else c)"

text \<open>
  \<open>line.trim().is_empty()\<close>: every character of the line has the Unicode property
  White\_Space; the cases are the UTF-8 encodings of the characters that have it.
\<close>

fun blank_codes :: "nat list \<Rightarrow> bool" where
  "blank_codes [] = True"
| "blank_codes (a # cs) =
     (if (9 \<le> a \<and> a \<le> 13) \<or> a = 32 then blank_codes cs
      else (case cs of
        [] \<Rightarrow> False
      | b # ds \<Rightarrow>
          if a = 0xC2 \<and> (b = 0x85 \<or> b = 0xA0) then blank_codes ds
          else (case ds of
            [] \<Rightarrow> False
          | c # es \<Rightarrow>
              if (a = 0xE1 \<and> b = 0x9A \<and> c = 0x80)
               \<or> (a = 0xE2 \<and> b = 0x80 \<and> (0x80 \<le> c \<and> c \<le> 0x8A \<or> c \<in> {0xA8, 0xA9, 0xAF}))
               \<or> (a = 0xE2 \<and> b = 0x81 \<and> c = 0x9F)
               \<or> (a = 0xE3 \<and> b = 0x80 \<and> c = 0x80)
              then blank_codes es else False)))"

definition is_blank :: "string \<Rightarrow> bool" where
  "is_blank s = blank_codes (map of_char s)"

text \<open>
  \<open>str::trim\<close>: the longest white prefix and the longest white suffix are dropped. The
  cut points are character boundaries, since no white text starts with a continuation byte.
\<close>

definition trim_start :: "string \<Rightarrow> string" where
  "trim_start s = drop (last (filter (\<lambda>n. is_blank (take n s)) [0..<Suc (length s)])) s"

definition trim_end :: "string \<Rightarrow> string" where
  "trim_end s = take (hd (filter (\<lambda>n. is_blank (drop n s)) [0..<Suc (length s)])) s"

definition trim :: "string \<Rightarrow> string" where
  "trim s = trim_end (trim_start s)"

text \<open>Decimal display of an unsigned integer.\<close>

fun show_nat :: "nat \<Rightarrow> string" where
  "show_nat n = (if n < 10 then [char_of (48 + n)] else show_nat (n div 10) @ [char_of (48 + n mod 10)])"

declare show_nat.simps [simp del]

text \<open>\<open>str::from_utf8\<close> accepts exactly the well-formed UTF-8 byte sequences.\<close>

definition utf8_cont :: "nat \<Rightarrow> bool" where
  "utf8_cont b \<longleftrightarrow> 0x80 \<le> b \<and> b \<le> 0xBF"

fun utf8_codes :: "nat list \<Rightarrow> bool" where
  "utf8_codes [] = True"
| "utf8_codes (a # cs) =
     (if a < 0x80 then utf8_codes cs
      else if 0xC2 \<le> a \<and> a \<le> 0xDF then
        (case cs of b # ds \<Rightarrow> utf8_cont b \<and> utf8_codes ds | _ \<Rightarrow> False)
      else if 0xE0 \<le> a \<and> a \<le> 0xEF then
        (case cs of b # c # ds \<Rightarrow>
           utf8_cont b \<and> utf8_cont c \<and> (a = 0xE0 \<longrightarrow> 0xA0 \<le> b) \<and> (a = 0xED \<longrightarrow> b \<le> 0x9F) \<and> utf8_codes ds
         | _ \<Rightarrow> False)
      else if 0xF0 \<le> a \<and> a \<le> 0xF4 then
        (case cs of b # c # d # ds \<Rightarrow>
           utf8_cont b \<and> utf8_cont c \<and> utf8_cont d \<and> (a = 0xF0 \<longrightarrow> 0x90 \<le> b) \<and>
           (a = 0xF4 \<longrightarrow> b \<le> 0x8F) \<and> utf8_codes ds
         | _ \<Rightarrow> False)
      else False)"

definition utf8_valid :: "string \<Rightarrow> bool" where
  "utf8_valid s = utf8_codes (map of_char s)"

text \<open>\<open>s.chars().count()\<close>: the bytes of a valid string that are not continuation bytes.\<close>

definition chars_count :: "string \<Rightarrow> nat" where
  "chars_count s = length (filter (\<lambda>c. \<not> utf8_cont (of_char c)) s)"

text \<open>
  \<open>BufRead::lines\<close>: the text up to each line feed, without the line feed and without
  one carriage return before it; a last piece with no line feed is a line when it is not
  empty.
\<close>

definition strip_cr :: "string \<Rightarrow> string" where
  "strip_cr s = (if s \<noteq> [] \<and> last s = CHR 0x0D then butlast s else s)"

fun file_lines_aux :: "string list \<Rightarrow> string list" where
  "file_lines_aux [] = []"
| "file_lines_aux [s] = (if s = [] then [] else [s])"
| "file_lines_aux (s # t # ts) = strip_cr s # file_lines_aux (t # ts)"

definition file_lines :: "string \<Rightarrow> string list" where
  "file_lines content = file_lines_aux (split_on (CHR 0x0A) content)"

text \<open>Hexadecimal: the formats \<open>{b:02x}\<close> and \<open>{b:02X}\<close>, and \<open>u8::from_str_radix(_, 16)\<close>.\<close>

definition hex_digit :: "nat \<Rightarrow> char" where
  "hex_digit n = (if n < 10 then char_of (48 + n) else char_of (87 + n))"

definition hex_byte :: "byte \<Rightarrow> string" where
  "hex_byte b = [hex_digit (unat b div 16), hex_digit (unat b mod 16)]"

definition hex_encode :: "bytes \<Rightarrow> string" where
  "hex_encode bs = concat (map hex_byte bs)"

definition hex_value :: "char \<Rightarrow> nat option" where
  "hex_value c =
     (let n = (of_char c :: nat) in
      if 48 \<le> n \<and> n \<le> 57 then Some (n - 48)
      else if 97 \<le> n \<and> n \<le> 102 then Some (n - 87)
      else if 65 \<le> n \<and> n \<le> 70 then Some (n - 55)
      else None)"

fun hex_decode :: "string \<Rightarrow> bytes option" where
  "hex_decode [] = Some []"
| "hex_decode [c] = None"
| "hex_decode (c # d # s) =
     (case (hex_value c, hex_value d, hex_decode s) of
        (Some a, Some b, Some bs) \<Rightarrow> Some (word_of_nat (16 * a + b) # bs)
      | _ \<Rightarrow> None)"

section \<open>Little-endian and big-endian integers\<close>

text \<open>\<open>u64::to_le_bytes\<close> and \<open>u64::from_le_bytes\<close>, by the number of bytes.\<close>

fun le_bytes :: "nat \<Rightarrow> nat \<Rightarrow> bytes" where
  "le_bytes 0 n = []"
| "le_bytes (Suc k) n = word_of_nat (n mod 256) # le_bytes k (n div 256)"

fun from_le :: "bytes \<Rightarrow> nat" where
  "from_le [] = 0"
| "from_le (b # bs) = unat b + 256 * from_le bs"

definition be_bytes :: "nat \<Rightarrow> nat \<Rightarrow> bytes" where
  "be_bytes k n = rev (le_bytes k n)"

definition from_be :: "bytes \<Rightarrow> nat" where
  "from_be bs = from_le (rev bs)"

section \<open>Saturating arithmetic\<close>

definition sat_sub :: "'a::len word \<Rightarrow> 'a word \<Rightarrow> 'a word" where
  "sat_sub a b = (if a < b then 0 else a - b)"

definition sat_add :: "'a::len word \<Rightarrow> 'a word \<Rightarrow> 'a word" where
  "sat_add a b = (if unat a + unat b < 2 ^ LENGTH('a) then a + b else - 1)"

section \<open>Lemmas on strings\<close>

lemma unat_of_char_byte: "unat (of_char c :: byte) = of_char c"
  by (simp add: of_char_def)

lemma as_bytes_eq_iff [str_simps]: "as_bytes s = as_bytes t \<longleftrightarrow> s = t"
proof -
  have "inj (of_char :: char \<Rightarrow> byte)"
  proof (rule injI)
    fix x y :: char
    assume "(of_char x :: byte) = of_char y"
    then have "(of_char x :: nat) = of_char y" using unat_of_char_byte by metis
    then show "x = y" by simp
  qed
  then show ?thesis by (simp add: as_bytes_def inj_map_eq_map)
qed

lemma split_on_nonempty [simp, str_simps]: "split_on c s \<noteq> []"
  by (induction c s rule: split_on.induct) (auto split: list.splits)

lemma split_on_free [str_simps]: "c \<notin> set s \<Longrightarrow> split_on c s = [s]"
  by (induction s) auto

lemma split_on_append [str_simps]: "c \<notin> set s \<Longrightarrow> split_on c (s @ c # t) = s # split_on c t"
  by (induction s) auto

lemma split_on_parts_free: "p \<in> set (split_on c s) \<Longrightarrow> c \<notin> set p"
  by (induction c s arbitrary: p rule: split_on.induct)
     (auto split: list.splits if_splits)

lemma split_once_parts:
  "split_once pat s = Some (a, b) \<Longrightarrow> s = a @ pat @ b"
proof (induction pat s arbitrary: a b rule: split_once.induct)
  case (1 pat)
  then show ?case by (simp split: if_splits)
next
  case (2 pat x xs)
  show ?case
  proof (cases "take (length pat) (x # xs) = pat")
    case True
    with "2.prems" show ?thesis
      by (metis Pair_inject append_Nil append_take_drop_id option.inject split_once.simps(2))
  next
    case False
    with "2.prems" obtain a' where "split_once pat xs = Some (a', b)" "a = x # a'"
      by (auto split: prod.splits)
    with "2.IH" [OF False] show ?thesis by simp
  qed
qed

lemma file_lines_aux_snoc:
  "ls \<noteq> [] \<Longrightarrow> file_lines_aux (ls @ [[]]) = map strip_cr ls"
proof (induction ls rule: file_lines_aux.induct)
  case (3 s t ts)
  then show ?case by simp
qed auto

text \<open>A file written as newline-terminated lines is read back as those lines.\<close>

lemma split_on_concat_lines:
  "\<forall>l \<in> set ls. CHR 0x0A \<notin> set l \<Longrightarrow>
   split_on (CHR 0x0A) (concat (map (\<lambda>l. l @ [CHR 0x0A]) ls)) = ls @ [[]]"
  by (induction ls) (auto simp: split_on_append)

lemma file_lines_concat:
  assumes "\<forall>l \<in> set ls. CHR 0x0A \<notin> set l \<and> (l \<noteq> [] \<longrightarrow> last l \<noteq> CHR 0x0D)"
  shows "file_lines (concat (map (\<lambda>l. l @ [CHR 0x0A]) ls)) = ls"
proof -
  have s: "split_on (CHR 0x0A) (concat (map (\<lambda>l. l @ [CHR 0x0A]) ls)) = ls @ [[]]"
    using assms by (intro split_on_concat_lines) auto
  have strip: "map strip_cr ls = ls"
    by (rule map_idI) (use assms in \<open>auto simp: strip_cr_def\<close>)
  show ?thesis
  proof (cases "ls = []")
    case True
    then show ?thesis by (simp add: file_lines_def)
  next
    case False
    then show ?thesis
      using s strip by (simp add: file_lines_def file_lines_aux_snoc)
  qed
qed

lemma hex_encode_length [bytes_simps]: "length (hex_encode bs) = 2 * length bs"
  by (induction bs) (auto simp: hex_encode_def hex_byte_def)

lemma hex_digit_value: "n < 16 \<Longrightarrow> hex_value (hex_digit n) = Some n"
  by (cases "n < 10") (auto simp: hex_value_def hex_digit_def Let_def)

lemma hex_decode_encode [bytes_simps]: "hex_decode (hex_encode bs) = Some bs"
proof (induction bs)
  case (Cons b bs)
  have lt: "unat b < 256"
    using unsigned_less [of b, where 'a = nat] by simp
  then have d: "unat b div 16 < 16" by simp
  have "16 * (unat b div 16) + unat b mod 16 = unat b" by simp
  then have w: "word_of_nat (16 * (unat b div 16) + unat b mod 16) = b"
    by (simp only: of_nat_unat) (simp add: ucast_id)
  show ?case
    using Cons hex_digit_value [OF d] hex_digit_value [of "unat b mod 16"] w
    by (simp add: hex_encode_def hex_byte_def del: mult_div_mod_eq)
qed (simp add: hex_encode_def)

lemma hex_encode_digits: "list_all (\<lambda>c. hex_value c \<noteq> None) (hex_encode bs)"
proof (induction bs)
  case (Cons b bs)
  have "unat b < 256"
    using unsigned_less [of b, where 'a = nat] by simp
  then have "hex_value (hex_digit (unat b div 16)) \<noteq> None" "hex_value (hex_digit (unat b mod 16)) \<noteq> None"
    by (simp_all add: hex_digit_value)
  with Cons show ?case
    by (simp add: hex_encode_def hex_byte_def del: not_None_eq)
qed (simp add: hex_encode_def)

lemma hex_digit_ne_dot: "n < 16 \<Longrightarrow> hex_digit n \<noteq> CHR ''.''"
  by (auto dest: hex_digit_value simp: hex_value_def)

lemma hex_encode_no_dot [str_simps]: "CHR ''.'' \<notin> set (hex_encode bs)"
proof (induction bs)
  case (Cons b bs)
  have "unat b < 256"
    using unsigned_less [of b, where 'a = nat] by simp
  then have "hex_digit (unat b div 16) \<noteq> CHR ''.''" "hex_digit (unat b mod 16) \<noteq> CHR ''.''"
    by (auto intro!: hex_digit_ne_dot)
  with Cons show ?case
    by (auto simp: hex_encode_def hex_byte_def)
qed (simp add: hex_encode_def)

section \<open>Lemmas on byte encodings\<close>

lemma le_bytes_length [simp, bytes_simps]: "length (le_bytes k n) = k"
  by (induction k n rule: le_bytes.induct) auto

lemma from_le_bytes [bytes_simps]: "n < 256 ^ k \<Longrightarrow> from_le (le_bytes k n) = n"
proof (induction k n rule: le_bytes.induct)
  case (2 k n)
  from "2.prems" have "n div 256 < 256 ^ k"
    by (simp add: less_mult_imp_div_less mult.commute)
  then have "from_le (le_bytes k (n div 256)) = n div 256"
    by (rule "2.IH")
  moreover have "unat (word_of_nat (n mod 256) :: byte) = n mod 256"
    by (simp add: unat_of_nat)
  ultimately show ?case by simp
qed simp

lemma from_le_bound [bytes_simps]: "from_le bs < 256 ^ length bs"
proof (induction bs)
  case (Cons b bs)
  have "unat b < 256"
    using unsigned_less [of b, where 'a = nat] by simp
  with Cons show ?case by simp
qed simp

lemma le_bytes_from_le [bytes_simps]: "le_bytes (length bs) (from_le bs) = bs"
proof (induction bs)
  case (Cons b bs)
  have "unat b < 256"
    using unsigned_less [of b, where 'a = nat] by simp
  with Cons show ?case by (simp add: word_of_nat_eq_iff)
qed simp

lemma sat_sub_zero_iff: "sat_sub a b = 0 \<longleftrightarrow> a \<le> b"
  by (auto simp: sat_sub_def)

lemma unat_u64_small [bytes_simps]: "n < 2 ^ 64 \<Longrightarrow> unat (word_of_nat n :: u64) = n"
  by (simp add: unat_of_nat)

section \<open>Association lists\<close>

lemma length_alist_update: "length (AList.update k v al) = (if k \<in> fst ` set al then length al else Suc (length al))"
  by (induction al) auto

lemma set_alist_update: "set (AList.update k v al) \<subseteq> insert (k, v) (set al)"
  by (induction al) auto

end
