(* ===== verification/Json.thy ===== *)
theory Json
  imports Complex_Main Prelude "HOL-Library.List_Lexorder" "HOL-Library.Char_ord"
begin

text \<open>
  JSON values as \<open>serde_json::Value\<close> has them. An object is a \<open>BTreeMap\<close> from
  strings to values, here its sorted association list; \<open>obj_get\<close>, \<open>obj_insert\<close>
  and \<open>obj_remove\<close> are the map operations. The locale \<open>ordered_map\<close> states the
  contract of such a map and derives what its clients use; it is interpreted on the
  association lists.
\<close>

section \<open>Values\<close>

datatype jnum = PosInt u64 | NegInt int | JFloat real

datatype json =
    JNull
  | JBool bool
  | JNum jnum
  | JStr string
  | JArr "json list"
  | JObj "(string \<times> json) list"

type_synonym jobject = "(string \<times> json) list"

section \<open>Objects\<close>

fun obj_get :: "(string \<times> 'v) list \<Rightarrow> string \<Rightarrow> 'v option" where
  "obj_get [] k = None"
| "obj_get ((a, v) # ps) k = (if a = k then Some v else obj_get ps k)"

fun obj_insert :: "string \<Rightarrow> 'v \<Rightarrow> (string \<times> 'v) list \<Rightarrow> (string \<times> 'v) list" where
  "obj_insert k w [] = [(k, w)]"
| "obj_insert k w ((a, v) # ps) =
     (if k = a then (k, w) # ps
      else if k < a then (k, w) # (a, v) # ps
      else (a, v) # obj_insert k w ps)"

fun obj_remove :: "string \<Rightarrow> (string \<times> 'v) list \<Rightarrow> (string \<times> 'v) list" where
  "obj_remove k [] = []"
| "obj_remove k ((a, v) # ps) = (if a = k then ps else (a, v) # obj_remove k ps)"

definition obj_ok :: "(string \<times> 'v) list \<Rightarrow> bool" where
  "obj_ok ps \<longleftrightarrow> sorted_wrt (<) (map fst ps)"

text \<open>\<open>Value::get(k)\<close>, \<open>as_str\<close>, \<open>as_u64\<close>, \<open>as_bool\<close>.\<close>

fun value_get :: "json \<Rightarrow> string \<Rightarrow> json option" where
  "value_get (JObj ps) k = obj_get ps k"
| "value_get _ k = None"

fun as_str :: "json \<Rightarrow> string option" where
  "as_str (JStr s) = Some s"
| "as_str _ = None"

fun as_u64 :: "json \<Rightarrow> u64 option" where
  "as_u64 (JNum (PosInt n)) = Some n"
| "as_u64 _ = None"

fun as_bool :: "json \<Rightarrow> bool option" where
  "as_bool (JBool b) = Some b"
| "as_bool _ = None"

definition json_of_nat :: "nat \<Rightarrow> json" where
  "json_of_nat n = JNum (PosInt (word_of_nat n))"

section \<open>The contract of an ordered map\<close>

locale ordered_map =
  fixes get :: "'m \<Rightarrow> 'k \<Rightarrow> 'v option"
    and put :: "'k \<Rightarrow> 'v \<Rightarrow> 'm \<Rightarrow> 'm"
    and del :: "'k \<Rightarrow> 'm \<Rightarrow> 'm"
    and ok :: "'m \<Rightarrow> bool"
  assumes get_put: "ok m \<Longrightarrow> get (put k v m) = (get m)(k \<mapsto> v)"
    and get_del: "ok m \<Longrightarrow> get (del k m) = (get m)(k := None)"
    and ok_put: "ok m \<Longrightarrow> ok (put k v m)"
    and ok_del: "ok m \<Longrightarrow> ok (del k m)"
begin

lemma get_put_same: "ok m \<Longrightarrow> get (put k v m) k = Some v"
  by (simp add: get_put)

lemma get_put_other: "ok m \<Longrightarrow> k' \<noteq> k \<Longrightarrow> get (put k v m) k' = get m k'"
  by (simp add: get_put)

lemma get_put_del_same: "ok m \<Longrightarrow> k' \<noteq> k \<Longrightarrow> get (put k' v (del k m)) k = None"
  by (simp add: get_put get_del ok_del)

lemma ok_put_del: "ok m \<Longrightarrow> ok (put k' v (del k m))"
  by (simp add: ok_put ok_del)

text \<open>Replacing a field by two derived fields, as redaction does.\<close>

lemma get_replace2:
  assumes "ok m" "k1 \<noteq> k" "k2 \<noteq> k"
  shows "get (put k2 v2 (put k1 v1 (del k m))) k = None"
    and "ok (put k2 v2 (put k1 v1 (del k m)))"
  using assms by (auto simp: get_put get_del ok_put ok_del)

lemma get_replace2_other:
  assumes "ok m" "j \<noteq> k" "j \<noteq> k1" "j \<noteq> k2"
  shows "get (put k2 v2 (put k1 v1 (del k m))) j = get m j"
  using assms by (auto simp: get_put get_del ok_put ok_del)

end

section \<open>Sorted association lists implement the contract\<close>

lemma obj_ok_Nil [simp]: "obj_ok []"
  by (simp add: obj_ok_def)

lemma obj_ok_Cons: "obj_ok ((a, v) # ps) \<longleftrightarrow> (\<forall>k \<in> fst ` set ps. a < k) \<and> obj_ok ps"
  by (auto simp: obj_ok_def)

lemma obj_get_None_fst: "obj_get ps k = None \<longleftrightarrow> k \<notin> fst ` set ps"
  by (induction ps k rule: obj_get.induct) auto

lemma obj_insert_keys: "fst ` set (obj_insert k w ps) = insert k (fst ` set ps)"
  by (induction k w ps rule: obj_insert.induct) auto

lemma obj_remove_keys: "fst ` set (obj_remove k ps) \<subseteq> fst ` set ps"
  by (induction k ps rule: obj_remove.induct) auto

lemma obj_get_insert: "obj_get (obj_insert k w ps) j = (if j = k then Some w else obj_get ps j)"
  by (induction k w ps rule: obj_insert.induct) auto

lemma obj_get_remove:
  "obj_ok ps \<Longrightarrow> obj_get (obj_remove k ps) j = (if j = k then None else obj_get ps j)"
proof (induction k ps rule: obj_remove.induct)
  case (2 k a v ps)
  from "2.prems" have "obj_ok ps" and lt: "\<forall>x \<in> fst ` set ps. a < x"
    by (auto simp: obj_ok_Cons)
  show ?case
  proof (cases "a = k")
    case True
    with lt have "k \<notin> fst ` set ps" by blast
    then have "obj_get ps k = None" by (simp add: obj_get_None_fst)
    with True show ?thesis by auto
  next
    case False
    with "2.IH" \<open>obj_ok ps\<close> show ?thesis by auto
  qed
qed simp

lemma obj_ok_insert: "obj_ok ps \<Longrightarrow> obj_ok (obj_insert k w ps)"
proof (induction k w ps rule: obj_insert.induct)
  case (2 k w a v ps)
  then show ?case
    by (auto simp: obj_ok_Cons obj_insert_keys)
qed (simp add: obj_ok_Cons)

lemma obj_ok_remove: "obj_ok ps \<Longrightarrow> obj_ok (obj_remove k ps)"
proof (induction k ps rule: obj_remove.induct)
  case (2 k a v ps)
  then show ?case
    using obj_remove_keys [of k ps] by (fastforce simp: obj_ok_Cons)
qed simp

lemma obj_ext:
  "obj_ok ps \<Longrightarrow> obj_ok qs \<Longrightarrow> obj_get ps = obj_get qs \<Longrightarrow> ps = qs"
proof (induction ps arbitrary: qs)
  case Nil
  then have "k \<notin> fst ` set qs" for k by (metis obj_get.simps(1) obj_get_None_fst)
  then show ?case by (cases qs) auto
next
  case (Cons p ps)
  obtain a v where p: "p = (a, v)" by (cases p)
  have "obj_get qs a = Some v" using Cons.prems(3) p by (metis obj_get.simps(2))
  then obtain b w qs' where qs: "qs = (b, w) # qs'" by (cases qs) auto
  have lt: "\<forall>k \<in> fst ` set ps. a < k" "\<forall>k \<in> fst ` set qs'. b < k" and ok: "obj_ok ps" "obj_ok qs'"
    using Cons.prems(1,2) by (auto simp: p qs obj_ok_Cons)
  have "obj_get (p # ps) b = Some w" using Cons.prems(3) qs by simp
  then have mem: "b = a \<or> b \<in> fst ` set ps" "a = b \<or> a \<in> fst ` set qs'"
    using obj_get_None_fst [of ps b] obj_get_None_fst [of qs' a] \<open>obj_get qs a = Some v\<close>
    by (auto simp: p qs split: if_splits)
  with lt have ab: "a = b" by (metis less_asym)
  then have vw: "v = w" using \<open>obj_get qs a = Some v\<close> qs by simp
  have "obj_get ps k = obj_get qs' k" for k
  proof (cases "k = a")
    case True
    have "obj_get ps a = None" "obj_get qs' a = None"
      using lt ab by (auto simp: obj_get_None_fst)
    with True show ?thesis by simp
  next
    case False
    with Cons.prems(3) show ?thesis by (auto simp: p qs ab fun_eq_iff split: if_splits)
  qed
  with Cons.IH ok have "ps = qs'" by blast
  with ab vw show ?case by (simp add: p qs)
qed

interpretation jo: ordered_map obj_get obj_insert obj_remove obj_ok
  by unfold_locales
     (auto simp: fun_eq_iff obj_get_insert obj_get_remove obj_ok_insert obj_ok_remove)

end
