(* ===== verification/Externals.thy ===== *)
theory Externals
  imports Prelude
begin

text \<open>
  Third-party code the program calls, as parameters of the model.

  The crates \<open>ed25519-dalek\<close>, \<open>base64\<close>, \<open>ring\<close> (SHA-256, HKDF) and
  \<open>chacha20poly1305\<close> are not part of the repository. Each is a record of functions
  that the definitions of the components take as an argument, and a predicate that states
  the documented behaviour the properties rely on. The \<open>demo\<close> records are concrete
  functions that satisfy the predicates; they are used only to show that hypotheses of
  properties can hold.
\<close>

section \<open>Interfaces\<close>

record ed25519 =
  ed_verifying_key :: "bytes \<Rightarrow> bytes"
  ed_sign :: "bytes \<Rightarrow> bytes \<Rightarrow> bytes"
  ed_verify_strict :: "bytes \<Rightarrow> bytes \<Rightarrow> bytes \<Rightarrow> bool"
  ed_key_ok :: "bytes \<Rightarrow> bool"

definition ed25519_correct :: "ed25519 \<Rightarrow> bool" where
  "ed25519_correct E \<longleftrightarrow>
     (\<forall>sk m. ed_verify_strict E (ed_verifying_key E sk) m (ed_sign E sk m)) \<and>
     (\<forall>sk m. length (ed_sign E sk m) = 64) \<and>
     (\<forall>sk. length (ed_verifying_key E sk) = 32) \<and>
     (\<forall>sk. ed_key_ok E (ed_verifying_key E sk))"

record base64 =
  b64_encode :: "bytes \<Rightarrow> string"
  b64_decode :: "string \<Rightarrow> bytes option"

definition base64_correct :: "base64 \<Rightarrow> bool" where
  "base64_correct B \<longleftrightarrow>
     (\<forall>bs. b64_decode B (b64_encode B bs) = Some bs) \<and>
     (\<forall>bs. CHR ''.'' \<notin> set (b64_encode B bs))"

text \<open>
  An AEAD cipher: \<open>aead_seal key nonce plaintext\<close> and
  \<open>aead_open key nonce ciphertext\<close>. \<open>seal\<close> fails only above the length limit
  of ChaCha20-Poly1305, which the model leaves to the parameter.
\<close>

record aead =
  aead_seal :: "bytes \<Rightarrow> bytes \<Rightarrow> bytes \<Rightarrow> bytes option"
  aead_open :: "bytes \<Rightarrow> bytes \<Rightarrow> bytes \<Rightarrow> bytes option"

definition aead_correct :: "aead \<Rightarrow> bool" where
  "aead_correct A \<longleftrightarrow>
     (\<forall>k n m c. aead_seal A k n m = Some c \<longrightarrow> aead_open A k n c = Some m) \<and>
     (\<forall>k n m c. aead_seal A k n m = Some c \<longrightarrow> length c = length m + 16)"

section \<open>Concrete instances\<close>

definition pad_to :: "nat \<Rightarrow> bytes \<Rightarrow> bytes" where
  "pad_to n bs = take n (bs @ replicate n 0)"

definition demo_ed25519 :: ed25519 where
  "demo_ed25519 = \<lparr>
     ed_verifying_key = pad_to 32,
     ed_sign = (\<lambda>sk m. pad_to 64 (pad_to 32 sk @ m)),
     ed_verify_strict = (\<lambda>vk m s. s = pad_to 64 (vk @ m)),
     ed_key_ok = (\<lambda>vk. length vk = 32)\<rparr>"

definition demo_base64 :: base64 where
  "demo_base64 = \<lparr>b64_encode = hex_encode, b64_decode = hex_decode\<rparr>"

definition demo_aead :: aead where
  "demo_aead = \<lparr>
     aead_seal = (\<lambda>k n m. Some (m @ pad_to 16 (k @ n))),
     aead_open = (\<lambda>k n c. if 16 \<le> length c \<and> drop (length c - 16) c = pad_to 16 (k @ n)
                          then Some (take (length c - 16) c) else None)\<rparr>"

section \<open>The instances satisfy the interfaces\<close>

lemma pad_to_length [simp]: "length (pad_to n bs) = n"
  by (simp add: pad_to_def)

lemma ed25519_correctD:
  assumes "ed25519_correct E"
  shows ed_verify_sign: "ed_verify_strict E (ed_verifying_key E sk) m (ed_sign E sk m)"
    and ed_sign_length: "length (ed_sign E sk m) = 64"
    and ed_verifying_key_length: "length (ed_verifying_key E sk) = 32"
    and ed_verifying_key_ok: "ed_key_ok E (ed_verifying_key E sk)"
  using assms by (auto simp: ed25519_correct_def)

lemma base64_correctD:
  assumes "base64_correct B"
  shows b64_decode_encode: "b64_decode B (b64_encode B bs) = Some bs"
    and b64_no_dot: "CHR ''.'' \<notin> set (b64_encode B bs)"
  using assms by (auto simp: base64_correct_def)

lemma aead_correctD:
  assumes "aead_correct A" "aead_seal A k n m = Some c"
  shows aead_open_seal: "aead_open A k n c = Some m"
    and aead_seal_length: "length c = length m + 16"
  using assms by (auto simp: aead_correct_def)

lemma demo_ed25519_correct: "ed25519_correct demo_ed25519"
  by (simp add: ed25519_correct_def demo_ed25519_def)

lemma demo_base64_correct: "base64_correct demo_base64"
  by (simp add: base64_correct_def demo_base64_def hex_decode_encode hex_encode_no_dot)

lemma demo_aead_correct: "aead_correct demo_aead"
  by (simp add: aead_correct_def demo_aead_def)

end
