(* ===== verification/Token.thy ===== *)
theory Token
  imports Externals
begin

text \<open>
  Capability tokens (\<open>miru-agent/src/token.rs\<close>): the capability enumeration with its
  security levels, the token payload, issuing with the fifteen-minute ceiling, the compact
  string form and its verification.

  \<open>HashSet<Capability>\<close> is a list: its iteration order, which the serializer writes out,
  matters for the bytes that are signed. The clock (\<open>unix_now\<close>), the random token id
  and the JSON codec of the payload are arguments. Additions on \<open>u64\<close> wrap, as in the
  release profile.
\<close>

section \<open>Capabilities\<close>

datatype SecurityLevel = Normal | Conditional | Dangerous

datatype capability =
    ScreenRead | PointerMove | PointerClick | KeyType | KeyCombo | ClipboardRead
  | ClipboardWrite | FileRead | FileWrite | ShellExec | OpenUrl

fun security_level :: "capability \<Rightarrow> SecurityLevel" where
  "security_level ScreenRead = Normal"
| "security_level PointerMove = Normal"
| "security_level PointerClick = Conditional"
| "security_level KeyType = Conditional"
| "security_level KeyCombo = Conditional"
| "security_level ClipboardWrite = Conditional"
| "security_level OpenUrl = Conditional"
| "security_level ClipboardRead = Dangerous"
| "security_level FileRead = Dangerous"
| "security_level FileWrite = Dangerous"
| "security_level ShellExec = Dangerous"

definition requires_confirmation :: "capability \<Rightarrow> bool" where
  "requires_confirmation cap \<longleftrightarrow> security_level cap = Dangerous"

definition capability_all :: "capability list" where
  "capability_all =
     [ScreenRead, PointerMove, PointerClick, KeyType, KeyCombo, ClipboardRead,
      ClipboardWrite, FileRead, FileWrite, ShellExec, OpenUrl]"

definition assistant_default :: "capability list" where
  "assistant_default =
     [ScreenRead, PointerMove, PointerClick, KeyType, KeyCombo, ClipboardWrite, OpenUrl]"

section \<open>Tokens\<close>

record agent_scope =
  window_title_regex :: "string option"
  process_name :: "string option"
  file_root :: "string option"

record agent_token_payload =
  jti :: u128
  iss :: string
  sub :: string
  iat :: u64
  tok_exp :: u64
  caps :: "capability list"
  scope :: "agent_scope option"

record agent_token =
  payload :: agent_token_payload
  signature :: bytes

definition MAX_TTL_SECS :: u64 where
  "MAX_TTL_SECS = 15 * 60"

definition MAX_CLOCK_SKEW_SECS :: u64 where
  "MAX_CLOCK_SKEW_SECS = 300"

text \<open>The crates a token operation calls.\<close>

record token_ext =
  tx_ed :: ed25519
  tx_b64url :: base64
  tx_to_vec :: "agent_token_payload \<Rightarrow> bytes option"
  tx_from_slice :: "bytes \<Rightarrow> agent_token_payload option"

datatype token_error =
    MalformedToken
  | DecodePayload
  | DecodeSig
  | SigWrongLength
  | InvalidSignature
  | DeserializePayload
  | IssuerMismatch
  | IatAfterExp u64 u64
  | TokenExpired u64 u64
  | IatInFuture

definition canonical_payload_bytes :: "token_ext \<Rightarrow> agent_token_payload \<Rightarrow> bytes" where
  "canonical_payload_bytes X p = (case tx_to_vec X p of Some bs \<Rightarrow> bs | None \<Rightarrow> [])"

definition issue ::
  "token_ext \<Rightarrow> bytes \<Rightarrow> string \<Rightarrow> capability list \<Rightarrow> u64 \<Rightarrow> agent_scope option \<Rightarrow> u64 \<Rightarrow> u128 \<Rightarrow> agent_token" where
  "issue X signing_key sb cs ttl sc now uuid =
     (let ttl_secs = min ttl MAX_TTL_SECS;
          p = \<lparr>jti = uuid,
               iss = b64_encode (tx_b64url X) (ed_verifying_key (tx_ed X) signing_key),
               sub = sb, iat = now, tok_exp = now + ttl_secs, caps = cs, scope = sc\<rparr>
      in \<lparr>payload = p,
          signature = ed_sign (tx_ed X) signing_key (canonical_payload_bytes X p)\<rparr>)"

definition token_to_string :: "token_ext \<Rightarrow> agent_token \<Rightarrow> string" where
  "token_to_string X t =
     ''miru-agent.'' @ b64_encode (tx_b64url X) (canonical_payload_bytes X (payload t)) @
     ''.'' @ b64_encode (tx_b64url X) (signature t)"

text \<open>The checks on a payload whose signature has been verified.\<close>

definition check_payload ::
  "token_ext \<Rightarrow> bytes \<Rightarrow> u64 \<Rightarrow> bytes \<Rightarrow> bytes \<Rightarrow> token_error + agent_token" where
  "check_payload X vk now payload_bytes sig =
     (case tx_from_slice X payload_bytes of
        None \<Rightarrow> Err DeserializePayload
      | Some p \<Rightarrow>
          if iss p \<noteq> b64_encode (tx_b64url X) vk then Err IssuerMismatch
          else if tok_exp p < iat p then Err (IatAfterExp (iat p) (tok_exp p))
          else if tok_exp p < now then Err (TokenExpired (tok_exp p) now)
          else if now + MAX_CLOCK_SKEW_SECS < iat p then Err IatInFuture
          else Ok \<lparr>payload = p, signature = sig\<rparr>)"

definition parse_and_verify ::
  "token_ext \<Rightarrow> string \<Rightarrow> bytes \<Rightarrow> u64 \<Rightarrow> token_error + agent_token" where
  "parse_and_verify X s vk now =
     (case split_on (CHR ''.'') s of
        [p0, p1, p2] \<Rightarrow>
          if p0 \<noteq> ''miru-agent'' then Err MalformedToken
          else (case b64_decode (tx_b64url X) p1 of
            None \<Rightarrow> Err DecodePayload
          | Some payload_bytes \<Rightarrow>
              (case b64_decode (tx_b64url X) p2 of
                None \<Rightarrow> Err DecodeSig
              | Some sig_bytes \<Rightarrow>
                  if length sig_bytes \<noteq> 64 then Err SigWrongLength
                  else if \<not> ed_verify_strict (tx_ed X) vk payload_bytes sig_bytes
                    then Err InvalidSignature
                  else check_payload X vk now payload_bytes sig_bytes))
      | _ \<Rightarrow> Err MalformedToken)"

definition has_capability :: "agent_token \<Rightarrow> capability \<Rightarrow> bool" where
  "has_capability t cap \<longleftrightarrow> cap \<in> set (caps (payload t))"

definition seconds_remaining :: "agent_token \<Rightarrow> u64 \<Rightarrow> u64" where
  "seconds_remaining t now = sat_sub (tok_exp (payload t)) now"

section \<open>Concrete codec for the witnesses\<close>

definition demo_token_ext :: "agent_token_payload \<Rightarrow> token_ext" where
  "demo_token_ext p = \<lparr>tx_ed = demo_ed25519, tx_b64url = demo_base64,
     tx_to_vec = (\<lambda>q. Some (as_bytes (sub q))), tx_from_slice = (\<lambda>bs. Some p)\<rparr>"

definition wit_payload :: agent_token_payload where
  "wit_payload = \<lparr>jti = 5, iss = hex_encode (pad_to 32 [7]), sub = ''agent'', iat = 1000,
     tok_exp = 1900, caps = [ScreenRead], scope = None\<rparr>"

section \<open>The enumeration of capabilities\<close>

lemma capability_all_UNIV: "set capability_all = UNIV"
proof -
  have "c \<in> set capability_all" for c
    by (cases c) (simp_all add: capability_all_def)
  then show ?thesis by auto
qed

instantiation capability :: enum
begin

definition enum_capability :: "capability list" where
  "enum_capability = capability_all"

definition enum_all_capability :: "(capability \<Rightarrow> bool) \<Rightarrow> bool" where
  "enum_all_capability P \<longleftrightarrow> list_all P capability_all"

definition enum_ex_capability :: "(capability \<Rightarrow> bool) \<Rightarrow> bool" where
  "enum_ex_capability P \<longleftrightarrow> list_ex P capability_all"

instance
proof
  show "(UNIV :: capability set) = set enum_class.enum"
    by (simp add: enum_capability_def capability_all_UNIV)
  show "distinct (enum_class.enum :: capability list)"
    by (simp add: enum_capability_def capability_all_def)
  show "enum_class.enum_all P \<longleftrightarrow> Ball UNIV P" for P :: "capability \<Rightarrow> bool"
    by (simp add: enum_all_capability_def list_all_iff capability_all_UNIV)
  show "enum_class.enum_ex P \<longleftrightarrow> Bex UNIV P" for P :: "capability \<Rightarrow> bool"
    by (simp add: enum_ex_capability_def list_ex_iff capability_all_UNIV)
qed

end

lemma assistant_default_exact: "set assistant_default = {c. \<not> requires_confirmation c}"
proof -
  have "c \<in> set assistant_default \<longleftrightarrow> \<not> requires_confirmation c" for c
    by (cases c) (simp_all add: assistant_default_def requires_confirmation_def)
  then show ?thesis by auto
qed

section \<open>Issuing\<close>

lemma issue_payload:
  "payload (issue X sk sb cs ttl sc now uuid) =
     \<lparr>jti = uuid, iss = b64_encode (tx_b64url X) (ed_verifying_key (tx_ed X) sk),
      sub = sb, iat = now, tok_exp = now + min ttl MAX_TTL_SECS, caps = cs, scope = sc\<rparr>"
  by (simp add: issue_def Let_def)

lemma issue_signature:
  "signature (issue X sk sb cs ttl sc now uuid) =
     ed_sign (tx_ed X) sk (canonical_payload_bytes X (payload (issue X sk sb cs ttl sc now uuid)))"
  by (simp add: issue_def Let_def)

lemma plus_no_wrap:
  fixes a b :: u64
  assumes "unat a + 900 < 2 ^ 64" "unat b \<le> 900"
  shows "unat (a + b) = unat a + unat b"
  using assms by (simp add: unat_plus_if_size word_size)

lemma min_ttl_le: "unat (min ttl MAX_TTL_SECS) \<le> 900"
  by (simp add: min_def MAX_TTL_SECS_def word_le_nat_alt)

lemma issue_exp:
  assumes "unat now + 900 < 2 ^ 64"
  shows "unat (tok_exp (payload (issue X sk sb cs ttl sc now uuid))) =
         unat now + unat (min ttl MAX_TTL_SECS)"
  unfolding issue_payload using plus_no_wrap [OF assms min_ttl_le] by simp

section \<open>Parsing\<close>

lemma split_token_string:
  assumes "base64_correct (tx_b64url X)"
  shows "split_on (CHR ''.'') (token_to_string X t) =
    [''miru-agent'', b64_encode (tx_b64url X) (canonical_payload_bytes X (payload t)),
     b64_encode (tx_b64url X) (signature t)]"
proof -
  let ?p = "b64_encode (tx_b64url X) (canonical_payload_bytes X (payload t))"
  let ?s = "b64_encode (tx_b64url X) (signature t)"
  have p: "CHR ''.'' \<notin> set ?p" and s: "CHR ''.'' \<notin> set ?s"
    using assms by (auto simp: b64_no_dot)
  have "token_to_string X t = ''miru-agent'' @ CHR ''.'' # (?p @ CHR ''.'' # ?s)"
    by (simp add: token_to_string_def)
  then show ?thesis
    using split_on_append [OF p] split_on_free [OF s]
      split_on_append [of "CHR ''.''" "''miru-agent''"] by simp
qed

lemma check_payload_Ok:
  assumes "check_payload X vk now bs sg = Ok t"
  shows "tx_from_slice X bs = Some (payload t)" "signature t = sg"
    "iss (payload t) = b64_encode (tx_b64url X) vk" "iat (payload t) \<le> tok_exp (payload t)"
    "now \<le> tok_exp (payload t)" "iat (payload t) \<le> now + MAX_CLOCK_SKEW_SECS"
  using assms by (auto simp: check_payload_def split: option.splits if_splits)

lemma parse_and_verify_Ok:
  assumes "parse_and_verify X s vk now = Ok t"
  obtains p1 p2 bs where "split_on (CHR ''.'') s = [''miru-agent'', p1, p2]"
    "b64_decode (tx_b64url X) p1 = Some bs"
    "b64_decode (tx_b64url X) p2 = Some (signature t)" "length (signature t) = 64"
    "ed_verify_strict (tx_ed X) vk bs (signature t)"
    "check_payload X vk now bs (signature t) = Ok t"
proof -
  from assms obtain p1 p2 bs sg where *: "split_on (CHR ''.'') s = [''miru-agent'', p1, p2]"
    "b64_decode (tx_b64url X) p1 = Some bs" "b64_decode (tx_b64url X) p2 = Some sg"
    "length sg = 64" "ed_verify_strict (tx_ed X) vk bs sg" "check_payload X vk now bs sg = Ok t"
    by (auto simp: parse_and_verify_def split: list.splits option.splits if_splits)
  moreover from *(6) have "sg = signature t" by (simp add: check_payload_Ok(2))
  ultimately show ?thesis using that by blast
qed

section \<open>Properties\<close>

lemma issued_token_parses:
  assumes E: "ed25519_correct (tx_ed X)" and B: "base64_correct (tx_b64url X)"
    and t: "t = issue X sk sb cs ttl sc now0 uuid"
    and codec: "tx_from_slice X (canonical_payload_bytes X (payload t)) = Some ((payload t)\<lparr>caps := cs'\<rparr>)"
    and time: "unat now0 + 900 < 2 ^ 64" "now0 \<le> now" "now \<le> tok_exp (payload t)" "unat now + 300 < 2 ^ 64"
  shows "parse_and_verify X (token_to_string X t) (ed_verifying_key (tx_ed X) sk) now =
         Ok (t\<lparr>payload := (payload t)\<lparr>caps := cs'\<rparr>\<rparr>)"
proof -
  let ?bs = "canonical_payload_bytes X (payload t)"
  have sg: "signature t = ed_sign (tx_ed X) sk ?bs"
    unfolding t by (rule issue_signature)
  have fields: "iss (payload t) = b64_encode (tx_b64url X) (ed_verifying_key (tx_ed X) sk)"
    "iat (payload t) = now0"
    unfolding t by (simp_all add: issue_payload)
  have "unat (now + MAX_CLOCK_SKEW_SECS) = unat now + 300"
    using time(4) by (simp add: MAX_CLOCK_SKEW_SECS_def unat_plus_if_size word_size)
  with time(2) have skew: "\<not> now + MAX_CLOCK_SKEW_SECS < now0"
    by (simp add: word_less_nat_alt word_le_nat_alt)
  have "check_payload X (ed_verifying_key (tx_ed X) sk) now ?bs (signature t) =
        Ok \<lparr>payload = (payload t)\<lparr>caps := cs'\<rparr>, signature = signature t\<rparr>"
    using codec time(2,3) fields skew by (auto simp: check_payload_def)
  then show ?thesis
    using split_token_string [OF B] b64_decode_encode [OF B] ed_verify_sign [OF E] ed_sign_length [OF E]
    by (simp add: parse_and_verify_def sg)
qed

text \<open>
  A token that a host issues is accepted in its string form by the holder of the host's
  public key at every moment of its life: the parsed token carries the issued signature and the
  issued payload, up to the iteration order of the capability set, which the codec need not keep.
\<close>

theorem issued_token_accepted:
  assumes E: "ed25519_correct (tx_ed X)" and B: "base64_correct (tx_b64url X)"
    and t: "t = issue X sk sb cs ttl sc now0 uuid"
    and codec: "tx_from_slice X (canonical_payload_bytes X (payload t)) = Some ((payload t)\<lparr>caps := cs'\<rparr>)"
    and time: "unat now0 + 900 < 2 ^ 64" "now0 \<le> now" "now \<le> tok_exp (payload t)" "unat now + 300 < 2 ^ 64"
  shows "parse_and_verify X (token_to_string X t) (ed_verifying_key (tx_ed X) sk) now =
         Ok (t\<lparr>payload := (payload t)\<lparr>caps := cs'\<rparr>\<rparr>)"
  using assms by (rule issued_token_parses)

theorem issued_token_accepted_witness:
  "parse_and_verify (demo_token_ext wit_payload)
     (token_to_string (demo_token_ext wit_payload)
        (issue (demo_token_ext wit_payload) [7] ''agent'' [ScreenRead] 3600 None 1000 5))
     (pad_to 32 [7]) 1500 =
   Ok (issue (demo_token_ext wit_payload) [7] ''agent'' [ScreenRead] 3600 None 1000 5)"
proof -
  let ?X = "demo_token_ext wit_payload"
  let ?t = "issue ?X [7] ''agent'' [ScreenRead] 3600 None 1000 5"
  have pl: "payload ?t = wit_payload"
    by (simp add: wit_payload_def issue_payload demo_token_ext_def demo_ed25519_def
        demo_base64_def MAX_TTL_SECS_def)
  have ex: "tok_exp (payload ?t) = 1900" and cp: "(payload ?t)\<lparr>caps := [ScreenRead]\<rparr> = payload ?t"
    by (simp_all add: issue_payload MAX_TTL_SECS_def)
  have vk: "ed_verifying_key (tx_ed ?X) [7] = pad_to 32 [7]"
    by (simp add: demo_token_ext_def demo_ed25519_def)
  have "parse_and_verify ?X (token_to_string ?X ?t) (ed_verifying_key (tx_ed ?X) [7]) 1500 =
        Ok (?t\<lparr>payload := (payload ?t)\<lparr>caps := [ScreenRead]\<rparr>\<rparr>)"
  proof (rule issued_token_accepted [OF _ _ refl])
    show "ed25519_correct (tx_ed ?X)" "base64_correct (tx_b64url ?X)"
      by (simp_all add: demo_token_ext_def demo_ed25519_correct demo_base64_correct)
    show "tx_from_slice ?X (canonical_payload_bytes ?X (payload ?t)) =
          Some ((payload ?t)\<lparr>caps := [ScreenRead]\<rparr>)"
      using cp pl by (simp add: demo_token_ext_def)
  qed (simp_all add: ex)
  then show ?thesis
    unfolding vk cp by simp
qed

text \<open>
  C12. Whatever string is presented, acceptance means that the three-part form was right, that the
  64-byte signature verifies under the issuer key over exactly the bytes the accepted payload was
  decoded from, that the payload names that issuer, and that the clock lies inside the token's life.
\<close>

theorem accepted_token_sound:
  assumes "parse_and_verify X s vk now = Ok t"
  shows "\<exists>p1 p2 bs. split_on (CHR ''.'') s = [''miru-agent'', p1, p2] \<and>
           b64_decode (tx_b64url X) p1 = Some bs \<and>
           b64_decode (tx_b64url X) p2 = Some (signature t) \<and> length (signature t) = 64 \<and>
           ed_verify_strict (tx_ed X) vk bs (signature t) \<and>
           tx_from_slice X bs = Some (payload t) \<and>
           iss (payload t) = b64_encode (tx_b64url X) vk \<and> iat (payload t) \<le> tok_exp (payload t) \<and>
           now \<le> tok_exp (payload t) \<and> iat (payload t) \<le> now + MAX_CLOCK_SKEW_SECS"
  using assms
proof (rule parse_and_verify_Ok)
  fix p1 p2 bs
  assume *: "split_on (CHR ''.'') s = [''miru-agent'', p1, p2]" "b64_decode (tx_b64url X) p1 = Some bs"
    "b64_decode (tx_b64url X) p2 = Some (signature t)" "length (signature t) = 64"
    "ed_verify_strict (tx_ed X) vk bs (signature t)"
    and ck: "check_payload X vk now bs (signature t) = Ok t"
  from * check_payload_Ok [OF ck] show ?thesis by blast
qed

theorem accepted_token_sound_witness:
  "\<exists>t. parse_and_verify (demo_token_ext wit_payload)
     (''miru-agent.'' @ hex_encode [1] @ ''.'' @ hex_encode (pad_to 64 (pad_to 32 [7] @ [1])))
     (pad_to 32 [7]) 1500 = Ok t \<and> payload t = wit_payload \<and> 1500 \<le> tok_exp (payload t)"
proof -
  let ?s = "''miru-agent.'' @ hex_encode [1] @ ''.'' @ hex_encode (pad_to 64 (pad_to 32 [7] @ [1]))"
  let ?t = "\<lparr>payload = wit_payload, signature = pad_to 64 (pad_to 32 [7] @ [1])\<rparr>"
  have "parse_and_verify (demo_token_ext wit_payload) ?s (pad_to 32 [7]) 1500 = Ok ?t"
    by code_simp
  from this accepted_token_sound [OF this] show ?thesis by auto
qed

text \<open>
  No matter which lifetime is asked for, an issued token expires at most fifteen minutes after
  it is issued, and once the clock has passed that moment every verification of it fails and its
  remaining time is zero.
\<close>

theorem issued_token_short_lived:
  assumes "unat now0 + 900 < 2 ^ 64" and "t = issue X sk sb cs ttl sc now0 uuid"
    and "unat now0 + 900 < unat now"
  shows "unat (tok_exp (payload t)) \<le> unat (iat (payload t)) + 900 \<and> seconds_remaining t now = 0 \<and>
         (\<forall>Y s vk t'. parse_and_verify Y s vk now = Ok t' \<longrightarrow> tok_exp (payload t') \<noteq> tok_exp (payload t))"
proof -
  have e: "unat (tok_exp (payload t)) \<le> unat now0 + 900"
    using issue_exp [OF assms(1)] min_ttl_le [of ttl] by (simp add: assms(2))
  have i: "iat (payload t) = now0"
    by (simp add: assms(2) issue_payload)
  from e assms(3) have lt: "tok_exp (payload t) < now"
    by (simp add: word_less_nat_alt)
  have "\<forall>Y s vk t'. parse_and_verify Y s vk now = Ok t' \<longrightarrow> now \<le> tok_exp (payload t')"
    by (auto elim!: parse_and_verify_Ok dest: check_payload_Ok(5))
  with lt have "\<forall>Y s vk t'. parse_and_verify Y s vk now = Ok t' \<longrightarrow> tok_exp (payload t') \<noteq> tok_exp (payload t)"
    by (metis leD)
  moreover from lt have "seconds_remaining t now = 0"
    by (simp add: seconds_remaining_def sat_sub_zero_iff less_imp_le)
  ultimately show ?thesis
    using e i by simp
qed

theorem issued_token_short_lived_witness:
  "seconds_remaining (issue (demo_token_ext wit_payload) [7] ''agent'' [ScreenRead] 86400 None 1000 5) 1901 = 0"
proof -
  have "unat (1000 :: u64) + 900 < 2 ^ 64" "unat (1000 :: u64) + 900 < unat (1901 :: u64)"
    by simp_all
  from issued_token_short_lived [OF this(1) refl this(2)] show ?thesis by blast
qed

text \<open>
  Bytes that do not carry a valid signature are never handed to the payload decoder: when the
  signature check fails, the result is the same whatever the decoder would do with them, and it is
  the signature error.
\<close>

theorem unverified_payload_not_decoded:
  assumes "split_on (CHR ''.'') s = [''miru-agent'', p1, p2]"
    and "b64_decode (tx_b64url X) p1 = Some bs" and "b64_decode (tx_b64url X) p2 = Some sg"
    and "length sg = 64" and "\<not> ed_verify_strict (tx_ed X) vk bs sg"
  shows "parse_and_verify (X\<lparr>tx_from_slice := dec\<rparr>) s vk now = Err InvalidSignature"
  using assms by (simp add: parse_and_verify_def)

theorem unverified_payload_not_decoded_witness:
  "parse_and_verify ((demo_token_ext wit_payload)\<lparr>tx_from_slice := \<lambda>_. Some wit_payload\<rparr>)
     (''miru-agent.'' @ hex_encode [1] @ ''.'' @ hex_encode (replicate 64 0)) (pad_to 32 [7]) 1500 =
   Err InvalidSignature"
proof (rule unverified_payload_not_decoded)
  show "split_on CHR ''.'' (''miru-agent.'' @ hex_encode [1] @ ''.'' @ hex_encode (replicate 64 0)) =
        [''miru-agent'', hex_encode [1], hex_encode (replicate 64 0)]"
    by code_simp
  show "\<not> ed_verify_strict (tx_ed (demo_token_ext wit_payload)) (pad_to 32 [7]) [1] (replicate 64 0)"
    by code_simp
qed (simp_all add: demo_token_ext_def demo_base64_def hex_decode_encode)

end
