(* ===== verification/Hash_Chain.thy ===== *)
theory Hash_Chain
  imports Prelude
begin

text \<open>
  The contract of a hash-chained log, shared by the agent audit log and the fingerprint log.
  An entry carries a sequence number and the hash of its predecessor; replaying a log from a
  start hash and a start number succeeds when every entry continues the chain, and returns the
  hash of the last entry and the next number. Hashing an entry may fail (serialization).
  The lemmas below are proved from this contract alone.
\<close>

section \<open>Entries of a log file\<close>

text \<open>
  The entries a file holds: its lines in order, blank ones skipped; no list when a line is not
  UTF-8 or does not parse. \<open>log_line\<close> is what a writer appends for one entry, and
  \<open>line_codec_ok\<close> says that the JSON codec writes the entry on one line that reads back as it.
\<close>

fun parse_lines :: "(string \<Rightarrow> 'e option) \<Rightarrow> string list \<Rightarrow> 'e list option" where
  "parse_lines from_str [] = Some []"
| "parse_lines from_str (l # ls) =
     (if \<not> utf8_valid l then None
      else if is_blank l then parse_lines from_str ls
      else (case from_str l of None \<Rightarrow> None
            | Some e \<Rightarrow> map_option ((#) e) (parse_lines from_str ls)))"

definition line_codec_ok :: "('e \<Rightarrow> string option) \<Rightarrow> (string \<Rightarrow> 'e option) \<Rightarrow> 'e \<Rightarrow> bool" where
  "line_codec_ok to_str from_str e \<longleftrightarrow>
     (case to_str e of None \<Rightarrow> False
      | Some l \<Rightarrow> from_str l = Some e \<and> CHR 0x0A \<notin> set l \<and> utf8_valid l \<and> \<not> is_blank l \<and>
          last l \<noteq> CHR 0x0D)"

definition log_line :: "string \<Rightarrow> string" where
  "log_line l = l @ [CHR 0x0A]"

definition complete_lines :: "string \<Rightarrow> bool" where
  "complete_lines content \<longleftrightarrow> content = [] \<or> last content = CHR 0x0A"

lemma parse_lines_append:
  "parse_lines f (ls @ ks) =
     (case parse_lines f ls of None \<Rightarrow> None
      | Some es \<Rightarrow> (case parse_lines f ks of None \<Rightarrow> None | Some fs \<Rightarrow> Some (es @ fs)))"
  by (induction f ls rule: parse_lines.induct) (auto split: option.splits)

lemma split_on_snoc_sep: "split_on c (s @ [c]) = split_on c s @ [[]]"
  by (induction c s rule: split_on.induct) (auto split: list.splits)

lemma split_on_append_sep: "split_on c (s @ c # t) = split_on c s @ split_on c t"
proof (induction s)
  case (Cons x s)
  then show ?case by (cases "split_on c s") (auto split: list.splits)
qed simp

lemma file_lines_aux_append:
  "file_lines_aux (ls @ k # ks) = map strip_cr ls @ file_lines_aux (k # ks)"
  by (induction ls rule: file_lines_aux.induct) auto

text \<open>Appending a complete line to a file of complete lines appends that line.\<close>

lemma file_lines_append_line:
  assumes "complete_lines content" "CHR 0x0A \<notin> set l" "l \<noteq> []" "last l \<noteq> CHR 0x0D"
  shows "file_lines (content @ log_line l) = file_lines content @ [l]"
proof -
  have l: "split_on (CHR 0x0A) (log_line l) = [l, []]"
    using split_on_append [OF assms(2), of "[]"] by (simp add: log_line_def)
  have strip: "strip_cr l = l" using assms by (simp add: strip_cr_def)
  show ?thesis
  proof (cases "content = []")
    case True
    then show ?thesis using l strip by (simp add: file_lines_def)
  next
    case False
    then obtain c where c: "content = c @ [CHR 0x0A]"
      using assms(1) unfolding complete_lines_def by (metis append_butlast_last_id)
    have "split_on (CHR 0x0A) (content @ log_line l) = split_on (CHR 0x0A) c @ [l, []]"
      using split_on_append_sep [of "CHR 0x0A" c "log_line l"] l by (simp add: c)
    then have new: "file_lines (content @ log_line l) = map strip_cr (split_on (CHR 0x0A) c) @ [l]"
      using strip by (simp add: file_lines_def file_lines_aux_append)
    have "file_lines content = map strip_cr (split_on (CHR 0x0A) c)"
      by (simp add: c file_lines_def split_on_snoc_sep file_lines_aux_append)
    with new show ?thesis by simp
  qed
qed

lemma complete_lines_append: "complete_lines (content @ log_line l)"
  by (simp add: complete_lines_def log_line_def)

lemma line_codecD:
  assumes "line_codec_ok to_str from_str e"
  obtains l where "to_str e = Some l" "from_str l = Some e" "CHR 0x0A \<notin> set l"
    "utf8_valid l" "\<not> is_blank l" "last l \<noteq> CHR 0x0D" "l \<noteq> []"
proof -
  from assms obtain l where l: "to_str e = Some l" "from_str l = Some e"
    "CHR 0x0A \<notin> set l" "utf8_valid l" "\<not> is_blank l" "last l \<noteq> CHR 0x0D"
    by (auto simp: line_codec_ok_def split: option.splits)
  moreover have "l \<noteq> []" using l(5) by (auto simp: is_blank_def)
  ultimately show ?thesis using that by blast
qed

section \<open>The contract of a chain\<close>

locale hash_chain =
  fixes seq_of :: "'e \<Rightarrow> u64"
    and prev_of :: "'e \<Rightarrow> string"
    and hash_of :: "'e \<Rightarrow> string option"
    and replay :: "string \<Rightarrow> u64 \<Rightarrow> 'e list \<Rightarrow> (string \<times> u64) option"
  assumes replay_Nil: "replay h n [] = Some (h, n)"
    and replay_Cons: "replay h n (e # es) =
      (if seq_of e = n \<and> prev_of e = h
       then (case hash_of e of None \<Rightarrow> None | Some h' \<Rightarrow> replay h' (n + 1) es) else None)"
begin

lemma replay_append:
  "replay h n (es @ fs) = (case replay h n es of None \<Rightarrow> None | Some (h', n') \<Rightarrow> replay h' n' fs)"
  by (induction es arbitrary: h n) (auto simp: replay_Nil replay_Cons split: option.splits)

lemma replay_snoc:
  "replay h n (es @ [e]) = Some (t, m) \<longleftrightarrow>
     (\<exists>h' n'. replay h n es = Some (h', n') \<and> seq_of e = n' \<and> prev_of e = h' \<and>
        hash_of e = Some t \<and> m = n' + 1)"
  by (auto simp: replay_append replay_Nil replay_Cons split: option.splits if_splits)

lemma replay_count:
  "replay h n es = Some (t, m) \<Longrightarrow> m = n + word_of_nat (length es)"
proof (induction es arbitrary: h n)
  case (Cons e es)
  then obtain h' where "replay h' (n + 1) es = Some (t, m)"
    by (auto simp: replay_Cons split: option.splits if_splits)
  from Cons.IH [OF this] show ?case by (simp add: algebra_simps)
qed (simp add: replay_Nil)

text \<open>A prefix of a log that replays also replays: cutting entries off the end is invisible.\<close>

lemma replay_prefix:
  assumes "replay h n (es @ fs) = Some r"
  shows "\<exists>r'. replay h n es = Some r'"
  using assms by (auto simp: replay_append split: option.splits)

lemma replay_seq_nth:
  assumes "replay h n es = Some r" "i < length es"
  shows "seq_of (es ! i) = n + word_of_nat i"
  using assms
proof (induction es arbitrary: h n i)
  case (Cons e es)
  then show ?case
    by (cases i) (auto simp: replay_Cons algebra_simps split: option.splits if_splits)
qed simp

lemma replay_hashed:
  assumes "replay h n es = Some r" "i < length es"
  shows "\<exists>h'. hash_of (es ! i) = Some h'"
  using assms
proof (induction es arbitrary: h n i)
  case (Cons e es)
  then show ?case
    by (cases i) (auto simp: replay_Cons split: option.splits if_splits)
qed simp

lemma replay_prev_nth:
  assumes "replay h n es = Some r" "Suc i < length es"
  shows "hash_of (es ! i) = Some (prev_of (es ! Suc i))"
  using assms
proof (induction es arbitrary: h n i)
  case (Cons e es)
  show ?case
  proof (cases i)
    case 0
    with Cons.prems obtain f fs where "es = f # fs" by (cases es) auto
    with 0 Cons.prems show ?thesis
      by (auto simp: replay_Cons split: option.splits if_splits)
  next
    case (Suc j)
    with Cons show ?thesis
      by (auto simp: replay_Cons split: option.splits if_splits)
  qed
qed simp

text \<open>
  Tamper evidence: two logs of the same length that replay to the same tip are equal, or at some
  position hold two different entries with the same hash.
\<close>

lemma replay_tip_unique:
  assumes "replay h n es = Some (t, m)" "replay h n fs = Some (t, m')" "length es = length fs"
  shows "es = fs \<or> (\<exists>i < length es. es ! i \<noteq> fs ! i \<and> hash_of (es ! i) = hash_of (fs ! i))"
  using assms
proof (induction es arbitrary: fs t m m' rule: rev_induct)
  case (snoc e es)
  then obtain f fs' where fs: "fs = fs' @ [f]" and len: "length es = length fs'"
    by (cases fs rule: rev_cases) auto
  from snoc.prems(1) obtain n1 where e: "replay h n es = Some (prev_of e, n1)" "hash_of e = Some t"
    by (auto simp: replay_snoc)
  from snoc.prems(2) obtain n2 where f: "replay h n fs' = Some (prev_of f, n2)" "hash_of f = Some t"
    by (auto simp: fs replay_snoc)
  show ?case
  proof (cases "e = f")
    case False
    with e f len show ?thesis
      by (intro disjI2 exI [of _ "length es"]) (simp add: fs nth_append)
  next
    case True
    from snoc.IH [OF e(1) f(1) [folded True] len] show ?thesis
    proof
      assume "es = fs'"
      with True show ?thesis by (simp add: fs)
    next
      assume "\<exists>i<length es. es ! i \<noteq> fs' ! i \<and> hash_of (es ! i) = hash_of (fs' ! i)"
      then obtain i where "i < length es" "es ! i \<noteq> fs' ! i" "hash_of (es ! i) = hash_of (fs' ! i)"
        by blast
      with len show ?thesis
        by (intro disjI2 exI [of _ i]) (simp add: fs nth_append)
    qed
  qed
qed simp

end

end
