(* ===== verification/Audit_Log.thy ===== *)
theory Audit_Log
  imports Redact Hash_Chain
begin

text \<open>
  The tamper-evident audit log of agent actions (\<open>miru-agent/src/audit.rs\<close>).

  The log keeps the bytes of its file, the bytes still in the \<open>BufWriter\<close>, the hash of the
  last entry and the next sequence number. The JSON codec of an entry and SHA-256 are arguments.
  What the operating system does with a write is the argument \<open>io\<close>: the write, flush and
  sync succeed, or they fail after some bytes reached the file and leave some bytes in the buffer.
\<close>

section \<open>Definitions\<close>

datatype audit_outcome = AuditOk | AuditDenied | AuditError

record audit_entry =
  ae_seq :: u64
  ae_prev_hash :: string
  ae_timestamp_ms :: u64
  ae_token_jti :: string
  ae_capability :: capability
  ae_action :: json
  ae_confirmed :: "bool option"
  ae_outcome :: audit_outcome

record audit_ext =
  ax_sha256 :: "bytes \<Rightarrow> bytes"
  ax_to_string :: "audit_entry \<Rightarrow> string option"
  ax_from_str :: "string \<Rightarrow> audit_entry option"

datatype audit_error =
    IoError
  | SerializeEntry
  | ParseLine nat
  | SeqMismatch nat u64 u64
  | ChainBroken u64 string string

definition audit_hash :: "audit_ext \<Rightarrow> audit_entry \<Rightarrow> audit_error + string" where
  "audit_hash X e =
     (case ax_to_string X e of None \<Rightarrow> Err SerializeEntry
      | Some s \<Rightarrow> Ok (hex_encode (ax_sha256 X (as_bytes s))))"

definition genesis_hash :: string where
  "genesis_hash = replicate 64 (CHR ''0'')"

fun replay_lines ::
  "audit_ext \<Rightarrow> string \<Rightarrow> u64 \<Rightarrow> nat \<Rightarrow> string list \<Rightarrow> audit_error + string \<times> u64" where
  "replay_lines X prev_hash sq lineno [] = Ok (prev_hash, sq)"
| "replay_lines X prev_hash sq lineno (line # lines) =
     (if \<not> utf8_valid line then Err IoError
      else if is_blank line then replay_lines X prev_hash sq (lineno + 1) lines
      else (case ax_from_str X line of
        None \<Rightarrow> Err (ParseLine (lineno + 1))
      | Some entry \<Rightarrow>
          if ae_seq entry \<noteq> sq then Err (SeqMismatch (lineno + 1) sq (ae_seq entry))
          else if ae_prev_hash entry \<noteq> prev_hash
            then Err (ChainBroken sq prev_hash (ae_prev_hash entry))
          else (case audit_hash X entry of
            Inl err \<Rightarrow> Err err
          | Inr h \<Rightarrow> replay_lines X h (sq + 1) (lineno + 1) lines)))"

definition replay_chain :: "audit_ext \<Rightarrow> string \<Rightarrow> audit_error + string \<times> u64" where
  "replay_chain X content = replay_lines X genesis_hash 0 0 (file_lines content)"

definition verify_path :: "audit_ext \<Rightarrow> string \<Rightarrow> audit_error + u64" where
  "verify_path X content = map_sum id snd (replay_chain X content)"

fun read_all_lines ::
  "audit_ext \<Rightarrow> string \<Rightarrow> u64 \<Rightarrow> nat \<Rightarrow> audit_entry list \<Rightarrow> string list \<Rightarrow> audit_error + audit_entry list" where
  "read_all_lines X prev_hash sq lineno entries [] = Ok entries"
| "read_all_lines X prev_hash sq lineno entries (line # lines) =
     (if \<not> utf8_valid line then Err IoError
      else if is_blank line then read_all_lines X prev_hash sq (lineno + 1) entries lines
      else (case ax_from_str X line of
        None \<Rightarrow> Err (ParseLine (lineno + 1))
      | Some entry \<Rightarrow>
          if ae_seq entry \<noteq> sq then Err (SeqMismatch (lineno + 1) sq (ae_seq entry))
          else if ae_prev_hash entry \<noteq> prev_hash
            then Err (ChainBroken sq prev_hash (ae_prev_hash entry))
          else (case audit_hash X entry of
            Inl err \<Rightarrow> Err err
          | Inr h \<Rightarrow> read_all_lines X h (sq + 1) (lineno + 1) (entries @ [entry]) lines)))"

definition read_all_verified :: "audit_ext \<Rightarrow> string \<Rightarrow> audit_error + audit_entry list" where
  "read_all_verified X content = read_all_lines X genesis_hash 0 0 [] (file_lines content)"

record audit_log =
  al_file :: string
  al_buf :: string
  al_last_hash :: string
  al_next_seq :: u64

datatype io_result = IoDone | IoFail nat string

text \<open>\<open>AuditLog::open\<close>; \<open>None\<close> is a path that does not exist yet.\<close>

definition audit_open :: "audit_ext \<Rightarrow> string option \<Rightarrow> audit_error + audit_log" where
  "audit_open X path =
     (case path of
        None \<Rightarrow> Ok \<lparr>al_file = [], al_buf = [], al_last_hash = genesis_hash, al_next_seq = 0\<rparr>
      | Some content \<Rightarrow>
          (case replay_chain X content of
             Inl err \<Rightarrow> Err err
           | Inr (last_hash, next_seq) \<Rightarrow>
               Ok \<lparr>al_file = content, al_buf = [], al_last_hash = last_hash, al_next_seq = next_seq\<rparr>))"

definition audit_entry_for ::
  "audit_ext \<Rightarrow> audit_log \<Rightarrow> u64 \<Rightarrow> string \<Rightarrow> capability \<Rightarrow> json \<Rightarrow> bool option \<Rightarrow> audit_outcome \<Rightarrow> audit_entry" where
  "audit_entry_for X L now token_jti cap action conf outcome =
     \<lparr>ae_seq = al_next_seq L, ae_prev_hash = al_last_hash L, ae_timestamp_ms = now,
      ae_token_jti = token_jti, ae_capability = cap,
      ae_action = redact_action (ax_sha256 X) cap action, ae_confirmed = conf, ae_outcome = outcome\<rparr>"

definition audit_append ::
  "audit_ext \<Rightarrow> audit_log \<Rightarrow> u64 \<Rightarrow> io_result \<Rightarrow> string \<Rightarrow> capability \<Rightarrow> json \<Rightarrow> bool option \<Rightarrow> audit_outcome
    \<Rightarrow> (audit_error + u64) \<times> audit_log" where
  "audit_append X L now io token_jti cap action conf outcome =
     (let entry = audit_entry_for X L now token_jti cap action conf outcome in
      case ax_to_string X entry of
        None \<Rightarrow> (Err SerializeEntry, L)
      | Some line \<Rightarrow>
          (case audit_hash X entry of
             Inl err \<Rightarrow> (Err err, L)
           | Inr entry_hash \<Rightarrow>
               (let pending = al_buf L @ log_line line in
                case io of
                  IoDone \<Rightarrow>
                    (Ok (al_next_seq L),
                     L\<lparr>al_file := al_file L @ pending, al_buf := [], al_last_hash := entry_hash,
                       al_next_seq := al_next_seq L + 1\<rparr>)
                | IoFail k rest \<Rightarrow>
                    (Err IoError, L\<lparr>al_file := al_file L @ take k pending, al_buf := rest\<rparr>))))"

definition audit_verify :: "audit_ext \<Rightarrow> audit_log \<Rightarrow> audit_error + u64" where
  "audit_verify X L = map_sum id snd (replay_chain X (al_file L))"

text \<open>A sequence of appends whose writes all succeed, and the entries it writes.\<close>

type_synonym audit_request = "u64 \<times> string \<times> capability \<times> json \<times> bool option \<times> audit_outcome"

fun append_request ::
  "audit_ext \<Rightarrow> audit_log \<Rightarrow> io_result \<Rightarrow> audit_request \<Rightarrow> (audit_error + u64) \<times> audit_log" where
  "append_request X L io (now, tj, cap, action, conf, outcome) =
     audit_append X L now io tj cap action conf outcome"

fun request_entry :: "audit_ext \<Rightarrow> audit_log \<Rightarrow> audit_request \<Rightarrow> audit_entry" where
  "request_entry X L (now, tj, cap, action, conf, outcome) =
     audit_entry_for X L now tj cap action conf outcome"

fun audit_run :: "audit_ext \<Rightarrow> audit_log \<Rightarrow> audit_request list \<Rightarrow> audit_log" where
  "audit_run X L [] = L"
| "audit_run X L (r # rs) = audit_run X (snd (append_request X L IoDone r)) rs"

fun audit_run_entries :: "audit_ext \<Rightarrow> audit_log \<Rightarrow> audit_request list \<Rightarrow> audit_entry list" where
  "audit_run_entries X L [] = []"
| "audit_run_entries X L (r # rs) =
     request_entry X L r # audit_run_entries X (snd (append_request X L IoDone r)) rs"

definition fresh_log :: audit_log where
  "fresh_log = \<lparr>al_file = [], al_buf = [], al_last_hash = genesis_hash, al_next_seq = 0\<rparr>"

text \<open>A codec of two entries, for the witnesses.\<close>

definition wit_requests :: "audit_request list" where
  "wit_requests =
     [(10, ''jti1'', ScreenRead, JObj [], None, AuditOk),
      (11, ''jti1'', ShellExec, JObj [(''cmd'', JStr ''ls'')], Some False, AuditDenied)]"

definition wit_entry0 :: audit_entry where
  "wit_entry0 = \<lparr>ae_seq = 0, ae_prev_hash = genesis_hash, ae_timestamp_ms = 10, ae_token_jti = ''jti1'',
     ae_capability = ScreenRead, ae_action = JObj [], ae_confirmed = None, ae_outcome = AuditOk\<rparr>"

definition wit_entry1 :: audit_entry where
  "wit_entry1 = \<lparr>ae_seq = 1, ae_prev_hash = hex_encode (as_bytes ''a''), ae_timestamp_ms = 11,
     ae_token_jti = ''jti1'', ae_capability = ShellExec, ae_action = JObj [(''cmd'', JStr ''ls'')],
     ae_confirmed = Some False, ae_outcome = AuditDenied\<rparr>"

definition wit_audit_ext :: audit_ext where
  "wit_audit_ext = \<lparr>ax_sha256 = (\<lambda>bs. bs),
     ax_to_string = (\<lambda>e. Some (if ae_seq e = 0 then ''a'' else ''b'')),
     ax_from_str = (\<lambda>s. if s = ''a'' then Some wit_entry0 else if s = ''b'' then Some wit_entry1 else None)\<rparr>"

definition wit_entry0' :: audit_entry where
  "wit_entry0' = wit_entry0\<lparr>ae_timestamp_ms := 99\<rparr>"

definition wit_collide_ext :: audit_ext where
  "wit_collide_ext = \<lparr>ax_sha256 = (\<lambda>bs. [0]),
     ax_to_string = (\<lambda>e. Some (if ae_timestamp_ms e = 10 then ''a'' else ''b'')),
     ax_from_str = (\<lambda>s. if s = ''a'' then Some wit_entry0 else if s = ''b'' then Some wit_entry0' else None)\<rparr>"

section \<open>The chain of entries\<close>

fun audit_chain :: "audit_ext \<Rightarrow> string \<Rightarrow> u64 \<Rightarrow> audit_entry list \<Rightarrow> (string \<times> u64) option" where
  "audit_chain X h n [] = Some (h, n)"
| "audit_chain X h n (e # es) =
     (if ae_seq e = n \<and> ae_prev_hash e = h
      then (case audit_hash X e of Inl _ \<Rightarrow> None | Inr h' \<Rightarrow> audit_chain X h' (n + 1) es) else None)"

definition audit_hash_of :: "audit_ext \<Rightarrow> audit_entry \<Rightarrow> string option" where
  "audit_hash_of X e = (case audit_hash X e of Inl _ \<Rightarrow> None | Inr h \<Rightarrow> Some h)"

interpretation ac: hash_chain ae_seq ae_prev_hash "audit_hash_of X" "audit_chain X" for X
  by unfold_locales (auto simp: audit_hash_of_def split: sum.splits)

lemma replay_lines_iff:
  "replay_lines X h n k ls = Ok r \<longleftrightarrow>
     (\<exists>es. parse_lines (ax_from_str X) ls = Some es \<and> audit_chain X h n es = Some r)"
  by (induction X h n k ls rule: replay_lines.induct)
     (auto split: option.splits sum.splits if_splits)

lemma read_all_lines_iff:
  "read_all_lines X h n k acc ls = Ok out \<longleftrightarrow>
     (\<exists>es r. parse_lines (ax_from_str X) ls = Some es \<and> audit_chain X h n es = Some r \<and> out = acc @ es)"
  by (induction X h n k acc ls rule: read_all_lines.induct)
     (auto split: option.splits sum.splits if_splits)

definition audit_entries :: "audit_ext \<Rightarrow> string \<Rightarrow> audit_entry list option" where
  "audit_entries X content = parse_lines (ax_from_str X) (file_lines content)"

lemma replay_chain_iff:
  "replay_chain X c = Ok r \<longleftrightarrow>
     (\<exists>es. audit_entries X c = Some es \<and> audit_chain X genesis_hash 0 es = Some r)"
  by (simp add: replay_chain_def replay_lines_iff audit_entries_def)

lemma read_all_verified_iff:
  "read_all_verified X c = Ok es \<longleftrightarrow>
     audit_entries X c = Some es \<and> (\<exists>r. audit_chain X genesis_hash 0 es = Some r)"
  by (auto simp: read_all_verified_def read_all_lines_iff audit_entries_def)

section \<open>The log invariant\<close>

definition audit_codec_ok :: "audit_ext \<Rightarrow> audit_entry \<Rightarrow> bool" where
  "audit_codec_ok X e = line_codec_ok (ax_to_string X) (ax_from_str X) e"

definition audit_wf :: "audit_ext \<Rightarrow> audit_log \<Rightarrow> audit_entry list \<Rightarrow> bool" where
  "audit_wf X L es \<longleftrightarrow> al_buf L = [] \<and> complete_lines (al_file L) \<and>
     audit_entries X (al_file L) = Some es \<and>
     audit_chain X genesis_hash 0 es = Some (al_last_hash L, al_next_seq L)"

lemma audit_wf_fresh: "audit_wf X fresh_log []"
  by (simp add: audit_wf_def fresh_log_def complete_lines_def audit_entries_def file_lines_def)

lemma audit_wf_verify: "audit_wf X L es \<Longrightarrow> audit_verify X L = Ok (al_next_seq L)"
  by (auto simp: audit_wf_def audit_verify_def replay_chain_iff [THEN iffD2])

lemma audit_wf_read: "audit_wf X L es \<Longrightarrow> read_all_verified X (al_file L) = Ok es"
  by (auto simp: audit_wf_def read_all_verified_iff)

lemma audit_wf_reopen: "audit_wf X L es \<Longrightarrow> audit_open X (Some (al_file L)) = Ok L"
proof -
  assume wf: "audit_wf X L es"
  then have "replay_chain X (al_file L) = Ok (al_last_hash L, al_next_seq L)"
    by (auto simp: audit_wf_def replay_chain_iff)
  with wf show ?thesis by (simp add: audit_open_def audit_wf_def)
qed

lemma audit_wf_count: "audit_wf X L es \<Longrightarrow> al_next_seq L = word_of_nat (length es)"
  by (auto simp: audit_wf_def dest: ac.replay_count)

lemma audit_codecD:
  assumes "audit_codec_ok X e"
  obtains l where "ax_to_string X e = Some l" "ax_from_str X l = Some e" "CHR 0x0A \<notin> set l"
    "utf8_valid l" "\<not> is_blank l" "last l \<noteq> CHR 0x0D" "l \<noteq> []"
    "audit_hash X e = Ok (hex_encode (ax_sha256 X (as_bytes l)))"
proof -
  from assms obtain l where l: "ax_to_string X e = Some l" "ax_from_str X l = Some e"
    "CHR 0x0A \<notin> set l" "utf8_valid l" "\<not> is_blank l" "last l \<noteq> CHR 0x0D" "l \<noteq> []"
    unfolding audit_codec_ok_def by (rule line_codecD)
  moreover have "audit_hash X e = Ok (hex_encode (ax_sha256 X (as_bytes l)))"
    using l(1) by (simp add: audit_hash_def)
  ultimately show ?thesis using that by blast
qed

lemma entries_append_line:
  assumes "complete_lines c" "audit_entries X c = Some es" "audit_codec_ok X e" "ax_to_string X e = Some l"
  shows "audit_entries X (c @ log_line l) = Some (es @ [e])"
proof -
  obtain l' where l': "ax_to_string X e = Some l'" "ax_from_str X l' = Some e" "CHR 0x0A \<notin> set l'"
    "utf8_valid l'" "\<not> is_blank l'" "last l' \<noteq> CHR 0x0D" "l' \<noteq> []"
    using audit_codecD [OF assms(3)] by blast
  with assms have "l' = l" by simp
  with l' have "file_lines (c @ log_line l) = file_lines c @ [l]"
    using file_lines_append_line [OF assms(1)] by simp
  with l' \<open>l' = l\<close> assms(2) show ?thesis
    by (simp add: audit_entries_def parse_lines_append)
qed

lemma append_request_done:
  assumes "audit_wf X L es" "audit_codec_ok X (request_entry X L r)"
  shows "fst (append_request X L IoDone r) = Ok (al_next_seq L)"
    and "audit_wf X (snd (append_request X L IoDone r)) (es @ [request_entry X L r])"
proof -
  obtain now tj cap action conf outcome where r: "r = (now, tj, cap, action, conf, outcome)"
    by (cases r)
  let ?e = "request_entry X L r"
  have e: "?e = audit_entry_for X L now tj cap action conf outcome" by (simp add: r)
  obtain l where l: "ax_to_string X ?e = Some l" "audit_hash X ?e = Ok (hex_encode (ax_sha256 X (as_bytes l)))"
    using audit_codecD [OF assms(2)] by blast
  have buf: "al_buf L = []" and cl: "complete_lines (al_file L)"
    and es: "audit_entries X (al_file L) = Some es"
    and ch: "audit_chain X genesis_hash 0 es = Some (al_last_hash L, al_next_seq L)"
    using assms(1) by (auto simp: audit_wf_def)
  have res: "append_request X L IoDone r = (Ok (al_next_seq L),
     L\<lparr>al_file := al_file L @ log_line l, al_buf := [], al_last_hash := hex_encode (ax_sha256 X (as_bytes l)),
       al_next_seq := al_next_seq L + 1\<rparr>)"
    using l buf by (simp add: r audit_append_def Let_def)
  have "audit_chain X genesis_hash 0 (es @ [?e]) =
        Some (hex_encode (ax_sha256 X (as_bytes l)), al_next_seq L + 1)"
    using ch l by (simp add: ac.replay_snoc e audit_entry_for_def audit_hash_of_def)
  moreover have "audit_entries X (al_file L @ log_line l) = Some (es @ [?e])"
    using entries_append_line [OF cl es assms(2) l(1)] .
  ultimately show "audit_wf X (snd (append_request X L IoDone r)) (es @ [?e])"
    by (simp add: res audit_wf_def complete_lines_append)
  show "fst (append_request X L IoDone r) = Ok (al_next_seq L)" by (simp add: res)
qed

lemma audit_run_wf:
  assumes "audit_wf X L es" "\<forall>e \<in> set (audit_run_entries X L rs). audit_codec_ok X e"
  shows "audit_wf X (audit_run X L rs) (es @ audit_run_entries X L rs)"
  using assms
proof (induction rs arbitrary: L es)
  case (Cons r rs)
  then have "audit_codec_ok X (request_entry X L r)" by simp
  from append_request_done(2) [OF Cons.prems(1) this]
  show ?case using Cons.IH Cons.prems(2) by fastforce
qed simp

lemma audit_run_entries_length: "length (audit_run_entries X L rs) = length rs"
  by (induction rs arbitrary: L) auto

lemma replay_lines_append:
  "replay_lines X h n k ls = Ok (h', n') \<Longrightarrow>
   replay_lines X h n k (ls @ ms) = replay_lines X h' n' (k + length ls) ms"
proof (induction ls arbitrary: h n k)
  case (Cons l ls)
  from Cons.prems Cons.IH show ?case
    by (auto split: option.splits sum.splits if_splits)
qed simp

section \<open>Properties\<close>

lemmas wit_audit_defs = wit_requests_def wit_entry0_def wit_entry1_def wit_audit_ext_def
  audit_append_def audit_entry_for_def Let_def audit_hash_def fresh_log_def log_line_def

lemma wit_run_entries: "audit_run_entries wit_audit_ext fresh_log wit_requests = [wit_entry0, wit_entry1]"
  by (simp add: wit_audit_defs redact_image_field_def)

lemma wit_codec_ok: "audit_codec_ok wit_audit_ext wit_entry0" "audit_codec_ok wit_audit_ext wit_entry1"
  by (simp_all add: audit_codec_ok_def line_codec_ok_def wit_audit_ext_def wit_entry0_def wit_entry1_def
      utf8_valid_def is_blank_def)

text \<open>
  C16. Every sequence of appends to a fresh log, with writes that succeed, gives a file that verifies:
  the count is the number of appends, reading it back yields exactly the appended entries in order
  (each with its redacted action), and reopening the file restores the log's state, so that later
  appends continue the same chain.
\<close>

theorem audit_run_verifies:
  assumes "\<forall>e \<in> set (audit_run_entries X fresh_log rs). audit_codec_ok X e"
  shows "audit_verify X (audit_run X fresh_log rs) = Ok (word_of_nat (length rs)) \<and>
    read_all_verified X (al_file (audit_run X fresh_log rs)) = Ok (audit_run_entries X fresh_log rs) \<and>
    audit_open X (Some (al_file (audit_run X fresh_log rs))) = Ok (audit_run X fresh_log rs)"
proof -
  have wf: "audit_wf X (audit_run X fresh_log rs) (audit_run_entries X fresh_log rs)"
    using audit_run_wf [OF audit_wf_fresh assms] by simp
  then have "al_next_seq (audit_run X fresh_log rs) = word_of_nat (length rs)"
    using audit_wf_count audit_run_entries_length by metis
  with wf show ?thesis
    using audit_wf_verify [OF wf] audit_wf_read [OF wf] audit_wf_reopen [OF wf] by simp
qed

theorem audit_run_verifies_witness:
  "audit_verify wit_audit_ext (audit_run wit_audit_ext fresh_log wit_requests) = Ok 2"
proof -
  have "\<forall>e \<in> set (audit_run_entries wit_audit_ext fresh_log wit_requests). audit_codec_ok wit_audit_ext e"
    by (simp add: wit_run_entries wit_codec_ok)
  from audit_run_verifies [OF this] show ?thesis by (simp add: wit_requests_def)
qed

text \<open>
  C17. Tamper evidence: if two log files hold equally many entries and both verify to the same
  tip hash, then they hold the same entries, or some position holds two different entries whose
  serializations collide under SHA-256.
\<close>

theorem audit_tamper_evident:
  assumes "audit_entries X c1 = Some es" and "audit_entries X c2 = Some fs" and "length es = length fs"
    and "replay_chain X c1 = Ok (tip, n)" and "replay_chain X c2 = Ok (tip, m)"
  shows "es = fs \<or> (\<exists>i < length es. es ! i \<noteq> fs ! i \<and>
    (\<exists>s t. ax_to_string X (es ! i) = Some s \<and> ax_to_string X (fs ! i) = Some t \<and>
       hex_encode (ax_sha256 X (as_bytes s)) = hex_encode (ax_sha256 X (as_bytes t))))"
proof -
  have ch: "audit_chain X genesis_hash 0 es = Some (tip, n)" "audit_chain X genesis_hash 0 fs = Some (tip, m)"
    using assms by (auto simp: replay_chain_iff)
  have hashed: "\<exists>s. ax_to_string X e = Some s \<and> h = hex_encode (ax_sha256 X (as_bytes s))"
    if "audit_hash_of X e = Some h" for e h
    using that by (auto simp: audit_hash_of_def audit_hash_def split: option.splits)
  from ac.replay_tip_unique [OF ch assms(3)] show ?thesis
  proof
    assume "\<exists>i<length es. es ! i \<noteq> fs ! i \<and> audit_hash_of X (es ! i) = audit_hash_of X (fs ! i)"
    then obtain i where i: "i < length es" "es ! i \<noteq> fs ! i"
      "audit_hash_of X (es ! i) = audit_hash_of X (fs ! i)" by blast
    obtain h where "audit_hash_of X (es ! i) = Some h"
      using ac.replay_hashed [OF ch(1) i(1)] by blast
    with i hashed show ?thesis by metis
  qed simp
qed

theorem audit_tamper_evident_witness:
  "wit_entry0 \<noteq> wit_entry0' \<and>
   hex_encode (ax_sha256 wit_collide_ext (as_bytes ''a'')) = hex_encode (ax_sha256 wit_collide_ext (as_bytes ''b''))"
proof -
  let ?X = wit_collide_ext
  have ne: "wit_entry0 \<noteq> wit_entry0'" by (simp add: wit_entry0_def wit_entry0'_def)
  have e: "audit_entries ?X (''a'' @ [CHR 0x0A]) = Some [wit_entry0]"
    "audit_entries ?X (''b'' @ [CHR 0x0A]) = Some [wit_entry0']"
    by (simp_all add: audit_entries_def file_lines_def strip_cr_def utf8_valid_def is_blank_def wit_collide_ext_def)
  have r: "replay_chain ?X (''a'' @ [CHR 0x0A]) = Ok (hex_encode [0], 1)"
    "replay_chain ?X (''b'' @ [CHR 0x0A]) = Ok (hex_encode [0], 1)"
    using e by (simp_all add: replay_chain_iff)
      (simp_all add: wit_collide_ext_def wit_entry0_def wit_entry0'_def audit_hash_def)
  from audit_tamper_evident [OF e _ r] ne show ?thesis
    by (auto simp: wit_collide_ext_def wit_entry0_def wit_entry0'_def)
qed

text \<open>
  Cutting whole lines off the end of a log that verifies leaves a log that verifies, with the
  smaller count: verification alone does not detect truncation.
\<close>

theorem audit_truncation_undetected:
  assumes "file_lines c1 = ls @ ks" and "file_lines c2 = ls" and "verify_path X c1 = Ok n"
  shows "\<exists>m. verify_path X c2 = Ok m"
proof -
  from assms(3) obtain r where "replay_chain X c1 = Ok r"
    by (cases "replay_chain X c1") (auto simp: verify_path_def)
  then obtain es where p: "parse_lines (ax_from_str X) (ls @ ks) = Some es"
    and ch: "audit_chain X genesis_hash 0 es = Some r"
    by (auto simp: replay_chain_iff audit_entries_def assms(1))
  from p obtain es1 es2 where "parse_lines (ax_from_str X) ls = Some es1" "es = es1 @ es2"
    by (auto simp: parse_lines_append split: option.splits)
  moreover from this ch obtain r1 where "audit_chain X genesis_hash 0 es1 = Some r1"
    using ac.replay_prefix by blast
  ultimately have "replay_chain X c2 = Ok r1"
    by (auto simp: replay_chain_iff audit_entries_def assms(2))
  then show ?thesis by (simp add: verify_path_def)
qed

theorem audit_truncation_undetected_witness:
  "\<exists>m. verify_path wit_audit_ext (''a'' @ [CHR 0x0A]) = Ok m"
proof -
  let ?c = "''a'' @ CHR 0x0A # ''b'' @ [CHR 0x0A]"
  have "file_lines ?c = [''a''] @ [''b'']" "file_lines (''a'' @ [CHR 0x0A]) = [''a'']"
    by (simp_all add: file_lines_def strip_cr_def)
  moreover have "verify_path wit_audit_ext ?c = Ok 2"
    by (simp add: verify_path_def replay_chain_def file_lines_def strip_cr_def utf8_valid_def is_blank_def
        wit_audit_ext_def wit_entry0_def wit_entry1_def audit_hash_def)
  ultimately show ?thesis by (rule audit_truncation_undetected)
qed

text \<open>
  An append is not atomic when a write fails: the line stays in the writer's buffer (or has
  already reached the file) while the sequence number is not advanced, so the next append that
  succeeds writes a second entry with the same number and the file no longer verifies.
\<close>

theorem audit_failed_append_corrupts:
  assumes wf: "audit_wf X L es" and c1: "audit_codec_ok X (request_entry X L r1)"
    and L1: "append_request X L (IoFail k (drop k p)) r1 = (res1, L1)"
    and p: "ax_to_string X (request_entry X L r1) = Some l" "p = log_line l"
    and c2: "audit_codec_ok X (request_entry X L1 r2)"
    and L2: "append_request X L1 IoDone r2 = (res2, L2)"
  shows "res1 = Err IoError \<and> res2 = Ok (al_next_seq L) \<and>
         (\<exists>ln. replay_chain X (al_file L2) = Err (SeqMismatch ln (al_next_seq L + 1) (al_next_seq L)))"
proof -
  obtain now tj cap action conf outcome where r1: "r1 = (now, tj, cap, action, conf, outcome)"
    by (cases r1)
  obtain now' tj' cap' action' conf' outcome' where r2: "r2 = (now', tj', cap', action', conf', outcome')"
    by (cases r2)
  obtain h where h: "audit_hash X (request_entry X L r1) = Ok h"
    using audit_codecD [OF c1] by blast
  have buf: "al_buf L = []" using wf by (simp add: audit_wf_def)
  have L1': "res1 = Err IoError" "L1 = L\<lparr>al_file := al_file L @ take k p, al_buf := drop k p\<rparr>"
    using L1 p h buf by (auto simp: r1 audit_append_def Let_def)
  obtain l2 h2 where l2: "ax_to_string X (request_entry X L1 r2) = Some l2"
    "ax_from_str X l2 = Some (request_entry X L1 r2)" "CHR 0x0A \<notin> set l2" "utf8_valid l2" "\<not> is_blank l2"
    "last l2 \<noteq> CHR 0x0D" "l2 \<noteq> []" "audit_hash X (request_entry X L1 r2) = Ok h2"
    using audit_codecD [OF c2] by metis
  have L2': "res2 = Ok (al_next_seq L)" "al_file L2 = (al_file L @ log_line l) @ log_line l2"
    using L2 l2 p(2) by (auto simp: L1'(2) r2 audit_append_def Let_def)
  let ?e1 = "request_entry X L r1"
  have fin: "snd (append_request X L IoDone r1) = L\<lparr>al_file := al_file L @ log_line l, al_buf := [],
      al_last_hash := h, al_next_seq := al_next_seq L + 1\<rparr>"
    using p(1) h buf by (simp add: r1 audit_append_def Let_def)
  have "replay_chain X (al_file L @ log_line l) = Ok (h, al_next_seq L + 1)"
    using append_request_done(2) [OF wf c1] unfolding fin
    by (auto simp: audit_wf_def replay_chain_iff)
  then have ok: "replay_lines X genesis_hash 0 0 (file_lines (al_file L @ log_line l)) = Ok (h, al_next_seq L + 1)"
    by (simp add: replay_chain_def)
  have "file_lines (al_file L2) = file_lines (al_file L @ log_line l) @ [l2]"
    unfolding L2'(2) by (rule file_lines_append_line) (use l2 complete_lines_append in auto)
  moreover have "ae_seq (request_entry X L1 r2) = al_next_seq L"
    by (simp add: L1'(2) r2 audit_entry_for_def)
  ultimately show ?thesis
    using L1'(1) L2'(1) l2 replay_lines_append [OF ok, of "[l2]"]
    by (simp add: replay_chain_def)
qed

theorem audit_failed_append_corrupts_witness:
  "\<exists>ln. replay_chain wit_audit_ext (''a'' @ CHR 0x0A # ''a'' @ [CHR 0x0A]) = Err (SeqMismatch ln 1 0)"
proof -
  let ?X = wit_audit_ext and ?r = "(10, ''jti1'', ScreenRead, JObj [], None, AuditOk) :: audit_request"
  let ?L1 = "fresh_log\<lparr>al_buf := ''a'' @ [CHR 0x0A]\<rparr>"
  let ?L2 = "fresh_log\<lparr>al_file := ''a'' @ CHR 0x0A # ''a'' @ [CHR 0x0A], al_last_hash := hex_encode (as_bytes ''a''),
      al_next_seq := 1\<rparr>"
  have e: "request_entry ?X fresh_log ?r = wit_entry0" "request_entry ?X ?L1 ?r = wit_entry0"
    by (simp_all add: wit_audit_defs redact_image_field_def)
  have "append_request ?X fresh_log (IoFail 0 (drop 0 (log_line ''a''))) ?r = (Err IoError, ?L1)"
    "append_request ?X ?L1 IoDone ?r = (Ok 0, ?L2)" "ax_to_string ?X (request_entry ?X fresh_log ?r) = Some ''a''"
    by (simp_all add: wit_audit_defs redact_image_field_def)
  with audit_failed_append_corrupts [OF audit_wf_fresh _ this(1) this(3) refl _ this(2)] e wit_codec_ok
  show ?thesis by (simp add: fresh_log_def)
qed

end
