(* ===== verification/Revocation.thy ===== *)
theory Revocation
  imports Hash_Chain
begin

text \<open>
  The token revocation list (\<open>miru-agent/src/revocation.rs\<close>): a set of token ids in memory and
  an append-only file of JSON lines. The codec of an entry is an argument; so is what a write does:
  \<open>RevDone\<close>, or \<open>RevFail k\<close> when an error is returned after \<open>k\<close> bytes reached
  the file. The flag \<open>rl_poisoned\<close> is the poison state of the lock, set by a panic of a writer.
\<close>

section \<open>Definitions\<close>

record revocation_entry =
  re_jti :: u128
  re_revoked_at_ms :: u64
  re_reason :: string

record revocation_ext =
  rx_to_string :: "revocation_entry \<Rightarrow> string option"
  rx_from_str :: "string \<Rightarrow> revocation_entry option"

record revocation_list =
  rl_file :: string
  rl_revoked :: "u128 set"
  rl_poisoned :: bool

datatype revocation_error =
    RevIo | RevParse nat | RevTooMany | RevPoisoned | RevSerialize

datatype rev_io = RevDone | RevFail nat

definition MAX_REVOKED_ENTRIES :: nat where
  "MAX_REVOKED_ENTRIES = 1000000"

fun load_revoked ::
  "revocation_ext \<Rightarrow> nat \<Rightarrow> u128 set \<Rightarrow> string list \<Rightarrow> revocation_error + u128 set" where
  "load_revoked X idx revoked [] = Ok revoked"
| "load_revoked X idx revoked (line # lines) =
     (if \<not> utf8_valid line then Err RevIo
      else if is_blank line then load_revoked X (idx + 1) revoked lines
      else (case rx_from_str X line of
        None \<Rightarrow> Err (RevParse (idx + 1))
      | Some entry \<Rightarrow>
          (let revoked' = insert (re_jti entry) revoked in
           if card revoked' > MAX_REVOKED_ENTRIES then Err RevTooMany
           else load_revoked X (idx + 1) revoked' lines)))"

definition revocation_open :: "revocation_ext \<Rightarrow> string option \<Rightarrow> revocation_error + revocation_list" where
  "revocation_open X path =
     (case path of
        None \<Rightarrow> Ok \<lparr>rl_file = [], rl_revoked = {}, rl_poisoned = False\<rparr>
      | Some content \<Rightarrow>
          (case load_revoked X 0 {} (file_lines content) of
             Inl err \<Rightarrow> Err err
           | Inr revoked \<Rightarrow> Ok \<lparr>rl_file = content, rl_revoked = revoked, rl_poisoned = False\<rparr>))"

definition rl_revoke ::
  "revocation_ext \<Rightarrow> revocation_list \<Rightarrow> u128 \<Rightarrow> string \<Rightarrow> u64 \<Rightarrow> rev_io \<Rightarrow> (revocation_error + unit) \<times> revocation_list" where
  "rl_revoke X R j reason now io =
     (if rl_poisoned R then (Err RevPoisoned, R)
      else if j \<in> rl_revoked R then (Ok (), R)
      else
        (let R' = R\<lparr>rl_revoked := insert j (rl_revoked R)\<rparr>;
             entry = \<lparr>re_jti = j, re_revoked_at_ms = now, re_reason = reason\<rparr>
         in case rx_to_string X entry of
              None \<Rightarrow> (Err RevSerialize, R')
            | Some line \<Rightarrow>
                (case io of
                   RevDone \<Rightarrow> (Ok (), R'\<lparr>rl_file := rl_file R @ log_line line\<rparr>)
                 | RevFail k \<Rightarrow> (Err RevIo, R'\<lparr>rl_file := rl_file R @ take k (log_line line)\<rparr>))))"

fun revoke_all_loop ::
  "revocation_ext \<Rightarrow> revocation_list \<Rightarrow> string \<Rightarrow> nat \<Rightarrow> (u128 \<times> u64 \<times> rev_io) list
    \<Rightarrow> (revocation_error + nat) \<times> revocation_list" where
  "revoke_all_loop X R reason count [] = (Ok count, R)"
| "revoke_all_loop X R reason count ((j, now, io) # js) =
     (case rl_revoke X R j reason now io of
        (Inl err, R') \<Rightarrow> (Err err, R')
      | (Inr _, R') \<Rightarrow> revoke_all_loop X R' reason (count + 1) js)"

definition revoke_all_known ::
  "revocation_ext \<Rightarrow> revocation_list \<Rightarrow> (u128 \<times> u64 \<times> rev_io) list \<Rightarrow> string
    \<Rightarrow> (revocation_error + nat) \<times> revocation_list" where
  "revoke_all_known X R known reason = revoke_all_loop X R reason 0 known"

definition is_revoked :: "revocation_list \<Rightarrow> u128 \<Rightarrow> bool" where
  "is_revoked R j = (if rl_poisoned R then True else j \<in> rl_revoked R)"

definition revocation_len :: "revocation_list \<Rightarrow> nat" where
  "revocation_len R = (if rl_poisoned R then 0 else card (rl_revoked R))"

text \<open>A one-entry codec for the witnesses.\<close>

definition wit_rev_ext :: revocation_ext where
  "wit_rev_ext = \<lparr>rx_to_string = (\<lambda>e. Some (if re_jti e = 1 then ''x'' else ''y'')),
     rx_from_str = (\<lambda>s. if s = ''x'' then Some \<lparr>re_jti = 1, re_revoked_at_ms = 5, re_reason = ''p''\<rparr>
       else if s = ''y'' then Some \<lparr>re_jti = 2, re_revoked_at_ms = 5, re_reason = ''p''\<rparr> else None)\<rparr>"

definition empty_revocation :: revocation_list where
  "empty_revocation = \<lparr>rl_file = [], rl_revoked = {}, rl_poisoned = False\<rparr>"

section \<open>The list in memory\<close>

lemma rl_revoke_poisoned [simp]: "rl_poisoned (snd (rl_revoke X R j reason now io)) = rl_poisoned R"
  by (auto simp: rl_revoke_def Let_def split: option.splits rev_io.splits)

lemma rl_revoke_set:
  "\<not> rl_poisoned R \<Longrightarrow> rl_revoked (snd (rl_revoke X R j reason now io)) = insert j (rl_revoked R)"
  by (auto simp: rl_revoke_def Let_def split: option.splits rev_io.splits)

text \<open>Whether or not the write succeeds, the token is revoked from then on.\<close>

lemma rl_revoke_is_revoked: "is_revoked (snd (rl_revoke X R j reason now io)) j"
  by (cases "rl_poisoned R") (auto simp: is_revoked_def rl_revoke_set)

lemma rl_revoke_mono: "is_revoked R i \<Longrightarrow> is_revoked (snd (rl_revoke X R j reason now io)) i"
  by (cases "rl_poisoned R") (auto simp: is_revoked_def rl_revoke_set)

lemma revoke_all_loop_mono: "is_revoked R i \<Longrightarrow> is_revoked (snd (revoke_all_loop X R reason n js)) i"
proof (induction X R reason n js rule: revoke_all_loop.induct)
  case (2 X R reason count j now io js)
  then show ?case
    using rl_revoke_mono [OF "2.prems"] by (auto split: prod.splits sum.splits)
       (metis snd_conv)+
qed simp

lemma revoke_all_loop_Ok:
  assumes "revoke_all_loop X R reason n js = (Ok m, R')"
  shows "m = n + length js" and "\<forall>(j, now, io) \<in> set js. is_revoked R' j"
  using assms
proof (induction X R reason n js rule: revoke_all_loop.induct)
  case (2 X R reason count j now io js)
  case 1
  then show ?case using 2 by (auto split: prod.splits sum.splits)
next
  case (2 X R reason count j now io js)
  case 2
  obtain R1 where R1: "rl_revoke X R j reason now io = (Ok (), R1)"
    and rest: "revoke_all_loop X R1 reason (count + 1) js = (Ok m, R')"
    using 2 by (auto split: prod.splits sum.splits)
  have "is_revoked R1 j" using rl_revoke_is_revoked [of X R j reason now io] R1 by simp
  then have "is_revoked R' j" using revoke_all_loop_mono [of R1 j X reason "count + 1" js] rest by simp
  with "2.IH"(2) R1 rest show ?case by auto
qed auto

section \<open>The file\<close>

definition rev_codec_ok :: "revocation_ext \<Rightarrow> revocation_entry \<Rightarrow> bool" where
  "rev_codec_ok X e = line_codec_ok (rx_to_string X) (rx_from_str X) e"

text \<open>The file agrees with the set: it holds complete lines that load to the set in memory.\<close>

definition rev_synced :: "revocation_ext \<Rightarrow> revocation_list \<Rightarrow> bool" where
  "rev_synced X R \<longleftrightarrow> \<not> rl_poisoned R \<and> complete_lines (rl_file R) \<and>
     load_revoked X 0 {} (file_lines (rl_file R)) = Ok (rl_revoked R)"

lemma load_revoked_append:
  "load_revoked X k S ls = Ok T \<Longrightarrow> load_revoked X k S (ls @ ms) = load_revoked X (k + length ls) T ms"
proof (induction ls arbitrary: k S)
  case (Cons l ls)
  from Cons.prems Cons.IH show ?case
    by (auto simp: Let_def split: option.splits if_splits)
qed simp

lemma rev_synced_open: "rev_synced X R \<Longrightarrow> revocation_open X (Some (rl_file R)) = Ok R"
  by (simp add: rev_synced_def revocation_open_def)

lemma rev_synced_empty: "rev_synced X empty_revocation"
  by (simp add: rev_synced_def empty_revocation_def complete_lines_def file_lines_def)

lemma rl_revoke_synced:
  assumes "rev_synced X R" "rev_codec_ok X \<lparr>re_jti = j, re_revoked_at_ms = now, re_reason = reason\<rparr>"
    "card (insert j (rl_revoked R)) \<le> MAX_REVOKED_ENTRIES"
  shows "fst (rl_revoke X R j reason now RevDone) = Ok ()"
    and "rev_synced X (snd (rl_revoke X R j reason now RevDone))"
proof -
  let ?e = "\<lparr>re_jti = j, re_revoked_at_ms = now, re_reason = reason\<rparr>"
  from assms(2) obtain l where l: "rx_to_string X ?e = Some l" "rx_from_str X l = Some ?e"
    "CHR 0x0A \<notin> set l" "utf8_valid l" "\<not> is_blank l" "last l \<noteq> CHR 0x0D" "l \<noteq> []"
    unfolding rev_codec_ok_def by (rule line_codecD)
  have np: "\<not> rl_poisoned R" and cl: "complete_lines (rl_file R)"
    and ld: "load_revoked X 0 {} (file_lines (rl_file R)) = Ok (rl_revoked R)"
    using assms(1) by (auto simp: rev_synced_def)
  show "fst (rl_revoke X R j reason now RevDone) = Ok ()"
    using np l by (simp add: rl_revoke_def Let_def)
  have "file_lines (rl_file R @ log_line l) = file_lines (rl_file R) @ [l]"
    using file_lines_append_line [OF cl] l by simp
  with load_revoked_append [OF ld, of "[l]"] l assms(3)
  have "load_revoked X 0 {} (file_lines (rl_file R @ log_line l)) = Ok (insert j (rl_revoked R))"
    by (simp add: Let_def)
  with np assms(1) l show "rev_synced X (snd (rl_revoke X R j reason now RevDone))"
    by (auto simp: rev_synced_def rl_revoke_def Let_def complete_lines_append)
qed

section \<open>Properties\<close>

text \<open>
  The panic rotation: when it reports success, every known token is revoked, the reported count
  is the number of tokens asked for, and tokens revoked before stay revoked.
\<close>

theorem panic_rotation_revokes_all:
  assumes "revoke_all_known X R known reason = (Ok count, R')"
  shows "count = length known \<and> (\<forall>j. j \<in> fst ` set known \<or> is_revoked R j \<longrightarrow> is_revoked R' j)"
proof -
  have loop: "revoke_all_loop X R reason 0 known = (Ok count, R')"
    using assms by (simp add: revoke_all_known_def)
  have "is_revoked R' j" if "is_revoked R j" for j
    using revoke_all_loop_mono [OF that, of X reason 0 known] loop by simp
  with revoke_all_loop_Ok [OF loop] show ?thesis by auto
qed

theorem panic_rotation_revokes_all_witness:
  "\<exists>R'. revoke_all_known wit_rev_ext empty_revocation [(1, 5, RevDone), (2, 5, RevDone)] ''p'' = (Ok 2, R') \<and>
     is_revoked R' 1 \<and> is_revoked R' 2"
proof -
  have "revoke_all_known wit_rev_ext empty_revocation [(1, 5, RevDone), (2, 5, RevDone)] ''p'' =
    (Ok 2, \<lparr>rl_file = ''x'' @ CHR 0x0A # ''y'' @ [CHR 0x0A], rl_revoked = {2, 1}, rl_poisoned = False\<rparr>)"
    by (simp add: revoke_all_known_def rl_revoke_def wit_rev_ext_def empty_revocation_def Let_def log_line_def)
  from this panic_rotation_revokes_all [OF this] show ?thesis by simp
qed

text \<open>
  C29. Revocations survive a restart: when the writes succeed, opening the file again gives the same
  set, so a token revoked before the restart is revoked after it.
\<close>

theorem revocation_survives_restart:
  assumes "rev_synced X R" and "rev_codec_ok X \<lparr>re_jti = j, re_revoked_at_ms = now, re_reason = reason\<rparr>"
    and "card (insert j (rl_revoked R)) \<le> MAX_REVOKED_ENTRIES"
    and "rl_revoke X R j reason now RevDone = (res, R')"
  shows "res = Ok () \<and> (\<exists>R''. revocation_open X (Some (rl_file R')) = Ok R'' \<and>
           (\<forall>i. is_revoked R'' i \<longleftrightarrow> i = j \<or> is_revoked R i))"
proof -
  have s: "rev_synced X R'" and r: "res = Ok ()"
    using rl_revoke_synced [OF assms(1,2,3)] assms(4) by auto
  have np: "\<not> rl_poisoned R" using assms(1) by (simp add: rev_synced_def)
  have "rl_revoked R' = insert j (rl_revoked R)" "\<not> rl_poisoned R'"
    using rl_revoke_set [OF np, of X j reason now RevDone] s assms(4) by (auto simp: rev_synced_def)
  with np have "\<forall>i. is_revoked R' i \<longleftrightarrow> i = j \<or> is_revoked R i"
    by (simp add: is_revoked_def)
  with rev_synced_open [OF s] r show ?thesis by blast
qed

theorem revocation_survives_restart_witness:
  "\<exists>R''. revocation_open wit_rev_ext (Some (''x'' @ [CHR 0x0A])) = Ok R'' \<and> is_revoked R'' 1"
proof -
  have c: "rev_codec_ok wit_rev_ext \<lparr>re_jti = 1, re_revoked_at_ms = 5, re_reason = ''p''\<rparr>"
    by (simp add: rev_codec_ok_def line_codec_ok_def wit_rev_ext_def utf8_valid_def is_blank_def)
  have "card (insert (1 :: u128) (rl_revoked empty_revocation)) \<le> MAX_REVOKED_ENTRIES"
    by (simp add: empty_revocation_def MAX_REVOKED_ENTRIES_def)
  moreover have "rl_revoke wit_rev_ext empty_revocation 1 ''p'' 5 RevDone =
    (Ok (), \<lparr>rl_file = ''x'' @ [CHR 0x0A], rl_revoked = {1}, rl_poisoned = False\<rparr>)"
    by (simp add: rl_revoke_def wit_rev_ext_def empty_revocation_def Let_def log_line_def)
  ultimately show ?thesis
    using revocation_survives_restart [OF rev_synced_empty c] by fastforce
qed

text \<open>
  A revocation whose write failed is not made durable by trying again: the set in memory was
  updated before the write, so the second call reports success without writing, and after a restart
  the token is no longer revoked.
\<close>

theorem failed_revocation_lost:
  assumes "rev_synced X R" and "j \<notin> rl_revoked R"
    and "rx_to_string X \<lparr>re_jti = j, re_revoked_at_ms = now, re_reason = reason\<rparr> = Some line"
    and "rl_revoke X R j reason now (RevFail 0) = (res1, R1)"
    and "rl_revoke X R1 j reason' now' io = (res2, R2)"
  shows "res1 = Err RevIo \<and> res2 = Ok () \<and> is_revoked R2 j \<and>
         (\<exists>R''. revocation_open X (Some (rl_file R2)) = Ok R'' \<and> \<not> is_revoked R'' j)"
proof -
  have np: "\<not> rl_poisoned R" using assms(1) by (simp add: rev_synced_def)
  have R1: "res1 = Err RevIo" "R1 = R\<lparr>rl_revoked := insert j (rl_revoked R)\<rparr>"
    using assms(2,3,4) np by (auto simp: rl_revoke_def Let_def)
  have R2: "res2 = Ok ()" "R2 = R1"
    using assms(5) np by (auto simp: rl_revoke_def R1(2))
  have "revocation_open X (Some (rl_file R2)) = Ok R"
    using rev_synced_open [OF assms(1)] by (simp add: R2(2) R1(2))
  with assms(2) np R1 R2 show ?thesis
    by (simp add: is_revoked_def)
qed

theorem failed_revocation_lost_witness:
  "\<exists>R''. revocation_open wit_rev_ext (Some []) = Ok R'' \<and> \<not> is_revoked R'' 1"
proof -
  let ?R1 = "empty_revocation\<lparr>rl_revoked := {1}\<rparr>"
  have "rl_revoke wit_rev_ext empty_revocation 1 ''p'' 5 (RevFail 0) = (Err RevIo, ?R1)"
    "rl_revoke wit_rev_ext ?R1 1 ''p'' 6 RevDone = (Ok (), ?R1)"
    by (simp_all add: rl_revoke_def wit_rev_ext_def empty_revocation_def Let_def)
  from failed_revocation_lost [OF rev_synced_empty _ _ this, of "''x''"] show ?thesis
    by (simp add: empty_revocation_def wit_rev_ext_def)
qed

end
