(* ===== verification/Agent_Session.thy ===== *)
theory Agent_Session
  imports Audit_Log Revocation
begin

text \<open>
  The authorization gate of an agent session (\<open>miru-agent/src/session.rs\<close>): revocation, capability,
  expiry and confirmation checks in the order of the source, the auto-approve cache, and the audit
  entry that every attempt leaves.

  A call takes an environment with what it reads from outside: the clocks, the outcome of the audit
  write and the textual forms that other crates produce. The confirmation callback is an argument; a
  call also returns the request it showed to the user, if any. An \<open>Instant\<close> is a number of
  nanoseconds.
\<close>

section \<open>Definitions\<close>

record confirm_request =
  cr_agent_label :: string
  cr_capability :: capability
  cr_action_summary :: string

record auto_approve_entry =
  aa_capability :: capability
  aa_scope_key :: string
  aa_until :: nat

record agent_session =
  ag_token :: agent_token
  ag_audit :: audit_log
  ag_revocation :: "revocation_list option"
  ag_auto_approve :: "auto_approve_entry list"
  ag_locally_revoked :: bool

definition MAX_AUTO_APPROVE_ENTRIES :: nat where
  "MAX_AUTO_APPROVE_ENTRIES = 1000"

definition MAX_SCOPE_KEY_BYTES :: nat where
  "MAX_SCOPE_KEY_BYTES = 4096"

definition NANOS :: nat where
  "NANOS = 1000000000"

record auth_env =
  av_unix_now :: u64
  av_now_ms :: u64
  av_instant_check :: nat
  av_instant_add :: nat
  av_io :: io_result
  av_jti_string :: "u128 \<Rightarrow> string"
  av_action_string :: "json \<Rightarrow> string"

datatype auth_error =
    SessionRevoked
  | TokenRevoked
  | CapabilityNotGranted capability
  | AgentTokenExpired
  | ActionDenied
  | AuditFailure audit_error

definition open_with_revocation ::
  "agent_token \<Rightarrow> audit_log \<Rightarrow> revocation_list option \<Rightarrow> agent_session" where
  "open_with_revocation t L rvl =
     \<lparr>ag_token = t, ag_audit = L, ag_revocation = rvl, ag_auto_approve = [], ag_locally_revoked = False\<rparr>"

definition agent_open :: "agent_token \<Rightarrow> audit_log \<Rightarrow> agent_session" where
  "agent_open t L = open_with_revocation t L None"

definition is_auto_approved :: "nat \<Rightarrow> agent_session \<Rightarrow> capability \<Rightarrow> string \<Rightarrow> bool \<times> agent_session" where
  "is_auto_approved now S cap scope_key =
     (let entries = filter (\<lambda>e. aa_until e > now) (ag_auto_approve S)
      in (list_ex (\<lambda>e. aa_capability e = cap \<and> aa_scope_key e = scope_key) entries,
          S\<lparr>ag_auto_approve := entries\<rparr>))"

definition add_auto_approve :: "nat \<Rightarrow> agent_session \<Rightarrow> capability \<Rightarrow> string \<Rightarrow> nat \<Rightarrow> agent_session" where
  "add_auto_approve now S cap scope_key secs =
     (if length scope_key > MAX_SCOPE_KEY_BYTES then S
      else
        (let entries = (if length (ag_auto_approve S) \<ge> MAX_AUTO_APPROVE_ENTRIES
                        then tl (ag_auto_approve S) else ag_auto_approve S)
         in S\<lparr>ag_auto_approve := entries @
               [\<lparr>aa_capability = cap, aa_scope_key = scope_key, aa_until = now + secs * NANOS\<rparr>]\<rparr>))"

text \<open>One audit entry for the attempt.\<close>

definition session_log ::
  "audit_ext \<Rightarrow> auth_env \<Rightarrow> agent_session \<Rightarrow> capability \<Rightarrow> json \<Rightarrow> bool option \<Rightarrow> audit_outcome
    \<Rightarrow> (audit_error + u64) \<times> agent_session" where
  "session_log X V S cap action conf outcome =
     (let (r, L) = audit_append X (ag_audit S) (av_now_ms V) (av_io V)
                     (av_jti_string V (jti (payload (ag_token S)))) cap action conf outcome
      in (r, S\<lparr>ag_audit := L\<rparr>))"

definition deny ::
  "audit_ext \<Rightarrow> auth_env \<Rightarrow> agent_session \<Rightarrow> capability \<Rightarrow> json \<Rightarrow> auth_error
    \<Rightarrow> (auth_error + unit) \<times> confirm_request option \<times> agent_session" where
  "deny X V S cap action err =
     (case session_log X V S cap action None AuditDenied of
        (Inl e, S') \<Rightarrow> (Err (AuditFailure e), None, S')
      | (Inr _, S') \<Rightarrow> (Err err, None, S'))"

text \<open>The confirmation step: the decision, the request shown to the user, the session after it.\<close>

definition confirm_step ::
  "auth_env \<Rightarrow> (confirm_request \<Rightarrow> bool) \<Rightarrow> agent_session \<Rightarrow> capability \<Rightarrow> json \<Rightarrow> string
    \<Rightarrow> bool option \<times> confirm_request option \<times> agent_session" where
  "confirm_step V confirm S cap action scope_key =
     (if requires_confirmation cap then
        (case is_auto_approved (av_instant_check V) S cap scope_key of
           (True, S') \<Rightarrow> (Some True, None, S')
         | (False, S') \<Rightarrow>
             (let req = \<lparr>cr_agent_label = sub (payload (ag_token S)), cr_capability = cap,
                         cr_action_summary = av_action_string V action\<rparr>
              in if confirm req
                 then (Some True, Some req, add_auto_approve (av_instant_add V) S' cap scope_key 30)
                 else (Some False, Some req, S')))
      else (None, None, S))"

definition authorize ::
  "audit_ext \<Rightarrow> auth_env \<Rightarrow> (confirm_request \<Rightarrow> bool) \<Rightarrow> agent_session \<Rightarrow> capability \<Rightarrow> json \<Rightarrow> string
    \<Rightarrow> (auth_error + unit) \<times> confirm_request option \<times> agent_session" where
  "authorize X V confirm S cap action scope_key =
     (if ag_locally_revoked S then deny X V S cap action SessionRevoked
      else if (case ag_revocation S of None \<Rightarrow> False
               | Some rvl \<Rightarrow> is_revoked rvl (jti (payload (ag_token S))))
        then deny X V S cap action TokenRevoked
      else if \<not> has_capability (ag_token S) cap then deny X V S cap action (CapabilityNotGranted cap)
      else if seconds_remaining (ag_token S) (av_unix_now V) = 0
        then deny X V S cap action AgentTokenExpired
      else
        (let (confirmed, req, S1) = confirm_step V confirm S cap action scope_key;
             outcome = (if confirmed = Some False then AuditDenied else AuditOk)
         in case session_log X V S1 cap action confirmed outcome of
              (Inl e, S2) \<Rightarrow> (Err (AuditFailure e), req, S2)
            | (Inr _, S2) \<Rightarrow>
                if outcome = AuditDenied then (Err ActionDenied, req, S2) else (Ok (), req, S2)))"

definition session_revoke :: "agent_session \<Rightarrow> agent_session" where
  "session_revoke S = S\<lparr>ag_locally_revoked := True\<rparr>"

text \<open>
  \<open>audit_screen_capture\<close>: the provenance entry for a captured frame and the digest returned to
  the caller. An audit failure is ignored.
\<close>

definition audit_screen_capture ::
  "audit_ext \<Rightarrow> auth_env \<Rightarrow> agent_session \<Rightarrow> u8 \<Rightarrow> bytes \<Rightarrow> u64 \<Rightarrow> string \<times> agent_session" where
  "audit_screen_capture X V S display png sq =
     (let sha256 = hex_encode (ax_sha256 X png);
          action = JObj
            (obj_insert ''bytes'' (json_of_nat (length png))
            (obj_insert ''ts_secs'' (JNum (PosInt (av_unix_now V)))
            (obj_insert ''sha256'' (JStr sha256)
            (obj_insert ''frame_seq'' (JNum (PosInt sq))
            (obj_insert ''display'' (JNum (PosInt (ucast display)))
            (obj_insert ''kind'' (JStr ''screen_capture_provenance'') []))))))
      in (sha256, snd (session_log X V S ScreenRead action None AuditOk)))"

text \<open>
  Runs of a session. \<open>session_run X S hs\<close>: the state \<open>S\<close> is reached from an opened
  session, and \<open>hs\<close> records for every confirmation the user gave the instant, the capability
  and the scope. Steps are authorizations with any environment and any user, local revocation,
  a change of the shared revocation list by its owner, and provenance entries.
\<close>

inductive session_run ::
  "audit_ext \<Rightarrow> agent_session \<Rightarrow> (nat \<times> capability \<times> string) list \<Rightarrow> bool" for X where
  run_open: "session_run X (open_with_revocation t L rvl) []"
| run_authorize: "session_run X S hs \<Longrightarrow> authorize X V confirm S cap action key = (res, req, S') \<Longrightarrow>
    session_run X S'
      (hs @ (case req of None \<Rightarrow> [] | Some r \<Rightarrow> if confirm r then [(av_instant_add V, cap, key)] else []))"
| run_revoke: "session_run X S hs \<Longrightarrow> session_run X (session_revoke S) hs"
| run_list: "session_run X S hs \<Longrightarrow> session_run X (S\<lparr>ag_revocation := rvl\<rparr>) hs"
| run_capture: "session_run X S hs \<Longrightarrow> audit_screen_capture X V S display png sq = (d, S') \<Longrightarrow>
    session_run X S' hs"

text \<open>Concrete sessions for the witnesses: an agent that may read the screen and run commands.\<close>

definition wit_session :: agent_session where
  "wit_session = agent_open \<lparr>payload = wit_payload\<lparr>caps := [ScreenRead, ShellExec]\<rparr>, signature = []\<rparr> fresh_log"

definition wit_env :: auth_env where
  "wit_env = \<lparr>av_unix_now = 1500, av_now_ms = 10, av_instant_check = 7, av_instant_add = 8, av_io = IoDone,
     av_jti_string = (\<lambda>_. ''jti1''), av_action_string = (\<lambda>_. ''{}'')\<rparr>"

definition wit_session_ext :: audit_ext where
  "wit_session_ext = \<lparr>ax_sha256 = (\<lambda>bs. bs),
     ax_to_string = (\<lambda>e. Some
       [case ae_confirmed e of None \<Rightarrow> CHR ''n'' | Some b \<Rightarrow> if b then CHR ''t'' else CHR ''f'',
        case ae_outcome e of AuditOk \<Rightarrow> CHR ''o'' | AuditDenied \<Rightarrow> CHR ''d'' | AuditError \<Rightarrow> CHR ''e'']),
     ax_from_str = (\<lambda>s. Some (wit_entry0\<lparr>
        ae_confirmed := (if s ! 0 = CHR ''n'' then None else Some (s ! 0 = CHR ''t'')),
        ae_outcome := (if s ! 1 = CHR ''o'' then AuditOk else if s ! 1 = CHR ''d'' then AuditDenied else AuditError)\<rparr>))\<rparr>"

definition wit_session1 :: agent_session where
  "wit_session1 = snd (snd (authorize wit_session_ext wit_env (\<lambda>_. True) wit_session ShellExec (JObj []) ''k''))"

section \<open>Frame lemmas\<close>

lemma session_log_frame [simp]:
  "ag_token (snd (session_log X V S cap action conf out)) = ag_token S"
  "ag_revocation (snd (session_log X V S cap action conf out)) = ag_revocation S"
  "ag_auto_approve (snd (session_log X V S cap action conf out)) = ag_auto_approve S"
  "ag_locally_revoked (snd (session_log X V S cap action conf out)) = ag_locally_revoked S"
  by (simp_all add: session_log_def split: prod.splits)

lemma session_log_frameD:
  assumes "session_log X V S cap action conf out = (r, S')"
  shows "ag_token S' = ag_token S \<and> ag_revocation S' = ag_revocation S \<and>
    ag_auto_approve S' = ag_auto_approve S \<and> ag_locally_revoked S' = ag_locally_revoked S"
  using assms session_log_frame [of X V S cap action conf out] by simp

lemma deny_frame:
  assumes "deny X V S cap action err = (res, req, S')"
  shows "\<not> is_ok res \<and> req = None \<and> ag_auto_approve S' = ag_auto_approve S \<and>
    ag_locally_revoked S' = ag_locally_revoked S"
  using assms
  by (auto simp: deny_def split: prod.splits sum.splits dest!: session_log_frameD)

lemma add_auto_approve_frame [simp]:
  "ag_token (add_auto_approve now S cap key secs) = ag_token S"
  "ag_locally_revoked (add_auto_approve now S cap key secs) = ag_locally_revoked S"
  "ag_audit (add_auto_approve now S cap key secs) = ag_audit S"
  by (simp_all add: add_auto_approve_def Let_def)

lemma confirm_step_frame:
  assumes "confirm_step V confirm S cap action key = (c, req, S')"
  shows "ag_token S' = ag_token S \<and> ag_locally_revoked S' = ag_locally_revoked S \<and> ag_audit S' = ag_audit S"
  using assms
  by (auto simp: confirm_step_def is_auto_approved_def Let_def split: if_splits bool.splits)

text \<open>The result of the confirmation step.\<close>

lemma confirm_step_result:
  assumes "confirm_step V confirm S cap action key = (c, req, S')"
  shows "(c = None \<longleftrightarrow> \<not> requires_confirmation cap) \<and>
    (c = Some True \<longrightarrow> (req = None \<and> (\<exists>e \<in> set (ag_auto_approve S). aa_capability e = cap \<and>
        aa_scope_key e = key \<and> av_instant_check V < aa_until e)) \<or>
      (\<exists>r. req = Some r \<and> confirm r \<and> cr_capability r = cap)) \<and>
    (c = Some False \<longrightarrow> (\<exists>r. req = Some r \<and> \<not> confirm r))"
  using assms
  by (auto simp: confirm_step_def is_auto_approved_def Let_def list_ex_iff split: if_splits bool.splits)

section \<open>Authorization\<close>

definition auth_admissible :: "auth_env \<Rightarrow> agent_session \<Rightarrow> capability \<Rightarrow> bool" where
  "auth_admissible V S cap \<longleftrightarrow> \<not> ag_locally_revoked S \<and>
     (\<forall>rvl. ag_revocation S = Some rvl \<longrightarrow> \<not> is_revoked rvl (jti (payload (ag_token S)))) \<and>
     cap \<in> set (caps (payload (ag_token S))) \<and> av_unix_now V < tok_exp (payload (ag_token S))"

lemma authorize_admissible:
  assumes "auth_admissible V S cap"
  shows "authorize X V confirm S cap action key =
    (let (confirmed, req, S1) = confirm_step V confirm S cap action key;
         outcome = (if confirmed = Some False then AuditDenied else AuditOk)
     in case session_log X V S1 cap action confirmed outcome of
          (Inl e, S2) \<Rightarrow> (Err (AuditFailure e), req, S2)
        | (Inr _, S2) \<Rightarrow>
            if outcome = AuditDenied then (Err ActionDenied, req, S2) else (Ok (), req, S2))"
  using assms
  by (auto simp: authorize_def auth_admissible_def has_capability_def seconds_remaining_def
      sat_sub_zero_iff not_le split: option.splits)

lemma authorize_inadmissible:
  assumes "\<not> auth_admissible V S cap"
  shows "\<exists>err. authorize X V confirm S cap action key = deny X V S cap action err"
  using assms
  by (auto simp: authorize_def auth_admissible_def has_capability_def seconds_remaining_def
      sat_sub_zero_iff split: option.splits if_splits)

lemma authorize_cases:
  assumes "authorize X V confirm S cap action key = (res, req, S')"
  obtains (denied) err where "\<not> auth_admissible V S cap" "deny X V S cap action err = (res, req, S')"
  | (checked) c S1 r where "auth_admissible V S cap" "confirm_step V confirm S cap action key = (c, req, S1)"
      "session_log X V S1 cap action c (if c = Some False then AuditDenied else AuditOk) = (r, S')"
      "res = (case r of Inl e \<Rightarrow> Err (AuditFailure e) | Inr _ \<Rightarrow> if c = Some False then Err ActionDenied else Ok ())"
proof (cases "auth_admissible V S cap")
  case True
  obtain c q S1 where c: "confirm_step V confirm S cap action key = (c, q, S1)"
    by (metis prod_cases3)
  obtain r S2 where r: "session_log X V S1 cap action c (if c = Some False then AuditDenied else AuditOk) = (r, S2)"
    by (metis surj_pair)
  show ?thesis
    using assms True c r
    by (intro checked [OF True, of c S1 r]) (auto simp: authorize_admissible Let_def split: sum.splits if_splits)
next
  case False
  with assms authorize_inadmissible [OF False, of X confirm action key] denied show ?thesis by metis
qed

section \<open>The invariant of the auto-approve cache\<close>

definition approval_ok :: "(nat \<times> capability \<times> string) list \<Rightarrow> auto_approve_entry \<Rightarrow> bool" where
  "approval_ok hs e \<longleftrightarrow> length (aa_scope_key e) \<le> MAX_SCOPE_KEY_BYTES \<and>
     (\<exists>t. (t, aa_capability e, aa_scope_key e) \<in> set hs \<and> aa_until e = t + 30 * NANOS)"

definition cache_inv :: "(nat \<times> capability \<times> string) list \<Rightarrow> agent_session \<Rightarrow> bool" where
  "cache_inv hs S \<longleftrightarrow> length (ag_auto_approve S) \<le> MAX_AUTO_APPROVE_ENTRIES \<and>
     list_all (approval_ok hs) (ag_auto_approve S)"

lemma approval_ok_mono: "approval_ok hs e \<Longrightarrow> approval_ok (hs @ gs) e"
  by (auto simp: approval_ok_def)

lemma cache_inv_mono: "cache_inv hs S \<Longrightarrow> ag_auto_approve S' = ag_auto_approve S \<Longrightarrow> cache_inv (hs @ gs) S'"
  by (auto simp: cache_inv_def list_all_iff approval_ok_mono)

lemma is_auto_approved_inv:
  assumes "cache_inv hs S" "is_auto_approved now S cap key = (b, S')"
  shows "cache_inv hs S'"
proof -
  have S': "ag_auto_approve S' = filter (\<lambda>e. aa_until e > now) (ag_auto_approve S)"
    using assms(2) by (auto simp: is_auto_approved_def Let_def)
  have "length (ag_auto_approve S') \<le> MAX_AUTO_APPROVE_ENTRIES"
    using assms(1) by (auto simp: cache_inv_def S' intro: le_trans [OF length_filter_le])
  with assms(1) show ?thesis by (auto simp: cache_inv_def S' list_all_iff)
qed

lemma add_auto_approve_inv:
  assumes "cache_inv hs S"
  shows "cache_inv (hs @ [(now, cap, key)]) (add_auto_approve now S cap key 30)"
proof (cases "length key > MAX_SCOPE_KEY_BYTES")
  case True
  then show ?thesis
    using cache_inv_mono [OF assms refl] by (simp add: add_auto_approve_def)
next
  case False
  let ?es = "if length (ag_auto_approve S) \<ge> MAX_AUTO_APPROVE_ENTRIES then tl (ag_auto_approve S) else ag_auto_approve S"
  have "set ?es \<subseteq> set (ag_auto_approve S)"
    by (cases "ag_auto_approve S") auto
  then have "list_all (approval_ok (hs @ [(now, cap, key)])) ?es"
    using assms by (auto simp: cache_inv_def list_all_iff approval_ok_mono simp del: if_split)
  moreover have "length ?es + 1 \<le> MAX_AUTO_APPROVE_ENTRIES"
    using assms by (auto simp: cache_inv_def MAX_AUTO_APPROVE_ENTRIES_def)
  moreover have "approval_ok (hs @ [(now, cap, key)])
      \<lparr>aa_capability = cap, aa_scope_key = key, aa_until = now + 30 * NANOS\<rparr>"
    using False by (auto simp: approval_ok_def)
  ultimately show ?thesis
    using False by (simp add: add_auto_approve_def Let_def cache_inv_def)
qed

abbreviation approvals_of ::
  "confirm_request option \<Rightarrow> (confirm_request \<Rightarrow> bool) \<Rightarrow> nat \<Rightarrow> capability \<Rightarrow> string \<Rightarrow> (nat \<times> capability \<times> string) list" where
  "approvals_of req confirm now cap key \<equiv>
     (case req of None \<Rightarrow> [] | Some r \<Rightarrow> if confirm r then [(now, cap, key)] else [])"

lemma confirm_step_inv:
  assumes "cache_inv hs S" "confirm_step V confirm S cap action key = (c, req, S')"
  shows "cache_inv (hs @ approvals_of req confirm (av_instant_add V) cap key) S'"
proof (cases "requires_confirmation cap")
  case True
  obtain b S1 where b: "is_auto_approved (av_instant_check V) S cap key = (b, S1)" by fastforce
  have inv: "cache_inv hs S1" using is_auto_approved_inv [OF assms(1) b] .
  show ?thesis
    using assms(2) True b inv add_auto_approve_inv [OF inv]
    by (cases b) (auto simp: confirm_step_def Let_def split: if_splits)
next
  case False
  with assms show ?thesis by (simp add: confirm_step_def)
qed

lemma authorize_cache_inv:
  assumes "cache_inv hs S" "authorize X V confirm S cap action key = (res, req, S')"
  shows "cache_inv (hs @ approvals_of req confirm (av_instant_add V) cap key) S'"
  using assms(2)
proof (cases rule: authorize_cases)
  case (denied err)
  then show ?thesis
    using cache_inv_mono [OF assms(1)] by (auto dest!: deny_frame)
next
  case (checked c S1 r)
  have "cache_inv (hs @ approvals_of req confirm (av_instant_add V) cap key) S1"
    using confirm_step_inv [OF assms(1) checked(2)] .
  with session_log_frameD [OF checked(3)] show ?thesis
    by (simp add: cache_inv_def)
qed

lemma session_run_inv: "session_run X S hs \<Longrightarrow> cache_inv hs S"
proof (induction rule: session_run.induct)
  case (run_open t L rvl)
  show ?case by (simp add: cache_inv_def open_with_revocation_def)
next
  case (run_authorize S hs V confirm cap action key res req S')
  then show ?case using authorize_cache_inv by blast
next
  case (run_revoke S hs)
  then show ?case by (simp add: cache_inv_def session_revoke_def)
next
  case (run_list S hs rvl)
  then show ?case by (simp add: cache_inv_def)
next
  case (run_capture S hs V display png sq d S')
  then show ?case
    by (auto simp: cache_inv_def audit_screen_capture_def Let_def)
qed

section \<open>Properties\<close>

text \<open>
  C1. An action is allowed only when the session and the token are not revoked, the token grants the
  capability and has not expired, and, for a dangerous capability, the user was asked and agreed or an
  unexpired approval for the same capability and scope is in the cache.
\<close>

theorem authorize_sound:
  assumes "authorize X V confirm S cap action key = (Ok (), req, S')"
  shows "\<not> ag_locally_revoked S \<and>
    (\<forall>rvl. ag_revocation S = Some rvl \<longrightarrow> \<not> is_revoked rvl (jti (payload (ag_token S)))) \<and>
    cap \<in> set (caps (payload (ag_token S))) \<and> av_unix_now V < tok_exp (payload (ag_token S)) \<and>
    (security_level cap = Dangerous \<longrightarrow>
       (\<exists>r. req = Some r \<and> confirm r \<and> cr_capability r = cap) \<or>
       (req = None \<and> (\<exists>e \<in> set (ag_auto_approve S). aa_capability e = cap \<and> aa_scope_key e = key \<and>
          av_instant_check V < aa_until e)))"
  using assms
proof (cases rule: authorize_cases)
  case (denied err)
  then show ?thesis by (auto dest!: deny_frame)
next
  case (checked c S1 r)
  from checked(4) have "c \<noteq> Some False" by (auto split: sum.splits if_splits)
  with confirm_step_result [OF checked(2)]
  have "requires_confirmation cap \<longrightarrow> c = Some True" by (cases c) auto
  with confirm_step_result [OF checked(2)] checked(1) show ?thesis
    by (auto simp: auth_admissible_def requires_confirmation_def)
qed

theorem authorize_sound_witness:
  "\<exists>S'. authorize wit_audit_ext wit_env (\<lambda>_. True) wit_session ShellExec (JObj []) ''k'' =
     (Ok (), Some \<lparr>cr_agent_label = ''agent'', cr_capability = ShellExec, cr_action_summary = ''{}''\<rparr>, S') \<and>
   ShellExec \<in> set (caps (payload (ag_token wit_session)))"
proof -
  have "\<exists>S'. authorize wit_audit_ext wit_env (\<lambda>_. True) wit_session ShellExec (JObj []) ''k'' =
    (Ok (), Some \<lparr>cr_agent_label = ''agent'', cr_capability = ShellExec, cr_action_summary = ''{}''\<rparr>, S')"
    by (simp add: authorize_def wit_session_def agent_open_def open_with_revocation_def wit_payload_def
        has_capability_def seconds_remaining_def sat_sub_def wit_env_def confirm_step_def requires_confirmation_def
        is_auto_approved_def add_auto_approve_def Let_def session_log_def wit_audit_defs)
  then obtain S' where "authorize wit_audit_ext wit_env (\<lambda>_. True) wit_session ShellExec (JObj []) ''k'' =
    (Ok (), Some \<lparr>cr_agent_label = ''agent'', cr_capability = ShellExec, cr_action_summary = ''{}''\<rparr>, S')" ..
  from this authorize_sound [OF this] show ?thesis by blast
qed

text \<open>
  C15. Every attempt is logged, whatever its outcome: with a working disk, one call of the gate adds
  exactly one entry to the audit chain, with the capability, the redacted action, and the outcome
  \<open>Ok\<close> if the action was allowed and \<open>Denied\<close> if it was not.
\<close>

theorem authorize_audited:
  assumes wf: "audit_wf X (ag_audit S) es" and io: "av_io V = IoDone"
    and codec: "\<And>conf out. audit_codec_ok X (audit_entry_for X (ag_audit S) (av_now_ms V)
        (av_jti_string V (jti (payload (ag_token S)))) cap action conf out)"
    and auth: "authorize X V confirm S cap action key = (res, req, S')"
  shows "\<exists>e. audit_wf X (ag_audit S') (es @ [e]) \<and> ae_capability e = cap \<and>
    ae_action e = redact_action (ax_sha256 X) cap action \<and>
    ae_outcome e = (if res = Ok () then AuditOk else AuditDenied)"
proof -
  have log: "\<exists>e n. fst (session_log X V T cap action conf out) = Ok n \<and>
      audit_wf X (ag_audit (snd (session_log X V T cap action conf out))) (es @ [e]) \<and>
      ae_capability e = cap \<and> ae_action e = redact_action (ax_sha256 X) cap action \<and> ae_outcome e = out"
    if "ag_audit T = ag_audit S" "ag_token T = ag_token S" for T conf out
  proof -
    let ?r = "(av_now_ms V, av_jti_string V (jti (payload (ag_token S))), cap, action, conf, out)"
    have c: "audit_codec_ok X (request_entry X (ag_audit S) ?r)" using codec by simp
    have s: "session_log X V T cap action conf out =
        (fst (append_request X (ag_audit S) IoDone ?r), T\<lparr>ag_audit := snd (append_request X (ag_audit S) IoDone ?r)\<rparr>)"
      using that io by (simp add: session_log_def split: prod.splits)
    show ?thesis
      unfolding s using append_request_done [OF wf c]
      by (intro exI [of _ "request_entry X (ag_audit S) ?r"]) (simp add: audit_entry_for_def)
  qed
  from auth show ?thesis
  proof (cases rule: authorize_cases)
    case (denied err)
    from log [of S None AuditDenied] denied(2) show ?thesis
      by (auto simp: deny_def split: prod.splits)
  next
    case (checked c S1 r)
    note fr = confirm_step_frame [OF checked(2)]
    from log [of S1 c "if c = Some False then AuditDenied else AuditOk"] fr checked(3,4) show ?thesis
      by auto
  qed
qed

lemma wit_session_codec:
  "audit_codec_ok wit_session_ext (audit_entry_for wit_session_ext fresh_log 10 ''jti1'' ScreenRead (JObj []) conf out)"
  by (cases conf; cases out)
     (auto simp: audit_codec_ok_def line_codec_ok_def wit_session_ext_def audit_entry_for_def wit_entry0_def
       fresh_log_def redact_image_field_def utf8_valid_def is_blank_def split: if_splits bool.splits)

lemmas wit_authorize_defs = authorize_def wit_session_def agent_open_def open_with_revocation_def
  wit_payload_def has_capability_def seconds_remaining_def sat_sub_def wit_env_def confirm_step_def
  requires_confirmation_def is_auto_approved_def add_auto_approve_def Let_def session_log_def
  audit_append_def wit_session_ext_def audit_hash_def

theorem authorize_audited_witness:
  "\<exists>S' e. authorize wit_session_ext wit_env (\<lambda>_. True) wit_session ScreenRead (JObj []) ''k'' = (Ok (), None, S') \<and>
     audit_wf wit_session_ext (ag_audit S') [e] \<and> ae_outcome e = AuditOk"
proof -
  have "\<exists>S'. authorize wit_session_ext wit_env (\<lambda>_. True) wit_session ScreenRead (JObj []) ''k'' = (Ok (), None, S')"
    by (simp add: wit_authorize_defs)
  then obtain S' where a: "authorize wit_session_ext wit_env (\<lambda>_. True) wit_session ScreenRead (JObj []) ''k'' = (Ok (), None, S')" ..
  have wf: "audit_wf wit_session_ext (ag_audit wit_session) []"
    by (simp add: wit_session_def agent_open_def open_with_revocation_def audit_wf_fresh)
  have c: "audit_codec_ok wit_session_ext (audit_entry_for wit_session_ext (ag_audit wit_session) (av_now_ms wit_env)
      (av_jti_string wit_env (jti (payload (ag_token wit_session)))) ScreenRead (JObj []) conf out)" for conf out
    using wit_session_codec by (simp add: wit_env_def wit_session_def agent_open_def open_with_revocation_def)
  from authorize_audited [OF wf _ c a] a show ?thesis by (auto simp: wit_env_def)
qed

text \<open>
  C14. A dangerous action that is allowed without asking the user was approved by the user before:
  in every run of a session, there is an earlier confirmation for the same capability and the same
  scope, less than thirty seconds before the check.
\<close>

theorem silent_approval_was_confirmed:
  assumes "session_run X S hs" and "authorize X V confirm S cap action key = (Ok (), None, S')"
    and "security_level cap = Dangerous"
  shows "\<exists>t. (t, cap, key) \<in> set hs \<and> av_instant_check V < t + 30 * NANOS"
proof -
  obtain e where e: "e \<in> set (ag_auto_approve S)" "aa_capability e = cap" "aa_scope_key e = key"
    "av_instant_check V < aa_until e"
    using authorize_sound [OF assms(2)] assms(3) by auto
  have "approval_ok hs e"
    using session_run_inv [OF assms(1)] e(1) by (auto simp: cache_inv_def list_all_iff)
  with e show ?thesis by (auto simp: approval_ok_def)
qed

theorem silent_approval_was_confirmed_witness:
  "\<exists>S'. authorize wit_session_ext wit_env (\<lambda>_. False) wit_session1 ShellExec (JObj []) ''k'' = (Ok (), None, S') \<and>
     session_run wit_session_ext wit_session1 [(8, ShellExec, ''k'')] \<and> (7 :: nat) < 8 + 30 * NANOS"
proof -
  have "session_run wit_session_ext wit_session []"
    unfolding wit_session_def agent_open_def by (rule run_open)
  moreover have "\<exists>req. authorize wit_session_ext wit_env (\<lambda>_. True) wit_session ShellExec (JObj []) ''k'' =
      (Ok (), Some req, wit_session1)"
    unfolding wit_session1_def by (simp add: wit_authorize_defs)
  ultimately have run: "session_run wit_session_ext wit_session1 [(8, ShellExec, ''k'')]"
    using run_authorize [of wit_session_ext wit_session "[]" wit_env "\<lambda>_. True"] by (fastforce simp: wit_env_def)
  have "\<exists>S'. authorize wit_session_ext wit_env (\<lambda>_. False) wit_session1 ShellExec (JObj []) ''k'' = (Ok (), None, S')"
    unfolding wit_session1_def by (simp add: wit_authorize_defs MAX_SCOPE_KEY_BYTES_def MAX_AUTO_APPROVE_ENTRIES_def NANOS_def)
  then obtain S' where a: "authorize wit_session_ext wit_env (\<lambda>_. False) wit_session1 ShellExec (JObj []) ''k'' =
      (Ok (), None, S')" ..
  from silent_approval_was_confirmed [OF run a] a run show ?thesis by (auto simp: wit_env_def)
qed

text \<open>
  The auto-approve cache stays bounded in every run: at most a thousand entries, and no key
  longer than 4096 bytes.
\<close>

theorem auto_approve_bounded:
  assumes "session_run X S hs"
  shows "length (ag_auto_approve S) \<le> 1000 \<and>
    (\<forall>e \<in> set (ag_auto_approve S). length (aa_scope_key e) \<le> 4096)"
  using session_run_inv [OF assms]
  by (auto simp: cache_inv_def list_all_iff approval_ok_def MAX_AUTO_APPROVE_ENTRIES_def MAX_SCOPE_KEY_BYTES_def)

theorem auto_approve_bounded_witness:
  "session_run wit_audit_ext wit_session [] \<and> length (ag_auto_approve wit_session) \<le> 1000"
proof -
  have "session_run wit_audit_ext wit_session []"
    unfolding wit_session_def agent_open_def by (rule run_open)
  from this auto_approve_bounded [OF this] show ?thesis by blast
qed

text \<open>
  Local revocation is final: after \<open>revoke\<close>, every call of the gate fails, with any
  user, any clock and any capability, and the session stays revoked.
\<close>

theorem session_revoke_final:
  assumes "authorize X V confirm (session_revoke S) cap action key = (res, req, S')"
  shows "\<not> is_ok res \<and> req = None \<and> ag_locally_revoked S' \<and>
    (av_io V = IoDone \<longrightarrow> audit_wf X (ag_audit S) es \<longrightarrow>
       audit_codec_ok X (audit_entry_for X (ag_audit S) (av_now_ms V)
         (av_jti_string V (jti (payload (ag_token S)))) cap action None AuditDenied) \<longrightarrow>
       res = Err SessionRevoked)"
proof -
  have d: "deny X V (session_revoke S) cap action SessionRevoked = (res, req, S')"
    using assms by (simp add: authorize_def session_revoke_def)
  let ?r = "(av_now_ms V, av_jti_string V (jti (payload (ag_token S))), cap, action, None, AuditDenied)"
  have "res = Err SessionRevoked"
    if "av_io V = IoDone" "audit_wf X (ag_audit S) es" "audit_codec_ok X (request_entry X (ag_audit S) ?r)"
    using append_request_done(1) [OF that(2,3)] d that(1)
    by (auto simp: deny_def session_log_def session_revoke_def split: prod.splits)
  with deny_frame [OF d] show ?thesis
    by (simp add: session_revoke_def)
qed

theorem session_revoke_final_witness:
  "\<exists>S'. authorize wit_session_ext wit_env (\<lambda>_. True) (session_revoke wit_session) ScreenRead (JObj []) ''k'' =
     (Err SessionRevoked, None, S') \<and> ag_locally_revoked S'"
proof -
  have "\<exists>S'. authorize wit_session_ext wit_env (\<lambda>_. True) (session_revoke wit_session) ScreenRead (JObj []) ''k'' =
     (Err SessionRevoked, None, S')"
    by (simp add: wit_authorize_defs session_revoke_def deny_def)
  then obtain S' where a: "authorize wit_session_ext wit_env (\<lambda>_. True) (session_revoke wit_session) ScreenRead (JObj []) ''k'' =
     (Err SessionRevoked, None, S')" ..
  from session_revoke_final [OF a] a show ?thesis by blast
qed

end
