(* ===== verification/Replay_Filter.thy ===== *)
theory Replay_Filter
  imports Prelude
begin

text \<open>
  Contracts of replay protection. \<open>once_filter\<close> is a filter that remembers every accepted
  identifier for ever, so that no identifier passes twice (the record-layer window).
  \<open>recent_filter\<close> remembers the last \<open>cap\<close> accepted identifiers, so that an identifier
  passes again only after \<open>cap\<close> others (the nonce guard of the tool server).
  Both are interpreted by the components that implement them.
\<close>

section \<open>Filters that never forget\<close>

locale once_filter =
  fixes accept :: "'s \<Rightarrow> 'i \<Rightarrow> bool"
    and upd :: "'s \<Rightarrow> 'i \<Rightarrow> 's"
    and rep :: "'s \<Rightarrow> 'i set \<Rightarrow> bool"
  assumes accept_fresh: "rep s A \<Longrightarrow> accept s i \<Longrightarrow> i \<notin> A"
    and rep_accept: "rep s A \<Longrightarrow> accept s i \<Longrightarrow> rep (upd s i) (insert i A)"
    and rep_reject: "rep s A \<Longrightarrow> \<not> accept s i \<Longrightarrow> rep (upd s i) A"
begin

primrec accepted :: "'s \<Rightarrow> 'i list \<Rightarrow> 'i list" where
  "accepted s [] = []"
| "accepted s (i # is) = (if accept s i then i # accepted (upd s i) is else accepted (upd s i) is)"

lemma rep_run: "rep s A \<Longrightarrow> rep (foldl upd s is) (A \<union> set (accepted s is))"
proof (induction "is" arbitrary: s A)
  case (Cons i "is")
  show ?case
  proof (cases "accept s i")
    case True
    with Cons.IH [OF rep_accept [OF Cons.prems True]] show ?thesis by simp
  next
    case False
    with Cons.IH [OF rep_reject [OF Cons.prems False]] show ?thesis by simp
  qed
qed simp

lemma accepted_fresh: "rep s A \<Longrightarrow> distinct (accepted s is) \<and> set (accepted s is) \<inter> A = {}"
proof (induction "is" arbitrary: s A)
  case (Cons i "is")
  show ?case
  proof (cases "accept s i")
    case True
    from Cons.IH [OF rep_accept [OF Cons.prems True]] accept_fresh [OF Cons.prems True] True
    show ?thesis by auto
  next
    case False
    with Cons.IH [OF rep_reject [OF Cons.prems False]] show ?thesis by simp
  qed
qed simp

end

section \<open>Filters with a bounded memory\<close>

locale recent_filter =
  fixes accept :: "'s \<Rightarrow> 'i \<Rightarrow> bool"
    and upd :: "'s \<Rightarrow> 'i \<Rightarrow> 's"
    and recent :: "'s \<Rightarrow> 'i list"
    and ok :: "'s \<Rightarrow> bool"
    and cap :: nat
  assumes cap_pos: "0 < cap"
    and accept_iff: "ok s \<Longrightarrow> accept s i \<longleftrightarrow> i \<notin> set (recent s)"
    and recent_accept: "ok s \<Longrightarrow> accept s i \<Longrightarrow>
      recent (upd s i) = drop (length (recent s) + 1 - cap) (recent s @ [i])"
    and upd_reject: "ok s \<Longrightarrow> \<not> accept s i \<Longrightarrow> upd s i = s"
    and ok_upd: "ok s \<Longrightarrow> ok (upd s i)"
    and recent_bound: "ok s \<Longrightarrow> length (recent s) \<le> cap"
begin

primrec accepted_count :: "'s \<Rightarrow> 'i list \<Rightarrow> nat" where
  "accepted_count s [] = 0"
| "accepted_count s (i # is) = (if accept s i then 1 else 0) + accepted_count (upd s i) is"

lemma ok_run: "ok s \<Longrightarrow> ok (foldl upd s is)"
  by (induction "is" arbitrary: s) (auto intro: ok_upd)

text \<open>The last \<open>k\<close> remembered identifiers stay remembered for \<open>cap - k\<close> acceptances.\<close>

lemma recent_suffix_run:
  assumes "ok s" "recent s = xs @ ys" "length ys + accepted_count s is \<le> cap"
  shows "\<exists>xs' zs. recent (foldl upd s is) = xs' @ ys @ zs"
  using assms
proof (induction "is" arbitrary: s xs ys)
  case Nil
  then have "recent (foldl upd s []) = xs @ ys @ []" by simp
  then show ?case by blast
next
  case (Cons i "is")
  show ?case
  proof (cases "accept s i")
    case False
    then show ?thesis
      using Cons.IH [OF Cons.prems(1) Cons.prems(2)] Cons.prems by (simp add: upd_reject)
  next
    case True
    have ok': "ok (upd s i)" using Cons.prems(1) by (rule ok_upd)
    let ?d = "length (recent s) + 1 - cap"
    have "?d \<le> length xs"
      using Cons.prems(2,3) True by simp
    then have "recent (upd s i) = drop ?d xs @ (ys @ [i])"
      using recent_accept [OF Cons.prems(1) True] Cons.prems(2) by simp
    moreover have "length (ys @ [i]) + accepted_count (upd s i) is \<le> cap"
      using Cons.prems(3) True by simp
    ultimately show ?thesis
      using Cons.IH [OF ok', of "drop ?d xs" "ys @ [i]"] by fastforce
  qed
qed

lemma rejected_while_recent:
  assumes "ok s" "accept s i" "accepted_count (upd s i) is < cap"
  shows "\<not> accept (foldl upd (upd s i) is) i"
proof -
  have "recent (upd s i) = drop (length (recent s) + 1 - cap) (recent s) @ [i]"
    using recent_accept [OF assms(1,2)] recent_bound [OF assms(1)] cap_pos by simp
  from recent_suffix_run [OF ok_upd [OF assms(1)] this, of "is"] assms(3)
  have "i \<in> set (recent (foldl upd (upd s i) is))" by fastforce
  then show ?thesis
    using accept_iff ok_run ok_upd assms(1) by blast
qed

end

end
