(* ===== verification/Session_Cipher.thy ===== *)
theory Session_Cipher
  imports Externals Replay_Filter
begin

unbundle bit_operations_syntax

text \<open>
  Record encryption (\<open>miru-common/src/crypto.rs\<close>): the send counter, the nonce and frame
  layout, and the 128-entry sliding replay window of the receiver. ChaCha20-Poly1305 and HKDF are
  parameters. The counter wraps as \<open>AtomicU64::fetch_add\<close> does.
\<close>

section \<open>Definitions\<close>

definition REPLAY_WINDOW :: u64 where
  "REPLAY_WINDOW = 128"

definition MIN_CIPHERTEXT_LEN :: nat where
  "MIN_CIPHERTEXT_LEN = 8 + 16"

record replay_window =
  rw_highest :: u64
  rw_initialised :: bool
  rw_bitmap :: u128

record session_cipher =
  sc_key_bytes :: bytes
  sc_send_nonce :: u64
  sc_replay :: replay_window

datatype cipher_error =
    CounterExhausted | EncryptFailed | InputTooShort nat | ReplayHighest u64 | ReplayTooOld u64 u64
  | ReplaySeen u64 | DecryptFailed | HkdfFailed

definition replay_default :: replay_window where
  "replay_default = \<lparr>rw_highest = 0, rw_initialised = False, rw_bitmap = 0\<rparr>"

definition cipher_new :: "bytes \<Rightarrow> session_cipher" where
  "cipher_new key = \<lparr>sc_key_bytes = key, sc_send_nonce = 0, sc_replay = replay_default\<rparr>"

text \<open>HKDF-SHA256 with the salt \<open>miru-subkey-v1\<close> is the parameter \<open>hkdf salt key info\<close>.\<close>

definition derive_subkey ::
  "(bytes \<Rightarrow> bytes \<Rightarrow> bytes \<Rightarrow> bytes option) \<Rightarrow> session_cipher \<Rightarrow> bytes \<Rightarrow> cipher_error + session_cipher" where
  "derive_subkey hkdf C info =
     (case hkdf (as_bytes ''miru-subkey-v1'') (sc_key_bytes C) info of
        None \<Rightarrow> Err HkdfFailed
      | Some sub \<Rightarrow> Ok (cipher_new sub))"

definition nonce_from_u64 :: "u64 \<Rightarrow> bytes" where
  "nonce_from_u64 v = le_bytes 8 (unat v) @ replicate 4 0"

definition cipher_encrypt ::
  "aead \<Rightarrow> session_cipher \<Rightarrow> bytes \<Rightarrow> (cipher_error + bytes) \<times> session_cipher" where
  "cipher_encrypt A C plaintext =
     (let sq = sc_send_nonce C;
          C' = C\<lparr>sc_send_nonce := sq + 1\<rparr>
      in if sq \<ge> 0xFFFFFFFFFFFFFFFF - 1 then (Err CounterExhausted, C')
         else (case aead_seal A (sc_key_bytes C) (nonce_from_u64 sq) plaintext of
                 None \<Rightarrow> (Err EncryptFailed, C')
               | Some ct \<Rightarrow> (Ok (le_bytes 8 (unat sq) @ ct), C')))"

definition check_and_record_seq :: "replay_window \<Rightarrow> u64 \<Rightarrow> (cipher_error + unit) \<times> replay_window" where
  "check_and_record_seq w sq =
     (if \<not> rw_initialised w then
        (Ok (), \<lparr>rw_highest = sq, rw_initialised = True, rw_bitmap = 1\<rparr>)
      else if sq > rw_highest w then
        (let delta = sq - rw_highest w
         in (Ok (), w\<lparr>rw_bitmap := (if delta \<ge> 128 then 1 else push_bit (unat delta) (rw_bitmap w) OR 1),
                      rw_highest := sq\<rparr>))
      else if sq = rw_highest w then (Err (ReplayHighest sq), w)
      else
        (let offset = rw_highest w - sq
         in if offset \<ge> REPLAY_WINDOW then (Err (ReplayTooOld sq (rw_highest w)), w)
            else
              (let b = push_bit (unat offset) (1 :: u128)
               in if rw_bitmap w AND b \<noteq> 0 then (Err (ReplaySeen sq), w)
                  else (Ok (), w\<lparr>rw_bitmap := rw_bitmap w OR b\<rparr>))))"

definition cipher_decrypt ::
  "aead \<Rightarrow> session_cipher \<Rightarrow> bytes \<Rightarrow> (cipher_error + bytes) \<times> session_cipher" where
  "cipher_decrypt A C data =
     (if length data < MIN_CIPHERTEXT_LEN then (Err (InputTooShort (length data)), C)
      else
        (let sq = word_of_nat (from_le (take 8 data))
         in case check_and_record_seq (sc_replay C) sq of
              (Inl err, w) \<Rightarrow> (Err err, C\<lparr>sc_replay := w\<rparr>)
            | (Inr _, w) \<Rightarrow>
                (case aead_open A (sc_key_bytes C) (nonce_from_u64 sq) (drop 8 data) of
                   None \<Rightarrow> (Err DecryptFailed, C\<lparr>sc_replay := w\<rparr>)
                 | Some pt \<Rightarrow> (Ok pt, C\<lparr>sc_replay := w\<rparr>))))"

text \<open>The sequence numbers that pass the window, for a list of arrivals.\<close>

fun window_accepted :: "replay_window \<Rightarrow> u64 list \<Rightarrow> u64 list" where
  "window_accepted w [] = []"
| "window_accepted w (s # ss) =
     (case check_and_record_seq w s of
        (Inl _, w') \<Rightarrow> window_accepted w' ss
      | (Inr _, w') \<Rightarrow> s # window_accepted w' ss)"

text \<open>The state after a list of arrivals.\<close>

fun window_run :: "replay_window \<Rightarrow> u64 list \<Rightarrow> replay_window" where
  "window_run w [] = w"
| "window_run w (s # ss) = window_run (snd (check_and_record_seq w s)) ss"

text \<open>A sender that encrypts a list of messages, and a receiver that is given a list of frames.\<close>

fun encrypt_run :: "aead \<Rightarrow> session_cipher \<Rightarrow> bytes list \<Rightarrow> (cipher_error + bytes) list" where
  "encrypt_run A C [] = []"
| "encrypt_run A C (m # ms) = (case cipher_encrypt A C m of (r, C') \<Rightarrow> r # encrypt_run A C' ms)"

fun decrypt_run :: "aead \<Rightarrow> session_cipher \<Rightarrow> bytes list \<Rightarrow> (cipher_error + bytes) list" where
  "decrypt_run A C [] = []"
| "decrypt_run A C (f # fs) = (case cipher_decrypt A C f of (r, C') \<Rightarrow> r # decrypt_run A C' fs)"

definition frame_seq :: "bytes \<Rightarrow> u64" where
  "frame_seq f = word_of_nat (from_le (take 8 f))"

text \<open>The numbers of the frames that were delivered.\<close>

definition delivered :: "bytes list \<Rightarrow> (cipher_error + bytes) list \<Rightarrow> u64 list" where
  "delivered fs rs = map (frame_seq \<circ> fst) (List.filter (is_ok \<circ> snd) (zip fs rs))"

text \<open>
  An arrival order of frame indices in which no index repeats and none arrives after an index 128
  or more above it; \<open>seen\<close> holds the earlier arrivals.
\<close>

fun in_window :: "nat list \<Rightarrow> nat list \<Rightarrow> bool" where
  "in_window seen [] = True"
| "in_window seen (i # js) =
     (i \<notin> set seen \<and> list_all (\<lambda>a. a < i + 128) seen \<and> in_window (i # seen) js)"

section \<open>What the window means\<close>

text \<open>
  \<open>window_rep w A\<close>: the window stands for the set \<open>A\<close> of accepted numbers; its highest
  is the maximum, and bit \<open>i\<close> tells whether the number \<open>i\<close> below the maximum is in \<open>A\<close>.
\<close>

definition window_rep :: "replay_window \<Rightarrow> u64 set \<Rightarrow> bool" where
  "window_rep w A \<longleftrightarrow>
     (if rw_initialised w
      then rw_highest w \<in> A \<and> (\<forall>a \<in> A. a \<le> rw_highest w) \<and>
           (\<forall>i < 128. bit (rw_bitmap w) i \<longleftrightarrow> (\<exists>a \<in> A. unat a + i = unat (rw_highest w)))
      else A = {})"

text \<open>The specification: a number is admitted when it is new and less than 128 behind the maximum.\<close>

definition window_admits :: "u64 set \<Rightarrow> u64 \<Rightarrow> bool" where
  "window_admits A s \<longleftrightarrow> s \<notin> A \<and> (\<forall>a \<in> A. unat a < unat s + 128)"

lemma bit_one_word128: "bit (1 :: u128) n \<longleftrightarrow> n = 0"
  by (simp add: bit_1_iff)

lemma bit_push_one: "n < 128 \<Longrightarrow> bit (push_bit n (1 :: u128)) m \<longleftrightarrow> m = n"
  unfolding bit_push_bit_iff bit_1_iff by (auto simp: possible_bit_def)

lemma and_push_one:
  assumes "n < 128"
  shows "bm AND push_bit n (1 :: u128) \<noteq> 0 \<longleftrightarrow> bit bm n"
proof
  assume "bm AND push_bit n (1 :: u128) \<noteq> 0"
  then obtain m where "bit (bm AND push_bit n (1 :: u128)) m"
    by (metis bit_eq_iff bit_0_eq bot_apply bot_bool_def)
  then have "bit bm m" "bit (push_bit n (1 :: u128)) m" unfolding bit_and_iff by blast+
  with assms show "bit bm n" unfolding bit_push_one [OF assms] by simp
next
  assume "bit bm n"
  then have "bit (bm AND push_bit n (1 :: u128)) n"
    unfolding bit_and_iff bit_push_one [OF assms] by simp
  then show "bm AND push_bit n (1 :: u128) \<noteq> 0"
    by (metis bit_0_eq bot_apply bot_bool_def)
qed

lemma bit_slide:
  assumes "i < 128"
  shows "bit (push_bit d bm OR (1 :: u128)) i \<longleftrightarrow> i = 0 \<or> (d \<le> i \<and> bit bm (i - d))"
  using assms by (auto simp: bit_or_iff bit_push_bit_iff bit_1_iff possible_bit_def)

section \<open>The window refines the specification\<close>

lemma window_rep_highest:
  assumes "window_rep w A" "a \<in> A"
  shows "rw_initialised w" "unat a \<le> unat (rw_highest w)"
  using assms by (auto simp: window_rep_def word_le_nat_alt split: if_splits)

lemma window_first:
  assumes "window_rep w A" "\<not> rw_initialised w"
  shows "check_and_record_seq w s = (Ok (), \<lparr>rw_highest = s, rw_initialised = True, rw_bitmap = 1\<rparr>)"
    "window_admits A s" "window_rep \<lparr>rw_highest = s, rw_initialised = True, rw_bitmap = 1\<rparr> (insert s A)"
  using assms by (auto simp: check_and_record_seq_def window_rep_def window_admits_def bit_1_iff)

lemma window_newer:
  assumes rep: "window_rep w A" and init: "rw_initialised w" and newer: "rw_highest w < s"
  shows "\<exists>w'. check_and_record_seq w s = (Ok (), w') \<and> window_rep w' (insert s A) \<and> window_admits A s"
proof -
  let ?d = "s - rw_highest w"
  let ?bm = "if ?d \<ge> 128 then 1 else push_bit (unat ?d) (rw_bitmap w) OR 1"
  let ?w = "w\<lparr>rw_bitmap := ?bm, rw_highest := s\<rparr>"
  have d: "unat ?d = unat s - unat (rw_highest w)" and lt: "unat (rw_highest w) < unat s"
    using newer unat_sub [OF less_imp_le [OF newer]] by (simp_all add: word_less_nat_alt)
  have le: "unat a \<le> unat (rw_highest w)" if "a \<in> A" for a
    using window_rep_highest [OF rep that] by simp
  have bits: "bit (rw_bitmap w) i \<longleftrightarrow> (\<exists>a \<in> A. unat a + i = unat (rw_highest w))" if "i < 128" for i
    using rep init that by (simp add: window_rep_def)
  have new: "bit ?bm i \<longleftrightarrow> (\<exists>a \<in> insert s A. unat a + i = unat s)" if i: "i < 128" for i
  proof (cases "?d \<ge> 128")
    case True
    then have far: "unat s \<ge> unat (rw_highest w) + 128" using d lt by (simp add: word_le_nat_alt)
    have "unat a + i \<noteq> unat s" if "a \<in> A" for a using le [OF that] far i by simp
    then show ?thesis using True by (auto simp: bit_1_iff)
  next
    case False
    have "(\<exists>a \<in> A. unat a + i = unat s) \<longleftrightarrow> unat ?d \<le> i \<and> bit (rw_bitmap w) (i - unat ?d)"
    proof (cases "unat ?d \<le> i")
      case True
      then have "unat a + i = unat s \<longleftrightarrow> unat a + (i - unat ?d) = unat (rw_highest w)" for a
        using d lt by auto
      with True bits [of "i - unat ?d"] i show ?thesis by auto
    next
      case False
      then have "unat a + i \<noteq> unat s" if "a \<in> A" for a using le [OF that] d lt by auto
      with False show ?thesis by auto
    qed
    then show ?thesis using False bit_slide [OF i] by auto
  qed
  have "a \<le> s" if "a \<in> insert s A" for a
    using that lt le [of a] by (auto simp: word_le_nat_alt)
  then have "window_rep ?w (insert s A)"
    using init new by (simp add: window_rep_def)
  moreover have "check_and_record_seq w s = (Ok (), ?w)"
    using init newer by (simp add: check_and_record_seq_def Let_def)
  moreover have "window_admits A s"
    using le lt by (fastforce simp: window_admits_def)
  ultimately show ?thesis by blast
qed

lemma window_older:
  assumes rep: "window_rep w A" and init: "rw_initialised w" and older: "s \<le> rw_highest w"
  shows "if window_admits A s
    then \<exists>w'. check_and_record_seq w s = (Ok (), w') \<and> window_rep w' (insert s A)
    else \<exists>e. check_and_record_seq w s = (Err e, w)"
proof -
  let ?off = "rw_highest w - s"
  have off: "unat s + unat ?off = unat (rw_highest w)"
    using older unat_sub [OF older] by (simp add: word_le_nat_alt)
  have hi: "rw_highest w \<in> A" and le: "\<And>a. a \<in> A \<Longrightarrow> unat a \<le> unat (rw_highest w)"
    and bits: "\<And>i. i < 128 \<Longrightarrow> bit (rw_bitmap w) i \<longleftrightarrow> (\<exists>a \<in> A. unat a + i = unat (rw_highest w))"
    using rep init by (auto simp: window_rep_def word_le_nat_alt)
  show ?thesis
  proof (cases "s = rw_highest w")
    case True
    with hi init show ?thesis by (simp add: window_admits_def check_and_record_seq_def)
  next
    case False
    then have lt: "\<not> s > rw_highest w" using older by simp
    show ?thesis
    proof (cases "REPLAY_WINDOW \<le> ?off")
      case True
      then have "unat s + 128 \<le> unat (rw_highest w)"
        using off by (simp add: REPLAY_WINDOW_def word_le_nat_alt)
      with hi have "\<not> window_admits A s" by (force simp: window_admits_def)
      with True False lt init show ?thesis by (simp add: check_and_record_seq_def Let_def)
    next
      case inside: False
      then have o128: "unat ?off < 128" by (simp add: REPLAY_WINDOW_def word_le_nat_alt)
      have seen: "bit (rw_bitmap w) (unat ?off) \<longleftrightarrow> s \<in> A"
        using bits [OF o128] off by (metis add_right_cancel word_unat_eq_iff)
      have adm: "window_admits A s \<longleftrightarrow> s \<notin> A"
        using le off o128 by (fastforce simp: window_admits_def)
      let ?w = "w\<lparr>rw_bitmap := rw_bitmap w OR push_bit (unat ?off) 1\<rparr>"
      have res: "check_and_record_seq w s = (if s \<in> A then (Err (ReplaySeen s), w) else (Ok (), ?w))"
        using init False lt inside seen and_push_one [OF o128, of "rw_bitmap w"]
        by (simp add: check_and_record_seq_def Let_def)
      have "bit (rw_bitmap ?w) i \<longleftrightarrow> (\<exists>a \<in> insert s A. unat a + i = unat (rw_highest w))" if "i < 128" for i
        using bits [OF that] bit_push_one [OF o128] off by (auto simp: bit_or_iff)
      then have "window_rep ?w (insert s A)"
        using init hi le older by (simp add: window_rep_def word_le_nat_alt)
      with res adm show ?thesis by simp
    qed
  qed
qed

lemma window_step:
  assumes "window_rep w A"
  shows "if window_admits A s
    then \<exists>w'. check_and_record_seq w s = (Ok (), w') \<and> window_rep w' (insert s A)
    else \<exists>e. check_and_record_seq w s = (Err e, w)"
proof -
  consider "\<not> rw_initialised w" | "rw_initialised w" "rw_highest w < s" | "rw_initialised w" "s \<le> rw_highest w"
    by fastforce
  then show ?thesis
  proof cases
    case 1
    with window_first [OF assms 1] show ?thesis by auto
  next
    case 2
    with window_newer [OF assms 2] show ?thesis by auto
  next
    case 3
    with window_older [OF assms 3] show ?thesis by blast
  qed
qed

lemma window_rep_default: "window_rep replay_default {}"
  by (simp add: window_rep_def replay_default_def)

definition window_accepts :: "replay_window \<Rightarrow> u64 \<Rightarrow> bool" where
  "window_accepts w s = is_ok (fst (check_and_record_seq w s))"

definition window_update :: "replay_window \<Rightarrow> u64 \<Rightarrow> replay_window" where
  "window_update w s = snd (check_and_record_seq w s)"

lemma window_accepts_iff: "window_rep w A \<Longrightarrow> window_accepts w s \<longleftrightarrow> window_admits A s"
  using window_step [of w A s] by (auto simp: window_accepts_def split: if_splits)

interpretation wf: once_filter window_accepts window_update window_rep
proof
  fix w A s
  assume rep: "window_rep w A"
  show "s \<notin> A" if "window_accepts w s"
    using that window_accepts_iff [OF rep] by (simp add: window_admits_def)
  show "window_rep (window_update w s) (insert s A)" if "window_accepts w s"
    using that window_accepts_iff [OF rep] window_step [OF rep, of s] by (auto simp: window_update_def)
  show "window_rep (window_update w s) A" if "\<not> window_accepts w s"
    using that window_accepts_iff [OF rep] window_step [OF rep, of s] rep by (auto simp: window_update_def)
qed

lemma window_accepted_eq: "window_accepted w ss = wf.accepted w ss"
proof (induction ss arbitrary: w)
  case (Cons s ss)
  show ?case
  proof (cases "check_and_record_seq w s")
    case (Pair r w')
    then have "window_accepts w s = is_ok r" "window_update w s = w'"
      by (simp_all add: window_accepts_def window_update_def)
    with Pair Cons.IH show ?thesis by (cases r) simp_all
  qed
qed simp

lemma window_run_eq: "window_run w ss = foldl window_update w ss"
  by (induction w ss rule: window_run.induct) (auto simp: window_update_def)

lemma window_run_rep: "window_rep (window_run replay_default ss) (set (window_accepted replay_default ss))"
  using wf.rep_run [OF window_rep_default, of ss] by (simp add: window_run_eq window_accepted_eq)

text \<open>
  C4. The replay window is exact. After any list of arrivals the next number is accepted if and
  only if it was not accepted before and every accepted number is less than 128 above it; and no
  number is ever accepted twice.\<close>

theorem window_exact:
  "is_ok (fst (check_and_record_seq (window_run replay_default ss) s)) =
     (s \<notin> set (window_accepted replay_default ss) \<and>
      list_all (\<lambda>a. unat a < unat s + 128) (window_accepted replay_default ss)) \<and>
   distinct (window_accepted replay_default ss)"
  using window_accepts_iff [OF window_run_rep, of ss s] wf.accepted_fresh [OF window_rep_default, of ss]
  by (simp add: window_accepts_def window_admits_def window_accepted_eq list_all_iff)

section \<open>The channel\<close>

lemma frame_seq_frame: "frame_seq (le_bytes 8 (unat v) @ ct) = v"
  using unsigned_less [of v, where 'a = nat]
  by (simp add: frame_seq_def from_le_bytes le_bytes_length)

lemma decrypt_short:
  "length f < MIN_CIPHERTEXT_LEN \<Longrightarrow> cipher_decrypt A C f = (Err (InputTooShort (length f)), C)"
  by (simp add: cipher_decrypt_def)

lemma decrypt_rejected:
  assumes "\<not> length f < MIN_CIPHERTEXT_LEN" "check_and_record_seq (sc_replay C) (frame_seq f) = (Inl e, w)"
  shows "cipher_decrypt A C f = (Err e, C\<lparr>sc_replay := w\<rparr>)"
  using assms by (simp add: cipher_decrypt_def frame_seq_def)

lemma decrypt_passed:
  assumes "\<not> length f < MIN_CIPHERTEXT_LEN" "check_and_record_seq (sc_replay C) (frame_seq f) = (Inr u, w)"
  shows "cipher_decrypt A C f =
    (case aead_open A (sc_key_bytes C) (nonce_from_u64 (frame_seq f)) (drop 8 f) of
       None \<Rightarrow> Err DecryptFailed | Some pt \<Rightarrow> Ok pt, C\<lparr>sc_replay := w\<rparr>)"
  using assms by (simp add: cipher_decrypt_def frame_seq_def split: option.split)

text \<open>The numbers that a decryption run delivers are new with respect to the window it starts from.\<close>

lemma delivered_fresh:
  assumes "window_rep (sc_replay C) X"
  shows "distinct (delivered fs (decrypt_run A C fs)) \<and> set (delivered fs (decrypt_run A C fs)) \<inter> X = {}"
  using assms
proof (induction fs arbitrary: C X)
  case (Cons f fs)
  let ?s = "frame_seq f"
  obtain r C' where dec: "cipher_decrypt A C f = (r, C')" by fastforce
  show ?case
  proof (cases "length f < MIN_CIPHERTEXT_LEN")
    case True
    with dec decrypt_short have "r = Err (InputTooShort (length f))" "C' = C" by force+
    with dec Cons show ?thesis by (simp add: delivered_def)
  next
    case long: False
    show ?thesis
    proof (cases "window_admits X ?s")
      case False
      with window_step [OF Cons.prems, of ?s] obtain e where
        "check_and_record_seq (sc_replay C) ?s = (Err e, sc_replay C)" by auto
      from decrypt_rejected [OF long this] dec have "r = Err e" "C' = C" by simp_all
      with dec Cons show ?thesis by (simp add: delivered_def)
    next
      case True
      with window_step [OF Cons.prems, of ?s] obtain w where
        w: "check_and_record_seq (sc_replay C) ?s = (Ok (), w)" "window_rep w (insert ?s X)" by auto
      from decrypt_passed [OF long w(1)] dec have "sc_replay C' = w" by auto
      with Cons.IH [of C' "insert ?s X"] w(2) True dec show ?thesis
        by (auto simp: delivered_def window_admits_def)
    qed
  qed
qed (simp add: delivered_def)

text \<open>
  Replay safety of the record layer: whatever bytes arrive, in whatever order, no two frames
  with the same sequence number are delivered under one key, so no recorded frame is ever
  delivered twice.\<close>

theorem no_replay_delivered:
  "distinct (delivered fs (decrypt_run A (cipher_new key) fs))"
  using delivered_fresh [of "cipher_new key" "{}"] window_rep_default by (simp add: cipher_new_def)

lemma encrypt_run_nth:
  assumes "unat (sc_send_nonce C) + length ms \<le> 2 ^ 64 - 2" "i < length ms"
  shows "encrypt_run A C ms ! i =
    (let sq = sc_send_nonce C + word_of_nat i
     in case aead_seal A (sc_key_bytes C) (nonce_from_u64 sq) (ms ! i) of
          None \<Rightarrow> Err EncryptFailed | Some ct \<Rightarrow> Ok (le_bytes 8 (unat sq) @ ct))"
  using assms
proof (induction ms arbitrary: C i)
  case (Cons m ms)
  let ?sq = "sc_send_nonce C"
  have small: "\<not> ?sq \<ge> 0xFFFFFFFFFFFFFFFF - 1"
    using Cons.prems(1) by (simp add: word_le_nat_alt)
  have enc: "cipher_encrypt A C m =
      (case aead_seal A (sc_key_bytes C) (nonce_from_u64 ?sq) m of
         None \<Rightarrow> Err EncryptFailed | Some ct \<Rightarrow> Ok (le_bytes 8 (unat ?sq) @ ct), C\<lparr>sc_send_nonce := ?sq + 1\<rparr>)"
    using small by (simp add: cipher_encrypt_def Let_def split: option.split)
  have step: "unat (?sq + 1) = unat ?sq + 1"
    using Cons.prems(1) by (intro unat_add_lem [THEN iffD1, THEN trans]) simp_all
  show ?case
  proof (cases i)
    case 0
    with enc show ?thesis by (simp add: Let_def)
  next
    case (Suc j)
    with Cons.IH [of "C\<lparr>sc_send_nonce := ?sq + 1\<rparr>" j] Cons.prems enc step show ?thesis
      by (simp add: add.assoc)
  qed
qed simp

text \<open>
  The send counter: from a new cipher the \<open>i\<close>-th call uses the number \<open>i\<close>, so the nonces of
  up to \<open>2^64 - 2\<close> calls differ pairwise. Past that the guard rejects two calls while the
  counter moves on, and the third call is sealed again under the number 0.\<close>

theorem send_counter:
  "length ms \<le> 2 ^ 64 - 2 \<Longrightarrow>
     (\<forall>i < length ms. encrypt_run A (cipher_new key) ms ! i =
        (case aead_seal A key (nonce_from_u64 (word_of_nat i)) (ms ! i) of
           None \<Rightarrow> Err EncryptFailed | Some ct \<Rightarrow> Ok (le_bytes 8 i @ ct))) \<and>
     inj_on (nonce_from_u64 \<circ> word_of_nat) {..< length ms} \<and>
     encrypt_run A ((cipher_new key)\<lparr>sc_send_nonce := 2 ^ 64 - 2\<rparr>) [m1, m2, m3] =
       [Err CounterExhausted, Err CounterExhausted,
        case aead_seal A key (nonce_from_u64 0) m3 of
          None \<Rightarrow> Err EncryptFailed | Some ct \<Rightarrow> Ok (le_bytes 8 0 @ ct)]"
proof (intro conjI allI impI)
  assume len: "length ms \<le> 2 ^ 64 - 2"
  have wrap: "(0x10000000000000000 :: u64) = 0" by (simp add: word_eq_iff_unsigned)
  have top: "unat (- 1 :: u64) = 0xFFFFFFFFFFFFFFFF" by (simp add: unsigned_minus_1_eq_mask mask_eq_exp_minus_1)
  have un: "unat (word_of_nat i :: u64) = i" if "i < length ms" for i
    using that len by (simp add: unat_u64_small)
  show "encrypt_run A (cipher_new key) ms ! i =
        (case aead_seal A key (nonce_from_u64 (word_of_nat i)) (ms ! i) of
           None \<Rightarrow> Err EncryptFailed | Some ct \<Rightarrow> Ok (le_bytes 8 i @ ct))" if i: "i < length ms" for i
    using encrypt_run_nth [of "cipher_new key" ms i A] un [OF i] i len
    by (simp add: cipher_new_def Let_def split: option.split)
  show "inj_on (nonce_from_u64 \<circ> word_of_nat) {..< length ms}"
  proof (rule inj_onI)
    fix i j assume ij: "i \<in> {..< length ms}" "j \<in> {..< length ms}"
      and eq: "(nonce_from_u64 \<circ> word_of_nat) i = (nonce_from_u64 \<circ> word_of_nat) j"
    then have "le_bytes 8 i = le_bytes 8 j" using un by (simp add: nonce_from_u64_def)
    moreover have "i < 256 ^ 8" "j < 256 ^ 8" using ij len by simp_all
    ultimately show "i = j" by (metis from_le_bytes)
  qed
  show "encrypt_run A ((cipher_new key)\<lparr>sc_send_nonce := 2 ^ 64 - 2\<rparr>) [m1, m2, m3] =
       [Err CounterExhausted, Err CounterExhausted,
        case aead_seal A key (nonce_from_u64 0) m3 of
          None \<Rightarrow> Err EncryptFailed | Some ct \<Rightarrow> Ok (le_bytes 8 0 @ ct)]"
    by (simp add: cipher_encrypt_def cipher_new_def Let_def word_le_nat_alt wrap top del: le_bytes.simps split: option.split)
qed

definition wit_key :: bytes where
  "wit_key = replicate 32 42"

theorem send_counter_witness:
  "length (replicate 2 [7 :: byte]) \<le> 2 ^ 64 - 2 \<and>
   encrypt_run demo_aead (cipher_new wit_key) (replicate 2 [7]) ! 1 =
     Ok (le_bytes 8 1 @ [7] @ pad_to 16 (wit_key @ nonce_from_u64 1))"
  using send_counter [of "replicate 2 [7]" demo_aead wit_key "[]" "[]" "[]"]
  by (simp add: demo_aead_def del: le_bytes.simps encrypt_run.simps)

lemma decrypt_genuine:
  assumes ok: "aead_correct A" and seal: "aead_seal A (sc_key_bytes C) (nonce_from_u64 sq) m = Some ct"
    and rep: "window_rep (sc_replay C) X" and adm: "window_admits X sq"
  shows "\<exists>w. cipher_decrypt A C (le_bytes 8 (unat sq) @ ct) = (Ok m, C\<lparr>sc_replay := w\<rparr>) \<and>
             window_rep w (insert sq X)"
proof -
  let ?f = "le_bytes 8 (unat sq) @ ct"
  have long: "\<not> length ?f < MIN_CIPHERTEXT_LEN"
    using aead_seal_length [OF ok seal] by (simp add: MIN_CIPHERTEXT_LEN_def)
  from window_step [OF rep, of sq] adm obtain w where
    w: "check_and_record_seq (sc_replay C) sq = (Ok (), w)" "window_rep w (insert sq X)" by auto
  have "cipher_decrypt A C ?f = (Ok m, C\<lparr>sc_replay := w\<rparr>)"
    using decrypt_passed [OF long, of C "()" w A] w(1) aead_open_seal [OF ok seal] by (simp add: frame_seq_frame)
  with w(2) show ?thesis by blast
qed

lemma decrypt_run_genuine:
  assumes ok: "aead_correct A" and key: "sc_key_bytes C = key"
    and seal: "\<And>i. i \<in> set js \<Longrightarrow> aead_seal A key (nonce_from_u64 (word_of_nat i)) (ms ! i) = Some (ct i)"
    and small: "\<And>i. i \<in> set seen \<union> set js \<Longrightarrow> i < 2 ^ 64"
    and rep: "window_rep (sc_replay C) (word_of_nat ` set seen)" and win: "in_window seen js"
  shows "decrypt_run A C (map (\<lambda>i. le_bytes 8 i @ ct i) js) = map (\<lambda>i. Ok (ms ! i)) js"
  using assms
proof (induction js arbitrary: C seen)
  case (Cons i js)
  have un: "unat (word_of_nat a :: u64) = a" if "a \<in> set seen \<union> {i}" for a
    using that Cons.prems(4) [of a] by (intro unat_u64_small) auto
  have "window_admits (word_of_nat ` set seen) (word_of_nat i :: u64)"
    using Cons.prems(6) un by (auto simp: window_admits_def list_all_iff word_unat_eq_iff)
  moreover have "aead_seal A (sc_key_bytes C) (nonce_from_u64 (word_of_nat i)) (ms ! i) = Some (ct i)"
    using Cons.prems(2,3) by simp
  ultimately obtain w where
    "cipher_decrypt A C (le_bytes 8 (unat (word_of_nat i :: u64)) @ ct i) = (Ok (ms ! i), C\<lparr>sc_replay := w\<rparr>)"
    "window_rep w (insert (word_of_nat i) (word_of_nat ` set seen))"
    using decrypt_genuine [OF ok _ Cons.prems(5)] by blast
  with un [of i] Cons.IH [of "C\<lparr>sc_replay := w\<rparr>" "i # seen"] Cons.prems show ?case
    by simp
qed simp

text \<open>
  Delivery over an unordered channel: frames of one sender that arrive without duplicates and
  less than 128 behind the newest arrival are all decrypted to the sent messages, for any sealing
  parameter that is correct and accepts the messages.\<close>

theorem channel_delivers:
  assumes "aead_correct A" "length ms \<le> 2 ^ 64 - 2"
    and "\<And>i. i < length ms \<Longrightarrow> aead_seal A key (nonce_from_u64 (word_of_nat i)) (ms ! i) \<noteq> None"
    and "list_all (\<lambda>i. i < length ms) js" "in_window [] js"
    and "encrypt_run A (cipher_new key) ms = map Inr frames"
  shows "decrypt_run A (cipher_new key) (map (\<lambda>i. frames ! i) js) = map (\<lambda>i. Ok (ms ! i)) js"
proof -
  define ct where "ct i = the (aead_seal A key (nonce_from_u64 (word_of_nat i)) (ms ! i))" for i
  have ct: "aead_seal A key (nonce_from_u64 (word_of_nat i)) (ms ! i) = Some (ct i)" if "i < length ms" for i
    using assms(3) [OF that] by (auto simp: ct_def)
  have lenrun: "length (encrypt_run A C ns) = length ns" for C ns
    by (induction A C ns rule: encrypt_run.induct) (auto split: prod.split)
  have frames: "frames ! i = le_bytes 8 i @ ct i" if i: "i < length ms" for i
  proof -
    have "unat (word_of_nat i :: u64) = i" using i assms(2) by (simp add: unat_u64_small)
    then have "map Inr frames ! i = (Ok (le_bytes 8 i @ ct i) :: cipher_error + bytes)"
      using encrypt_run_nth [of "cipher_new key" ms i A] i assms(2) ct [OF i]
      unfolding assms(6) by (simp add: cipher_new_def Let_def)
    moreover have "length frames = length ms" using lenrun [of "cipher_new key" ms] assms(6) by simp
    ultimately show ?thesis using i by simp
  qed
  have js: "i < length ms" if "i \<in> set js" for i using assms(4) that by (auto simp: list_all_iff)
  have "decrypt_run A (cipher_new key) (map (\<lambda>i. le_bytes 8 i @ ct i) js) = map (\<lambda>i. Ok (ms ! i)) js"
  proof (rule decrypt_run_genuine [OF assms(1) _ _ _ _ assms(5)])
    show "i < 2 ^ 64" if "i \<in> set [] \<union> set js" for i using js [of i] that assms(2) by simp
    show "aead_seal A key (nonce_from_u64 (word_of_nat i)) (ms ! i) = Some (ct i)" if "i \<in> set js" for i
      using ct [OF js [OF that]] .
  qed (use window_rep_default in \<open>simp_all add: cipher_new_def\<close>)
  moreover have "map (\<lambda>i. frames ! i) js = map (\<lambda>i. le_bytes 8 i @ ct i) js"
    using frames js by simp
  ultimately show ?thesis by (simp only:)
qed

definition wit_frame :: "nat \<Rightarrow> bytes" where
  "wit_frame i = le_bytes 8 i @ [word_of_nat i] @ pad_to 16 (wit_key @ nonce_from_u64 (word_of_nat i))"

theorem channel_delivers_witness:
  "aead_correct demo_aead \<and>
   list_all (\<lambda>i. aead_seal demo_aead wit_key (nonce_from_u64 (word_of_nat i)) ([[0], [1], [2]] ! i) \<noteq> None) [0, 1, 2] \<and>
   in_window [] [2, 0] \<and>
   encrypt_run demo_aead (cipher_new wit_key) [[0], [1], [2]] = map Inr (map wit_frame [0, 1, 2]) \<and>
   decrypt_run demo_aead (cipher_new wit_key) [wit_frame 2, wit_frame 0] = [Ok [2], Ok [0]]"
proof -
  have enc: "encrypt_run demo_aead (cipher_new wit_key) [[0], [1], [2]] = map Inr (map wit_frame [0, 1, 2])"
    by (simp add: cipher_encrypt_def cipher_new_def demo_aead_def wit_frame_def word_le_nat_alt Let_def
        del: le_bytes.simps)
  have seal: "\<forall>i < 3. aead_seal demo_aead wit_key (nonce_from_u64 (word_of_nat i)) ([[0], [1], [2]] ! i) \<noteq> None"
    by (simp add: demo_aead_def)
  have seals: "list_all (\<lambda>i. aead_seal demo_aead wit_key (nonce_from_u64 (word_of_nat i)) ([[0], [1], [2]] ! i) \<noteq> None) [0, 1, 2]"
    by (simp add: demo_aead_def)
  have "decrypt_run demo_aead (cipher_new wit_key) [wit_frame 2, wit_frame 0] = [Ok [2], Ok [0]]"
    using channel_delivers [of demo_aead "[[0], [1], [2]]" wit_key "[2, 0]" "map wit_frame [0, 1, 2]"]
      demo_aead_correct enc seal by simp
  moreover have "in_window [] [2, 0]" by simp
  ultimately show ?thesis using demo_aead_correct enc seals by (intro conjI)
qed

text \<open>A receiver whose window has reached the largest number. It never leaves this state.\<close>

definition blocked :: "session_cipher \<Rightarrow> bool" where
  "blocked C \<longleftrightarrow> rw_initialised (sc_replay C) \<and> rw_highest (sc_replay C) = 0xFFFFFFFFFFFFFFFF"

lemma blocked_decrypt:
  assumes "blocked C" "cipher_decrypt A C g = (r, C')"
  shows "blocked C'"
proof -
  have "\<not> 0xFFFFFFFFFFFFFFFF < (x :: u64)" for x
    using unsigned_less [of x, where 'a = nat] by (simp add: word_less_nat_alt not_less)
  then have "rw_initialised w' \<and> rw_highest w' = 0xFFFFFFFFFFFFFFFF"
    if "check_and_record_seq (sc_replay C) x = (q, w')" for x q w'
    using assms(1) that by (auto simp: blocked_def check_and_record_seq_def Let_def split: if_splits)
  with assms show ?thesis
    by (auto simp: blocked_def cipher_decrypt_def Let_def split: if_splits prod.splits sum.splits option.splits)
qed

lemma blocked_rejects:
  assumes "blocked C" "24 \<le> length g" "frame_seq g \<le> 0xFFFFFFFFFFFFFFFF - 128"
  shows "fst (cipher_decrypt A C g) = Err (ReplayTooOld (frame_seq g) 0xFFFFFFFFFFFFFFFF)"
proof -
  have g: "unat (frame_seq g) \<le> 0xFFFFFFFFFFFFFFFF - 128" using assms(3) by (simp add: word_le_nat_alt)
  then have lt: "frame_seq g < 0xFFFFFFFFFFFFFFFF" by (simp add: word_less_nat_alt)
  have "REPLAY_WINDOW \<le> 0xFFFFFFFFFFFFFFFF - frame_seq g"
    using unat_sub [OF less_imp_le [OF lt]] g by (simp add: REPLAY_WINDOW_def word_le_nat_alt)
  with assms(1) lt have "check_and_record_seq (sc_replay C) (frame_seq g) = (Err (ReplayTooOld (frame_seq g) 0xFFFFFFFFFFFFFFFF), sc_replay C)"
    by (auto simp: blocked_def check_and_record_seq_def Let_def)
  from decrypt_rejected [OF _ this] assms(2) show ?thesis by (simp add: MIN_CIPHERTEXT_LEN_def)
qed

lemma blocked_run:
  assumes "blocked C" "i < length gs" "24 \<le> length (gs ! i)" "frame_seq (gs ! i) \<le> 0xFFFFFFFFFFFFFFFF - 128"
  shows "decrypt_run A C gs ! i = Err (ReplayTooOld (frame_seq (gs ! i)) 0xFFFFFFFFFFFFFFFF)"
  using assms
proof (induction gs arbitrary: C i)
  case (Cons g gs)
  obtain r C' where d: "cipher_decrypt A C g = (r, C')" by fastforce
  show ?case
  proof (cases i)
    case 0
    then show ?thesis using blocked_rejects [OF Cons.prems(1), of g A] Cons.prems(3,4) by (simp add: d)
  next
    case (Suc j)
    then show ?thesis using Cons.IH [OF blocked_decrypt [OF Cons.prems(1) d], of j] Cons.prems(2-4) by (simp add: d)
  qed
qed simp

text \<open>
  C40. The window is updated before authentication. One forged frame that carries the largest
  number fails to decrypt, but from then on the receiver is blocked for good: whatever frames arrive later, every one of them whose
  number is at least 128 below the largest is rejected as too old, genuine frames included, and no later frame brings
  the window back.\<close>

theorem forged_frame_blocks_channel:
  assumes "24 \<le> length f" "frame_seq f = 0xFFFFFFFFFFFFFFFF"
    and "rw_initialised (sc_replay C) \<Longrightarrow> rw_highest (sc_replay C) < 0xFFFFFFFFFFFFFFFF"
    and "aead_open A (sc_key_bytes C) (nonce_from_u64 (frame_seq f)) (drop 8 f) = None"
  shows "hd (decrypt_run A C (f # gs)) = Err DecryptFailed \<and>
    (\<forall>i < length gs. 24 \<le> length (gs ! i) \<longrightarrow> frame_seq (gs ! i) \<le> 0xFFFFFFFFFFFFFFFF - 128 \<longrightarrow>
       decrypt_run A C (f # gs) ! Suc i = Err (ReplayTooOld (frame_seq (gs ! i)) 0xFFFFFFFFFFFFFFFF))"
proof -
  obtain w where w: "check_and_record_seq (sc_replay C) (frame_seq f) = (Ok (), w)"
      "rw_initialised w" "rw_highest w = 0xFFFFFFFFFFFFFFFF"
    using assms(2,3) by (cases "rw_initialised (sc_replay C)") (auto simp: check_and_record_seq_def Let_def)
  have f: "cipher_decrypt A C f = (Err DecryptFailed, C\<lparr>sc_replay := w\<rparr>)"
    using decrypt_passed [OF _ w(1), of A] assms(1,4) by (simp add: MIN_CIPHERTEXT_LEN_def)
  have "blocked (C\<lparr>sc_replay := w\<rparr>)" using w(2,3) by (simp add: blocked_def)
  from blocked_run [OF this] show ?thesis by (simp add: f)
qed

definition wit_forged :: bytes where
  "wit_forged = le_bytes 8 (unat (0xFFFFFFFFFFFFFFFF :: u64)) @ replicate 16 0"

lemma wit_forged_seq: "frame_seq wit_forged = 0xFFFFFFFFFFFFFFFF"
  unfolding wit_forged_def by (rule frame_seq_frame)

theorem forged_frame_blocks_channel_witness:
  "decrypt_run demo_aead (cipher_new wit_key) [wit_forged, wit_frame 5, wit_frame 6] =
     [Err DecryptFailed, Err (ReplayTooOld 5 0xFFFFFFFFFFFFFFFF), Err (ReplayTooOld 6 0xFFFFFFFFFFFFFFFF)]"
proof -
  let ?run = "decrypt_run demo_aead (cipher_new wit_key) [wit_forged, wit_frame 5, wit_frame 6]"
  have sq: "frame_seq (wit_frame 5) = 5" "frame_seq (wit_frame 6) = 6"
    using frame_seq_frame [of 5] frame_seq_frame [of 6] by (simp_all add: wit_frame_def del: le_bytes.simps)
  have len: "24 \<le> length (wit_frame i)" "24 \<le> length wit_forged" for i
    by (simp_all add: wit_frame_def wit_forged_def del: le_bytes.simps)
  have open_f: "aead_open demo_aead (sc_key_bytes (cipher_new wit_key)) (nonce_from_u64 (frame_seq wit_forged))
      (drop 8 wit_forged) = None"
    by (simp add: demo_aead_def wit_forged_def cipher_new_def wit_key_def pad_to_def del: le_bytes.simps)
  have new: "\<not> rw_initialised (sc_replay (cipher_new wit_key))" by (simp add: cipher_new_def replay_default_def)
  have run: "hd ?run = Err DecryptFailed \<and>
    (\<forall>i < length [wit_frame 5, wit_frame 6]. 24 \<le> length ([wit_frame 5, wit_frame 6] ! i) \<longrightarrow>
       frame_seq ([wit_frame 5, wit_frame 6] ! i) \<le> 0xFFFFFFFFFFFFFFFF - 128 \<longrightarrow>
       ?run ! Suc i = Err (ReplayTooOld (frame_seq ([wit_frame 5, wit_frame 6] ! i)) 0xFFFFFFFFFFFFFFFF))"
    by (rule forged_frame_blocks_channel [OF len(2) wit_forged_seq _ open_f]) (use new in simp)
  have small: "(5 :: u64) \<le> 0xFFFFFFFFFFFFFFFF - 128" "(6 :: u64) \<le> 0xFFFFFFFFFFFFFFFF - 128" by simp_all
  have "\<exists>a b c. decrypt_run A C [x, y, z] = [a, b, c]" for A C x y z by (simp split: prod.split)
  then obtain a b c where abc: "?run = [a, b, c]" by blast
  have "a = Err DecryptFailed" using run unfolding abc by simp
  moreover have "b = Err (ReplayTooOld 5 0xFFFFFFFFFFFFFFFF)"
    using run [THEN conjunct2, rule_format, of 0] len(1) small unfolding abc by (simp add: sq)
  moreover have "c = Err (ReplayTooOld 6 0xFFFFFFFFFFFFFFFF)"
    using run [THEN conjunct2, rule_format, of 1] len(1) small unfolding abc by (simp add: sq)
  ultimately show ?thesis unfolding abc by simp
qed

end
