(* ===== verification/Messages.thy ===== *)
theory Messages
  imports Json
begin

text \<open>
  The wire protocol of \<open>miru-common/src/message.rs\<close>: one type per message, with the
  constructors and fields of the source, and the rounding of the floating-point values the
  messages carry. A UUID is its 128-bit number, an \<open>i32\<close> an integer.
\<close>

section \<open>Floating point\<close>

text \<open>
  An \<open>f32\<close> or \<open>f64\<close> is the real number it stands for. \<open>round_bin p e r\<close> rounds to
  \<open>p\<close> significant bits, ties to even, with \<open>2 powr e\<close> as the least step (subnormals).
  The exponent has no upper bound: a value past the largest finite number stays above every
  constant the program compares with, as infinity does.
\<close>

type_synonym f32 = real
type_synonym f64 = real

definition round_half_even :: "real \<Rightarrow> int" where
  "round_half_even m =
     (let f = \<lfloor>m\<rfloor>; d = m - of_int f
      in if d < 1 / 2 then f else if d > 1 / 2 then f + 1 else if even f then f else f + 1)"

definition round_bin :: "int \<Rightarrow> int \<Rightarrow> real \<Rightarrow> real" where
  "round_bin p emin r =
     (if r = 0 then 0
      else (let e = max (\<lfloor>log 2 \<bar>r\<bar>\<rfloor> - (p - 1)) emin
            in of_int (round_half_even (r / 2 powr of_int e)) * 2 powr of_int e))"

definition to_f32 :: "real \<Rightarrow> f32" where
  "to_f32 r = round_bin 24 (- 149) r"

definition to_f64 :: "real \<Rightarrow> f64" where
  "to_f64 r = round_bin 53 (- 1074) r"

definition clampf :: "real \<Rightarrow> real \<Rightarrow> real \<Rightarrow> real" where
  "clampf lo hi x = (if x < lo then lo else if x > hi then hi else x)"

text \<open>\<open>f32 as u32\<close>: truncation, saturating at both ends.\<close>

definition f32_as_u32 :: "f32 \<Rightarrow> u32" where
  "f32_as_u32 r = (if r < 0 then 0 else if \<lfloor>r\<rfloor> \<ge> 2 ^ 32 then - 1 else word_of_int \<lfloor>r\<rfloor>)"

text \<open>\<open>Value::as_f64\<close>: integers are converted, floats are taken as they are.\<close>

fun as_f64 :: "json \<Rightarrow> f64 option" where
  "as_f64 (JNum (PosInt n)) = Some (to_f64 (of_nat (unat n)))"
| "as_f64 (JNum (NegInt i)) = Some (to_f64 (of_int i))"
| "as_f64 (JNum (JFloat r)) = Some r"
| "as_f64 _ = None"

section \<open>Codecs and roles\<close>

datatype video_codec = Av1 | H265 | H264 | Vp9 | Vp8 | Jpeg

datatype audio_codec = Opus | Pcm

datatype role = Host | Viewer | AiAgent

type_synonym uuid = u128

section \<open>Handshake\<close>

record features =
  ft_codecs :: "video_codec list"
  ft_audio_codecs :: "audio_codec list"
  ft_hw_encode :: bool
  ft_hw_decode :: bool
  ft_clipboard :: bool
  ft_file_transfer :: bool
  ft_audio :: bool
  ft_multi_monitor :: bool

record hello =
  he_version :: u32
  he_role :: role
  he_pubkey :: string
  he_features :: features

record hello_ack =
  ha_session_id :: uuid
  ha_pubkey :: string
  ha_encrypted_key :: bytes
  ha_selected_codec :: video_codec
  ha_selected_audio :: audio_codec
  ha_audio_available :: bool

section \<open>Signaling\<close>

record register =
  rg_device_id :: string
  rg_pubkey :: string
  rg_pub_addr :: "string option"
  rg_pub_port :: "u16 option"
  rg_signature :: "string option"
  rg_signed_at_sec :: "u64 option"

record register_ack =
  ra_device_id :: string
  ra_relay_addr :: "string option"

record connect_request =
  cr_target_id :: string
  cr_viewer_addr :: string
  cr_viewer_port :: u16

record connect_ack =
  ca_target_id :: string
  ca_host_addr :: "string option"
  ca_host_port :: "u16 option"
  ca_relay :: bool

record relay_offer =
  ro_relay_addr :: string
  ro_relay_port :: u16
  ro_token :: string

section \<open>Displays and sessions\<close>

record display_info =
  di_index :: u8
  di_x :: int
  di_y :: int
  di_width :: u32
  di_height :: u32
  di_refresh_hz :: u8
  di_name :: string
  di_primary :: bool

record session_offer =
  so_codec :: video_codec
  so_audio_codec :: audio_codec
  so_display :: display_info
  so_fps :: u8

record session_answer =
  sa_accepted :: bool
  sa_fps :: u8
  sa_bitrate_kbps :: u32

section \<open>Colour\<close>

datatype color_primaries = CpBt709 | CpBt2020 | CpDciP3

datatype transfer_function = TfBt709 | TfPq | TfHlg

datatype color_range = CrLimited | CrFull

record hdr_metadata =
  hm_max_luminance :: u32
  hm_min_luminance :: u32
  hm_max_content_light :: u32
  hm_max_frame_avg_light :: u32

section \<open>Media\<close>

record video_frame =
  vf_seq :: u64
  vf_display_idx :: u8
  vf_keyframe :: bool
  vf_codec :: video_codec
  vf_data :: bytes
  vf_width :: u32
  vf_height :: u32
  vf_timestamp_ms :: u64
  vf_color_primaries :: color_primaries
  vf_transfer :: transfer_function
  vf_color_range :: color_range
  vf_hdr_metadata :: "hdr_metadata option"

record audio_frame =
  af_seq :: u64
  af_codec :: audio_codec
  af_data :: bytes
  af_sample_rate :: u32
  af_channels :: u8
  af_timestamp_ms :: u64

section \<open>Input, clipboard, files\<close>

datatype mouse_button = LeftButton | RightButton | MiddleButton | X1Button | X2Button

datatype input_kind =
    MouseMove f32 f32 u8
  | MouseDown mouse_button f32 f32 u8
  | MouseUp mouse_button f32 f32 u8
  | Scroll f32 f32 f32 f32 u8
  | KeyDown u32 u8 "string option"
  | KeyUp u32 u8 "string option"
  | TextInput string

record input_event =
  ie_kind :: input_kind
  ie_timestamp_ms :: u64

datatype clipboard_format = ClipText | ClipHtml | ClipImage

record clipboard_sync =
  cs_format :: clipboard_format
  cs_data :: bytes

datatype file_transfer =
    FtStart uuid string u64 string
  | FtChunk uuid u64 bytes
  | FtDone uuid
  | FtAbort uuid string

section \<open>Control\<close>

record qos_update =
  qu_fps :: u8
  qu_bitrate_kbps :: u32
  qu_quality :: u8

record qos_hint =
  qh_mode :: string
  qh_max_fps :: u8
  qh_min_quality :: u8

record close_reason =
  cl_code :: u16
  cl_reason :: string

record error_msg =
  em_code :: u16
  em_message :: string

datatype msg =
    MsgHello hello
  | MsgHelloAck hello_ack
  | MsgRegister register
  | MsgRegisterAck register_ack
  | MsgConnect connect_request
  | MsgConnectAck connect_ack
  | MsgRelay relay_offer
  | MsgOffer session_offer
  | MsgAnswer session_answer
  | MsgVideoFrame video_frame
  | MsgAudioFrame audio_frame
  | MsgInputEvent input_event
  | MsgClipboardSync clipboard_sync
  | MsgFileTransfer file_transfer
  | MsgPing u64
  | MsgPong u64 u64
  | MsgDisplayList "display_info list"
  | MsgSelectDisplay u8
  | MsgResolutionChange u32 u32
  | MsgQosUpdate qos_update
  | MsgQosHint qos_hint
  | MsgKeyFrame
  | MsgRequestClipboard
  | MsgOpenUrl string
  | MsgClose close_reason
  | MsgError error_msg

section \<open>Rounding lemmas\<close>

lemma clampf_bounds: "lo \<le> hi \<Longrightarrow> lo \<le> clampf lo hi x \<and> clampf lo hi x \<le> hi"
  by (simp add: clampf_def)

lemma round_half_even_int [simp]: "round_half_even (of_int n) = n"
  by (simp add: round_half_even_def)

lemma round_half_even_mono: "x \<le> y \<Longrightarrow> round_half_even x \<le> round_half_even y"
proof (cases "\<lfloor>x\<rfloor> = \<lfloor>y\<rfloor>")
  case True
  assume "x \<le> y"
  with True show ?thesis by (simp add: round_half_even_def Let_def)
next
  case False
  assume "x \<le> y"
  with False have "\<lfloor>x\<rfloor> + 1 \<le> \<lfloor>y\<rfloor>" using floor_mono [OF \<open>x \<le> y\<close>] by simp
  then show ?thesis by (simp add: round_half_even_def Let_def)
qed

lemma round_bin_zero [simp]: "round_bin p e 0 = 0"
  by (simp add: round_bin_def)

lemma round_bin_error:
  "\<bar>round_bin p e r - r\<bar> \<le> 2 powr of_int (max (\<lfloor>log 2 \<bar>r\<bar>\<rfloor> - (p - 1)) e) / 2"
proof (cases "r = 0")
  case False
  let ?s = "2 powr real_of_int (max (\<lfloor>log 2 \<bar>r\<bar>\<rfloor> - (p - 1)) e)"
  have half: "\<bar>real_of_int (round_half_even m) - m\<bar> \<le> 1 / 2" for m
    using floor_correct [of m] by (auto simp: round_half_even_def Let_def abs_le_iff)
  have "round_bin p e r - r = (real_of_int (round_half_even (r / ?s)) - r / ?s) * ?s"
    using False by (simp add: round_bin_def Let_def field_simps)
  then have "\<bar>round_bin p e r - r\<bar> = \<bar>real_of_int (round_half_even (r / ?s)) - r / ?s\<bar> * ?s"
    by (simp add: abs_mult)
  also have "\<dots> \<le> 1 / 2 * ?s"
    using half [of "r / ?s"] by (intro mult_right_mono) auto
  finally show ?thesis by simp
qed simp

end
