(* ===== verification/Keymap.thy ===== *)
theory Keymap
  imports Prelude "HOL-Library.AList"
begin

text \<open>
  The physical-key table of \<open>miru-input/src/keymap.rs\<close>: W3C \<open>KeyboardEvent.code\<close> names to
  evdev, CGKeyCode and Windows virtual-key codes. The \<open>match\<close> of the source is the list
  \<open>key_table\<close> in the same order, searched from the front.
\<close>

section \<open>Definitions\<close>

definition NO_CODE :: u16 where
  "NO_CODE = 0xFFFF"

record key_codes =
  kc_evdev :: u16
  kc_mac :: u16
  kc_vk :: u16

definition key_table :: "(string \<times> u16 \<times> u16 \<times> u16) list" where
  "key_table = [
    (''KeyA'', 30, 0, 0x41),
    (''KeyB'', 48, 11, 0x42),
    (''KeyC'', 46, 8, 0x43),
    (''KeyD'', 32, 2, 0x44),
    (''KeyE'', 18, 14, 0x45),
    (''KeyF'', 33, 3, 0x46),
    (''KeyG'', 34, 5, 0x47),
    (''KeyH'', 35, 4, 0x48),
    (''KeyI'', 23, 34, 0x49),
    (''KeyJ'', 36, 38, 0x4A),
    (''KeyK'', 37, 40, 0x4B),
    (''KeyL'', 38, 37, 0x4C),
    (''KeyM'', 50, 46, 0x4D),
    (''KeyN'', 49, 45, 0x4E),
    (''KeyO'', 24, 31, 0x4F),
    (''KeyP'', 25, 35, 0x50),
    (''KeyQ'', 16, 12, 0x51),
    (''KeyR'', 19, 15, 0x52),
    (''KeyS'', 31, 1, 0x53),
    (''KeyT'', 20, 17, 0x54),
    (''KeyU'', 22, 32, 0x55),
    (''KeyV'', 47, 9, 0x56),
    (''KeyW'', 17, 13, 0x57),
    (''KeyX'', 45, 7, 0x58),
    (''KeyY'', 21, 16, 0x59),
    (''KeyZ'', 44, 6, 0x5A),
    (''Digit1'', 2, 18, 0x31),
    (''Digit2'', 3, 19, 0x32),
    (''Digit3'', 4, 20, 0x33),
    (''Digit4'', 5, 21, 0x34),
    (''Digit5'', 6, 23, 0x35),
    (''Digit6'', 7, 22, 0x36),
    (''Digit7'', 8, 26, 0x37),
    (''Digit8'', 9, 28, 0x38),
    (''Digit9'', 10, 25, 0x39),
    (''Digit0'', 11, 29, 0x30),
    (''Enter'', 28, 36, 0x0D),
    (''Escape'', 1, 53, 0x1B),
    (''Backspace'', 14, 51, 0x08),
    (''Tab'', 15, 48, 0x09),
    (''Space'', 57, 49, 0x20),
    (''CapsLock'', 58, 57, 0x14),
    (''Minus'', 12, 27, 0xBD),
    (''Equal'', 13, 24, 0xBB),
    (''BracketLeft'', 26, 33, 0xDB),
    (''BracketRight'', 27, 30, 0xDD),
    (''Backslash'', 43, 42, 0xDC),
    (''Semicolon'', 39, 41, 0xBA),
    (''Quote'', 40, 39, 0xDE),
    (''Backquote'', 41, 50, 0xC0),
    (''Comma'', 51, 43, 0xBC),
    (''Period'', 52, 47, 0xBE),
    (''Slash'', 53, 44, 0xBF),
    (''F1'', 59, 122, 0x70),
    (''F2'', 60, 120, 0x71),
    (''F3'', 61, 99, 0x72),
    (''F4'', 62, 118, 0x73),
    (''F5'', 63, 96, 0x74),
    (''F6'', 64, 97, 0x75),
    (''F7'', 65, 98, 0x76),
    (''F8'', 66, 100, 0x77),
    (''F9'', 67, 101, 0x78),
    (''F10'', 68, 109, 0x79),
    (''F11'', 87, 103, 0x7A),
    (''F12'', 88, 111, 0x7B),
    (''Insert'', 110, 114, 0x2D),
    (''Delete'', 111, 117, 0x2E),
    (''Home'', 102, 115, 0x24),
    (''End'', 107, 119, 0x23),
    (''PageUp'', 104, 116, 0x21),
    (''PageDown'', 109, 121, 0x22),
    (''ArrowUp'', 103, 126, 0x26),
    (''ArrowDown'', 108, 125, 0x28),
    (''ArrowLeft'', 105, 123, 0x25),
    (''ArrowRight'', 106, 124, 0x27),
    (''ControlLeft'', 29, 59, 0xA2),
    (''ControlRight'', 97, 62, 0xA3),
    (''ShiftLeft'', 42, 56, 0xA0),
    (''ShiftRight'', 54, 60, 0xA1),
    (''AltLeft'', 56, 58, 0xA4),
    (''AltRight'', 100, 61, 0xA5),
    (''MetaLeft'', 125, 55, 0x5B),
    (''MetaRight'', 126, 54, 0x5C),
    (''IntlYen'', 124, 93, 0xDC),
    (''IntlRo'', 89, 94, 0xE2),
    (''IntlBackslash'', 86, 10, 0xE2),
    (''Convert'', 92, NO_CODE, 0x1C),
    (''NonConvert'', 94, NO_CODE, 0x1D),
    (''KanaMode'', 93, NO_CODE, 0x15),
    (''Lang1'', 122, 104, 0x15),
    (''Lang2'', 123, 102, 0x19),
    (''Numpad0'', 82, 82, 0x60),
    (''Numpad1'', 79, 83, 0x61),
    (''Numpad2'', 80, 84, 0x62),
    (''Numpad3'', 81, 85, 0x63),
    (''Numpad4'', 75, 86, 0x64),
    (''Numpad5'', 76, 87, 0x65),
    (''Numpad6'', 77, 88, 0x66),
    (''Numpad7'', 71, 89, 0x67),
    (''Numpad8'', 72, 91, 0x68),
    (''Numpad9'', 73, 92, 0x69),
    (''NumpadDivide'', 98, 75, 0x6F),
    (''NumpadMultiply'', 55, 67, 0x6A),
    (''NumpadSubtract'', 74, 78, 0x6D),
    (''NumpadAdd'', 78, 69, 0x6B),
    (''NumpadDecimal'', 83, 65, 0x6E),
    (''NumpadEnter'', 96, 76, 0x0D),
    (''NumLock'', 69, 71, 0x90),
    (''PrintScreen'', 99, NO_CODE, 0x2C),
    (''ScrollLock'', 70, NO_CODE, 0x91),
    (''Pause'', 119, NO_CODE, 0x13),
    (''ContextMenu'', 127, 110, 0x5D),
    (''F13'', 183, 105, 0x7C),
    (''F14'', 184, 107, 0x7D),
    (''F15'', 185, 113, 0x7E),
    (''F16'', 186, 106, 0x7F),
    (''F17'', 187, 64, 0x80),
    (''F18'', 188, 79, 0x81),
    (''F19'', 189, 80, 0x82),
    (''F20'', 190, 90, 0x83)
  ]"

definition lookup :: "string \<Rightarrow> key_codes option" where
  "lookup code =
     (case map_of key_table code of
        Some (e, m, v) \<Rightarrow> Some \<lparr>kc_evdev = e, kc_mac = m, kc_vk = v\<rparr>
      | None \<Rightarrow> None)"

definition present_code :: "u16 \<Rightarrow> u16 option" where
  "present_code c = (if c \<noteq> NO_CODE then Some c else None)"

definition code_to_evdev :: "string \<Rightarrow> u16 option" where
  "code_to_evdev code = Option.bind (lookup code) (\<lambda>k. present_code (kc_evdev k))"

definition code_to_cgkeycode :: "string \<Rightarrow> u16 option" where
  "code_to_cgkeycode code = Option.bind (lookup code) (\<lambda>k. present_code (kc_mac k))"

definition code_to_vk :: "string \<Rightarrow> u16 option" where
  "code_to_vk code = Option.bind (lookup code) (\<lambda>k. present_code (kc_vk k))"

section \<open>The table\<close>

lemma distinct_evdev: "distinct (map (\<lambda>(k, e, m, v). e) key_table)"
  unfolding key_table_def by simp

lemma distinct_mac: "distinct (List.filter (\<lambda>m. m \<noteq> NO_CODE) (map (\<lambda>(k, e, m, v). m) key_table))"
  unfolding key_table_def NO_CODE_def by simp

lemma evdev_vk_present: "list_all (\<lambda>(k, e, m, v). e \<noteq> NO_CODE \<and> v \<noteq> NO_CODE) key_table"
  unfolding key_table_def NO_CODE_def by simp

lemma distinct_map_filter_inj:
  assumes "distinct (List.filter P (map f xs))" "x \<in> set xs" "y \<in> set xs" "f x = f y" "P (f x)"
  shows "x = y"
  using assms
proof (induction xs)
  case (Cons z xs)
  have "False" if "z = x" "y \<in> set xs \<or> z = y" "x \<noteq> y"
    using that Cons.prems by (auto simp: image_iff split: if_splits)
  moreover have "False" if "z = y" "x \<in> set xs \<or> z = x" "x \<noteq> y"
    using that Cons.prems by (auto simp: image_iff split: if_splits)
  ultimately show ?case
    using Cons by (auto split: if_splits)
qed simp

lemma lookup_row:
  "lookup a = Some k \<Longrightarrow> (a, kc_evdev k, kc_mac k, kc_vk k) \<in> set key_table"
  by (auto simp: lookup_def split: option.splits dest: map_of_SomeD)

text \<open>
  The key table is faithful: no two key names are injected as the same evdev code or as the
  same macOS key code, every known key exists on Linux and Windows, and the sentinel 0xFFFF is
  never injected.\<close>

theorem keymap_faithful:
  "(code_to_evdev a = Some c \<and> code_to_evdev b = Some c \<longrightarrow> a = b) \<and>
   (code_to_cgkeycode a = Some c \<and> code_to_cgkeycode b = Some c \<longrightarrow> a = b) \<and>
   (code_to_evdev a = None) = (lookup a = None) \<and> (code_to_vk a = None) = (lookup a = None) \<and>
   code_to_evdev a \<noteq> Some NO_CODE \<and> code_to_cgkeycode a \<noteq> Some NO_CODE \<and> code_to_vk a \<noteq> Some NO_CODE"
proof (intro conjI impI)
  have e: "distinct (List.filter (\<lambda>_. True) (map (\<lambda>(k, e, m, v). e) key_table))" using distinct_evdev by simp
  assume "code_to_evdev a = Some c \<and> code_to_evdev b = Some c"
  then obtain k l where "lookup a = Some k" "lookup b = Some l" "kc_evdev k = kc_evdev l"
    by (auto simp: code_to_evdev_def present_code_def bind_eq_Some_conv split: if_splits)
  then show "a = b"
    using distinct_map_filter_inj [OF e lookup_row lookup_row, of a k b l] by simp
next
  assume "code_to_cgkeycode a = Some c \<and> code_to_cgkeycode b = Some c"
  then obtain k l where "lookup a = Some k" "lookup b = Some l" "kc_mac k = kc_mac l" "kc_mac k \<noteq> NO_CODE"
    by (auto simp: code_to_cgkeycode_def present_code_def bind_eq_Some_conv split: if_splits)
  then show "a = b"
    using distinct_map_filter_inj [OF distinct_mac lookup_row lookup_row, of a k b l] by simp
next
  show "(code_to_evdev a = None) = (lookup a = None)" "(code_to_vk a = None) = (lookup a = None)"
    using evdev_vk_present lookup_row [of a]
    by (cases "lookup a"; fastforce simp: code_to_evdev_def code_to_vk_def present_code_def list_all_iff)+
qed (auto simp: code_to_evdev_def code_to_cgkeycode_def code_to_vk_def present_code_def
       bind_eq_Some_conv split: if_splits)

theorem keymap_faithful_witness:
  "code_to_evdev ''KeyA'' = Some 30 \<and> code_to_evdev ''Enter'' \<noteq> Some 30"
proof -
  have "code_to_evdev ''KeyA'' = Some 30"
    by (simp add: code_to_evdev_def lookup_def key_table_def present_code_def NO_CODE_def)
  moreover have "''KeyA'' \<noteq> ''Enter''" by simp
  ultimately show ?thesis using keymap_faithful [of "''KeyA''" 30 "''Enter''"] by blast
qed

end
