(* ===== verification/Rate_Limit.thy ===== *)
theory Rate_Limit
  imports Token
begin

text \<open>
  The per-capability token bucket of \<open>miru-mcp/src/rate_limit.rs\<close>. Instants and durations are
  nanoseconds; the clock reading of a call is an argument (the readings inside one call are
  equal). Counters are \<open>u32\<close> and wrap, as in the release profile.
\<close>

section \<open>Definitions\<close>

record policy =
  burst :: u32
  refill_every :: nat
  daily_max :: u32

definition per_second :: "u32 \<Rightarrow> u32 \<Rightarrow> policy" where
  "per_second bst daily =
     (let b = unat (max bst 1)
      in \<lparr>burst = bst, refill_every = (1000 + b - 1) div b * 1000000, daily_max = daily\<rparr>)"

definition per_minute :: "u32 \<Rightarrow> u32 \<Rightarrow> policy" where
  "per_minute bst daily =
     (let b = unat (max bst 1)
      in \<lparr>burst = bst, refill_every = (60 + b - 1) div b * 1000000000, daily_max = daily\<rparr>)"

fun default_for :: "capability \<Rightarrow> policy" where
  "default_for ScreenRead = per_second 10 1000"
| "default_for ClipboardRead = per_second 5 500"
| "default_for FileRead = per_second 5 500"
| "default_for PointerMove = per_second 60 10000"
| "default_for PointerClick = per_second 10 1000"
| "default_for KeyType = per_second 20 5000"
| "default_for KeyCombo = per_second 10 1000"
| "default_for ClipboardWrite = per_second 2 200"
| "default_for FileWrite = per_minute 10 100"
| "default_for OpenUrl = per_minute 20 200"
| "default_for ShellExec = per_minute 1 30"

record bucket =
  bk_policy :: policy
  bk_tokens :: u32
  bk_last_refill :: nat
  bk_used_today :: u32
  bk_day_start :: nat

datatype rate_limit_error = BucketEmpty nat | DailyCapReached u32 nat

definition DAY :: nat where
  "DAY = 24 * 3600 * 1000000000"

definition bucket_new :: "nat \<Rightarrow> policy \<Rightarrow> bucket" where
  "bucket_new now p =
     \<lparr>bk_policy = p, bk_tokens = burst p, bk_last_refill = now, bk_used_today = 0, bk_day_start = now\<rparr>"

definition roll_day :: "nat \<Rightarrow> bucket \<Rightarrow> bucket" where
  "roll_day now b =
     (if now - bk_day_start b \<ge> DAY then b\<lparr>bk_day_start := now, bk_used_today := 0\<rparr> else b)"

definition refilled :: "nat \<Rightarrow> bucket \<Rightarrow> u32" where
  "refilled now b =
     word_of_nat (min ((now - bk_last_refill b) div max (refill_every (bk_policy b)) 1) (2 ^ 32 - 1))"

definition refill :: "nat \<Rightarrow> bucket \<Rightarrow> bucket" where
  "refill now b =
     (if refilled now b > 0
      then b\<lparr>bk_tokens := min (bk_tokens b + refilled now b) (burst (bk_policy b)),
             bk_last_refill := bk_last_refill b + refill_every (bk_policy b) * unat (refilled now b)\<rparr>
      else b)"

definition bucket_try_consume :: "nat \<Rightarrow> bucket \<Rightarrow> (rate_limit_error + unit) \<times> bucket" where
  "bucket_try_consume now b0 =
     (let b1 = roll_day now b0
      in if bk_used_today b1 \<ge> daily_max (bk_policy b1)
         then (Err (DailyCapReached (daily_max (bk_policy b1)) (bk_day_start b1 + DAY)), b1)
         else
           (let b2 = refill now b1
            in if bk_tokens b2 = 0
               then (Err (BucketEmpty (refill_every (bk_policy b2) - (now - bk_last_refill b2))), b2)
               else (Ok (), b2\<lparr>bk_tokens := bk_tokens b2 - 1, bk_used_today := bk_used_today b2 + 1\<rparr>)))"

type_synonym rate_limiter = "capability \<rightharpoonup> bucket"

definition rate_limiter_new :: rate_limiter where
  "rate_limiter_new = Map.empty"

definition try_consume :: "nat \<Rightarrow> rate_limiter \<Rightarrow> capability \<Rightarrow> (rate_limit_error + unit) \<times> rate_limiter" where
  "try_consume now rl cap =
     (let b = (case rl cap of Some b \<Rightarrow> b | None \<Rightarrow> bucket_new now (default_for cap))
      in case bucket_try_consume now b of (r, b') \<Rightarrow> (r, rl(cap \<mapsto> b')))"

text \<open>The number of granted requests for one capability in a list of requests with their times.\<close>

fun granted :: "rate_limiter \<Rightarrow> capability \<Rightarrow> (nat \<times> capability) list \<Rightarrow> nat" where
  "granted rl c [] = 0"
| "granted rl c ((now, cap) # rs) =
     (case try_consume now rl cap of
        (r, rl') \<Rightarrow> (if cap = c \<and> is_ok r then 1 else 0) + granted rl' c rs)"

section \<open>Bucket invariant\<close>

text \<open>
  \<open>bucket_inv p t0 n now b\<close>: the bucket of policy \<open>p\<close>, created at \<open>t0\<close>, has granted
  \<open>n\<close> requests up to \<open>now\<close>: every grant is paid by the initial burst or a full refill
  interval, and counted in the current day or an earlier one.
\<close>

definition bucket_inv :: "policy \<Rightarrow> nat \<Rightarrow> nat \<Rightarrow> nat \<Rightarrow> bucket \<Rightarrow> bool" where
  "bucket_inv p t0 n now b \<longleftrightarrow>
     bk_policy b = p \<and> bk_tokens b \<le> burst p \<and> bk_used_today b \<le> daily_max p \<and>
     bk_last_refill b \<le> now \<and> bk_day_start b \<le> now \<and>
     (\<exists>k. bk_last_refill b = t0 + refill_every p * k \<and> n + unat (bk_tokens b) \<le> unat (burst p) + k) \<and>
     (\<exists>d. t0 + DAY * d \<le> bk_day_start b \<and> n \<le> unat (daily_max p) * d + unat (bk_used_today b))"

lemma bucket_inv_new: "bucket_inv p t0 0 t0 (bucket_new t0 p)"
  by (auto simp: bucket_inv_def bucket_new_def intro: exI [of _ 0])

lemma bucket_inv_later: "bucket_inv p t0 n now b \<Longrightarrow> now \<le> now' \<Longrightarrow> bucket_inv p t0 n now' b"
  by (auto simp: bucket_inv_def)

lemma bucket_inv_roll:
  assumes "bucket_inv p t0 n now b"
  shows "bucket_inv p t0 n now (roll_day now b)"
proof (cases "now - bk_day_start b \<ge> DAY")
  case True
  from assms obtain d where d: "t0 + DAY * d \<le> bk_day_start b"
      "n \<le> unat (daily_max p) * d + unat (bk_used_today b)" "bk_used_today b \<le> daily_max p"
    by (auto simp: bucket_inv_def)
  then have "t0 + DAY * Suc d \<le> now" "n \<le> unat (daily_max p) * Suc d"
    using True by (auto simp: word_le_nat_alt DAY_def)
  with assms True show ?thesis
    by (auto simp: bucket_inv_def roll_day_def intro!: exI [of _ "Suc d"])
qed (use assms in \<open>simp add: roll_day_def\<close>)

lemma unat_plus_le: "unat (x + y :: u32) \<le> unat x + unat y"
  by (simp add: unat_word_ariths)

lemma refilled_bound:
  assumes "bk_last_refill b \<le> now"
  shows "bk_last_refill b + refill_every (bk_policy b) * unat (refilled now b) \<le> now"
proof -
  let ?R = "refill_every (bk_policy b)" and ?e = "now - bk_last_refill b"
  have "unat (refilled now b) \<le> ?e div max ?R 1"
    by (simp add: refilled_def unat_of_nat min.coboundedI1 order_trans [OF mod_less_eq_dividend])
  then have "?R * unat (refilled now b) \<le> max ?R 1 * (?e div max ?R 1)"
    by (intro mult_le_mono) simp_all
  also have "\<dots> \<le> ?e" by (rule times_div_less_eq_dividend)
  finally show ?thesis using assms by simp
qed

lemma bucket_inv_refill:
  assumes "bucket_inv p t0 n now b"
  shows "bucket_inv p t0 n now (refill now b)"
proof (cases "refilled now b > 0")
  case True
  let ?r = "refilled now b"
  from assms obtain k where k: "bk_policy b = p" "bk_last_refill b = t0 + refill_every p * k"
      "n + unat (bk_tokens b) \<le> unat (burst p) + k"
    by (auto simp: bucket_inv_def)
  have "unat (min (bk_tokens b + ?r) (burst p)) \<le> unat (bk_tokens b) + unat ?r"
    using unat_plus_le [of "bk_tokens b" ?r] by (auto simp: min_def word_le_nat_alt)
  then have "n + unat (min (bk_tokens b + ?r) (burst p)) \<le> unat (burst p) + (k + unat ?r)"
    using k by simp
  moreover have "bk_last_refill b + refill_every p * unat ?r \<le> now"
    using refilled_bound [of b now] assms k(1) by (simp add: bucket_inv_def)
  moreover have "bk_last_refill b + refill_every p * unat ?r = t0 + refill_every p * (k + unat ?r)"
    using k(2) by (simp add: algebra_simps)
  ultimately show ?thesis
    using assms True k(1) unfolding bucket_inv_def refill_def by auto
qed (use assms in \<open>simp add: refill_def\<close>)

lemma roll_day_policy [simp]: "bk_policy (roll_day now b) = bk_policy b"
  by (simp add: roll_day_def)

lemma refill_keeps [simp]: "bk_policy (refill now b) = bk_policy b"
  "bk_used_today (refill now b) = bk_used_today b" "bk_day_start (refill now b) = bk_day_start b"
  by (simp_all add: refill_def)

lemma bucket_inv_step:
  assumes "bucket_inv p t0 n now b" "bucket_try_consume now b = (r, b')"
  shows "bucket_inv p t0 (n + (if is_ok r then 1 else 0)) now b'"
proof -
  let ?b1 = "roll_day now b"
  let ?b2 = "refill now ?b1"
  have i1: "bucket_inv p t0 n now ?b1" using assms(1) by (rule bucket_inv_roll)
  then have i2: "bucket_inv p t0 n now ?b2" by (rule bucket_inv_refill)
  have pol: "bk_policy b = p" using assms(1) by (simp add: bucket_inv_def)
  consider (cap) "bk_used_today ?b1 \<ge> daily_max p" | (empty) "\<not> bk_used_today ?b1 \<ge> daily_max p" "bk_tokens ?b2 = 0"
    | (grant) "\<not> bk_used_today ?b1 \<ge> daily_max p" "bk_tokens ?b2 \<noteq> 0" by blast
  then show ?thesis
  proof cases
    case cap
    with assms(2) i1 pol show ?thesis by (auto simp: bucket_try_consume_def Let_def)
  next
    case empty
    with assms(2) i2 pol show ?thesis by (auto simp: bucket_try_consume_def Let_def)
  next
    case grant
    let ?b = "?b2\<lparr>bk_tokens := bk_tokens ?b2 - 1, bk_used_today := bk_used_today ?b2 + 1\<rparr>"
    have res: "r = Ok ()" "b' = ?b"
      using assms(2) grant pol by (simp_all add: bucket_try_consume_def Let_def)
    have lt: "unat (bk_used_today ?b2) < unat (daily_max p)"
      using grant(1) by (simp add: word_le_nat_alt)
    then have used: "unat (bk_used_today ?b2 + 1) = unat (bk_used_today ?b2) + 1"
      using unsigned_less [of "daily_max p", where 'a = nat] by (simp add: unat_word_ariths)
    have tok: "unat (bk_tokens ?b2 - 1) = unat (bk_tokens ?b2) - 1" "0 < unat (bk_tokens ?b2)"
      using grant(2) by (simp_all add: unat_minus_one unat_gt_0)
    from i2 show ?thesis
      using res lt used tok by (auto simp: bucket_inv_def word_le_nat_alt)
  qed
qed

section \<open>Bounds on what is granted\<close>

definition grant_bound :: "policy \<Rightarrow> nat \<Rightarrow> nat" where
  "grant_bound p span =
     min (unat (burst p) + span div refill_every p) (unat (daily_max p) * (1 + span div DAY))"

lemma default_refill_pos: "0 < refill_every (default_for cap)"
  by (cases cap) (simp_all add: per_second_def per_minute_def Let_def)

lemma bucket_inv_bound:
  assumes "bucket_inv p t0 n now b" "0 < refill_every p"
  shows "n \<le> grant_bound p (now - t0)"
proof -
  have used: "unat (bk_used_today b) \<le> unat (daily_max p)"
    using assms(1) by (simp add: bucket_inv_def word_le_nat_alt)
  from assms(1) obtain k where k: "t0 + refill_every p * k \<le> now" "n \<le> unat (burst p) + k"
    by (auto simp: bucket_inv_def)
  from assms(1) obtain d where "t0 + DAY * d \<le> bk_day_start b" "bk_day_start b \<le> now"
      "n \<le> unat (daily_max p) * d + unat (bk_used_today b)"
    by (auto simp: bucket_inv_def)
  with used have d: "t0 + DAY * d \<le> now" "n \<le> unat (daily_max p) * d + unat (daily_max p)"
    by linarith+
  have "k \<le> (now - t0) div refill_every p"
    using k(1) assms(2) by (simp add: less_eq_div_iff_mult_less_eq ac_simps)
  moreover have "d \<le> (now - t0) div DAY"
    using d(1) by (simp add: less_eq_div_iff_mult_less_eq DAY_def ac_simps)
  then have "unat (daily_max p) * d + unat (daily_max p) \<le> unat (daily_max p) * (1 + (now - t0) div DAY)"
    by simp
  with d(2) have "n \<le> unat (daily_max p) * (1 + (now - t0) div DAY)" by (rule le_trans)
  ultimately show ?thesis using k(2) unfolding grant_bound_def by linarith
qed

lemma grant_bound_mono: "s \<le> s' \<Longrightarrow> grant_bound p s \<le> grant_bound p s'"
  unfolding grant_bound_def by (intro min.mono add_mono mult_le_mono div_le_mono) simp_all

definition limiter_inv :: "nat \<Rightarrow> capability \<Rightarrow> nat \<Rightarrow> nat \<Rightarrow> rate_limiter \<Rightarrow> bool" where
  "limiter_inv t0 c n now rl \<longleftrightarrow>
     (case rl c of None \<Rightarrow> n = 0 | Some b \<Rightarrow> \<exists>t \<ge> t0. bucket_inv (default_for c) t n now b)"

lemma limiter_inv_step:
  assumes "limiter_inv t0 c n now rl" "now \<le> now'" "t0 \<le> now'" "try_consume now' rl cap = (r, rl')"
  shows "limiter_inv t0 c (n + (if cap = c \<and> is_ok r then 1 else 0)) now' rl'"
proof (cases "cap = c")
  case False
  with assms(4) have "rl' c = rl c"
    by (auto simp: try_consume_def Let_def split: prod.splits)
  with False assms(1,2) show ?thesis
    using bucket_inv_later [of "default_for c" _ n now _ now']
    by (fastforce simp: limiter_inv_def split: option.splits)
next
  case True
  let ?b = "case rl c of Some b \<Rightarrow> b | None \<Rightarrow> bucket_new now' (default_for c)"
  obtain t where t: "t0 \<le> t" "bucket_inv (default_for c) t n now' ?b"
    using assms(1-3) bucket_inv_new
    by (auto simp: limiter_inv_def split: option.splits intro: bucket_inv_later)
  obtain b' where b': "bucket_try_consume now' ?b = (r, b')" "rl' = rl(c \<mapsto> b')"
    using assms(4) True by (auto simp: try_consume_def Let_def split: prod.splits)
  from bucket_inv_step [OF t(2) b'(1)] t(1) b'(2) True show ?thesis
    by (auto simp: limiter_inv_def)
qed

lemma granted_bound:
  assumes "limiter_inv t0 c n now rl" "sorted_wrt (\<le>) (now # map fst rs)" "t0 \<le> now"
    and "list_all (\<lambda>r. fst r \<le> t1) rs" "now \<le> t1"
  shows "n + granted rl c rs \<le> grant_bound (default_for c) (t1 - t0)"
  using assms
proof (induction rs arbitrary: n now rl)
  case Nil
  then show ?case
  proof (cases "rl c")
    case (Some b)
    with Nil obtain t where "t0 \<le> t" "bucket_inv (default_for c) t n now b"
      by (auto simp: limiter_inv_def)
    with bucket_inv_bound [OF this(2) default_refill_pos] Nil(5)
      grant_bound_mono [of "now - t" "t1 - t0" "default_for c"]
    show ?thesis by (simp add: diff_le_mono2 diff_le_mono le_trans [OF diff_le_mono diff_le_mono2])
  qed (simp add: limiter_inv_def)
next
  case (Cons q rs)
  obtain now' cap where q: "q = (now', cap)" by fastforce
  obtain r rl' where tc: "try_consume now' rl cap = (r, rl')" by fastforce
  have "limiter_inv t0 c (n + (if cap = c \<and> is_ok r then 1 else 0)) now' rl'"
    using limiter_inv_step [OF Cons.prems(1) _ _ tc] Cons.prems q by simp
  from Cons.IH [OF this] Cons.prems q tc show ?case by auto
qed

text \<open>
  C28. What the limiter grants is bounded: for any mix of requests over a span of time, the grants
  of one capability are at most its burst plus one per refill interval in the span, and at most
  its daily maximum per started day.\<close>

theorem rate_limiter_bounds:
  assumes "sorted_wrt (\<le>) (map fst rs)" "list_all (\<lambda>r. t0 \<le> fst r \<and> fst r \<le> t1) rs"
  shows "granted rate_limiter_new c rs \<le>
    min (unat (burst (default_for c)) + (t1 - t0) div refill_every (default_for c))
        (unat (daily_max (default_for c)) * (1 + (t1 - t0) div DAY))"
proof (cases rs)
  case (Cons q qs)
  then have q: "t0 \<le> fst q" "fst q \<le> t1" using assms(2) by simp_all
  have "limiter_inv (fst q) c 0 (fst q) rate_limiter_new"
    by (simp add: limiter_inv_def rate_limiter_new_def)
  from granted_bound [OF this, of rs t1] assms Cons q
  have "granted rate_limiter_new c rs \<le> grant_bound (default_for c) (t1 - fst q)"
    by (auto simp: list_all_iff)
  also have "\<dots> \<le> grant_bound (default_for c) (t1 - t0)"
    using q by (intro grant_bound_mono) simp
  finally show ?thesis by (simp add: grant_bound_def)
qed simp

theorem rate_limiter_bounds_witness:
  "granted rate_limiter_new ShellExec [(5, ShellExec), (7, PointerMove), (9, ShellExec)] \<le> 1 \<and>
   granted rate_limiter_new ShellExec [(5, ShellExec)] = 1"
proof
  show "granted rate_limiter_new ShellExec [(5, ShellExec), (7, PointerMove), (9, ShellExec)] \<le> 1"
    using rate_limiter_bounds [of "[(5, ShellExec), (7, PointerMove), (9, ShellExec)]" 5 9 ShellExec]
    by (simp add: per_minute_def Let_def DAY_def del: granted.simps)
  show "granted rate_limiter_new ShellExec [(5, ShellExec)] = 1"
    by (simp add: try_consume_def rate_limiter_new_def bucket_try_consume_def bucket_new_def roll_day_def
        refill_def refilled_def per_minute_def Let_def DAY_def word_le_nat_alt)
qed

lemma refilled_value:
  assumes "0 < refill_every (bk_policy b)" "(now - bk_last_refill b) div refill_every (bk_policy b) < 2 ^ 32"
  shows "unat (refilled now b) = (now - bk_last_refill b) div refill_every (bk_policy b)"
proof -
  have "max (refill_every (bk_policy b)) 1 = refill_every (bk_policy b)" using assms(1) by simp
  with assms(2) show ?thesis by (simp add: refilled_def unat_of_nat)
qed

text \<open>
  The retry hint is exact. After a denial for an empty bucket with the hint \<open>d\<close>, a later
  request of the same day is granted if and only if at least \<open>d\<close> has passed since the denial.\<close>

theorem retry_after_exact:
  assumes "bucket_try_consume now b = (Err (BucketEmpty d), b')"
    and "0 < refill_every (bk_policy b)" "0 < burst (bk_policy b)" "bk_last_refill b \<le> now"
    and "(now - bk_last_refill b) div refill_every (bk_policy b) < 2 ^ 32 - unat (bk_tokens b)"
    and "now \<le> now'" "now' < bk_day_start b' + DAY"
    and "(now' - bk_last_refill b') div refill_every (bk_policy b) < 2 ^ 32"
  shows "is_ok (fst (bucket_try_consume now' b')) = (now + d \<le> now')"
proof -
  let ?R = "refill_every (bk_policy b)"
  let ?b1 = "roll_day now b"
  have b': "b' = refill now ?b1" "bk_tokens b' = 0" "d = ?R - (now - bk_last_refill b')"
      and used: "\<not> bk_used_today ?b1 \<ge> daily_max (bk_policy b)"
    using assms(1) by (auto simp: bucket_try_consume_def Let_def split: if_splits)
  have keep: "bk_policy b' = bk_policy b" "bk_used_today b' = bk_used_today ?b1"
    using b'(1) by simp_all
  have lr: "bk_last_refill b' \<le> now" "now - bk_last_refill b' < ?R"
  proof -
    have l1: "bk_last_refill ?b1 = bk_last_refill b" by (simp add: roll_day_def)
    have v: "unat (refilled now ?b1) = (now - bk_last_refill b) div ?R"
      using refilled_value [of ?b1 now] assms(2,5) l1 by simp
    have "bk_last_refill b' = bk_last_refill b + ?R * ((now - bk_last_refill b) div ?R)"
    proof (cases "refilled now ?b1 > 0")
      case False
      then have "unat (refilled now ?b1) = 0" by (simp add: word_gt_0 unat_eq_zero)
      then have "?R * ((now - bk_last_refill b) div ?R) = 0" using v by simp
      with False b'(1) l1 show ?thesis by (simp add: refill_def)
    qed (simp add: b'(1) refill_def v l1)
    moreover have "?R * ((now - bk_last_refill b) div ?R) = (now - bk_last_refill b) - (now - bk_last_refill b) mod ?R"
      by (simp add: minus_mod_eq_mult_div)
    moreover have "(now - bk_last_refill b) mod ?R < ?R" using assms(2) by simp
    moreover have "(now - bk_last_refill b) mod ?R \<le> now - bk_last_refill b" by simp
    ultimately show "bk_last_refill b' \<le> now" "now - bk_last_refill b' < ?R"
      using assms(4) by linarith+
  qed
  have same: "roll_day now' b' = b'" using assms(7) by (auto simp: roll_day_def DAY_def)
  have v': "unat (refilled now' b') = (now' - bk_last_refill b') div ?R"
    using refilled_value [of b' now'] assms(2,8) keep by simp
  have tok: "bk_tokens (refill now' b') \<noteq> 0 \<longleftrightarrow> refilled now' b' > 0"
    using b'(2) assms(3) keep by (auto simp: refill_def min_def word_gt_0)
  have "is_ok (fst (bucket_try_consume now' b')) \<longleftrightarrow> refilled now' b' > 0"
    using used keep same tok by (auto simp: bucket_try_consume_def Let_def)
  also have "\<dots> \<longleftrightarrow> 0 < (now' - bk_last_refill b') div ?R"
    unfolding v' [symmetric] by (simp add: unat_gt_0 word_gt_0)
  also have "\<dots> \<longleftrightarrow> ?R \<le> now' - bk_last_refill b'"
    using assms(2) by (simp add: div_greater_zero_iff)
  also have "\<dots> \<longleftrightarrow> now + d \<le> now'"
    using b'(3) lr assms(6) by auto
  finally show ?thesis .
qed

definition wit_bucket :: bucket where
  "wit_bucket = snd (bucket_try_consume 5 (bucket_new 5 (default_for ShellExec)))"

lemma wit_bucket_eq:
  "wit_bucket = \<lparr>bk_policy = default_for ShellExec, bk_tokens = 0, bk_last_refill = 5, bk_used_today = 1, bk_day_start = 5\<rparr>"
  by (simp add: wit_bucket_def bucket_try_consume_def bucket_new_def roll_day_def refill_def refilled_def
      per_minute_def Let_def DAY_def word_le_nat_alt)

theorem retry_after_exact_witness:
  "bucket_try_consume 9 wit_bucket = (Err (BucketEmpty 59999999996), wit_bucket) \<and>
   is_ok (fst (bucket_try_consume 60000000005 wit_bucket))"
proof -
  have deny: "bucket_try_consume 9 wit_bucket = (Err (BucketEmpty 59999999996), wit_bucket)"
    by (simp add: wit_bucket_eq bucket_try_consume_def roll_day_def refill_def refilled_def
        per_minute_def Let_def DAY_def word_le_nat_alt)
  have pol: "refill_every (bk_policy wit_bucket) = 60000000000" "burst (bk_policy wit_bucket) = 1"
    by (simp_all add: wit_bucket_eq per_minute_def Let_def)
  show ?thesis
    using deny retry_after_exact [OF deny, of 60000000005] pol
    by (simp add: wit_bucket_eq DAY_def)
qed

text \<open>
  The addition of the refill is not saturating: with one token left, a refill of the clamped
  maximum wraps to zero and the request is denied after the longest idle time.
\<close>

lemma refill_wraps:
  "bucket_try_consume (t0 + (2 ^ 32 - 1) * 60000000000) (bucket_new t0 (default_for ShellExec)) =
     (Err (BucketEmpty 60000000000),
      \<lparr>bk_policy = default_for ShellExec, bk_tokens = 0, bk_last_refill = t0 + (2 ^ 32 - 1) * 60000000000,
       bk_used_today = 0, bk_day_start = t0 + (2 ^ 32 - 1) * 60000000000\<rparr>)"
  by (simp add: bucket_try_consume_def bucket_new_def roll_day_def refill_def refilled_def
      per_minute_def Let_def DAY_def word_le_nat_alt unat_word_ariths)

end
