(* ===== verification/Replay_Guard.thy ===== *)
theory Replay_Guard
  imports Replay_Filter
begin

text \<open>
  The nonce guard of the tool server (\<open>miru-mcp/src/replay.rs\<close>): a queue of at most 1000
  nonces, its set mirror, and a validity window of 30 seconds around the clock. The clock
  reading is an argument.
\<close>

section \<open>Definitions\<close>

definition NONCE_WINDOW :: nat where
  "NONCE_WINDOW = 1000"

definition VALIDITY :: nat where
  "VALIDITY = 30"

datatype replay_decision = Fresh | DuplicateNonce | StaleTimestamp

record replay_guard =
  gd_order :: "bytes list"
  gd_seen :: "bytes set"

definition guard_new :: replay_guard where
  "guard_new = \<lparr>gd_order = [], gd_seen = {}\<rparr>"

definition abs_diff :: "u64 \<Rightarrow> u64 \<Rightarrow> nat" where
  "abs_diff a b = (if a < b then unat (b - a) else unat (a - b))"

definition guard_evict :: "replay_guard \<Rightarrow> replay_guard" where
  "guard_evict g =
     (if length (gd_order g) \<ge> NONCE_WINDOW
      then (case gd_order g of
              [] \<Rightarrow> g
            | old # rest \<Rightarrow> g\<lparr>gd_order := rest, gd_seen := gd_seen g - {old}\<rparr>)
      else g)"

definition guard_check :: "u64 \<Rightarrow> replay_guard \<Rightarrow> u64 \<Rightarrow> bytes \<Rightarrow> replay_decision \<times> replay_guard" where
  "guard_check now g ts nonce =
     (if abs_diff now ts > VALIDITY then (StaleTimestamp, g)
      else if nonce \<in> gd_seen g then (DuplicateNonce, g)
      else
        (let g' = guard_evict g
         in (Fresh, g'\<lparr>gd_order := gd_order g' @ [nonce], gd_seen := insert nonce (gd_seen g')\<rparr>)))"

text \<open>A request is the clock at its arrival, its timestamp and its nonce.\<close>

type_synonym guard_request = "u64 \<times> u64 \<times> bytes"

fun guard_run :: "replay_guard \<Rightarrow> guard_request list \<Rightarrow> replay_guard" where
  "guard_run g [] = g"
| "guard_run g ((now, ts, n) # rs) = guard_run (snd (guard_check now g ts n)) rs"

fun fresh_nonces :: "replay_guard \<Rightarrow> guard_request list \<Rightarrow> bytes list" where
  "fresh_nonces g [] = []"
| "fresh_nonces g ((now, ts, n) # rs) =
     (case guard_check now g ts n of
        (d, g') \<Rightarrow> (if d = Fresh then [n] else []) @ fresh_nonces g' rs)"

section \<open>The guard is a bounded memory\<close>

definition guard_ok :: "replay_guard \<Rightarrow> bool" where
  "guard_ok g \<longleftrightarrow> gd_seen g = set (gd_order g) \<and> distinct (gd_order g) \<and> length (gd_order g) \<le> NONCE_WINDOW"

definition guard_accepts :: "replay_guard \<Rightarrow> bytes \<Rightarrow> bool" where
  "guard_accepts g n \<longleftrightarrow> fst (guard_check 0 g 0 n) = Fresh"

definition guard_update :: "replay_guard \<Rightarrow> bytes \<Rightarrow> replay_guard" where
  "guard_update g n = snd (guard_check 0 g 0 n)"

lemma guard_new_ok: "guard_ok guard_new"
  by (simp add: guard_ok_def guard_new_def)

lemma guard_evict_order:
  assumes "guard_ok g"
  shows "gd_order (guard_evict g) = drop (length (gd_order g) + 1 - NONCE_WINDOW) (gd_order g)"
  using assms by (cases "gd_order g") (auto simp: guard_evict_def guard_ok_def NONCE_WINDOW_def)

lemma guard_evict_ok: "guard_ok g \<Longrightarrow> guard_ok (guard_evict g) \<and> length (gd_order (guard_evict g)) < NONCE_WINDOW"
  by (cases "gd_order g") (auto simp: guard_evict_def guard_ok_def NONCE_WINDOW_def)

lemma guard_evict_seen: "gd_seen (guard_evict g) \<subseteq> gd_seen g"
  by (auto simp: guard_evict_def split: list.splits)

text \<open>For a timestamp in the window the outcome does not depend on the clock.\<close>

lemma guard_check_valid:
  "abs_diff now ts \<le> VALIDITY \<Longrightarrow> guard_check now g ts n = guard_check 0 g 0 n"
  by (simp add: guard_check_def abs_diff_def)

lemma guard_check_stale:
  "\<not> abs_diff now ts \<le> VALIDITY \<Longrightarrow> guard_check now g ts n = (StaleTimestamp, g)"
  by (simp add: guard_check_def)

lemma guard_accepts_iff: "guard_accepts g n \<longleftrightarrow> n \<notin> gd_seen g"
  by (simp add: guard_accepts_def guard_check_def abs_diff_def Let_def)

lemma guard_update_accept:
  "guard_accepts g n \<Longrightarrow> guard_update g n =
     (guard_evict g)\<lparr>gd_order := gd_order (guard_evict g) @ [n], gd_seen := insert n (gd_seen (guard_evict g))\<rparr>"
  by (simp add: guard_accepts_iff guard_update_def guard_check_def abs_diff_def Let_def)

lemma guard_update_reject: "\<not> guard_accepts g n \<Longrightarrow> guard_update g n = g"
  by (simp add: guard_accepts_iff guard_update_def guard_check_def abs_diff_def)

lemma guard_update_ok: "guard_ok g \<Longrightarrow> guard_ok (guard_update g n)"
proof (cases "guard_accepts g n")
  case True
  assume "guard_ok g"
  with guard_evict_ok [of g] guard_evict_seen [of g] True show ?thesis
    by (auto simp: guard_update_accept guard_accepts_iff guard_ok_def)
qed (simp add: guard_update_reject)

interpretation gf: recent_filter guard_accepts guard_update gd_order guard_ok NONCE_WINDOW
proof
  show "0 < NONCE_WINDOW" by (simp add: NONCE_WINDOW_def)
  fix g n assume ok: "guard_ok g"
  show "guard_accepts g n \<longleftrightarrow> n \<notin> set (gd_order g)"
    using ok by (simp add: guard_accepts_iff guard_ok_def)
  show "gd_order (guard_update g n) = drop (length (gd_order g) + 1 - NONCE_WINDOW) (gd_order g @ [n])"
    if "guard_accepts g n"
    using that ok guard_evict_order [OF ok] by (simp add: guard_update_accept guard_ok_def NONCE_WINDOW_def)
  show "guard_ok (guard_update g n)" using ok by (rule guard_update_ok)
  show "length (gd_order g) \<le> NONCE_WINDOW" using ok by (simp add: guard_ok_def)
qed (rule guard_update_reject)

section \<open>Runs\<close>

text \<open>The nonces of the requests with a valid timestamp are what the filter sees.\<close>

fun valid_nonces :: "guard_request list \<Rightarrow> bytes list" where
  "valid_nonces [] = []"
| "valid_nonces ((now, ts, n) # rs) = (if abs_diff now ts \<le> VALIDITY then [n] else []) @ valid_nonces rs"

lemma guard_run_filter: "guard_run g rs = foldl guard_update g (valid_nonces rs)"
  by (induction g rs rule: guard_run.induct)
     (auto simp: guard_check_valid guard_check_stale guard_update_def)

lemma fresh_count_filter: "length (fresh_nonces g rs) = gf.accepted_count g (valid_nonces rs)"
proof (induction g rs rule: fresh_nonces.induct)
  case (2 g now ts n rs)
  show ?case
  proof (cases "abs_diff now ts \<le> VALIDITY")
    case True
    then have "guard_check now g ts n = (fst (guard_check 0 g 0 n), guard_update g n)"
        "(fst (guard_check 0 g 0 n) = Fresh) = guard_accepts g n"
      by (simp_all add: guard_check_valid guard_update_def guard_accepts_def)
    with 2 True show ?thesis by simp
  next
    case False
    with 2 show ?thesis by (simp add: guard_check_stale)
  qed
qed simp

lemma guard_run_append: "guard_run g (rs @ qs) = guard_run (guard_run g rs) qs"
  by (induction g rs rule: guard_run.induct) auto

lemma guard_run_ok: "guard_ok g \<Longrightarrow> guard_ok (guard_run g rs)"
  unfolding guard_run_filter by (rule gf.ok_run)

text \<open>
  A nonce that was accepted is rejected again, whatever the clock and the timestamp of the
  copy, as long as fewer than 1000 other requests were accepted in between.\<close>

theorem nonce_replay_rejected:
  assumes "guard_check now (guard_run guard_new earlier) ts n = (Fresh, g)"
    and "length (fresh_nonces g between) < 1000"
  shows "fst (guard_check now' (guard_run g between) ts' n) \<noteq> Fresh"
proof -
  let ?g = "guard_run guard_new earlier"
  have ok: "guard_ok ?g" using guard_new_ok by (rule guard_run_ok)
  have valid: "abs_diff now ts \<le> VALIDITY"
    using assms(1) guard_check_stale [of now ts ?g n] by (cases "abs_diff now ts \<le> VALIDITY") auto
  then have acc: "guard_accepts ?g n" and g: "g = guard_update ?g n"
    using assms(1) by (simp_all add: guard_check_valid guard_accepts_def guard_update_def)
  have "\<not> guard_accepts (guard_run g between) n"
    unfolding guard_run_filter [of g between]
    using gf.rejected_while_recent [OF ok acc, of "valid_nonces between"] assms(2)
    by (simp add: fresh_count_filter NONCE_WINDOW_def flip: g)
  then show ?thesis
    by (cases "abs_diff now' ts' \<le> VALIDITY")
       (simp_all add: guard_check_valid guard_check_stale guard_accepts_def)
qed

theorem nonce_replay_rejected_witness:
  "guard_check 100 guard_new 90 [1] = (Fresh, \<lparr>gd_order = [[1]], gd_seen = {[1]}\<rparr>) \<and>
   fst (guard_check 105 \<lparr>gd_order = [[1], [2]], gd_seen = {[2], [1]}\<rparr> 104 [1]) \<noteq> Fresh"
proof -
  have first: "guard_check 100 (guard_run guard_new []) 90 [1] = (Fresh, \<lparr>gd_order = [[1]], gd_seen = {[1]}\<rparr>)"
    by (simp add: guard_check_def guard_new_def abs_diff_def VALIDITY_def guard_evict_def NONCE_WINDOW_def Let_def)
  have second: "guard_check 101 \<lparr>gd_order = [[1]], gd_seen = {[1]}\<rparr> 101 [2] =
      (Fresh, \<lparr>gd_order = [[1], [2]], gd_seen = {[2], [1]}\<rparr>)"
    by (simp add: guard_check_def abs_diff_def VALIDITY_def guard_evict_def NONCE_WINDOW_def Let_def)
  show ?thesis
    using first second nonce_replay_rejected [OF first, of "[(101, 101, [2])]" 105 104] by simp
qed

text \<open>The memory is bounded: when 1000 other nonces were accepted, a copy with a valid timestamp passes.\<close>

lemma nonce_forgotten:
  assumes "guard_ok g" "length (gd_order g) = 1000" "n \<in> set (gd_order g)" "m \<notin> set (gd_order g)"
    and "n = hd (gd_order g)" "abs_diff now ts \<le> VALIDITY"
  shows "fst (guard_check now (guard_update g m) ts n) = Fresh"
proof -
  have "guard_accepts g m" using assms(1,4) by (simp add: guard_accepts_iff guard_ok_def)
  then have "gd_order (guard_update g m) = drop 1 (gd_order g @ [m])"
    using gf.recent_accept [OF assms(1)] assms(2) by (simp add: NONCE_WINDOW_def)
  moreover have "distinct (gd_order g)" using assms(1) by (simp add: guard_ok_def)
  ultimately have "n \<notin> set (gd_order (guard_update g m))"
    using assms(2-5) by (cases "gd_order g") auto
  then have "guard_accepts (guard_update g m) n"
    using gf.accept_iff [OF guard_update_ok [OF assms(1)]] by simp
  then show ?thesis using assms(6) by (simp add: guard_check_valid guard_accepts_def)
qed

end
