(* ===== verification/Mcp_Server.thy ===== *)
theory Mcp_Server
  imports Agent_Session Messages Keymap Rate_Limit Replay_Guard
begin

unbundle bit_operations_syntax

text \<open>
  The tool server (\<open>miru-mcp/src/server.rs\<close>): argument checks, the gate (rate limit, then
  authorization), the calls to the host bridge, and the key-name tables.

  A tool runs in a state-and-error monad over the server state. \<open>ms_calls\<close> is the list of
  bridge calls made so far; the bridge is a parameter whose answers may depend on that whole list.
  Also parameters: the clocks, the text forms of floats and JSON, base64, and the image codec.
  Error values carry the data of the messages instead of their text.
\<close>

section \<open>State and parameters\<close>

datatype bridge_call =
    SendInput input_event
  | SendClipboard clipboard_sync
  | CaptureScreen u8
  | ReadClipboard
  | OpenUrlCall string
  | StatusCall

record host_bridge =
  br_unit :: "bridge_call list \<Rightarrow> string + unit"
  br_capture :: "bridge_call list \<Rightarrow> string + bytes"
  br_clipboard :: "bridge_call list \<Rightarrow> string + string"
  br_status :: "bridge_call list \<Rightarrow> string + json"

record image_codec =
  im_dims :: "bytes \<Rightarrow> (u32 \<times> u32) option"
  im_crop :: "bytes \<Rightarrow> u32 \<Rightarrow> u32 \<Rightarrow> u32 \<Rightarrow> u32 \<Rightarrow> bytes option"

record mcp_env =
  me_audit :: audit_ext
  me_auth :: auth_env
  me_capture_auth :: auth_env
  me_confirm :: "confirm_request \<Rightarrow> bool"
  me_instant :: nat
  me_now_ms :: "nat \<Rightarrow> u64"
  me_bridge :: host_bridge
  me_image :: image_codec
  me_base64 :: "bytes \<Rightarrow> string"
  me_fmt3 :: "f32 \<Rightarrow> string"
  me_fmt :: "f32 \<Rightarrow> string"
  me_pretty :: "json \<Rightarrow> string"
  me_caps_json :: "capability list \<Rightarrow> json"

record mcp_server =
  ms_session :: agent_session
  ms_limiter :: rate_limiter
  ms_guard :: replay_guard
  ms_frame_seq :: u64
  ms_calls :: "bridge_call list"

datatype content = ContentText string | ContentImage string string

datatype mcp_error =
    UnknownTool string
  | ArgMissing string
  | DisplayOutOfRange u64
  | RegionOutOfBounds
  | TextTooLong
  | ComboTooLong nat
  | EmptyCombo
  | TooManyTokens nat
  | UnknownKey string
  | ClipboardTooLong
  | UrlTooLong nat
  | UrlSchemeNotAllowed
  | RateLimited capability rate_limit_error
  | Unauthorized auth_error
  | BridgeFailed string
  | ReplayDuplicate
  | ReplayStale

type_synonym 'a mcp = "mcp_server \<Rightarrow> (mcp_error + 'a) \<times> mcp_server"

definition mret :: "'a \<Rightarrow> 'a mcp" where
  "mret a = (\<lambda>s. (Ok a, s))"

definition mfail :: "mcp_error \<Rightarrow> 'a mcp" where
  "mfail e = (\<lambda>s. (Err e, s))"

definition mbind :: "'a mcp \<Rightarrow> ('a \<Rightarrow> 'b mcp) \<Rightarrow> 'b mcp" where
  "mbind m f = (\<lambda>s. case m s of (Inl e, s') \<Rightarrow> (Err e, s') | (Inr a, s') \<Rightarrow> f a s')"

definition mguard :: "bool \<Rightarrow> mcp_error \<Rightarrow> unit mcp" where
  "mguard c e = (if c then mret () else mfail e)"

definition mopt :: "'a option \<Rightarrow> mcp_error \<Rightarrow> 'a mcp" where
  "mopt x e = (case x of None \<Rightarrow> mfail e | Some a \<Rightarrow> mret a)"

definition mcp_server_new :: "agent_session \<Rightarrow> mcp_server" where
  "mcp_server_new S = \<lparr>ms_session = S, ms_limiter = rate_limiter_new, ms_guard = guard_new,
     ms_frame_seq = 0, ms_calls = []\<rparr>"

section \<open>Replay check and gate\<close>

definition check_replay :: "u64 \<Rightarrow> u64 \<Rightarrow> bytes \<Rightarrow> unit mcp" where
  "check_replay now ts nonce = (\<lambda>s.
     case guard_check now (ms_guard s) ts nonce of
       (Fresh, g) \<Rightarrow> (Ok (), s\<lparr>ms_guard := g\<rparr>)
     | (DuplicateNonce, g) \<Rightarrow> (Err ReplayDuplicate, s\<lparr>ms_guard := g\<rparr>)
     | (StaleTimestamp, g) \<Rightarrow> (Err ReplayStale, s\<lparr>ms_guard := g\<rparr>))"

definition gate :: "mcp_env \<Rightarrow> capability \<Rightarrow> json \<Rightarrow> string \<Rightarrow> unit mcp" where
  "gate E cap action summary = (\<lambda>s.
     case try_consume (me_instant E) (ms_limiter s) cap of
       (Inl e, rl) \<Rightarrow> (Err (RateLimited cap e), s\<lparr>ms_limiter := rl\<rparr>)
     | (Inr _, rl) \<Rightarrow>
         (case authorize (me_audit E) (me_auth E) (me_confirm E) (ms_session s) cap action summary of
            (Inl e, _, S') \<Rightarrow> (Err (Unauthorized e), s\<lparr>ms_limiter := rl, ms_session := S'\<rparr>)
          | (Inr _, _, S') \<Rightarrow> (Ok (), s\<lparr>ms_limiter := rl, ms_session := S'\<rparr>)))"

section \<open>Bridge calls\<close>

definition bridge :: "(bridge_call list \<Rightarrow> string + 'a) \<Rightarrow> bridge_call \<Rightarrow> 'a mcp" where
  "bridge reply c = (\<lambda>s.
     let calls = ms_calls s @ [c]
     in (case reply calls of Inl e \<Rightarrow> Err (BridgeFailed e) | Inr a \<Rightarrow> Ok a, s\<lparr>ms_calls := calls\<rparr>))"

definition send_input :: "mcp_env \<Rightarrow> input_event \<Rightarrow> unit mcp" where
  "send_input E evt = bridge (br_unit (me_bridge E)) (SendInput evt)"

fun send_inputs :: "mcp_env \<Rightarrow> input_event list \<Rightarrow> unit mcp" where
  "send_inputs E [] = mret ()"
| "send_inputs E (e # es) = mbind (send_input E e) (\<lambda>_. send_inputs E es)"

section \<open>Arguments\<close>

definition arg_f64 :: "json \<Rightarrow> string \<Rightarrow> f64 option" where
  "arg_f64 args k = Option.bind (value_get args k) as_f64"

definition arg_str :: "json \<Rightarrow> string \<Rightarrow> string option" where
  "arg_str args k = Option.bind (value_get args k) as_str"

definition opt_or :: "'a option \<Rightarrow> 'a \<Rightarrow> 'a" where
  "opt_or x d = (case x of None \<Rightarrow> d | Some a \<Rightarrow> a)"

definition jobj :: "(string \<times> json) list \<Rightarrow> json" where
  "jobj ps = JObj (foldr (\<lambda>(k, v) m. obj_insert k v m) ps [])"

section \<open>Key names\<close>

definition single_ascii :: "string \<Rightarrow> char option" where
  "single_ascii s = (case s of [c] \<Rightarrow> Some (to_ascii_upper c) | _ \<Rightarrow> None)"

definition named_key_codes :: "(string \<times> string) list" where
  "named_key_codes = [
    (''Enter'', ''Enter''), (''Return'', ''Enter''), (''Tab'', ''Tab''), (''Escape'', ''Escape''),
    (''Esc'', ''Escape''), (''Backspace'', ''Backspace''), (''Delete'', ''Delete''), (''Del'', ''Delete''),
    (''Space'', ''Space''), (''Up'', ''ArrowUp''), (''Down'', ''ArrowDown''), (''Left'', ''ArrowLeft''),
    (''Right'', ''ArrowRight''), (''Home'', ''Home''), (''End'', ''End''), (''PageUp'', ''PageUp''),
    (''PageDown'', ''PageDown''), (''F1'', ''F1''), (''F2'', ''F2''), (''F3'', ''F3''), (''F4'', ''F4''),
    (''F5'', ''F5''), (''F6'', ''F6''), (''F7'', ''F7''), (''F8'', ''F8''), (''F9'', ''F9''),
    (''F10'', ''F10''), (''F11'', ''F11''), (''F12'', ''F12'')]"

definition parse_key_code :: "string \<Rightarrow> string option" where
  "parse_key_code s =
     (case single_ascii s of
        Some c \<Rightarrow>
          if is_ascii_alphabetic c then Some (''Key'' @ [c])
          else if is_ascii_digit c then Some (''Digit'' @ [c])
          else map_of named_key_codes s
      | None \<Rightarrow> map_of named_key_codes s)"

definition named_keys :: "(string \<times> u32) list" where
  "named_keys = [
    (''Enter'', 0x0D), (''Return'', 0x0D), (''Tab'', 0x09), (''Escape'', 0x1B), (''Esc'', 0x1B),
    (''Backspace'', 0x08), (''Delete'', 0x2E), (''Del'', 0x2E), (''Space'', 0x20), (''Up'', 0x26),
    (''Down'', 0x28), (''Left'', 0x25), (''Right'', 0x27), (''Home'', 0x24), (''End'', 0x23),
    (''PageUp'', 0x21), (''PageDown'', 0x22), (''F1'', 0x70), (''F2'', 0x71), (''F3'', 0x72),
    (''F4'', 0x73), (''F5'', 0x74), (''F6'', 0x75), (''F7'', 0x76), (''F8'', 0x77), (''F9'', 0x78),
    (''F10'', 0x79), (''F11'', 0x7A), (''F12'', 0x7B)]"

definition parse_key :: "string \<Rightarrow> mcp_error + u32" where
  "parse_key s =
     (case single_ascii s of
        Some c \<Rightarrow>
          if is_ascii_alphanumeric c then Ok (word_of_nat (of_char c))
          else (case map_of named_keys s of Some k \<Rightarrow> Ok k | None \<Rightarrow> Err (UnknownKey s))
      | None \<Rightarrow> (case map_of named_keys s of Some k \<Rightarrow> Ok k | None \<Rightarrow> Err (UnknownKey s)))"

definition modifier_event :: "u64 \<Rightarrow> string \<Rightarrow> bool \<Rightarrow> u8 \<Rightarrow> input_event" where
  "modifier_event ts code down modifiers =
     (let key = (case code_to_vk code of Some v \<Rightarrow> ucast v | None \<Rightarrow> 0)
      in \<lparr>ie_kind = (if down then KeyDown key modifiers (Some code) else KeyUp key modifiers (Some code)),
          ie_timestamp_ms = ts\<rparr>)"

text \<open>One token of a chord: the modifier mask, the physical modifiers in press order, the key name.\<close>

definition combo_token :: "u8 \<times> string list \<times> string \<Rightarrow> string \<Rightarrow> u8 \<times> string list \<times> string" where
  "combo_token acc p =
     (case acc of (modifiers, mods, key_str) \<Rightarrow>
        if p = ''Shift'' then (modifiers OR 0x01, mods @ [''ShiftLeft''], key_str)
        else if p = ''Ctrl'' \<or> p = ''Control'' then (modifiers OR 0x02, mods @ [''ControlLeft''], key_str)
        else if p = ''Alt'' \<or> p = ''Option'' then (modifiers OR 0x04, mods @ [''AltLeft''], key_str)
        else if p = ''Cmd'' \<or> p = ''Meta'' \<or> p = ''Win'' then (modifiers OR 0x08, mods @ [''MetaLeft''], key_str)
        else (modifiers, mods, p))"

definition combo_events :: "(nat \<Rightarrow> u64) \<Rightarrow> u8 \<Rightarrow> string list \<Rightarrow> u32 \<Rightarrow> string option \<Rightarrow> input_event list" where
  "combo_events clock modifiers mods key key_code =
     (let n = length mods
      in map (\<lambda>i. modifier_event (clock i) (mods ! i) True modifiers) [0..<n]
       @ [\<lparr>ie_kind = KeyDown key modifiers key_code, ie_timestamp_ms = clock n\<rparr>,
          \<lparr>ie_kind = KeyUp key modifiers key_code, ie_timestamp_ms = clock (n + 1)\<rparr>]
       @ map (\<lambda>i. modifier_event (clock (n + 2 + i)) (rev mods ! i) False modifiers) [0..<n])"

section \<open>Cropping\<close>

definition crop_rect :: "u32 \<Rightarrow> u32 \<Rightarrow> f32 \<Rightarrow> f32 \<Rightarrow> f32 \<Rightarrow> f32 \<Rightarrow> u32 \<times> u32 \<times> u32 \<times> u32" where
  "crop_rect width height rx ry rw rh =
     (let full_w = to_f32 (of_nat (unat width));
          full_h = to_f32 (of_nat (unat height));
          x = f32_as_u32 (to_f32 (clampf 0 1 rx * full_w));
          y = f32_as_u32 (to_f32 (clampf 0 1 ry * full_h));
          w = f32_as_u32 (to_f32 (clampf 0 1 rw * full_w));
          h = f32_as_u32 (to_f32 (clampf 0 1 rh * full_h))
      in (x, y, max (min w (sat_sub width x)) 1, max (min h (sat_sub height y)) 1))"

definition crop_png_region :: "image_codec \<Rightarrow> bytes \<Rightarrow> f32 \<Rightarrow> f32 \<Rightarrow> f32 \<Rightarrow> f32 \<Rightarrow> bytes option" where
  "crop_png_region I png rx ry rw rh =
     (case im_dims I png of
        None \<Rightarrow> None
      | Some (width, height) \<Rightarrow>
          (case crop_rect width height rx ry rw rh of (x, y, w, h) \<Rightarrow> im_crop I png x y w h))"

definition region_ok :: "f32 \<Rightarrow> f32 \<Rightarrow> f32 \<Rightarrow> f32 \<Rightarrow> bool" where
  "region_ok rx ry rw rh \<longleftrightarrow>
     0 \<le> rx \<and> rx \<le> 1 \<and> 0 \<le> ry \<and> ry \<le> 1 \<and> \<not> rw \<le> 0 \<and> \<not> rh \<le> 0 \<and>
     \<not> to_f32 (rx + rw) > to_f32 (1 + 1 / 2 ^ 23) \<and> \<not> to_f32 (ry + rh) > to_f32 (1 + 1 / 2 ^ 23)"

definition crop_step :: "mcp_env \<Rightarrow> json \<Rightarrow> bytes \<Rightarrow> bytes mcp" where
  "crop_step E args png =
     (case value_get args ''region'' of
        None \<Rightarrow> mret png
      | Some region \<Rightarrow>
          (let rx = to_f32 (opt_or (arg_f64 region ''x'') 0);
               ry = to_f32 (opt_or (arg_f64 region ''y'') 0);
               rw = to_f32 (opt_or (arg_f64 region ''width'') 1);
               rh = to_f32 (opt_or (arg_f64 region ''height'') 1)
           in mbind (mguard (region_ok rx ry rw rh) RegionOutOfBounds)
                (\<lambda>_. mret (opt_or (crop_png_region (me_image E) png rx ry rw rh) png))))"

section \<open>Tools\<close>

definition frame_provenance :: "mcp_env \<Rightarrow> u8 \<Rightarrow> bytes \<Rightarrow> (u64 \<times> string) mcp" where
  "frame_provenance E display png = (\<lambda>s.
     let sq = ms_frame_seq s;
         (digest, S') = audit_screen_capture (me_audit E) (me_capture_auth E) (ms_session s) display png sq
     in (Ok (sq, digest), s\<lparr>ms_frame_seq := sq + 1, ms_session := S'\<rparr>))"

definition tool_screen_capture :: "mcp_env \<Rightarrow> json \<Rightarrow> content list mcp" where
  "tool_screen_capture E args =
     (let display_raw = opt_or (Option.bind (value_get args ''display'') as_u64) 0;
          display = ucast display_raw :: u8
      in mbind (mguard (\<not> display_raw > 255) (DisplayOutOfRange display_raw)) (\<lambda>_.
         mbind (gate E ScreenRead (jobj [(''display'', json_of_nat (unat display))]) ''screen_capture'') (\<lambda>_.
         mbind (bridge (br_capture (me_bridge E)) (CaptureScreen display)) (\<lambda>full.
         mbind (crop_step E args full) (\<lambda>png.
         mbind (frame_provenance E display png) (\<lambda>(sq, digest).
         mret [ContentText (''Captured display '' @ show_nat (unat display) @ '' ('' @ show_nat (length png)
                  @ '' bytes) [frame#'' @ show_nat (unat sq) @ '' sha256:'' @ take 16 digest
                  @ map char_of [0xE2 :: nat, 0x80, 0xA6] @ '']''),
               ContentImage (me_base64 E png) ''image/png'']))))))"

definition coord :: "json \<Rightarrow> string \<Rightarrow> f32 mcp" where
  "coord args k = mbind (mopt (arg_f64 args k) (ArgMissing k)) (\<lambda>v. mret (clampf 0 1 (to_f32 v)))"

definition tool_mouse_move :: "mcp_env \<Rightarrow> json \<Rightarrow> content list mcp" where
  "tool_mouse_move E args =
     mbind (coord args ''x'') (\<lambda>x.
     mbind (coord args ''y'') (\<lambda>y.
     mbind (gate E PointerMove (jobj [(''x'', JNum (JFloat x)), (''y'', JNum (JFloat y))]) ''mouse_move'') (\<lambda>_.
     mbind (send_input E \<lparr>ie_kind = MouseMove x y 0, ie_timestamp_ms = me_now_ms E 0\<rparr>) (\<lambda>_.
     mret [ContentText (''Mouse moved to ('' @ me_fmt3 E x @ '', '' @ me_fmt3 E y @ '')'')]))))"

definition button_of :: "string \<Rightarrow> mouse_button" where
  "button_of s = (if s = ''right'' then RightButton else if s = ''middle'' then MiddleButton else LeftButton)"

definition click_events :: "(nat \<Rightarrow> u64) \<Rightarrow> mouse_button \<Rightarrow> f32 \<Rightarrow> f32 \<Rightarrow> bool \<Rightarrow> input_event list" where
  "click_events clock button x y double =
     concat (map (\<lambda>i.
       [\<lparr>ie_kind = MouseDown button x y 0, ie_timestamp_ms = clock (2 * i)\<rparr>,
        \<lparr>ie_kind = MouseUp button x y 0, ie_timestamp_ms = clock (2 * i + 1)\<rparr>])
       [0..<(if double then 2 else 1)])"

definition tool_mouse_click :: "mcp_env \<Rightarrow> json \<Rightarrow> content list mcp" where
  "tool_mouse_click E args =
     mbind (coord args ''x'') (\<lambda>x.
     mbind (coord args ''y'') (\<lambda>y.
     let button_str = opt_or (arg_str args ''button'') ''left'';
         double = opt_or (Option.bind (value_get args ''double'') as_bool) False;
         button = button_of button_str
     in
     mbind (gate E PointerClick
       (jobj [(''x'', JNum (JFloat x)), (''y'', JNum (JFloat y)), (''button'', JStr button_str), (''double'', JBool double)])
       ''mouse_click'') (\<lambda>_.
     mbind (send_inputs E (click_events (me_now_ms E) button x y double)) (\<lambda>_.
     mret [ContentText (''Clicked '' @ button_str @ '' at ('' @ me_fmt3 E x @ '', '' @ me_fmt3 E y @ '')''
              @ (if double then '' (double)'' else []))]))))"

definition tool_scroll :: "mcp_env \<Rightarrow> json \<Rightarrow> content list mcp" where
  "tool_scroll E args =
     (let dx = clampf (- 100) 100 (to_f32 (opt_or (arg_f64 args ''dx'') 0))
      in mbind (mopt (arg_f64 args ''dy'') (ArgMissing ''dy'')) (\<lambda>dy0.
         let dy = clampf (- 100) 100 (to_f32 dy0);
             x = clampf 0 1 (to_f32 (opt_or (arg_f64 args ''x'') (1 / 2)));
             y = clampf 0 1 (to_f32 (opt_or (arg_f64 args ''y'') (1 / 2)))
         in
         mbind (gate E PointerMove (jobj [(''dx'', JNum (JFloat dx)), (''dy'', JNum (JFloat dy))]) ''scroll'') (\<lambda>_.
         mbind (send_input E \<lparr>ie_kind = Scroll dx dy x y 0, ie_timestamp_ms = me_now_ms E 0\<rparr>) (\<lambda>_.
         mret [ContentText (''Scrolled dx='' @ me_fmt E dx @ '', dy='' @ me_fmt E dy)]))))"

definition KEY_TYPE_MAX_CHARS :: nat where
  "KEY_TYPE_MAX_CHARS = 4096"

definition tool_key_type :: "mcp_env \<Rightarrow> json \<Rightarrow> content list mcp" where
  "tool_key_type E args =
     mbind (mopt (arg_str args ''text'') (ArgMissing ''text'')) (\<lambda>text.
     mbind (mguard (\<not> chars_count text > KEY_TYPE_MAX_CHARS) TextTooLong) (\<lambda>_.
     mbind (gate E KeyType (jobj [(''len'', json_of_nat (length text))]) ''key_type'') (\<lambda>_.
     mbind (send_input E \<lparr>ie_kind = TextInput text, ie_timestamp_ms = me_now_ms E 0\<rparr>) (\<lambda>_.
     mret [ContentText (''Typed '' @ show_nat (chars_count text) @ '' characters'')]))))"

definition tool_key_combo :: "mcp_env \<Rightarrow> json \<Rightarrow> content list mcp" where
  "tool_key_combo E args =
     mbind (mopt (arg_str args ''combo'') (ArgMissing ''combo'')) (\<lambda>combo.
     mbind (mguard (\<not> length combo > 64) (ComboTooLong (length combo))) (\<lambda>_.
     mbind (gate E KeyCombo (jobj [(''combo'', JStr combo)]) ''key_combo'') (\<lambda>_.
     let parts = map trim (split_on (CHR ''+'') combo)
     in
     mbind (mguard (parts \<noteq> []) EmptyCombo) (\<lambda>_.
     mbind (mguard (\<not> length parts > 10) (TooManyTokens (length parts))) (\<lambda>_.
     case foldl combo_token (0, [], []) parts of (modifiers, mods, key_str) \<Rightarrow>
     (case parse_key key_str of
        Inl e \<Rightarrow> mfail e
      | Inr key \<Rightarrow>
          mbind (send_inputs E (combo_events (me_now_ms E) modifiers mods key (parse_key_code key_str))) (\<lambda>_.
          mret [ContentText (''Sent key combo: '' @ combo)])))))))"

definition MAX_CLIP_BYTES :: nat where
  "MAX_CLIP_BYTES = 1024 * 1024"

definition tool_clipboard_read :: "mcp_env \<Rightarrow> json \<Rightarrow> content list mcp" where
  "tool_clipboard_read E args =
     mbind (gate E ClipboardRead (jobj []) ''clipboard_read'') (\<lambda>_.
     mbind (bridge (br_clipboard (me_bridge E)) ReadClipboard) (\<lambda>text.
     if length text > MAX_CLIP_BYTES
     then mret [ContentText (''[clipboard content truncated: '' @ show_nat (length text) @ '' bytes exceeds 1 MiB limit]'')]
     else mret [ContentText text]))"

definition tool_clipboard_write :: "mcp_env \<Rightarrow> json \<Rightarrow> content list mcp" where
  "tool_clipboard_write E args =
     mbind (mopt (arg_str args ''text'') (ArgMissing ''text'')) (\<lambda>text.
     mbind (mguard (\<not> length text > MAX_CLIP_BYTES) ClipboardTooLong) (\<lambda>_.
     mbind (gate E ClipboardWrite (jobj [(''len'', json_of_nat (length text))]) ''clipboard_write'') (\<lambda>_.
     mbind (bridge (br_unit (me_bridge E)) (SendClipboard \<lparr>cs_format = ClipText, cs_data = as_bytes text\<rparr>)) (\<lambda>_.
     mret [ContentText (''Clipboard set ('' @ show_nat (length text) @ '' bytes)'')]))))"

definition starts_with :: "string \<Rightarrow> string \<Rightarrow> bool" where
  "starts_with pre s = (take (length pre) s = pre)"

definition tool_open_url :: "mcp_env \<Rightarrow> json \<Rightarrow> content list mcp" where
  "tool_open_url E args =
     mbind (mopt (arg_str args ''url'') (ArgMissing ''url'')) (\<lambda>url.
     mbind (mguard (\<not> length url > 2048) (UrlTooLong (length url))) (\<lambda>_.
     mbind (mguard (starts_with ''https://'' url \<or> starts_with ''http://'' url) UrlSchemeNotAllowed) (\<lambda>_.
     mbind (gate E OpenUrl (jobj [(''url'', JStr url)]) ''open_url'') (\<lambda>_.
     mbind (bridge (br_unit (me_bridge E)) (OpenUrlCall url)) (\<lambda>_.
     mret [ContentText (''Opened '' @ url)])))))"

definition tool_status :: "mcp_env \<Rightarrow> content list mcp" where
  "tool_status E =
     mbind (bridge (br_status (me_bridge E)) StatusCall) (\<lambda>status. \<lambda>s.
     let tok = ag_token (ms_session s);
         summary = jobj
           [(''agent_label'', JStr (sub (payload tok))),
            (''token_seconds_remaining'', JNum (PosInt (seconds_remaining tok (av_unix_now (me_auth E))))),
            (''capabilities'', me_caps_json E (caps (payload tok))),
            (''host_status'', status)]
     in (Ok [ContentText (me_pretty E summary)], s))"

definition dispatch :: "mcp_env \<Rightarrow> string \<Rightarrow> json \<Rightarrow> content list mcp" where
  "dispatch E name args =
     (if name = ''miru_screen_capture'' then tool_screen_capture E args
      else if name = ''miru_mouse_move'' then tool_mouse_move E args
      else if name = ''miru_mouse_click'' then tool_mouse_click E args
      else if name = ''miru_scroll'' then tool_scroll E args
      else if name = ''miru_key_type'' then tool_key_type E args
      else if name = ''miru_key_combo'' then tool_key_combo E args
      else if name = ''miru_clipboard_read'' then tool_clipboard_read E args
      else if name = ''miru_clipboard_write'' then tool_clipboard_write E args
      else if name = ''miru_open_url'' then tool_open_url E args
      else if name = ''miru_status'' then tool_status E
      else mfail (UnknownTool name))"

record tool_call_result =
  tr_content :: "content list"
  tr_is_error :: bool

definition handle_tool_call ::
  "(mcp_error \<Rightarrow> string) \<Rightarrow> mcp_env \<Rightarrow> string \<Rightarrow> json \<Rightarrow> mcp_server \<Rightarrow> tool_call_result \<times> mcp_server" where
  "handle_tool_call show_error E name args s =
     (case dispatch E name args s of
        (Inr c, s') \<Rightarrow> (\<lparr>tr_content = c, tr_is_error = False\<rparr>, s')
      | (Inl e, s') \<Rightarrow> (\<lparr>tr_content = [ContentText (''Error: '' @ show_error e)], tr_is_error = True\<rparr>, s'))"

section \<open>Specification of the gate\<close>

text \<open>The capability a bridge call needs.\<close>

fun input_cap :: "input_kind \<Rightarrow> capability" where
  "input_cap (MouseMove _ _ _) = PointerMove"
| "input_cap (MouseDown _ _ _ _) = PointerClick"
| "input_cap (MouseUp _ _ _ _) = PointerClick"
| "input_cap (Scroll _ _ _ _ _) = PointerMove"
| "input_cap (KeyDown _ _ _) = KeyCombo"
| "input_cap (KeyUp _ _ _) = KeyCombo"
| "input_cap (TextInput _) = KeyType"

fun required_cap :: "bridge_call \<Rightarrow> capability option" where
  "required_cap (SendInput e) = Some (input_cap (ie_kind e))"
| "required_cap (SendClipboard _) = Some ClipboardWrite"
| "required_cap (CaptureScreen _) = Some ScreenRead"
| "required_cap ReadClipboard = Some ClipboardRead"
| "required_cap (OpenUrlCall _) = Some OpenUrl"
| "required_cap StatusCall = None"

text \<open>The bounds on what reaches the host.\<close>

definition unit_range :: "f32 \<Rightarrow> bool" where
  "unit_range x \<longleftrightarrow> 0 \<le> x \<and> x \<le> 1"

fun input_bounded :: "input_kind \<Rightarrow> bool" where
  "input_bounded (MouseMove x y d) = (unit_range x \<and> unit_range y \<and> d = 0)"
| "input_bounded (MouseDown b x y d) = (unit_range x \<and> unit_range y \<and> d = 0)"
| "input_bounded (MouseUp b x y d) = (unit_range x \<and> unit_range y \<and> d = 0)"
| "input_bounded (Scroll dx dy x y d) =
     (- 100 \<le> dx \<and> dx \<le> 100 \<and> - 100 \<le> dy \<and> dy \<le> 100 \<and> unit_range x \<and> unit_range y \<and> d = 0)"
| "input_bounded (KeyDown k m c) = True"
| "input_bounded (KeyUp k m c) = True"
| "input_bounded (TextInput t) = (chars_count t \<le> 4096)"

fun call_bounded :: "bridge_call \<Rightarrow> bool" where
  "call_bounded (SendInput e) = input_bounded (ie_kind e)"
| "call_bounded (SendClipboard c) = (cs_format c = ClipText \<and> length (cs_data c) \<le> 1048576)"
| "call_bounded (OpenUrlCall u) =
     (length u \<le> 2048 \<and> (starts_with ''http://'' u \<or> starts_with ''https://'' u))"
| "call_bounded (CaptureScreen d) = True"
| "call_bounded ReadClipboard = True"
| "call_bounded StatusCall = True"

text \<open>The gate is open for a capability: quota, an admissible token, and the user for dangerous ones.\<close>

definition gate_open :: "mcp_env \<Rightarrow> capability \<Rightarrow> mcp_server \<Rightarrow> bool" where
  "gate_open E cap s \<longleftrightarrow>
     is_ok (fst (try_consume (me_instant E) (ms_limiter s) cap)) \<and>
     auth_admissible (me_auth E) (ms_session s) cap \<and>
     (requires_confirmation cap \<longrightarrow>
        (\<exists>e \<in> set (ag_auto_approve (ms_session s)).
           aa_capability e = cap \<and> av_instant_check (me_auth E) < aa_until e) \<or>
        (\<exists>r. me_confirm E r \<and> cr_capability r = cap))"

section \<open>Rules for the monad\<close>

text \<open>
  \<open>mpure m\<close>: the step leaves the state alone. \<open>emits n Q m\<close>: it makes at most \<open>n\<close> bridge
  calls, all satisfying \<open>Q\<close>. \<open>gated E cap n Q m\<close>: moreover it makes none unless the gate for
  \<open>cap\<close> is open in the state it starts from.
\<close>

definition mpure :: "'a mcp \<Rightarrow> bool" where
  "mpure m \<longleftrightarrow> (\<forall>s. snd (m s) = s)"

definition emits :: "nat \<Rightarrow> (bridge_call \<Rightarrow> bool) \<Rightarrow> 'a mcp \<Rightarrow> bool" where
  "emits n Q m \<longleftrightarrow> (\<forall>s. \<exists>cs. ms_calls (snd (m s)) = ms_calls s @ cs \<and> length cs \<le> n \<and> list_all Q cs)"

definition gated :: "mcp_env \<Rightarrow> capability \<Rightarrow> nat \<Rightarrow> (bridge_call \<Rightarrow> bool) \<Rightarrow> 'a mcp \<Rightarrow> bool" where
  "gated E cap n Q m \<longleftrightarrow>
     (\<forall>s. \<exists>cs. ms_calls (snd (m s)) = ms_calls s @ cs \<and> length cs \<le> n \<and> list_all Q cs \<and>
               (cs \<noteq> [] \<longrightarrow> gate_open E cap s))"

named_theorems mcp_intro \<open>rules on the calls a step makes\<close>

lemma mpure_basic [mcp_intro]:
  "mpure (mret a)" "mpure (mfail e)" "mpure (mguard c e)" "mpure (mopt x e)" "mpure (coord args k)"
  by (auto simp: mpure_def mret_def mfail_def mguard_def mopt_def coord_def mbind_def
      split: option.split sum.split prod.split)

lemma emits_mret [mcp_intro]: "emits n Q (mret a)"
  by (simp add: emits_def mret_def)

lemma emits_mfail [mcp_intro]: "emits n Q (mfail e)"
  by (simp add: emits_def mfail_def)

lemma emits_bridge: "Q c \<Longrightarrow> emits 1 Q (bridge reply c)"
  by (simp add: emits_def bridge_def Let_def)

lemma emits_mono: "emits n Q m \<Longrightarrow> n \<le> n' \<Longrightarrow> emits n' Q m"
  unfolding emits_def by (meson le_trans)

lemma emits_mbind:
  assumes "emits n Q m" "\<And>a. emits k Q (f a)"
  shows "emits (n + k) Q (mbind m f)"
  unfolding emits_def
proof
  fix s
  obtain r s1 where m: "m s = (r, s1)" by fastforce
  with assms(1) obtain cs where cs: "ms_calls s1 = ms_calls s @ cs" "length cs \<le> n" "list_all Q cs"
    by (auto simp: emits_def dest!: spec [of _ s])
  show "\<exists>cs. ms_calls (snd (mbind m f s)) = ms_calls s @ cs \<and> length cs \<le> n + k \<and> list_all Q cs"
  proof (cases r)
    case (Inl e)
    with m cs show ?thesis by (auto simp: mbind_def)
  next
    case (Inr a)
    from assms(2) [of a] obtain ds where
      "ms_calls (snd (f a s1)) = ms_calls s1 @ ds" "length ds \<le> k" "list_all Q ds"
      by (auto simp: emits_def dest!: spec [of _ s1])
    with m cs Inr show ?thesis
      by (intro exI [of _ "cs @ ds"]) (auto simp: mbind_def)
  qed
qed

lemma emits_frame:
  assumes "\<And>s. ms_calls (snd (m s)) = ms_calls s" "\<And>a. emits n Q (f a)"
  shows "emits n Q (mbind m f)"
proof -
  have "emits 0 Q m" using assms(1) by (simp add: emits_def)
  from emits_mbind [OF this assms(2)] show ?thesis by simp
qed

lemma emits_send_inputs:
  "list_all (\<lambda>e. Q (SendInput e)) es \<Longrightarrow> emits (length es) Q (send_inputs E es)"
proof (induction es)
  case (Cons e es)
  then have "emits 1 Q (send_input E e)" unfolding send_input_def by (intro emits_bridge) simp
  from emits_mbind [OF this, of "length es" "\<lambda>_. send_inputs E es"] Cons show ?case by simp
qed (simp add: emits_mret)

lemma gated_pure:
  assumes "mpure m" "\<And>a. gated E cap n Q (f a)"
  shows "gated E cap n Q (mbind m f)"
  unfolding gated_def
proof
  fix s
  obtain r where m: "m s = (r, s)" using assms(1) by (metis mpure_def prod.collapse)
  show "\<exists>cs. ms_calls (snd (mbind m f s)) = ms_calls s @ cs \<and> length cs \<le> n \<and> list_all Q cs \<and>
     (cs \<noteq> [] \<longrightarrow> gate_open E cap s)"
  proof (cases r)
    case (Inr a)
    with m assms(2) [of a] show ?thesis by (simp add: gated_def mbind_def)
  qed (use m in \<open>simp add: mbind_def\<close>)
qed

lemma gate_frame: "ms_calls (snd (gate E cap action summary s)) = ms_calls s"
  by (auto simp: gate_def split: prod.splits sum.splits)

lemma gate_passed:
  assumes "gate E cap action summary s = (Inr u, s')"
  shows "gate_open E cap s"
proof -
  obtain rl u' where rl: "try_consume (me_instant E) (ms_limiter s) cap = (Inr u', rl)"
    using assms by (auto simp: gate_def split: prod.splits sum.splits)
  obtain req S' where auth: "authorize (me_audit E) (me_auth E) (me_confirm E) (ms_session s) cap action summary
      = (Ok (), req, S')"
    using assms rl by (auto simp: gate_def split: prod.splits sum.splits)
  then show ?thesis
  proof (cases rule: authorize_cases)
    case (denied err)
    then show ?thesis using deny_frame [of "me_audit E" "me_auth E" "ms_session s" cap action err] by fastforce
  next
    case (checked c S1 r)
    then have "c \<noteq> Some False" by (auto split: sum.splits)
    with checked(1) confirm_step_result [OF checked(2)] rl show ?thesis
      by (cases c) (auto simp: gate_open_def)
  qed
qed

lemma gated_gate:
  assumes "\<And>a. emits n Q (f a)"
  shows "gated E cap n Q (mbind (gate E cap action summary) f)"
  unfolding gated_def
proof
  fix s
  obtain r s1 where g: "gate E cap action summary s = (r, s1)" by fastforce
  then have calls: "ms_calls s1 = ms_calls s" using gate_frame [of E cap action summary s] by simp
  show "\<exists>cs. ms_calls (snd (mbind (gate E cap action summary) f s)) = ms_calls s @ cs \<and> length cs \<le> n \<and>
     list_all Q cs \<and> (cs \<noteq> [] \<longrightarrow> gate_open E cap s)"
  proof (cases r)
    case (Inl e)
    with g calls show ?thesis by (simp add: mbind_def)
  next
    case (Inr a)
    from gate_passed [of E cap action summary s a s1] g Inr have "gate_open E cap s" by simp
    with assms [of a] g Inr calls show ?thesis by (auto simp: mbind_def emits_def dest!: spec [of _ s1])
  qed
qed

section \<open>The tools are gated\<close>

definition cap_call :: "capability \<Rightarrow> bridge_call \<Rightarrow> bool" where
  "cap_call cap c \<longleftrightarrow> required_cap c = Some cap \<and> call_bounded c"

lemma emits_then_mret:
  assumes "emits n Q m" "n \<le> 22"
  shows "emits 22 Q (mbind m (\<lambda>x. mret (g x)))"
  using emits_mono [OF emits_mbind [OF assms(1), of 0 "\<lambda>x. mret (g x)"], of 22] assms(2) by (simp add: emits_mret)

lemma emits_send_input: "cap_call cap (SendInput e) \<Longrightarrow> emits 22 (cap_call cap) (mbind (send_input E e) (\<lambda>_. mret a))"
  unfolding send_input_def by (rule emits_then_mret [OF emits_bridge]) simp_all

lemma emits_bridge_mret: "cap_call cap c \<Longrightarrow> emits 22 (cap_call cap) (mbind (bridge reply c) (\<lambda>x. mret (g x)))"
  by (rule emits_then_mret [OF emits_bridge]) simp_all

lemma coord_result:
  assumes "coord args k s = (Inr x, s')"
  shows "unit_range x"
  using assms clampf_bounds [of 0 1]
  by (auto simp: coord_def mbind_def mopt_def mret_def mfail_def unit_range_def split: option.splits)

lemma gated_coord:
  assumes "\<And>x. unit_range x \<Longrightarrow> gated E cap n Q (f x)"
  shows "gated E cap n Q (mbind (coord args k) f)"
  unfolding gated_def
proof
  fix s
  obtain r where c: "coord args k s = (r, s)"
    using mpure_basic(5) by (metis mpure_def prod.collapse)
  show "\<exists>cs. ms_calls (snd (mbind (coord args k) f s)) = ms_calls s @ cs \<and> length cs \<le> n \<and> list_all Q cs \<and>
     (cs \<noteq> [] \<longrightarrow> gate_open E cap s)"
  proof (cases r)
    case (Inr x)
    with c coord_result have "unit_range x" by blast
    from assms [OF this] c Inr show ?thesis by (simp add: gated_def mbind_def)
  qed (use c in \<open>simp add: mbind_def\<close>)
qed

lemma gated_mguard:
  assumes "c \<Longrightarrow> gated E cap n Q (f ())"
  shows "gated E cap n Q (mbind (mguard c e) f)"
  using assms by (cases c) (simp_all add: gated_def mbind_def mguard_def mret_def mfail_def)

lemma unit_range_clampf: "unit_range (clampf 0 1 r)"
  using clampf_bounds [of 0 1] by (simp add: unit_range_def)

lemma mouse_move_gated: "gated E PointerMove 22 (cap_call PointerMove) (tool_mouse_move E args)"
  unfolding tool_mouse_move_def
  by (intro gated_coord gated_gate emits_send_input) (simp add: cap_call_def)

lemma click_events_calls:
  assumes "unit_range x" "unit_range y"
  shows "list_all (\<lambda>e. cap_call PointerClick (SendInput e)) (click_events clock b x y d)"
    and "length (click_events clock b x y d) \<le> 4"
  using assms by (auto simp: click_events_def cap_call_def upt_rec [of _ "Suc _"] numeral_2_eq_2)

lemma mouse_click_gated: "gated E PointerClick 22 (cap_call PointerClick) (tool_mouse_click E args)"
  unfolding tool_mouse_click_def Let_def
proof (intro gated_coord gated_gate)
  fix x y d b
  assume "unit_range x" "unit_range y"
  from click_events_calls [OF this, of "me_now_ms E" "button_of b" d]
  show "emits 22 (cap_call PointerClick)
     (mbind (send_inputs E (click_events (me_now_ms E) (button_of b) x y d)) (\<lambda>_. mret c))" for c
    by (intro emits_then_mret [OF emits_send_inputs]) simp_all
qed

lemma scroll_gated: "gated E PointerMove 22 (cap_call PointerMove) (tool_scroll E args)"
  unfolding tool_scroll_def Let_def
  by (intro gated_pure [OF mpure_basic(4)] gated_gate emits_send_input)
     (simp add: cap_call_def unit_range_clampf clampf_bounds)

lemma key_type_gated: "gated E KeyType 22 (cap_call KeyType) (tool_key_type E args)"
  unfolding tool_key_type_def
  by (intro gated_pure [OF mpure_basic(4)] gated_mguard gated_gate emits_send_input)
     (simp add: cap_call_def KEY_TYPE_MAX_CHARS_def)

lemma combo_tokens_mods:
  "foldl combo_token (m, mods, k) ps = (m', mods', k') \<Longrightarrow> length mods' \<le> length mods + length ps"
proof (induction ps arbitrary: m mods k)
  case (Cons p ps)
  obtain m1 mods1 k1 where step: "combo_token (m, mods, k) p = (m1, mods1, k1)" by (metis prod_cases3)
  have "length (fst (snd (combo_token (m, mods, k) p))) \<le> length mods + 1"
    unfolding combo_token_def prod.case by simp
  then have "length mods1 \<le> length mods + 1" using step by simp
  with Cons.IH [of m1 mods1 k1] Cons.prems step show ?case by simp
qed simp

lemma combo_events_calls:
  "list_all (\<lambda>e. cap_call KeyCombo (SendInput e)) (combo_events clock m mods key code)"
  "length (combo_events clock m mods key code) = 2 * length mods + 2"
  by (auto simp: combo_events_def Let_def cap_call_def modifier_event_def list_all_iff)

lemma key_combo_gated: "gated E KeyCombo 22 (cap_call KeyCombo) (tool_key_combo E args)"
  unfolding tool_key_combo_def Let_def
proof (intro gated_pure [OF mpure_basic(4)] gated_mguard gated_gate)
  fix combo
  let ?parts = "map trim (split_on CHR ''+'' combo)"
  show "emits 22 (cap_call KeyCombo) (mbind (mguard (?parts \<noteq> []) EmptyCombo) (\<lambda>_.
      mbind (mguard (\<not> 10 < length ?parts) (TooManyTokens (length ?parts))) (\<lambda>_.
      case foldl combo_token (0, [], []) ?parts of (modifiers, mods, key_str) \<Rightarrow>
        case parse_key key_str of Inl e \<Rightarrow> mfail e
        | Inr key \<Rightarrow> mbind (send_inputs E (combo_events (me_now_ms E) modifiers mods key (parse_key_code key_str)))
            (\<lambda>_. mret [ContentText (''Sent key combo: '' @ combo)]))))"
  proof (cases "10 < length ?parts")
    case True
    then show ?thesis by (simp add: mguard_def mbind_def mret_def mfail_def emits_def)
  next
    case False
    obtain m mods k where fold: "foldl combo_token (0, [], []) ?parts = (m, mods, k)" by (metis prod_cases3)
    with combo_tokens_mods [OF fold] False have "2 * length mods + 2 \<le> 22" by simp
    then have send: "emits 22 (cap_call KeyCombo)
        (mbind (send_inputs E (combo_events (me_now_ms E) m mods key (parse_key_code k))) (\<lambda>_. mret c))" for key c
      by (intro emits_then_mret [OF emits_send_inputs [OF combo_events_calls(1)]])
         (simp add: combo_events_calls(2))
    have "mpure (mguard (?parts \<noteq> []) EmptyCombo)" "mpure (mguard (\<not> 10 < length ?parts) (TooManyTokens (length ?parts)))"
      by (rule mpure_basic)+
    with send fold show ?thesis
      by (intro emits_frame) (auto simp: mpure_def split: sum.split intro: emits_mfail)
  qed
qed

lemma clipboard_read_gated: "gated E ClipboardRead 22 (cap_call ClipboardRead) (tool_clipboard_read E args)"
proof -
  have tail: "(\<lambda>text. if length text > MAX_CLIP_BYTES
      then mret [ContentText (''[clipboard content truncated: '' @ show_nat (length text) @ '' bytes exceeds 1 MiB limit]'')]
      else mret [ContentText text]) =
    (\<lambda>text. mret (if length text > MAX_CLIP_BYTES
      then [ContentText (''[clipboard content truncated: '' @ show_nat (length text) @ '' bytes exceeds 1 MiB limit]'')]
      else [ContentText text]))"
    by auto
  show ?thesis
    unfolding tool_clipboard_read_def tail
    by (intro gated_gate emits_bridge_mret) (simp add: cap_call_def)
qed

lemma clipboard_write_gated: "gated E ClipboardWrite 22 (cap_call ClipboardWrite) (tool_clipboard_write E args)"
  unfolding tool_clipboard_write_def
  by (intro gated_pure [OF mpure_basic(4)] gated_mguard gated_gate emits_bridge_mret)
     (simp add: cap_call_def MAX_CLIP_BYTES_def as_bytes_def)

lemma open_url_gated: "gated E OpenUrl 22 (cap_call OpenUrl) (tool_open_url E args)"
  unfolding tool_open_url_def
  by (intro gated_pure [OF mpure_basic(4)] gated_mguard gated_gate emits_bridge_mret)
     (auto simp: cap_call_def)

lemma frame_provenance_frame: "ms_calls (snd (frame_provenance E d png s)) = ms_calls s"
  by (simp add: frame_provenance_def Let_def split: prod.splits)

lemma crop_step_pure: "mpure (crop_step E args png)"
  by (auto simp: mpure_def crop_step_def Let_def mbind_def mguard_def mret_def mfail_def split: option.split)

lemma emits_capture:
  "emits 22 (cap_call ScreenRead) (mbind (bridge reply (CaptureScreen d)) (\<lambda>full.
     mbind (crop_step E args full) (\<lambda>png. mbind (frame_provenance E d png) (\<lambda>p. mret (g png p)))))"
proof -
  have "emits 0 (cap_call ScreenRead)
      (mbind (crop_step E args full) (\<lambda>png. mbind (frame_provenance E d png) (\<lambda>p. mret (g png p))))" for full
    by (intro emits_frame emits_mret)
       (use crop_step_pure frame_provenance_frame in \<open>simp_all add: mpure_def\<close>)
  note tail = this
  have "cap_call ScreenRead (CaptureScreen d)" by (simp add: cap_call_def)
  from emits_mbind [OF emits_bridge [of "cap_call ScreenRead", OF this] tail] show ?thesis
    by (rule emits_mono) simp
qed

lemma screen_capture_gated: "gated E ScreenRead 22 (cap_call ScreenRead) (tool_screen_capture E args)"
  unfolding tool_screen_capture_def Let_def case_prod_unfold
  by (intro gated_mguard gated_gate emits_capture)

section \<open>Properties\<close>

lemma gated_new_calls:
  assumes "gated E cap 22 (cap_call cap) m" "m s = (r, s')"
  shows "\<exists>cs. ms_calls s' = ms_calls s @ cs \<and> length cs \<le> 22 \<and> list_all call_bounded cs \<and>
    (\<forall>c \<in> set cs. \<forall>cap. required_cap c = Some cap \<longrightarrow> gate_open E cap s)"
proof -
  from assms obtain cs where "ms_calls s' = ms_calls s @ cs" "length cs \<le> 22" "list_all (cap_call cap) cs"
      "cs \<noteq> [] \<longrightarrow> gate_open E cap s"
    unfolding gated_def by (metis snd_conv)
  then show ?thesis by (intro exI [of _ cs]) (auto simp: cap_call_def list_all_iff)
qed

lemma status_calls:
  assumes "tool_status E s = (r, s')"
  shows "\<exists>cs. ms_calls s' = ms_calls s @ cs \<and> length cs \<le> 22 \<and> list_all call_bounded cs \<and>
    (\<forall>c \<in> set cs. \<forall>cap. required_cap c = Some cap \<longrightarrow> gate_open E cap s)"
  using assms
  by (auto simp: tool_status_def mbind_def bridge_def Let_def split: sum.splits intro!: exI [of _ "[StatusCall]"])

lemmas tools_gated = screen_capture_gated mouse_move_gated mouse_click_gated scroll_gated key_type_gated
  key_combo_gated clipboard_read_gated clipboard_write_gated open_url_gated

definition mediated :: "mcp_env \<Rightarrow> string \<Rightarrow> content list mcp \<Rightarrow> bool" where
  "mediated E name m \<longleftrightarrow>
     (\<exists>cap. gated E cap 22 (cap_call cap) m) \<or> m = tool_status E \<or> m = mfail (UnknownTool name)"

lemma mediated_if: "mediated E name m \<Longrightarrow> mediated E name m' \<Longrightarrow> mediated E name (if c then m else m')"
  by simp

lemma mediated_gated: "gated E cap 22 (cap_call cap) m \<Longrightarrow> mediated E name m"
  by (auto simp: mediated_def)

lemma dispatch_mediated: "mediated E name (dispatch E name args)"
  unfolding dispatch_def
  by (intro mediated_if tools_gated [THEN mediated_gated]) (simp_all add: mediated_def)

lemma dispatch_new_calls:
  assumes "dispatch E name args s = (r, s')"
  shows "\<exists>cs. ms_calls s' = ms_calls s @ cs \<and> length cs \<le> 22 \<and> list_all call_bounded cs \<and>
    (\<forall>c \<in> set cs. \<forall>cap. required_cap c = Some cap \<longrightarrow> gate_open E cap s)"
proof -
  consider cap where "gated E cap 22 (cap_call cap) (dispatch E name args)"
    | "dispatch E name args = tool_status E" | "dispatch E name args = mfail (UnknownTool name)"
    using dispatch_mediated [of E name args] unfolding mediated_def by blast
  then show ?thesis
  proof cases
    case 1
    from gated_new_calls [OF 1 assms] show ?thesis .
  next
    case 2
    with status_calls assms show ?thesis by simp
  next
    case 3
    with assms show ?thesis by (simp add: mfail_def)
  qed
qed

text \<open>
  C9. The tool server is a complete mediator. Whatever tool name and arguments a client sends,
  every call that reaches the host, except the status query, happens with quota left for the
  capability the call needs, a token that is unrevoked, unexpired and grants it, and the user's
  confirmation where it is dangerous; at most 22 calls are made, with coordinates, scroll steps,
  text, clipboard data and URLs inside their bounds.\<close>

theorem mcp_complete_mediation:
  assumes "dispatch E name args s = (r, s')"
  shows "\<exists>cs. ms_calls s' = ms_calls s @ cs \<and> length cs \<le> 22 \<and> list_all call_bounded cs \<and>
    (\<forall>c \<in> set cs. \<forall>cap. required_cap c = Some cap \<longrightarrow> gate_open E cap s)"
  using assms by (rule dispatch_new_calls)

definition wit_mcp_env :: mcp_env where
  "wit_mcp_env = \<lparr>me_audit = wit_session_ext, me_auth = wit_env, me_capture_auth = wit_env, me_confirm = (\<lambda>_. False),
     me_instant = 0, me_now_ms = (\<lambda>_. 0),
     me_bridge = \<lparr>br_unit = (\<lambda>_. Ok ()), br_capture = (\<lambda>_. Ok [1, 2]), br_clipboard = (\<lambda>_. Ok ''c''),
                  br_status = (\<lambda>_. Ok JNull)\<rparr>,
     me_image = \<lparr>im_dims = (\<lambda>_. None), im_crop = (\<lambda>_ _ _ _ _. None)\<rparr>,
     me_base64 = hex_encode, me_fmt3 = (\<lambda>_. ''0.000''), me_fmt = (\<lambda>_. ''0''), me_pretty = (\<lambda>_. ''{}''),
     me_caps_json = (\<lambda>_. JNull)\<rparr>"

definition wit_mcp :: mcp_server where
  "wit_mcp = mcp_server_new wit_session"

lemma wit_gate: "\<exists>s. gate wit_mcp_env ScreenRead action summary wit_mcp = (Ok (), s) \<and> ms_calls s = []"
  by (simp add: gate_def wit_mcp_env_def wit_mcp_def mcp_server_new_def try_consume_def rate_limiter_new_def
      bucket_try_consume_def bucket_new_def roll_day_def refill_def refilled_def per_second_def Let_def DAY_def
      word_le_nat_alt wit_authorize_defs)

lemma mbind_ok: "m s = (Inr a, s1) \<Longrightarrow> mbind m f s = f a s1"
  by (simp add: mbind_def)

lemma mbind_calls_frame:
  assumes "\<And>s. ms_calls (snd (m s)) = ms_calls s" "\<And>a s. ms_calls (snd (f a s)) = ms_calls s"
  shows "ms_calls (snd (mbind m f s)) = ms_calls s"
  using assms(2) assms(1) [of s] by (auto simp: mbind_def split: prod.split sum.split)

lemma wit_capture_calls:
  "ms_calls (snd (dispatch wit_mcp_env ''miru_screen_capture'' (JObj []) wit_mcp)) = [CaptureScreen 0]"
proof -
  obtain s where s: "gate wit_mcp_env ScreenRead (jobj [(''display'', json_of_nat 0)]) ''screen_capture'' wit_mcp = (Ok (), s)"
      "ms_calls s = []"
    using wit_gate by blast
  have bridge: "bridge (br_capture (me_bridge wit_mcp_env)) (CaptureScreen 0) s =
      (Ok [1, 2], s\<lparr>ms_calls := [CaptureScreen 0]\<rparr>)"
    using s(2) by (simp add: bridge_def wit_mcp_env_def)
  have "dispatch wit_mcp_env ''miru_screen_capture'' (JObj []) = tool_screen_capture wit_mcp_env (JObj [])"
    by (simp add: dispatch_def)
  then show ?thesis
    by (simp add: tool_screen_capture_def opt_or_def mguard_def Let_def mbind_ok mret_def s(1) bridge)
       (subst mbind_calls_frame; simp add: mbind_calls_frame frame_provenance_frame crop_step_pure [unfolded mpure_def] case_prod_unfold)
qed

theorem mcp_complete_mediation_witness:
  "\<exists>r s'. dispatch wit_mcp_env ''miru_screen_capture'' (JObj []) wit_mcp = (r, s') \<and>
     ms_calls s' = [CaptureScreen 0] \<and> gate_open wit_mcp_env ScreenRead wit_mcp"
proof -
  obtain r s' where d: "dispatch wit_mcp_env ''miru_screen_capture'' (JObj []) wit_mcp = (r, s')" by fastforce
  have calls: "ms_calls s' = [CaptureScreen 0]" using wit_capture_calls d by simp
  have "ms_calls wit_mcp = []" by (simp add: wit_mcp_def mcp_server_new_def)
  with mcp_complete_mediation [OF d] calls have "gate_open wit_mcp_env ScreenRead wit_mcp" by auto
  with d calls show ?thesis by blast
qed

text \<open>
  A request that the rate limiter rejects leaves no trace in the audit log: the session, and
  with it the log, is unchanged.\<close>

theorem rate_limited_not_audited:
  assumes "gate E cap action summary s = (Err (RateLimited cap' e), s')"
  shows "ms_session s' = ms_session s \<and> ms_calls s' = ms_calls s"
  using assms by (auto simp: gate_def split: prod.splits sum.splits)

definition wit_mcp_limited :: mcp_server where
  "wit_mcp_limited = wit_mcp\<lparr>ms_limiter := [ShellExec \<mapsto> wit_bucket]\<rparr>"

theorem rate_limited_not_audited_witness:
  "\<exists>e s'. gate wit_mcp_env ShellExec (JObj []) ''k'' wit_mcp_limited = (Err (RateLimited ShellExec e), s') \<and>
     ms_session s' = ms_session wit_mcp_limited"
proof -
  have "\<exists>e s'. gate wit_mcp_env ShellExec (JObj []) ''k'' wit_mcp_limited = (Err (RateLimited ShellExec e), s')"
    by (simp add: gate_def wit_mcp_limited_def wit_mcp_env_def try_consume_def wit_bucket_eq bucket_try_consume_def
        roll_day_def refill_def refilled_def per_minute_def Let_def DAY_def word_le_nat_alt)
  then obtain e s' where g: "gate wit_mcp_env ShellExec (JObj []) ''k'' wit_mcp_limited = (Err (RateLimited ShellExec e), s')"
    by blast
  from rate_limited_not_audited [OF g] g show ?thesis by blast
qed

section \<open>Keys\<close>

text \<open>The keys that are down after a list of events, newest first; \<open>None\<close> when a release does not match the newest press.\<close>

fun pressed :: "(u32 \<times> string option) list \<Rightarrow> input_event list \<Rightarrow> (u32 \<times> string option) list option" where
  "pressed st [] = Some st"
| "pressed st (e # es) =
     (case ie_kind e of
        KeyDown k m c \<Rightarrow> pressed ((k, c) # st) es
      | KeyUp k m c \<Rightarrow> (case st of x # st' \<Rightarrow> if x = (k, c) then pressed st' es else None | [] \<Rightarrow> None)
      | _ \<Rightarrow> pressed st es)"

definition modifier_key :: "string \<Rightarrow> u32 \<times> string option" where
  "modifier_key code = ((case code_to_vk code of Some v \<Rightarrow> ucast v | None \<Rightarrow> 0), Some code)"

lemma pressed_append: "pressed st (es @ fs) = Option.bind (pressed st es) (\<lambda>st'. pressed st' fs)"
  by (induction st es rule: pressed.induct) (auto split: input_kind.split list.split)

lemma pressed_modifier:
  "pressed st (modifier_event ts c True m # es) = pressed (modifier_key c # st) es"
  "pressed (modifier_key c # st) (modifier_event ts c False m # es) = pressed st es"
  by (simp_all add: modifier_event_def modifier_key_def)

lemma pressed_downs:
  "pressed st (map (\<lambda>i. modifier_event (clock i) (mods ! i) True m) [0..<length mods]) =
     Some (rev (map modifier_key mods) @ st)"
proof (induction mods rule: rev_induct)
  case (snoc c mods)
  have split: "map (\<lambda>i. modifier_event (clock i) ((mods @ [c]) ! i) True m) [0..<length (mods @ [c])] =
    map (\<lambda>i. modifier_event (clock i) (mods ! i) True m) [0..<length mods] @ [modifier_event (clock (length mods)) c True m]"
    by (simp add: nth_append)
  show ?case unfolding split pressed_append snoc by (simp add: pressed_modifier del: pressed.simps(2))
qed simp

lemma pressed_ups:
  "pressed (map modifier_key mods @ st) (map (\<lambda>i. modifier_event (clock (d + i)) (mods ! i) False m) [0..<length mods]) =
     Some st"
proof (induction mods arbitrary: d)
  case (Cons c mods)
  have "map (\<lambda>i. modifier_event (clock (d + i)) ((c # mods) ! i) False m) [0..<length (c # mods)] =
    modifier_event (clock d) c False m #
      map (\<lambda>i. modifier_event (clock (Suc d + i)) (mods ! i) False m) [0..<length mods]"
    by (simp add: upt_conv_Cons map_Suc_upt [symmetric] del: upt_Suc)
  with Cons [of "Suc d"] show ?case by (simp add: pressed_modifier del: pressed.simps(2))
qed simp

text \<open>
  A chord leaves nothing latched: its events press the modifiers in order, press and release
  the key, and release the modifiers in reverse order, so that the keys that are down afterwards
  are the keys that were down before.\<close>

theorem chord_balanced: "pressed st (combo_events clock m mods key code) = Some st"
proof -
  let ?n = "length mods"
  have ups: "pressed (map modifier_key (rev mods) @ st)
      (map (\<lambda>i. modifier_event (clock (?n + 2 + i)) (rev mods ! i) False m) [0..<?n]) = Some st"
    using pressed_ups [of "rev mods" st clock "?n + 2" m] by simp
  show ?thesis
    unfolding combo_events_def Let_def pressed_append pressed_downs
    using ups by (simp add: rev_map)
qed

text \<open>The loop over the events stops at the first failing call: a chord cut short stays latched.\<close>

lemma send_inputs_failed:
  assumes "i < length es" "\<And>j. j < i \<Longrightarrow> br_unit (me_bridge E) (ms_calls s @ map SendInput (take (Suc j) es)) = Ok ()"
    and "br_unit (me_bridge E) (ms_calls s @ map SendInput (take (Suc i) es)) = Err e"
  shows "send_inputs E es s = (Err (BridgeFailed e), s\<lparr>ms_calls := ms_calls s @ map SendInput (take (Suc i) es)\<rparr>)"
  using assms
proof (induction es arbitrary: i s)
  case (Cons x es)
  show ?case
  proof (cases i)
    case 0
    with Cons.prems show ?thesis by (simp add: mbind_def send_input_def bridge_def Let_def)
  next
    case (Suc j)
    let ?s = "s\<lparr>ms_calls := ms_calls s @ [SendInput x]\<rparr>"
    have "br_unit (me_bridge E) (ms_calls s @ [SendInput x]) = Ok ()"
      using Cons.prems(2) [of 0] Suc by simp
    then have "send_inputs E (x # es) s = send_inputs E es ?s"
      by (simp add: mbind_def send_input_def bridge_def Let_def)
    with Cons.IH [of j ?s] Cons.prems Suc show ?thesis by (auto simp: Suc_less_eq)
  qed
qed simp

lemma letter_keys: "list_all (\<lambda>n. code_to_vk (''Key'' @ [char_of n]) = Some (word_of_nat n)) [65..<91]"
  by code_simp

lemma digit_keys: "list_all (\<lambda>n. code_to_vk (''Digit'' @ [char_of n]) = Some (word_of_nat n)) [48..<58]"
  by code_simp

lemma letter_key: "65 \<le> n \<Longrightarrow> n < 91 \<Longrightarrow> code_to_vk (''Key'' @ [char_of n]) = Some (word_of_nat n)"
  using letter_keys unfolding list_all_iff set_upt atLeastLessThan_iff Ball_def by blast

lemma digit_key: "48 \<le> n \<Longrightarrow> n < 58 \<Longrightarrow> code_to_vk (''Digit'' @ [char_of n]) = Some (word_of_nat n)"
  using digit_keys unfolding list_all_iff set_upt atLeastLessThan_iff Ball_def by blast

lemma named_keys_agree:
  "list_all2 (\<lambda>(a, k) (b, code). a = b \<and> map_option ucast (code_to_vk code) = Some k) named_keys named_key_codes"
  by code_simp

lemma map_of_agree:
  assumes "list_all2 (\<lambda>(a, k) (b, c). a = b \<and> P k c) xs ys" "map_of xs s = Some k"
  shows "\<exists>c. map_of ys s = Some c \<and> P k c"
  using assms by (induction rule: list_all2_induct) (auto split: if_splits)

lemma upper_code:
  assumes "is_ascii_alphanumeric (to_ascii_upper c)"
  shows "\<exists>n :: nat. to_ascii_upper c = char_of n \<and> (if is_ascii_alphabetic (to_ascii_upper c) then 65 \<le> n \<and> n < 91 else 48 \<le> n \<and> n < 58)
     \<and> n < 256"
proof -
  let ?u = "to_ascii_upper c" and ?n = "of_char (to_ascii_upper c) :: nat"
  have "\<not> is_ascii_lower ?u"
    by (auto simp: to_ascii_upper_def is_ascii_lower_def)
  with assms have "if is_ascii_alphabetic ?u then 65 \<le> ?n \<and> ?n < 91 else 48 \<le> ?n \<and> ?n < 58"
    by (auto simp: is_ascii_alphanumeric_def is_ascii_alphabetic_def is_ascii_upper_def is_ascii_digit_def)
  moreover have "?u = char_of ?n" by simp
  moreover have "?n < 256" by simp
  ultimately show ?thesis by blast
qed

text \<open>
  The two key encodings of the tool server agree: every key name that is accepted has a
  physical key name known to the host's key table, and the legacy number sent with it is the
  Windows code of that key.\<close>

theorem parse_key_agrees_with_keymap:
  assumes "parse_key s = Ok k"
  shows "\<exists>code v. parse_key_code s = Some code \<and> code_to_vk code = Some v \<and> k = ucast v"
proof -
  have named: "\<exists>code v. map_of named_key_codes s = Some code \<and> code_to_vk code = Some v \<and> k = ucast v"
    if "map_of named_keys s = Some k"
    using map_of_agree [OF named_keys_agree that] by auto
  show ?thesis
  proof (cases "single_ascii s")
    case None
    with assms named show ?thesis by (auto simp: parse_key_def parse_key_code_def split: option.splits)
  next
    case (Some c)
    show ?thesis
    proof (cases "is_ascii_alphanumeric c")
      case False
      with Some assms named show ?thesis
        by (auto simp: parse_key_def parse_key_code_def is_ascii_alphanumeric_def split: option.splits)
    next
      case True
      obtain d where "c = to_ascii_upper d" using Some by (auto simp: single_ascii_def split: list.splits)
      with upper_code True obtain n :: nat where n: "c = char_of n" "n < 256"
          "if is_ascii_alphabetic c then 65 \<le> n \<and> n < 91 else 48 \<le> n \<and> n < 58"
        by metis
      have k: "k = word_of_nat n"
        using assms Some True n(1,2) by (simp add: parse_key_def)
      have "ucast (word_of_nat n :: u16) = (word_of_nat n :: u32)"
        using n(2) by (simp add: word_unat_eq_iff unsigned_ucast_eq unat_of_nat take_bit_nat_eq_self)
      then show ?thesis
        using Some True n k letter_key [of n] digit_key [of n]
        by (cases "is_ascii_alphabetic c") (auto simp: parse_key_code_def is_ascii_alphanumeric_def)
    qed
  qed
qed

theorem parse_key_agrees_with_keymap_witness:
  "parse_key ''Esc'' = Ok 0x1B \<and> (\<exists>code v. parse_key_code ''Esc'' = Some code \<and> code_to_vk code = Some v \<and> 0x1B = (ucast v :: u32))"
proof -
  have "parse_key ''Esc'' = Ok 0x1B"
    by (simp add: parse_key_def single_ascii_def named_keys_def)
  with parse_key_agrees_with_keymap [OF this] show ?thesis by blast
qed

end
