(* ===== verification/Merkle.thy ===== *)
theory Merkle
  imports Prelude
begin

text \<open>
  The Merkle log of session commitments (\<open>MerkleLog\<close> and \<open>verify_proof\<close> in
  \<open>miru-transparency/src/lib.rs\<close>): roots, inclusion proofs and their verification. SHA-256 is the
  parameter \<open>h\<close>. A node without a sibling is paired with itself.
\<close>

section \<open>Definitions\<close>

definition leaf_hash :: "(bytes \<Rightarrow> bytes) \<Rightarrow> bytes \<Rightarrow> bytes" where
  "leaf_hash h leaf = h (0x00 # leaf)"

definition node_hash :: "(bytes \<Rightarrow> bytes) \<Rightarrow> bytes \<Rightarrow> bytes \<Rightarrow> bytes" where
  "node_hash h l r = h (0x01 # l @ r)"

fun next_layer :: "(bytes \<Rightarrow> bytes) \<Rightarrow> bytes list \<Rightarrow> bytes list" where
  "next_layer h [] = []"
| "next_layer h [a] = [node_hash h a a]"
| "next_layer h (a # b # rest) = node_hash h a b # next_layer h rest"

lemma length_next_layer [simp]: "length (next_layer h xs) = (length xs + 1) div 2"
  by (induction h xs rule: next_layer.induct) auto

function collapse :: "(bytes \<Rightarrow> bytes) \<Rightarrow> bytes list \<Rightarrow> bytes" where
  "collapse h layer =
     (if length layer > 1 then collapse h (next_layer h layer)
      else case layer of [] \<Rightarrow> [] | x # _ \<Rightarrow> x)"
  by pat_completeness auto
termination
  by (relation "measure (\<lambda>(h, layer). length layer)") auto

function proof_path :: "(bytes \<Rightarrow> bytes) \<Rightarrow> bytes list \<Rightarrow> nat \<Rightarrow> bytes list" where
  "proof_path h layer idx =
     (if length layer > 1 then
        (let sibling_idx = (if even idx then idx + 1 else idx - 1);
             sibling = (if sibling_idx < length layer then layer ! sibling_idx else layer ! idx)
         in sibling # proof_path h (next_layer h layer) (idx div 2))
      else [])"
  by pat_completeness auto
termination
  by (relation "measure (\<lambda>(h, layer, idx). length layer)") auto

declare collapse.simps [simp del] proof_path.simps [simp del]

type_synonym merkle_log = "bytes list"

definition merkle_new :: merkle_log where
  "merkle_new = []"

definition merkle_append :: "merkle_log \<Rightarrow> bytes \<Rightarrow> nat \<times> merkle_log" where
  "merkle_append leaves leaf = (length leaves, leaves @ [leaf])"

definition merkle_root :: "(bytes \<Rightarrow> bytes) \<Rightarrow> merkle_log \<Rightarrow> bytes" where
  "merkle_root h leaves =
     (if leaves = [] then replicate 32 0 else collapse h (map (leaf_hash h) leaves))"

definition merkle_proof :: "(bytes \<Rightarrow> bytes) \<Rightarrow> merkle_log \<Rightarrow> nat \<Rightarrow> bytes list option" where
  "merkle_proof h leaves index =
     (if index \<ge> length leaves then None else Some (proof_path h (map (leaf_hash h) leaves) index))"

fun climb :: "(bytes \<Rightarrow> bytes) \<Rightarrow> bytes \<Rightarrow> bytes list \<Rightarrow> nat \<Rightarrow> bytes" where
  "climb h hash [] idx = hash"
| "climb h hash (sibling # path) idx =
     climb h (if even idx then node_hash h hash sibling else node_hash h sibling hash) path (idx div 2)"

definition verify_proof :: "(bytes \<Rightarrow> bytes) \<Rightarrow> bytes \<Rightarrow> bytes list \<Rightarrow> nat \<Rightarrow> bytes \<Rightarrow> bool" where
  "verify_proof h leaf path index root = (climb h (leaf_hash h leaf) path index = root)"

section \<open>Completeness\<close>

lemma next_layer_nth:
  "i < length (next_layer h xs) \<Longrightarrow>
   next_layer h xs ! i = node_hash h (xs ! (2 * i)) (if 2 * i + 1 < length xs then xs ! (2 * i + 1) else xs ! (2 * i))"
proof (induction h xs arbitrary: i rule: next_layer.induct)
  case (3 h a b rest)
  then show ?case by (cases i) auto
qed auto

lemma climb_proof_path:
  "i < length layer \<Longrightarrow> climb h (layer ! i) (proof_path h layer i) i = collapse h layer"
proof (induction h layer i rule: proof_path.induct)
  case (1 h layer i)
  show ?case
  proof (cases "length layer > 1")
    case False
    with 1(2) show ?thesis by (cases layer) (simp_all add: proof_path.simps collapse.simps)
  next
    case True
    have i2: "i div 2 < length (next_layer h layer)" using 1(2) by simp
    define sib where "sib = (if (if even i then i + 1 else i - 1) < length layer
      then layer ! (if even i then i + 1 else i - 1) else layer ! i)"
    have "(if even i then node_hash h (layer ! i) sib else node_hash h sib (layer ! i)) = next_layer h layer ! (i div 2)"
    proof (cases "even i")
      case True
      then have "2 * (i div 2) = i" by simp
      with True show ?thesis unfolding next_layer_nth [OF i2] sib_def by simp
    next
      case False
      then have "2 * (i div 2) = i - 1" "2 * (i div 2) + 1 = i" by presburger+
      moreover have "i - 1 < length layer" using 1(2) by simp
      ultimately show ?thesis using False 1(2) unfolding next_layer_nth [OF i2] sib_def by simp
    qed
    moreover have "proof_path h layer i = sib # proof_path h (next_layer h layer) (i div 2)"
      using True by (subst proof_path.simps) (simp add: sib_def Let_def)
    moreover have "collapse h layer = collapse h (next_layer h layer)"
      using True by (subst collapse.simps) simp
    ultimately show ?thesis using 1(1) [OF True refl refl] i2 by simp
  qed
qed

lemma proof_path_verifies:
  "i < length leaves \<Longrightarrow> verify_proof h (leaves ! i) (proof_path h (map (leaf_hash h) leaves) i) i (merkle_root h leaves)"
  using climb_proof_path [of i "map (leaf_hash h) leaves" h] by (auto simp: verify_proof_def merkle_root_def)

text \<open>
  Every log produces proofs that verify: for each index in range the log returns a proof, and
  the proof verifies for the leaf at that index against the root of the log. An index out of
  range has no proof.\<close>

theorem merkle_proofs_verify:
  "(case merkle_proof h leaves i of
      None \<Rightarrow> length leaves \<le> i
    | Some path \<Rightarrow> i < length leaves \<and> verify_proof h (leaves ! i) path i (merkle_root h leaves))"
  using proof_path_verifies by (auto simp: merkle_proof_def)

section \<open>Soundness\<close>

text \<open>The pairs that the log hashes into nodes, and the pairs that the verifier hashes.\<close>

definition sibling_or_self :: "bytes list \<Rightarrow> nat \<Rightarrow> bytes" where
  "sibling_or_self layer i = (if 2 * i + 1 < length layer then layer ! (2 * i + 1) else layer ! (2 * i))"

function node_pairs :: "(bytes \<Rightarrow> bytes) \<Rightarrow> bytes list \<Rightarrow> (bytes \<times> bytes) set" where
  "node_pairs h layer =
     (if length layer > 1
      then (\<lambda>i. (layer ! (2 * i), sibling_or_self layer i)) ` {..< length (next_layer h layer)}
           \<union> node_pairs h (next_layer h layer)
      else {})"
  by pat_completeness auto
termination
  by (relation "measure (\<lambda>(h, layer). length layer)") auto

declare node_pairs.simps [simp del]

fun climb_pairs :: "(bytes \<Rightarrow> bytes) \<Rightarrow> bytes \<Rightarrow> bytes list \<Rightarrow> nat \<Rightarrow> (bytes \<times> bytes) list" where
  "climb_pairs h hash [] idx = []"
| "climb_pairs h hash (s # path) idx =
     (let (l, r) = (if even idx then (hash, s) else (s, hash))
      in (l, r) # climb_pairs h (node_hash h l r) path (idx div 2))"

definition node_input :: "bytes \<times> bytes \<Rightarrow> bytes" where
  "node_input p = 0x01 # fst p @ snd p"

definition tree_inputs :: "(bytes \<Rightarrow> bytes) \<Rightarrow> merkle_log \<Rightarrow> bytes set" where
  "tree_inputs h leaves = (\<lambda>l. 0x00 # l) ` set leaves \<union> node_input ` node_pairs h (map (leaf_hash h) leaves)"

definition verifier_inputs :: "(bytes \<Rightarrow> bytes) \<Rightarrow> bytes \<Rightarrow> bytes list \<Rightarrow> nat \<Rightarrow> bytes set" where
  "verifier_inputs h leaf path idx = insert (0x00 # leaf) (node_input ` set (climb_pairs h (leaf_hash h leaf) path idx))"

definition collision :: "(bytes \<Rightarrow> bytes) \<Rightarrow> bytes set \<Rightarrow> bytes set \<Rightarrow> bool" where
  "collision h A B \<longleftrightarrow> (\<exists>x \<in> A. \<exists>y \<in> B. x \<noteq> y \<and> h x = h y)"

lemma collision_mono: "collision h A B \<Longrightarrow> A \<subseteq> A' \<Longrightarrow> B \<subseteq> B' \<Longrightarrow> collision h A' B'"
  by (auto simp: collision_def)

definition pair_hash :: "(bytes \<Rightarrow> bytes) \<Rightarrow> bytes \<times> bytes \<Rightarrow> bytes" where
  "pair_hash h p = node_hash h (fst p) (snd p)"

lemma pair_hash_input: "pair_hash h p = h (node_input p)"
  by (simp add: pair_hash_def node_input_def node_hash_def)

lemma collapse_step: "length layer > 1 \<Longrightarrow> collapse h layer = collapse h (next_layer h layer)"
  by (subst collapse.simps) simp

lemma collapse_single: "\<not> length layer > 1 \<Longrightarrow> layer \<noteq> [] \<Longrightarrow> collapse h layer = layer ! 0"
  by (subst collapse.simps) (cases layer; simp)

lemma node_pairs_step:
  "length layer > 1 \<Longrightarrow> node_pairs h (next_layer h layer) \<subseteq> node_pairs h layer"
  by (subst (2) node_pairs.simps) simp

lemma next_layer_pair:
  assumes "length layer > 1" "i < length (next_layer h layer)"
  shows "(layer ! (2 * i), sibling_or_self layer i) \<in> node_pairs h layer"
    and "next_layer h layer ! i = pair_hash h (layer ! (2 * i), sibling_or_self layer i)"
proof -
  show "(layer ! (2 * i), sibling_or_self layer i) \<in> node_pairs h layer"
    using assms by (subst node_pairs.simps) simp
  show "next_layer h layer ! i = pair_hash h (layer ! (2 * i), sibling_or_self layer i)"
    using next_layer_nth [OF assms(2)] by (simp add: pair_hash_def sibling_or_self_def)
qed

lemma next_layer_nodes:
  assumes "length layer > 1" "x \<in> set (next_layer h layer)"
  shows "x \<in> pair_hash h ` node_pairs h layer"
  using assms(2) next_layer_pair [OF assms(1)] unfolding in_set_conv_nth by force

lemma collapse_is_node: "length layer > 1 \<Longrightarrow> collapse h layer \<in> pair_hash h ` node_pairs h layer"
proof (induction h layer rule: collapse.induct)
  case (1 h layer)
  show ?case
  proof (cases "length (next_layer h layer) > 1")
    case True
    with 1 collapse_step [of layer h] node_pairs_step [of layer h] show ?thesis by fastforce
  next
    case False
    then have "next_layer h layer \<noteq> []" using 1(2) by (cases layer rule: remdups_adj.cases) auto
    with collapse_single [OF False this] collapse_step [OF 1(2), of h] next_layer_nodes [OF 1(2), of "next_layer h layer ! 0" h]
      nth_mem [of 0 "next_layer h layer"] 1(2)
    show ?thesis by simp
  qed
qed

lemma node_pairs_operands:
  "set M \<subseteq> N \<Longrightarrow> pair_hash h ` node_pairs h M \<subseteq> N \<Longrightarrow> node_pairs h M \<subseteq> N \<times> N"
proof (induction h M rule: node_pairs.induct)
  case (1 h M)
  show ?case
  proof (cases "length M > 1")
    case False
    then show ?thesis by (subst node_pairs.simps) simp
  next
    case True
    have "node_pairs h (next_layer h M) \<subseteq> N \<times> N"
      using 1(1) [OF True] 1(3) next_layer_nodes [OF True, of _ h] node_pairs_step [OF True, of h] by blast
    moreover have "M ! (2 * i) \<in> set M \<and> sibling_or_self M i \<in> set M" if "i < length (next_layer h M)" for i
      using that by (auto simp: sibling_or_self_def)
    ultimately show ?thesis using True 1(2) by (subst node_pairs.simps) auto
  qed
qed

lemma upper_operands_are_nodes:
  assumes "length layer > 1" "(l, r) \<in> node_pairs h (next_layer h layer)"
  shows "l \<in> pair_hash h ` node_pairs h layer \<and> r \<in> pair_hash h ` node_pairs h layer"
  using node_pairs_operands [of "next_layer h layer" "pair_hash h ` node_pairs h layer" h]
    next_layer_nodes [OF assms(1)] node_pairs_step [OF assms(1), of h] assms(2) by blast

definition len32 :: "bytes \<Rightarrow> bool" where
  "len32 x \<longleftrightarrow> length x = 32"

lemma node_pairs_len32:
  assumes "\<And>x. length (h x) = 32" "list_all len32 layer" "p \<in> node_pairs h layer"
  shows "len32 (fst p) \<and> len32 (snd p)"
proof -
  have "set layer \<subseteq> Collect len32" using assms(2) by (auto simp: list_all_iff)
  moreover have "pair_hash h ` node_pairs h layer \<subseteq> Collect len32"
    using assms(1) by (auto simp: len32_def pair_hash_input)
  ultimately show ?thesis using node_pairs_operands [of layer "Collect len32" h] assms(3) by auto
qed

lemma climb_pairs_len32:
  assumes "\<And>x. length (h x) = 32" "len32 hash" "list_all len32 path" "p \<in> set (climb_pairs h hash path idx)"
  shows "len32 (fst p) \<and> len32 (snd p)"
  using assms(2-)
proof (induction path arbitrary: hash idx)
  case (Cons s path)
  let ?l = "if even idx then hash else s" and ?r = "if even idx then s else hash"
  have pairs: "climb_pairs h hash (s # path) idx = (?l, ?r) # climb_pairs h (node_hash h ?l ?r) path (idx div 2)"
    by simp
  have "len32 (node_hash h ?l ?r)" using assms(1) by (simp add: len32_def node_hash_def)
  with Cons.IH [of "node_hash h ?l ?r" "idx div 2"] Cons.prems show ?case
    unfolding pairs by (auto split: if_splits)
qed simp

lemma climb_pairs_operand:
  "p \<in> set (climb_pairs h hash path idx) \<Longrightarrow>
     {fst p, snd p} \<inter> insert hash (pair_hash h ` set (climb_pairs h hash path idx)) \<noteq> {}"
proof (induction h hash path idx rule: climb_pairs.induct)
  case (2 h hash s path idx)
  obtain l r where lr: "(if even idx then (hash, s) else (s, hash)) = (l, r)" by fastforce
  have hd: "climb_pairs h hash (s # path) idx = (l, r) # climb_pairs h (node_hash h l r) path (idx div 2)"
    using lr by simp
  show ?case
  proof (cases "p = (l, r)")
    case True
    with lr show ?thesis by (auto split: if_splits)
  next
    case False
    with 2 hd lr show ?thesis by (auto simp: pair_hash_def)
  qed
qed simp

lemma node_input_inj:
  assumes "len32 (fst p)" "len32 (fst q)" "node_input p = node_input q"
  shows "p = q"
  using assms by (cases p; cases q) (auto simp: node_input_def len32_def)

definition pair_collision :: "(bytes \<Rightarrow> bytes) \<Rightarrow> (bytes \<times> bytes) set \<Rightarrow> (bytes \<times> bytes) set \<Rightarrow> bool" where
  "pair_collision h P Q \<longleftrightarrow> (\<exists>p \<in> P. \<exists>q \<in> Q. p \<noteq> q \<and> pair_hash h p = pair_hash h q)"

lemma pair_collision_mono: "pair_collision h P Q \<Longrightarrow> P \<subseteq> P' \<Longrightarrow> Q \<subseteq> Q' \<Longrightarrow> pair_collision h P' Q'"
  unfolding pair_collision_def by blast

text \<open>
  What follows when a climb from \<open>hash\<close> ends in the root of a layer: a collision, the right hash at
  the index, a hash that is an inner node of the tree, or a verifier node among the entries of the layer.
\<close>

lemma climb_sound:
  "layer \<noteq> [] \<Longrightarrow> climb h hash path idx = collapse h layer \<Longrightarrow>
    pair_collision h (set (climb_pairs h hash path idx)) (node_pairs h layer) \<or>
    (idx < length layer \<longrightarrow> hash = layer ! idx) \<or>
    hash \<in> pair_hash h ` node_pairs h layer \<or>
    (\<exists>p \<in> set (climb_pairs h hash path idx). pair_hash h p \<in> set layer)"
proof (induction h layer arbitrary: hash path idx rule: collapse.induct)
  case (1 h layer)
  show ?case
  proof (cases "length layer > 1")
    case False
    with collapse_single [OF False 1(2)] 1(3) have root: "climb h hash path idx = layer ! 0" "length layer = 1"
      using 1(2) by (cases layer; simp)+
    show ?thesis
    proof (cases path)
      case Nil
      with root show ?thesis by simp
    next
      case (Cons s ps)
      have "climb h x (s # ps) i \<in> pair_hash h ` set (climb_pairs h x (s # ps) i)" for x i
      proof (induction ps arbitrary: x s i)
        case (Cons t ps)
        show ?case using Cons [of "if even i then node_hash h x s else node_hash h s x" t "i div 2"]
          by (auto simp: pair_hash_def split: if_splits)
      qed (auto simp: pair_hash_def)
      then have "layer ! 0 \<in> pair_hash h ` set (climb_pairs h hash path idx)"
        using root(1) Cons by metis
      moreover have "layer ! 0 \<in> set layer" using root(2) by simp
      ultimately show ?thesis by (metis imageE)
    qed
  next
    case True
    let ?L = "next_layer h layer"
    have L: "?L \<noteq> []" using True by (cases layer rule: remdups_adj.cases) auto
    show ?thesis
    proof (cases path)
      case Nil
      with 1(3) collapse_is_node [OF True, of h] show ?thesis by simp
    next
      case (Cons s ps)
      define l where "l = (if even idx then hash else s)"
      define r where "r = (if even idx then s else hash)"
      let ?h' = "pair_hash h (l, r)" and ?j = "idx div 2"
      have pairs: "climb_pairs h hash path idx = (l, r) # climb_pairs h ?h' ps ?j"
        using Cons by (simp add: l_def r_def pair_hash_def)
      have "climb h ?h' ps ?j = collapse h ?L"
        using 1(3) Cons collapse_step [OF True, of h] by (simp add: l_def r_def pair_hash_def split: if_splits)
      from 1(1) [OF True L this]
      consider (coll) "pair_collision h (set (climb_pairs h ?h' ps ?j)) (node_pairs h ?L)"
        | (index) "?j < length ?L \<longrightarrow> ?h' = ?L ! ?j"
        | (node) q where "q \<in> node_pairs h ?L" "?h' = pair_hash h q"
        | (entry) p where "p \<in> set (climb_pairs h ?h' ps ?j)" "pair_hash h p \<in> set ?L"
        by blast
      then show ?thesis
      proof cases
        case coll
        moreover have "set (climb_pairs h ?h' ps ?j) \<subseteq> set (climb_pairs h hash path idx)" using pairs by auto
        ultimately show ?thesis using pair_collision_mono node_pairs_step [OF True, of h] by blast
      next
        case index
        show ?thesis
        proof (cases "idx < length layer")
          case lt: True
          let ?q = "(layer ! (2 * ?j), sibling_or_self layer ?j)"
          have j: "?j < length ?L" using lt by simp
          from index next_layer_pair [OF True j] j have q: "?q \<in> node_pairs h layer" "?h' = pair_hash h ?q" by simp_all
          show ?thesis
          proof (cases "(l, r) = ?q")
            case False
            with q pairs show ?thesis unfolding pair_collision_def by fastforce
          next
            case eq: True
            have "2 * ?j = idx" if "even idx" using that by simp
            moreover have "2 * ?j + 1 = idx" if "odd idx" using that by simp
            ultimately have "hash = layer ! idx"
              using eq lt by (auto simp: l_def r_def sibling_or_self_def split: if_splits)
            then show ?thesis by simp
          qed
        qed simp
      next
        case node
        show ?thesis
        proof (cases "(l, r) = q")
          case False
          with node pairs node_pairs_step [OF True, of h] show ?thesis unfolding pair_collision_def by fastforce
        next
          case eq: True
          then have "(l, r) \<in> node_pairs h ?L" using node by simp
          from upper_operands_are_nodes [OF True this] show ?thesis by (auto simp: l_def r_def split: if_splits)
        qed
      next
        case entry
        then obtain i where i: "i < length ?L" "pair_hash h p = ?L ! i" by (metis in_set_conv_nth)
        let ?q = "(layer ! (2 * i), sibling_or_self layer i)"
        from next_layer_pair [OF True i(1)] i(2) have q: "?q \<in> node_pairs h layer" "pair_hash h p = pair_hash h ?q" by simp_all
        show ?thesis
        proof (cases "p = ?q")
          case False
          with q entry(1) pairs show ?thesis unfolding pair_collision_def by fastforce
        next
          case eq: True
          have "2 * i < length layer" using i(1) by simp
          then have "fst p \<in> set layer" "snd p \<in> set layer" using eq by (auto simp: sibling_or_self_def)
          with climb_pairs_operand [OF entry(1)] pairs show ?thesis by auto
        qed
      qed
    qed
  qed
qed

lemma pair_collision_inputs:
  assumes "pair_collision h P Q" "\<And>p. p \<in> P \<Longrightarrow> len32 (fst p)" "\<And>q. q \<in> Q \<Longrightarrow> len32 (fst q)"
  shows "collision h (node_input ` P) (node_input ` Q)"
  using assms node_input_inj unfolding pair_collision_def collision_def pair_hash_input by blast

text \<open>
  C27. Inclusion proofs are sound: a proof of any length that verifies for an index in range against
  the root of a log shows the leaf at that index, unless one of the inputs the verifier hashed and
  one of the inputs the log hashed are different and have the same SHA-256 digest.\<close>

theorem merkle_proof_sound:
  assumes "\<And>x. length (h x) = 32" "list_all len32 path" "i < length leaves"
    and "verify_proof h leaf path i (merkle_root h leaves)"
  shows "leaf = leaves ! i \<or> collision h (verifier_inputs h leaf path i) (tree_inputs h leaves)"
proof -
  let ?layer = "map (leaf_hash h) leaves" and ?hash = "leaf_hash h leaf"
  let ?P = "set (climb_pairs h ?hash path i)" and ?Q = "node_pairs h ?layer"
  have "climb h ?hash path i = collapse h ?layer" "?layer \<noteq> []"
    using assms(3,4) by (auto simp: verify_proof_def merkle_root_def)
  then consider (coll) "pair_collision h ?P ?Q"
    | (index) "?hash = ?layer ! i"
    | (node) q where "q \<in> ?Q" "?hash = pair_hash h q"
    | (entry) p l where "p \<in> ?P" "l \<in> set leaves" "pair_hash h p = leaf_hash h l"
    using climb_sound [of ?layer h ?hash path i] assms(3) by force
  then show ?thesis
  proof cases
    case coll
    have "list_all len32 ?layer" "len32 ?hash"
      using assms(1) by (auto simp: list_all_iff len32_def leaf_hash_def)
    then have "\<And>p. p \<in> ?P \<Longrightarrow> len32 (fst p)" "\<And>q. q \<in> ?Q \<Longrightarrow> len32 (fst q)"
      using climb_pairs_len32 [of h ?hash path] node_pairs_len32 [of h ?layer] assms(1,2) by blast+
    from pair_collision_inputs [OF coll this] have "collision h (node_input ` ?P) (node_input ` ?Q)" .
    then show ?thesis
      using collision_mono [of h _ _ "verifier_inputs h leaf path i" "tree_inputs h leaves"]
      by (auto simp: verifier_inputs_def tree_inputs_def)
  next
    case index
    then have "h (0 # leaf) = h (0 # leaves ! i)" using assms(3) by (simp add: leaf_hash_def)
    then show ?thesis
      using assms(3) by (auto simp: collision_def verifier_inputs_def tree_inputs_def)
  next
    case node
    then have "h (0 # leaf) = h (node_input q)" "0 # leaf \<noteq> node_input q"
      by (simp_all add: leaf_hash_def pair_hash_input node_input_def)
    with node(1) show ?thesis by (auto simp: collision_def verifier_inputs_def tree_inputs_def)
  next
    case entry
    then have "h (node_input p) = h (0 # l)" "node_input p \<noteq> 0 # l"
      by (simp_all add: leaf_hash_def pair_hash_input node_input_def)
    with entry(1,2) show ?thesis by (fastforce simp: collision_def verifier_inputs_def tree_inputs_def)
  qed
qed

definition wit_h32 :: "bytes \<Rightarrow> bytes" where
  "wit_h32 x = take 32 (x @ replicate 32 0)"

theorem merkle_proof_sound_witness:
  "list_all len32 [leaf_hash wit_h32 [2]] \<and>
   verify_proof wit_h32 [1] [leaf_hash wit_h32 [2]] 0 (merkle_root wit_h32 [[1], [2]]) \<and>
   ([1] = [[1], [2]] ! 0 \<or>
    collision wit_h32 (verifier_inputs wit_h32 [1] [leaf_hash wit_h32 [2]] 0) (tree_inputs wit_h32 [[1 :: byte], [2]]))"
proof -
  have len: "length (wit_h32 x) = 32" for x by (simp add: wit_h32_def)
  have path: "list_all len32 [leaf_hash wit_h32 [2]]" by (simp add: len32_def leaf_hash_def len)
  have "verify_proof wit_h32 [1] [leaf_hash wit_h32 [2]] 0 (merkle_root wit_h32 [[1], [2]])"
    by (simp add: verify_proof_def merkle_root_def collapse.simps)
  with len path merkle_proof_sound [of wit_h32 "[leaf_hash wit_h32 [2]]" 0 "[[1], [2]]" "[1]"] show ?thesis by simp
qed

text \<open>
  The root does not determine the log: for an odd number of leaves, at least three, appending a
  copy of the last leaf leaves the root unchanged, so a proof for the index one past the end
  verifies against the root of the shorter log.\<close>

theorem merkle_root_ambiguous:
  assumes "odd (length leaves)" "3 \<le> length leaves"
  shows "merkle_root h (leaves @ [last leaves]) = merkle_root h leaves \<and>
    (\<exists>path. verify_proof h (last leaves) path (length leaves) (merkle_root h leaves))"
proof -
  have dup: "next_layer h (xs @ [last xs]) = next_layer h xs" if "odd (length xs)" for xs :: "bytes list"
    using that by (induction h xs rule: next_layer.induct) (auto simp: odd_pos)
  have "leaves \<noteq> []" using assms(2) by auto
  let ?l = "map (leaf_hash h) leaves"
  have last: "map (leaf_hash h) (leaves @ [last leaves]) = ?l @ [last ?l]"
    using \<open>leaves \<noteq> []\<close> by (simp add: last_map)
  have "collapse h (?l @ [last ?l]) = collapse h ?l"
    using dup [of ?l] assms \<open>leaves \<noteq> []\<close> collapse_step [of "?l @ [last ?l]" h] collapse_step [of ?l h] by simp
  then have root: "merkle_root h (leaves @ [last leaves]) = merkle_root h leaves"
    using \<open>leaves \<noteq> []\<close> unfolding merkle_root_def last by simp
  from proof_path_verifies [of "length leaves" "leaves @ [last leaves]" h] root show ?thesis
    by (auto simp: nth_append)
qed

theorem merkle_root_ambiguous_witness:
  "merkle_root wit_h32 [[1], [2], [3], [3]] = merkle_root wit_h32 [[1], [2], [3 :: byte]]"
  using merkle_root_ambiguous [of "[[1], [2], [3]]" wit_h32] by simp

end
