(* ===== verification/Transparency.thy ===== *)
theory Transparency
  imports Externals Json Merkle
begin

text \<open>
  Session commitments (\<open>miru-transparency/src/lib.rs\<close>) and their publication
  (\<open>miru-transparency/src/rekor.rs\<close>): commitment hash, co-signed and host-only attestations with
  their verification, the in-toto statements, and the exchange with a Rekor server. SHA-256,
  Ed25519, base64, the JSON serializer and the HTTP exchange are parameters; the random nonce is an
  argument.
\<close>

section \<open>Commitments\<close>

record session_metadata =
  sm_session_id :: u128
  sm_host_pubkey_b64 :: string
  sm_viewer_pubkey_b64 :: string
  sm_codec :: string
  sm_started_at :: u64
  sm_ended_at :: u64
  sm_video_frames :: u64
  sm_total_bytes :: u64
  sm_relayed :: bool

record transparency_ext =
  tx_sha256 :: "bytes \<Rightarrow> bytes"
  tx_to_vec :: "session_metadata \<Rightarrow> bytes option"
  tx_base64 :: base64
  tx_ed25519 :: ed25519

datatype transparency_error =
    SerializationFailed
  | Base64Invalid
  | NonceLength
  | CommitmentMismatch
  | PubkeyLength
  | PubkeyDecode
  | SigLength
  | HostSignatureInvalid
  | ViewerSignatureInvalid

definition commitment :: "transparency_ext \<Rightarrow> session_metadata \<Rightarrow> bytes \<Rightarrow> transparency_error + bytes" where
  "commitment X m nonce =
     (case tx_to_vec X m of None \<Rightarrow> Err SerializationFailed | Some js \<Rightarrow> Ok (tx_sha256 X (js @ nonce)))"

record co_signed_commitment =
  cc_commitment_b64 :: string
  cc_nonce_b64 :: string
  cc_host_signature_b64 :: string
  cc_viewer_signature_b64 :: string

record host_only_attestation =
  ho_commitment_b64 :: string
  ho_nonce_b64 :: string
  ho_host_signature_b64 :: string

definition co_signed_new ::
  "transparency_ext \<Rightarrow> bytes \<Rightarrow> session_metadata \<Rightarrow> bytes \<Rightarrow> bytes \<Rightarrow> transparency_error + co_signed_commitment" where
  "co_signed_new X nonce m host_key viewer_key =
     (case commitment X m nonce of
        Inl e \<Rightarrow> Err e
      | Inr c \<Rightarrow> Ok
          \<lparr>cc_commitment_b64 = b64_encode (tx_base64 X) c,
           cc_nonce_b64 = b64_encode (tx_base64 X) nonce,
           cc_host_signature_b64 = b64_encode (tx_base64 X) (ed_sign (tx_ed25519 X) host_key c),
           cc_viewer_signature_b64 = b64_encode (tx_base64 X) (ed_sign (tx_ed25519 X) viewer_key c)\<rparr>)"

definition host_only_new ::
  "transparency_ext \<Rightarrow> bytes \<Rightarrow> session_metadata \<Rightarrow> bytes \<Rightarrow> transparency_error + host_only_attestation" where
  "host_only_new X nonce m host_key =
     (case commitment X m nonce of
        Inl e \<Rightarrow> Err e
      | Inr c \<Rightarrow> Ok
          \<lparr>ho_commitment_b64 = b64_encode (tx_base64 X) c,
           ho_nonce_b64 = b64_encode (tx_base64 X) nonce,
           ho_host_signature_b64 = b64_encode (tx_base64 X) (ed_sign (tx_ed25519 X) host_key c)\<rparr>)"

definition decode_pubkey :: "transparency_ext \<Rightarrow> string \<Rightarrow> transparency_error + bytes" where
  "decode_pubkey X s =
     (case b64_decode (tx_base64 X) s of
        None \<Rightarrow> Err Base64Invalid
      | Some v \<Rightarrow> if length v \<noteq> 32 then Err PubkeyLength
                  else if ed_key_ok (tx_ed25519 X) v then Ok v else Err PubkeyDecode)"

definition decode_sig :: "transparency_ext \<Rightarrow> string \<Rightarrow> transparency_error + bytes" where
  "decode_sig X s =
     (case b64_decode (tx_base64 X) s of
        None \<Rightarrow> Err Base64Invalid
      | Some v \<Rightarrow> if length v \<noteq> 64 then Err SigLength else Ok v)"

text \<open>The first half of both verifications: the nonce and the commitment hash.\<close>

definition check_commitment ::
  "transparency_ext \<Rightarrow> string \<Rightarrow> string \<Rightarrow> session_metadata \<Rightarrow> transparency_error + bytes" where
  "check_commitment X nonce_b64 commitment_b64 m =
     (case b64_decode (tx_base64 X) nonce_b64 of
        None \<Rightarrow> Err Base64Invalid
      | Some nonce \<Rightarrow>
          if length nonce \<noteq> 32 then Err NonceLength
          else (case commitment X m nonce of
                  Inl e \<Rightarrow> Err e
                | Inr expected \<Rightarrow>
                    (case b64_decode (tx_base64 X) commitment_b64 of
                       None \<Rightarrow> Err Base64Invalid
                     | Some actual \<Rightarrow> if actual \<noteq> expected then Err CommitmentMismatch else Ok expected)))"

definition co_signed_verify :: "transparency_ext \<Rightarrow> co_signed_commitment \<Rightarrow> session_metadata \<Rightarrow> transparency_error + unit" where
  "co_signed_verify X C m =
     (case check_commitment X (cc_nonce_b64 C) (cc_commitment_b64 C) m of
        Inl e \<Rightarrow> Err e
      | Inr expected \<Rightarrow>
     (case decode_pubkey X (sm_host_pubkey_b64 m) of
        Inl e \<Rightarrow> Err e
      | Inr host_pub \<Rightarrow>
     (case decode_pubkey X (sm_viewer_pubkey_b64 m) of
        Inl e \<Rightarrow> Err e
      | Inr viewer_pub \<Rightarrow>
     (case decode_sig X (cc_host_signature_b64 C) of
        Inl e \<Rightarrow> Err e
      | Inr host_sig \<Rightarrow>
     (case decode_sig X (cc_viewer_signature_b64 C) of
        Inl e \<Rightarrow> Err e
      | Inr viewer_sig \<Rightarrow>
          if \<not> ed_verify_strict (tx_ed25519 X) host_pub expected host_sig then Err HostSignatureInvalid
          else if \<not> ed_verify_strict (tx_ed25519 X) viewer_pub expected viewer_sig then Err ViewerSignatureInvalid
          else Ok ())))))"

definition verify_host :: "transparency_ext \<Rightarrow> host_only_attestation \<Rightarrow> session_metadata \<Rightarrow> transparency_error + unit" where
  "verify_host X C m =
     (case check_commitment X (ho_nonce_b64 C) (ho_commitment_b64 C) m of
        Inl e \<Rightarrow> Err e
      | Inr expected \<Rightarrow>
     (case decode_pubkey X (sm_host_pubkey_b64 m) of
        Inl e \<Rightarrow> Err e
      | Inr host_pub \<Rightarrow>
     (case decode_sig X (ho_host_signature_b64 C) of
        Inl e \<Rightarrow> Err e
      | Inr host_sig \<Rightarrow>
          if \<not> ed_verify_strict (tx_ed25519 X) host_pub expected host_sig then Err HostSignatureInvalid
          else Ok ())))"

section \<open>Publication\<close>

definition PREDICATE_TYPE :: string where
  "PREDICATE_TYPE = ''https://github.com/shizukutanaka/miru/v0/session-commitment''"

definition json_obj :: "(string \<times> json) list \<Rightarrow> json" where
  "json_obj ps = JObj (foldr (\<lambda>(k, v) m. obj_insert k v m) ps [])"

definition json_u64 :: "u64 \<Rightarrow> json" where
  "json_u64 n = JNum (PosInt n)"

text \<open>The text form of a UUID is the parameter \<open>uuid\<close>.\<close>

definition statement_for :: "(u128 \<Rightarrow> string) \<Rightarrow> session_metadata \<Rightarrow> string \<Rightarrow> json \<Rightarrow> json" where
  "statement_for uuid m commitment_b64 predicate = json_obj [
     (''_type'', JStr ''https://in-toto.io/Statement/v0.1''),
     (''subject'', JArr [json_obj [
        (''name'', JStr (''miru-session/'' @ uuid (sm_session_id m))),
        (''digest'', json_obj [(''sha256'', JStr commitment_b64)])]]),
     (''predicateType'', JStr PREDICATE_TYPE),
     (''predicate'', predicate)]"

definition metadata_fields :: "(u128 \<Rightarrow> string) \<Rightarrow> session_metadata \<Rightarrow> (string \<times> json) list" where
  "metadata_fields uuid m = [
     (''session_id'', JStr (uuid (sm_session_id m))),
     (''host_pubkey'', JStr (sm_host_pubkey_b64 m)),
     (''viewer_pubkey'', JStr (sm_viewer_pubkey_b64 m)),
     (''codec'', JStr (sm_codec m)),
     (''started_at'', json_u64 (sm_started_at m)),
     (''ended_at'', json_u64 (sm_ended_at m)),
     (''video_frames'', json_u64 (sm_video_frames m)),
     (''total_bytes'', json_u64 (sm_total_bytes m)),
     (''relayed'', JBool (sm_relayed m))]"

definition build_statement :: "(u128 \<Rightarrow> string) \<Rightarrow> session_metadata \<Rightarrow> co_signed_commitment \<Rightarrow> json" where
  "build_statement uuid m C = statement_for uuid m (cc_commitment_b64 C)
     (json_obj (metadata_fields uuid m @
        [(''host_signature'', JStr (cc_host_signature_b64 C)),
         (''viewer_signature'', JStr (cc_viewer_signature_b64 C)),
         (''nonce'', JStr (cc_nonce_b64 C))]))"

definition build_host_statement :: "(u128 \<Rightarrow> string) \<Rightarrow> session_metadata \<Rightarrow> host_only_attestation \<Rightarrow> json" where
  "build_host_statement uuid m C = statement_for uuid m (ho_commitment_b64 C)
     (json_obj ((''signer'', JStr ''host_only'') # metadata_fields uuid m @
        [(''host_signature'', JStr (ho_host_signature_b64 C)),
         (''nonce'', JStr (ho_nonce_b64 C))]))"

record rekor_entry =
  re_log_index :: u64
  re_uuid :: string
  re_log_id :: string
  re_integrated_time :: int

text \<open>
  The exchange: \<open>rk_post url body\<close> is the answer of the server. \<open>rk_to_vec\<close> serializes a
  JSON value, \<open>rk_encode\<close> is base64. A slice of a string at a position that is not a character
  boundary panics, here \<open>RekorPanic\<close>.
\<close>

datatype http_answer =
    HttpFailed
  | HttpStatus nat string
  | HttpBody "json option"

record rekor_ext =
  rk_post :: "string \<Rightarrow> json \<Rightarrow> http_answer"
  rk_to_vec :: "json \<Rightarrow> bytes option"
  rk_encode :: "bytes \<Rightarrow> string"
  rk_sha256 :: "bytes \<Rightarrow> bytes"

datatype rekor_error =
    NotHttps string
  | StatementSerialization
  | PostFailed
  | RekorReturned nat string
  | ResponseParse
  | EmptyMap
  | MissingLogIndex
  | RekorPanic

definition is_char_boundary :: "string \<Rightarrow> nat \<Rightarrow> bool" where
  "is_char_boundary s n \<longleftrightarrow> n = 0 \<or> n = length s \<or> (n < length s \<and> \<not> utf8_cont (of_char (s ! n)))"

definition trim_slashes :: "string \<Rightarrow> string" where
  "trim_slashes s = rev (dropWhile (\<lambda>c. c = CHR ''/'') (rev s))"

fun as_i64 :: "json \<Rightarrow> int option" where
  "as_i64 (JNum (PosInt n)) = (if unat n < 2 ^ 63 then Some (int (unat n)) else None)"
| "as_i64 (JNum (NegInt i)) = Some i"
| "as_i64 _ = None"

definition value_index :: "json \<Rightarrow> string \<Rightarrow> json" where
  "value_index v k = (case value_get v k of Some w \<Rightarrow> w | None \<Rightarrow> JNull)"

definition rekor_body :: "rekor_ext \<Rightarrow> bytes \<Rightarrow> json" where
  "rekor_body K vec = json_obj [
     (''kind'', JStr ''intoto''),
     (''apiVersion'', JStr ''0.0.1''),
     (''spec'', json_obj [(''content'', json_obj [
        (''envelope'', JStr (rk_encode K vec)),
        (''hash'', json_obj [(''algorithm'', JStr ''sha256''), (''value'', JStr (hex_encode (rk_sha256 K vec)))])])])]"

definition rekor_status_error :: "nat \<Rightarrow> string \<Rightarrow> rekor_error" where
  "rekor_status_error status txt =
     (let n = min (length txt) 200
      in if is_char_boundary txt n then RekorReturned status (take n txt) else RekorPanic)"

definition rekor_parse :: "json option \<Rightarrow> rekor_error + rekor_entry" where
  "rekor_parse body =
     (case body of
        Some (JObj []) \<Rightarrow> Err EmptyMap
      | Some (JObj ((uuid, entry) # _)) \<Rightarrow>
          (case as_u64 (value_index entry ''logIndex'') of
             None \<Rightarrow> Err MissingLogIndex
           | Some i \<Rightarrow> Ok
               \<lparr>re_log_index = i, re_uuid = uuid,
                re_log_id = (case as_str (value_index entry ''logID'') of Some s \<Rightarrow> s | None \<Rightarrow> []),
                re_integrated_time = (case as_i64 (value_index entry ''integratedTime'') of Some t \<Rightarrow> t | None \<Rightarrow> 0)\<rparr>)
      | _ \<Rightarrow> Err ResponseParse)"

definition submit_statement :: "rekor_ext \<Rightarrow> string \<Rightarrow> json \<Rightarrow> rekor_error + rekor_entry" where
  "submit_statement K rekor_url statement =
     (if take 8 rekor_url \<noteq> ''https://'' then Err (NotHttps rekor_url)
      else (case rk_to_vec K statement of
              None \<Rightarrow> Err StatementSerialization
            | Some vec \<Rightarrow>
                (case rk_post K (trim_slashes rekor_url @ ''/api/v1/log/entries'') (rekor_body K vec) of
                   HttpFailed \<Rightarrow> Err PostFailed
                 | HttpStatus status txt \<Rightarrow> Err (rekor_status_error status txt)
                 | HttpBody body \<Rightarrow> rekor_parse body)))"

definition submit_to_rekor ::
  "rekor_ext \<Rightarrow> (u128 \<Rightarrow> string) \<Rightarrow> string \<Rightarrow> session_metadata \<Rightarrow> co_signed_commitment \<Rightarrow> rekor_error + rekor_entry" where
  "submit_to_rekor K uuid rekor_url m C = submit_statement K rekor_url (build_statement uuid m C)"

definition submit_host_to_rekor ::
  "rekor_ext \<Rightarrow> (u128 \<Rightarrow> string) \<Rightarrow> string \<Rightarrow> session_metadata \<Rightarrow> host_only_attestation \<Rightarrow> rekor_error + rekor_entry" where
  "submit_host_to_rekor K uuid rekor_url m C = submit_statement K rekor_url (build_host_statement uuid m C)"

definition entry_url :: "string \<Rightarrow> string \<Rightarrow> string" where
  "entry_url rekor_url uuid = trim_slashes rekor_url @ ''/api/v1/log/entries/'' @ uuid"

section \<open>Commitments verify and bind\<close>

lemma check_commitment_iff:
  "check_commitment X n c m = Ok e \<longleftrightarrow>
     (\<exists>nonce js. b64_decode (tx_base64 X) n = Some nonce \<and> length nonce = 32 \<and> tx_to_vec X m = Some js \<and>
        e = tx_sha256 X (js @ nonce) \<and> b64_decode (tx_base64 X) c = Some e)"
  by (auto simp: check_commitment_def commitment_def split: option.splits sum.splits)

lemma decode_own_key:
  assumes "base64_correct (tx_base64 X)" "ed25519_correct (tx_ed25519 X)"
  shows "decode_pubkey X (b64_encode (tx_base64 X) (ed_verifying_key (tx_ed25519 X) sk)) = Ok (ed_verifying_key (tx_ed25519 X) sk)"
  using assms by (simp add: decode_pubkey_def b64_decode_encode ed_verifying_key_length ed_verifying_key_ok)

lemma decode_own_sig:
  assumes "base64_correct (tx_base64 X)" "ed25519_correct (tx_ed25519 X)"
  shows "decode_sig X (b64_encode (tx_base64 X) (ed_sign (tx_ed25519 X) sk m)) = Ok (ed_sign (tx_ed25519 X) sk m)"
  using assms by (simp add: decode_sig_def b64_decode_encode ed_sign_length)

lemma attestation_ok:
  assumes "base64_correct (tx_base64 X)" "ed25519_correct (tx_ed25519 X)" "length nonce = 32"
    and "sm_host_pubkey_b64 m = b64_encode (tx_base64 X) (ed_verifying_key (tx_ed25519 X) hk)"
    and "sm_viewer_pubkey_b64 m = b64_encode (tx_base64 X) (ed_verifying_key (tx_ed25519 X) vk)"
    and "tx_to_vec X m \<noteq> None"
  shows "(\<exists>C. co_signed_new X nonce m hk vk = Ok C \<and> co_signed_verify X C m = Ok ()) \<and>
    (\<exists>C. host_only_new X nonce m hk = Ok C \<and> verify_host X C m = Ok ())"
proof -
  obtain js where js: "tx_to_vec X m = Some js" using assms(6) by blast
  let ?c = "tx_sha256 X (js @ nonce)"
  have chk: "check_commitment X (b64_encode (tx_base64 X) nonce) (b64_encode (tx_base64 X) ?c) m = Ok ?c"
    using js assms(3) by (auto simp: check_commitment_iff b64_decode_encode [OF assms(1)])
  note own = decode_own_key [OF assms(1,2)] decode_own_sig [OF assms(1,2)] ed_verify_sign [OF assms(2)]
  show ?thesis
    using js chk by (simp add: co_signed_new_def host_only_new_def co_signed_verify_def verify_host_def
        commitment_def assms(4,5) own)
qed

text \<open>
  Attestations of a session verify: what the two peers co-sign, and what the host signs alone,
  over metadata that names their keys is accepted by the verifiers, for any nonce of 32 bytes.\<close>

theorem attestation_verifies:
  assumes "base64_correct (tx_base64 X)" "ed25519_correct (tx_ed25519 X)" "length nonce = 32"
    and "sm_host_pubkey_b64 m = b64_encode (tx_base64 X) (ed_verifying_key (tx_ed25519 X) hk)"
    and "sm_viewer_pubkey_b64 m = b64_encode (tx_base64 X) (ed_verifying_key (tx_ed25519 X) vk)"
    and "tx_to_vec X m \<noteq> None"
  shows "(\<exists>C. co_signed_new X nonce m hk vk = Ok C \<and> co_signed_verify X C m = Ok ()) \<and>
    (\<exists>C. host_only_new X nonce m hk = Ok C \<and> verify_host X C m = Ok ())"
  using attestation_ok [OF assms] .

definition wit_transparency :: transparency_ext where
  "wit_transparency = \<lparr>tx_sha256 = wit_h32, tx_to_vec = (\<lambda>m. Some (as_bytes (sm_codec m))),
     tx_base64 = demo_base64, tx_ed25519 = demo_ed25519\<rparr>"

definition wit_metadata :: session_metadata where
  "wit_metadata = \<lparr>sm_session_id = 1,
     sm_host_pubkey_b64 = b64_encode demo_base64 (ed_verifying_key demo_ed25519 [1]),
     sm_viewer_pubkey_b64 = b64_encode demo_base64 (ed_verifying_key demo_ed25519 [2]),
     sm_codec = ''vp9'', sm_started_at = 1, sm_ended_at = 2, sm_video_frames = 3, sm_total_bytes = 4, sm_relayed = False\<rparr>"

theorem attestation_verifies_witness:
  "\<exists>C. co_signed_new wit_transparency (replicate 32 7) wit_metadata [1] [2] = Ok C \<and>
       co_signed_verify wit_transparency C wit_metadata = Ok ()"
  using attestation_verifies [of wit_transparency "replicate 32 7" wit_metadata "[1]" "[2]"]
    demo_base64_correct demo_ed25519_correct
  by (simp add: wit_transparency_def wit_metadata_def)

text \<open>
  A co-signed commitment binds its metadata and its signers: if it verifies for two metadata
  records that the serializer tells apart, then two different inputs to SHA-256 have the same
  digest; and verification means valid strict signatures of both keys named in the metadata over
  the commitment hash.\<close>

theorem commitment_binding:
  assumes "co_signed_verify X C m = Ok ()" "co_signed_verify X C m' = Ok ()" "tx_to_vec X m \<noteq> tx_to_vec X m'"
  shows "(\<exists>js js' nonce. tx_to_vec X m = Some js \<and> tx_to_vec X m' = Some js' \<and>
      b64_decode (tx_base64 X) (cc_nonce_b64 C) = Some nonce \<and>
      js @ nonce \<noteq> js' @ nonce \<and> tx_sha256 X (js @ nonce) = tx_sha256 X (js' @ nonce)) \<and>
    (\<exists>e hp vp hs vs. b64_decode (tx_base64 X) (cc_commitment_b64 C) = Some e \<and>
      decode_pubkey X (sm_host_pubkey_b64 m) = Ok hp \<and> decode_pubkey X (sm_viewer_pubkey_b64 m) = Ok vp \<and>
      decode_sig X (cc_host_signature_b64 C) = Ok hs \<and> decode_sig X (cc_viewer_signature_b64 C) = Ok vs \<and>
      ed_verify_strict (tx_ed25519 X) hp e hs \<and> ed_verify_strict (tx_ed25519 X) vp e vs)"
proof -
  have verified: "\<exists>e hp vp hs vs. check_commitment X (cc_nonce_b64 C) (cc_commitment_b64 C) k = Ok e \<and>
      decode_pubkey X (sm_host_pubkey_b64 k) = Ok hp \<and> decode_pubkey X (sm_viewer_pubkey_b64 k) = Ok vp \<and>
      decode_sig X (cc_host_signature_b64 C) = Ok hs \<and> decode_sig X (cc_viewer_signature_b64 C) = Ok vs \<and>
      ed_verify_strict (tx_ed25519 X) hp e hs \<and> ed_verify_strict (tx_ed25519 X) vp e vs"
    if "co_signed_verify X C k = Ok ()" for k
    using that by (auto simp: co_signed_verify_def split: sum.splits if_splits)
  obtain e e' where "check_commitment X (cc_nonce_b64 C) (cc_commitment_b64 C) m = Ok e"
      "check_commitment X (cc_nonce_b64 C) (cc_commitment_b64 C) m' = Ok e'"
    using verified [OF assms(1)] verified [OF assms(2)] by blast
  then have "\<exists>js js' nonce. tx_to_vec X m = Some js \<and> tx_to_vec X m' = Some js' \<and>
      b64_decode (tx_base64 X) (cc_nonce_b64 C) = Some nonce \<and>
      tx_sha256 X (js @ nonce) = tx_sha256 X (js' @ nonce)"
    by (auto simp: check_commitment_iff)
  with assms(3) have "\<exists>js js' nonce. tx_to_vec X m = Some js \<and> tx_to_vec X m' = Some js' \<and>
      b64_decode (tx_base64 X) (cc_nonce_b64 C) = Some nonce \<and>
      js @ nonce \<noteq> js' @ nonce \<and> tx_sha256 X (js @ nonce) = tx_sha256 X (js' @ nonce)" by auto
  with verified [OF assms(1)] show ?thesis unfolding check_commitment_iff by blast
qed

definition wit_constant_hash :: transparency_ext where
  "wit_constant_hash = wit_transparency\<lparr>tx_sha256 := \<lambda>_. replicate 32 0\<rparr>"

lemma wit_constant_new:
  "co_signed_new wit_constant_hash (replicate 32 7) (wit_metadata\<lparr>sm_codec := c\<rparr>) [1] [2] =
   co_signed_new wit_constant_hash (replicate 32 7) wit_metadata [1] [2]"
  by (simp add: co_signed_new_def commitment_def wit_constant_hash_def wit_transparency_def)

lemma wit_constant_ok:
  "\<exists>C. co_signed_new wit_constant_hash (replicate 32 7) (wit_metadata\<lparr>sm_codec := c\<rparr>) [1] [2] = Ok C \<and>
       co_signed_verify wit_constant_hash C (wit_metadata\<lparr>sm_codec := c\<rparr>) = Ok ()"
  using attestation_ok [of wit_constant_hash "replicate 32 7" "wit_metadata\<lparr>sm_codec := c\<rparr>" "[1]" "[2]"]
    demo_base64_correct demo_ed25519_correct
  by (simp add: wit_constant_hash_def wit_transparency_def wit_metadata_def)

theorem commitment_binding_witness:
  "\<exists>C js js' nonce. co_signed_verify wit_constant_hash C (wit_metadata\<lparr>sm_codec := ''vp9''\<rparr>) = Ok () \<and>
     co_signed_verify wit_constant_hash C (wit_metadata\<lparr>sm_codec := ''av1''\<rparr>) = Ok () \<and> js @ nonce \<noteq> js' @ nonce \<and>
     tx_sha256 wit_constant_hash (js @ nonce) = tx_sha256 wit_constant_hash (js' @ nonce)"
proof -
  obtain C where c: "co_signed_verify wit_constant_hash C (wit_metadata\<lparr>sm_codec := ''vp9''\<rparr>) = Ok ()"
      "co_signed_verify wit_constant_hash C (wit_metadata\<lparr>sm_codec := ''av1''\<rparr>) = Ok ()"
    using wit_constant_ok [of "''vp9''"] wit_constant_ok [of "''av1''"] unfolding wit_constant_new by auto
  have "tx_to_vec wit_constant_hash (wit_metadata\<lparr>sm_codec := ''vp9''\<rparr>) \<noteq>
      tx_to_vec wit_constant_hash (wit_metadata\<lparr>sm_codec := ''av1''\<rparr>)"
    by (simp add: wit_constant_hash_def wit_transparency_def as_bytes_def)
  from commitment_binding [OF c this] c show ?thesis by blast
qed

section \<open>Publication\<close>

text \<open>
  Publication never leaves HTTPS, and its result is an entry only when the server's answer is a
  map whose first entry has a log index; but an error answer whose text has a character across
  byte 200 makes the client panic instead of returning the error.\<close>

theorem rekor_submission:
  "(\<forall>e. submit_statement K url stmt = Ok e \<longrightarrow>
      take 8 url = ''https://'' \<and>
      (\<exists>vec uuid entry rest. rk_to_vec K stmt = Some vec \<and>
         rk_post K (trim_slashes url @ ''/api/v1/log/entries'') (rekor_body K vec) =
           HttpBody (Some (JObj ((uuid, entry) # rest))) \<and>
         re_uuid e = uuid \<and> as_u64 (value_index entry ''logIndex'') = Some (re_log_index e))) \<and>
   (\<forall>vec status txt. take 8 url = ''https://'' \<and> rk_to_vec K stmt = Some vec \<and>
      rk_post K (trim_slashes url @ ''/api/v1/log/entries'') (rekor_body K vec) = HttpStatus status txt \<and>
      200 < length txt \<and> utf8_cont (of_char (txt ! 200)) \<longrightarrow>
      submit_statement K url stmt = Err RekorPanic)"
  by (auto simp: submit_statement_def rekor_parse_def rekor_status_error_def is_char_boundary_def
      split: if_splits option.splits http_answer.splits json.splits list.splits)

definition wit_rekor :: rekor_ext where
  "wit_rekor = \<lparr>rk_post = (\<lambda>_ _. HttpStatus 500 (replicate 199 (CHR ''a'') @ map char_of [0xC3 :: nat, 0xA9])),
     rk_to_vec = (\<lambda>_. Some []), rk_encode = hex_encode, rk_sha256 = wit_h32\<rparr>"

theorem rekor_submission_witness:
  "submit_statement wit_rekor ''https://r'' JNull = Err RekorPanic"
  using rekor_submission [of wit_rekor "''https://r''" JNull]
  by (simp add: wit_rekor_def nth_append utf8_cont_def)

end
