(* ===== verification/Pinning.thy ===== *)
theory Pinning
  imports Prelude
begin

text \<open>
  The contract of stores that pin a key to a name: a step never changes a pin that is set. The laws are
  discharged for the host's access list, the viewer's list of hosts and the fingerprint log.
\<close>

locale pin_store =
  fixes step :: "'s \<Rightarrow> 'a \<Rightarrow> 's" and pin :: "'s \<Rightarrow> 'd \<Rightarrow> 'k option"
  assumes pin_kept: "pin s d = Some k \<Longrightarrow> pin (step s a) d = Some k"
begin

lemma pin_run: "pin s d = Some k \<Longrightarrow> pin (foldl step s as) d = Some k"
  by (induction as arbitrary: s) (auto intro: pin_kept)

lemma pin_first: "pin s d = Some k \<Longrightarrow> pin (foldl step s as) d = Some k' \<Longrightarrow> k' = k"
  using pin_run by fastforce

end

end
