(* ===== verification/Fingerprint_Log.thy ===== *)
theory Fingerprint_Log
  imports Hash_Chain Pinning
begin

text \<open>
  The tamper-evident pin log of peer fingerprints (\<open>miru-auth/src/fingerprint_log.rs\<close>).

  An entry records one connection attempt of a device; the first fingerprint seen for a device is
  pinned. The state is the next sequence number, the hash of the last entry and the pins; the log
  adds the bytes of its file. The JSON codec of an entry and SHA-256 are arguments, and so is what
  the operating system does with a write: all of it succeeds, or it fails after some bytes
  reached the file.
\<close>

section \<open>Definitions\<close>

datatype fingerprint_action = FpPin | FpObserved | FpChanged

record fingerprint_entry =
  fe_seq :: u64
  fe_prev_hash :: string
  fe_timestamp_ms :: u64
  fe_label :: string
  fe_device_id :: string
  fe_fingerprint :: string
  fe_action :: fingerprint_action

record fp_ext =
  fx_sha256 :: "bytes \<Rightarrow> bytes"
  fx_to_string :: "fingerprint_entry \<Rightarrow> string option"
  fx_from_str :: "string \<Rightarrow> fingerprint_entry option"

definition fp_hash :: "fp_ext \<Rightarrow> fingerprint_entry \<Rightarrow> string" where
  "fp_hash X e =
     (let canonical = (case fx_to_string X e of None \<Rightarrow> [] | Some s \<Rightarrow> as_bytes s) in
      hex_encode (fx_sha256 X canonical))"

record fp_state =
  fs_next_seq :: u64
  fs_last_hash :: string
  fs_pinned :: "string \<rightharpoonup> string"

definition fp_default :: fp_state where
  "fp_default = \<lparr>fs_next_seq = 0, fs_last_hash = [], fs_pinned = Map.empty\<rparr>"

datatype fp_error =
    FpIo
  | FpSerialize
  | FpParse nat
  | FpSeqGap nat u64 u64
  | FpChainBroken nat u64

record fp_log =
  fl_file :: string
  fl_state :: fp_state

text \<open>What loading one entry does to the state, after the two chain checks.\<close>

definition fp_advance :: "fp_ext \<Rightarrow> fp_state \<Rightarrow> fingerprint_entry \<Rightarrow> fp_state" where
  "fp_advance X s e =
     \<lparr>fs_next_seq = fe_seq e + 1, fs_last_hash = fp_hash X e,
      fs_pinned = (if fe_action e = FpPin then (fs_pinned s)(fe_device_id e \<mapsto> fe_fingerprint e)
                   else fs_pinned s)\<rparr>"

fun fp_load :: "fp_ext \<Rightarrow> fp_state \<Rightarrow> nat \<Rightarrow> string list \<Rightarrow> fp_error + fp_state" where
  "fp_load X s idx [] = Ok s"
| "fp_load X s idx (line # lines) =
     (if \<not> utf8_valid line then Err FpIo
      else if is_blank line then fp_load X s (idx + 1) lines
      else (case fx_from_str X line of
        None \<Rightarrow> Err (FpParse (idx + 1))
      | Some e \<Rightarrow>
          if fe_seq e \<noteq> fs_next_seq s then Err (FpSeqGap (idx + 1) (fs_next_seq s) (fe_seq e))
          else if fe_prev_hash e \<noteq> fs_last_hash s then Err (FpChainBroken (idx + 1) (fe_seq e))
          else fp_load X (fp_advance X s e) (idx + 1) lines))"

text \<open>\<open>FingerprintLog::open\<close>; \<open>None\<close> is a path that does not exist yet.\<close>

definition fp_open :: "fp_ext \<Rightarrow> string option \<Rightarrow> fp_error + fp_log" where
  "fp_open X path =
     (case path of
        None \<Rightarrow> Ok \<lparr>fl_file = [], fl_state = fp_default\<rparr>
      | Some content \<Rightarrow>
          map_sum id (\<lambda>s. \<lparr>fl_file = content, fl_state = s\<rparr>)
            (fp_load X fp_default 0 (file_lines content)))"

datatype fingerprint_check_result = FirstSeen | FpMatch | FpMismatch string string

datatype fp_io = FpDone | FpFail nat

definition fp_decide :: "fp_state \<Rightarrow> string \<Rightarrow> string \<Rightarrow> fingerprint_action \<times> fingerprint_check_result" where
  "fp_decide s device_id fingerprint =
     (case fs_pinned s device_id of
        None \<Rightarrow> (FpPin, FirstSeen)
      | Some pinned \<Rightarrow>
          if pinned = fingerprint then (FpObserved, FpMatch)
          else (FpChanged, FpMismatch pinned fingerprint))"

definition fp_entry_for :: "fp_state \<Rightarrow> u64 \<Rightarrow> string \<Rightarrow> string \<Rightarrow> string \<Rightarrow> fingerprint_entry" where
  "fp_entry_for s now label device_id fingerprint =
     \<lparr>fe_seq = fs_next_seq s, fe_prev_hash = fs_last_hash s, fe_timestamp_ms = now, fe_label = label,
      fe_device_id = device_id, fe_fingerprint = fingerprint,
      fe_action = fst (fp_decide s device_id fingerprint)\<rparr>"

definition check_or_pin ::
  "fp_ext \<Rightarrow> fp_log \<Rightarrow> u64 \<Rightarrow> fp_io \<Rightarrow> string \<Rightarrow> string \<Rightarrow> string \<Rightarrow>
   (fp_error + fingerprint_check_result) \<times> fp_log" where
  "check_or_pin X L now io label device_id fingerprint =
     (let s = fl_state L;
          (action, result) = fp_decide s device_id fingerprint;
          entry = fp_entry_for s now label device_id fingerprint;
          entry_hash = fp_hash X entry
      in case fx_to_string X entry of
        None \<Rightarrow> (Err FpSerialize, L)
      | Some line \<Rightarrow>
          (case io of
             FpFail k \<Rightarrow> (Err FpIo, L\<lparr>fl_file := fl_file L @ take k (log_line line)\<rparr>)
           | FpDone \<Rightarrow>
               (Ok result,
                \<lparr>fl_file = fl_file L @ log_line line,
                 fl_state = \<lparr>fs_next_seq = fs_next_seq s + 1, fs_last_hash = entry_hash,
                   fs_pinned = (if action = FpPin then (fs_pinned s)(device_id \<mapsto> fingerprint)
                                else fs_pinned s)\<rparr>\<rparr>)))"

definition fp_len :: "fp_log \<Rightarrow> u64" where
  "fp_len L = fs_next_seq (fl_state L)"

definition fp_is_empty :: "fp_log \<Rightarrow> bool" where
  "fp_is_empty L \<longleftrightarrow> fp_len L = 0"

section \<open>Chain of the log\<close>

text \<open>Loading a list of entries, and the pin log as an instance of the hash-chain contract.\<close>

fun fp_entries :: "fp_ext \<Rightarrow> fp_state \<Rightarrow> fingerprint_entry list \<Rightarrow> fp_state option" where
  "fp_entries X s [] = Some s"
| "fp_entries X s (e # es) =
     (if fe_seq e = fs_next_seq s \<and> fe_prev_hash e = fs_last_hash s
      then fp_entries X (fp_advance X s e) es else None)"

definition fp_replay :: "fp_ext \<Rightarrow> string \<Rightarrow> u64 \<Rightarrow> fingerprint_entry list \<Rightarrow> (string \<times> u64) option" where
  "fp_replay X h n es =
     map_option (\<lambda>s. (fs_last_hash s, fs_next_seq s))
       (fp_entries X \<lparr>fs_next_seq = n, fs_last_hash = h, fs_pinned = Map.empty\<rparr> es)"

lemma fp_entries_pins:
  assumes "fs_next_seq s = fs_next_seq t" "fs_last_hash s = fs_last_hash t"
  shows "map_option (\<lambda>s. (fs_last_hash s, fs_next_seq s)) (fp_entries X s es) =
         map_option (\<lambda>s. (fs_last_hash s, fs_next_seq s)) (fp_entries X t es)"
  using assms
proof (induction es arbitrary: s t)
  case (Cons e es)
  then show ?case by (simp add: Cons.IH [of "fp_advance X s e" "fp_advance X t e"] fp_advance_def)
qed simp

interpretation fpc: hash_chain fe_seq fe_prev_hash "\<lambda>e. Some (fp_hash X e)" "fp_replay X"
proof
  show "fp_replay X h n (e # es) =
    (if fe_seq e = n \<and> fe_prev_hash e = h
     then (case Some (fp_hash X e) of None \<Rightarrow> None | Some h' \<Rightarrow> fp_replay X h' (n + 1) es) else None)" for h n e es
    unfolding fp_replay_def
    by (auto simp: fp_advance_def intro: fp_entries_pins)
qed (simp add: fp_replay_def)

lemma fp_load_parse:
  "fp_load X s idx ls = Ok t \<longleftrightarrow>
     (\<exists>es. parse_lines (fx_from_str X) ls = Some es \<and> fp_entries X s es = Some t)"
  by (induction X s idx ls rule: fp_load.induct) (auto split: option.splits)

lemma fp_entries_append:
  "fp_entries X s (es @ fs) = (case fp_entries X s es of None \<Rightarrow> None | Some t \<Rightarrow> fp_entries X t fs)"
  by (induction X s es rule: fp_entries.induct) auto

text \<open>Two logs of equal length with the same tip hold the same entries, or SHA-256 collides.\<close>

lemma fp_tamper_evident:
  assumes "fp_entries X fp_default es = Some s" "fp_entries X fp_default fs = Some t"
    and "fs_last_hash s = fs_last_hash t" "length es = length fs"
  shows "es = fs \<or> (\<exists>i < length es. es ! i \<noteq> fs ! i \<and> fp_hash X (es ! i) = fp_hash X (fs ! i))"
  using fpc.replay_tip_unique [of X "[]" 0 es "fs_last_hash s" "fs_next_seq s" fs "fs_next_seq t"] assms
  by (simp add: fp_replay_def fp_default_def)

section \<open>Trust on first use\<close>

text \<open>
  A sequence of checks whose writes succeed, the entries it writes, and the specification: the
  answer for a device is decided by the first fingerprint ever presented for it.
\<close>

type_synonym fp_request = "u64 \<times> string \<times> string \<times> string"

fun fp_run :: "fp_ext \<Rightarrow> fp_log \<Rightarrow> fp_request list \<Rightarrow> (fp_error + fingerprint_check_result) list \<times> fp_log" where
  "fp_run X L [] = ([], L)"
| "fp_run X L ((now, label, dev, fpr) # rs) =
     (let (r, L') = check_or_pin X L now FpDone label dev fpr; (qs, L'') = fp_run X L' rs in (r # qs, L''))"

fun fp_run_entries :: "fp_ext \<Rightarrow> fp_state \<Rightarrow> fp_request list \<Rightarrow> fingerprint_entry list" where
  "fp_run_entries X s [] = []"
| "fp_run_entries X s ((now, label, dev, fpr) # rs) =
     (let e = fp_entry_for s now label dev fpr in e # fp_run_entries X (fp_advance X s e) rs)"

definition tofu_answer :: "(string \<times> string) list \<Rightarrow> string \<Rightarrow> string \<Rightarrow> fingerprint_check_result" where
  "tofu_answer seen dev fpr =
     (case map_of seen dev of
        None \<Rightarrow> FirstSeen
      | Some first \<Rightarrow> if first = fpr then FpMatch else FpMismatch first fpr)"

definition fp_codec_ok :: "fp_ext \<Rightarrow> fingerprint_entry \<Rightarrow> bool" where
  "fp_codec_ok X = line_codec_ok (fx_to_string X) (fx_from_str X)"

definition fp_inv :: "fp_ext \<Rightarrow> fp_log \<Rightarrow> bool" where
  "fp_inv X L \<longleftrightarrow> complete_lines (fl_file L) \<and>
     fp_load X fp_default 0 (file_lines (fl_file L)) = Ok (fl_state L)"

lemma check_or_pin_done:
  assumes "fp_codec_ok X (fp_entry_for (fl_state L) now label dev fpr)" "fp_inv X L"
  obtains L' where "check_or_pin X L now FpDone label dev fpr = (Ok (snd (fp_decide (fl_state L) dev fpr)), L')"
    "fl_state L' = fp_advance X (fl_state L) (fp_entry_for (fl_state L) now label dev fpr)" "fp_inv X L'"
proof -
  let ?e = "fp_entry_for (fl_state L) now label dev fpr"
  obtain l where l: "fx_to_string X ?e = Some l" "fx_from_str X l = Some ?e" "CHR 0x0A \<notin> set l"
      "utf8_valid l" "\<not> is_blank l" "last l \<noteq> CHR 0x0D" "l \<noteq> []"
    using line_codecD assms(1) unfolding fp_codec_ok_def by metis
  let ?L = "\<lparr>fl_file = fl_file L @ log_line l, fl_state = fp_advance X (fl_state L) ?e\<rparr>"
  have run: "check_or_pin X L now FpDone label dev fpr = (Ok (snd (fp_decide (fl_state L) dev fpr)), ?L)"
    using l(1) by (auto simp: check_or_pin_def Let_def fp_advance_def fp_entry_for_def split: prod.split)
  obtain es where es: "parse_lines (fx_from_str X) (file_lines (fl_file L)) = Some es"
      "fp_entries X fp_default es = Some (fl_state L)" and c: "complete_lines (fl_file L)"
    using assms(2) by (auto simp: fp_inv_def fp_load_parse)
  have "parse_lines (fx_from_str X) (file_lines (fl_file L @ log_line l)) = Some (es @ [?e])"
    using es(1) l by (simp add: file_lines_append_line [OF c l(3,7,6)] parse_lines_append)
  moreover have "fp_entries X fp_default (es @ [?e]) = Some (fl_state ?L)"
    using es(2) by (simp add: fp_entries_append fp_entry_for_def)
  ultimately have "fp_inv X ?L" by (auto simp: fp_inv_def fp_load_parse complete_lines_append)
  with run that show thesis by simp
qed

lemma fp_decide_pins:
  assumes "fs_pinned s = map_of seen"
  shows "snd (fp_decide s dev fpr) = tofu_answer seen dev fpr"
    and "fs_pinned (fp_advance X s (fp_entry_for s now label dev fpr)) = map_of (seen @ [(dev, fpr)])"
  using assms
  by (auto simp: fp_decide_def tofu_answer_def fp_advance_def fp_entry_for_def map_add_def fun_eq_iff
      split: option.splits)

fun tofu_answers :: "(string \<times> string) list \<Rightarrow> fp_request list \<Rightarrow> fingerprint_check_result list" where
  "tofu_answers seen [] = []"
| "tofu_answers seen ((now, label, dev, fpr) # rs) =
     tofu_answer seen dev fpr # tofu_answers (seen @ [(dev, fpr)]) rs"

lemma fp_run_tofu:
  assumes "fp_inv X L" "fs_pinned (fl_state L) = map_of seen"
    and "list_all (fp_codec_ok X) (fp_run_entries X (fl_state L) rs)"
  shows "fst (fp_run X L rs) = map Inr (tofu_answers seen rs) \<and> fp_inv X (snd (fp_run X L rs))"
  using assms
proof (induction rs arbitrary: L seen)
  case (Cons r rs)
  obtain now label dev fpr where r: "r = (now, label, dev, fpr)" by (cases r)
  have ok: "fp_codec_ok X (fp_entry_for (fl_state L) now label dev fpr)"
    using Cons.prems(3) by (simp add: r Let_def)
  from check_or_pin_done [OF this Cons.prems(1)] obtain L' where
    L': "check_or_pin X L now FpDone label dev fpr = (Ok (snd (fp_decide (fl_state L) dev fpr)), L')"
      "fl_state L' = fp_advance X (fl_state L) (fp_entry_for (fl_state L) now label dev fpr)" "fp_inv X L'" .
  have "fs_pinned (fl_state L') = map_of (seen @ [(dev, fpr)])"
    unfolding L'(2) by (rule fp_decide_pins(2) [OF Cons.prems(2)])
  moreover have "list_all (fp_codec_ok X) (fp_run_entries X (fl_state L') rs)"
    using Cons.prems(3) by (simp add: r Let_def L'(2))
  ultimately have "fst (fp_run X L' rs) = map Inr (tofu_answers (seen @ [(dev, fpr)]) rs) \<and> fp_inv X (snd (fp_run X L' rs))"
    by (intro Cons.IH L'(3))
  then show ?case
    using fp_decide_pins(1) [OF Cons.prems(2)] by (auto simp: r L'(1) Let_def split: prod.split)
qed simp

text \<open>
  Trust on first use. In every sequence of recorded checks on a new log, the answer for a device
  is decided by the first fingerprint ever presented for it: first seen, match, or mismatch with
  that first fingerprint, so a changed fingerprint is reported each time and never becomes the pin.
  Reopening the file restores exactly the state that was in memory.\<close>

theorem fingerprint_tofu:
  assumes "list_all (fp_codec_ok X) (fp_run_entries X fp_default rs)"
    and "fp_open X None = Ok L"
  shows "fst (fp_run X L rs) = map Inr (tofu_answers [] rs) \<and>
    fp_open X (Some (fl_file (snd (fp_run X L rs)))) = Ok (snd (fp_run X L rs))"
proof -
  have L: "L = \<lparr>fl_file = [], fl_state = fp_default\<rparr>" using assms(2) by (simp add: fp_open_def)
  have "fst (fp_run X L rs) = map Inr (tofu_answers [] rs) \<and> fp_inv X (snd (fp_run X L rs))"
    using assms(1) by (intro fp_run_tofu)
      (simp_all add: L fp_inv_def complete_lines_def file_lines_def fp_default_def)
  then show ?thesis by (simp add: fp_inv_def fp_open_def)
qed

interpretation fpp: pin_store
  "\<lambda>L (now, io, label, dev, fpr). snd (check_or_pin X L now io label dev fpr)" "\<lambda>L. fs_pinned (fl_state L)" for X
  by unfold_locales
     (auto simp: check_or_pin_def fp_decide_def Let_def split: option.splits fp_io.splits prod.splits if_splits)

definition wit_fp_requests :: "fp_request list" where
  "wit_fp_requests = [(10, ''laptop'', ''D1'', ''AA''), (20, ''laptop'', ''D1'', ''BB''), (30, ''laptop'', ''D1'', ''AA'')]"

definition wit_fp_entry :: "u64 \<Rightarrow> string \<Rightarrow> u64 \<Rightarrow> string \<Rightarrow> fingerprint_action \<Rightarrow> fingerprint_entry" where
  "wit_fp_entry n prev now fpr action = \<lparr>fe_seq = n, fe_prev_hash = prev, fe_timestamp_ms = now, fe_label = ''laptop'',
     fe_device_id = ''D1'', fe_fingerprint = fpr, fe_action = action\<rparr>"

definition wit_fp_ext :: fp_ext where
  "wit_fp_ext = \<lparr>fx_sha256 = (\<lambda>bs. bs),
     fx_to_string = (\<lambda>e. Some (if fe_seq e = 0 then ''a'' else if fe_seq e = 1 then ''b'' else ''c'')),
     fx_from_str = (\<lambda>s. if s = ''a'' then Some (wit_fp_entry 0 [] 10 ''AA'' FpPin)
       else if s = ''b'' then Some (wit_fp_entry 1 (hex_encode (as_bytes ''a'')) 20 ''BB'' FpChanged)
       else if s = ''c'' then Some (wit_fp_entry 2 (hex_encode (as_bytes ''b'')) 30 ''AA'' FpObserved) else None)\<rparr>"

lemma wit_fp_codec: "list_all (fp_codec_ok wit_fp_ext) (fp_run_entries wit_fp_ext fp_default wit_fp_requests)"
  by (simp add: wit_fp_requests_def wit_fp_ext_def wit_fp_entry_def fp_default_def fp_entry_for_def fp_decide_def
      fp_advance_def fp_hash_def fp_codec_ok_def line_codec_ok_def utf8_valid_def is_blank_def Let_def)

theorem fingerprint_tofu_witness:
  "\<exists>L. fp_open wit_fp_ext None = Ok L \<and>
     fst (fp_run wit_fp_ext L wit_fp_requests) = [Ok FirstSeen, Ok (FpMismatch ''AA'' ''BB''), Ok FpMatch] \<and>
     fp_open wit_fp_ext (Some (fl_file (snd (fp_run wit_fp_ext L wit_fp_requests)))) = Ok (snd (fp_run wit_fp_ext L wit_fp_requests))"
proof -
  obtain L where L: "fp_open wit_fp_ext None = Ok L" by (simp add: fp_open_def)
  have "map Inr (tofu_answers [] wit_fp_requests) = [Ok FirstSeen, Ok (FpMismatch ''AA'' ''BB''), (Ok FpMatch :: fp_error + _)]"
    by (simp add: wit_fp_requests_def tofu_answer_def)
  with L fingerprint_tofu [OF wit_fp_codec L] show ?thesis by (intro exI [of _ L]) simp
qed

end
