(* ===== verification/Acl.thy ===== *)
theory Acl
  imports Externals Pinning
begin

text \<open>
  Device identity, trust on first use and the access-control list (\<open>miru-auth/src/lib.rs\<close>), and
  the host's admission check \<open>check_or_pair\<close> (\<open>miru-host/src/session.rs\<close>).

  The list is a map from device ids to trusted peers. Its file is replaced by writing a temporary
  file and renaming it; the argument of type \<open>acl_io\<close> says at which step the operating system fails.
  The JSON codec of the list, Ed25519, SHA-256, base64 and PBKDF2 are arguments.
\<close>

section \<open>Device identity\<close>

record device_identity =
  di_signing_key :: bytes
  di_verifying_key :: bytes

text \<open>\<open>DeviceIdentity::generate\<close>, from 32 random bytes.\<close>

definition generate_identity :: "ed25519 \<Rightarrow> bytes \<Rightarrow> device_identity" where
  "generate_identity E seed = \<lparr>di_signing_key = seed, di_verifying_key = ed_verifying_key E seed\<rparr>"

datatype identity_error = InvalidIdentityFile | IdentityIo

text \<open>
  \<open>load_or_create\<close> on the content of the path (\<open>None\<close>: no such file): the identity and the new
  content. \<open>io\<close> says what reading, or creating and writing, the file does.
\<close>

datatype identity_io = IdDone | IdReadFail | IdCreateFail | IdWriteFail nat

definition load_or_create ::
  "ed25519 \<Rightarrow> bytes \<Rightarrow> identity_io \<Rightarrow> bytes option \<Rightarrow> (identity_error + device_identity) \<times> bytes option" where
  "load_or_create E seed io path =
     (case path of
        Some bs \<Rightarrow>
          (if io = IdReadFail then (Err IdentityIo, path)
           else if length bs \<noteq> 32 then (Err InvalidIdentityFile, path)
           else (Ok \<lparr>di_signing_key = bs, di_verifying_key = ed_verifying_key E bs\<rparr>, path))
      | None \<Rightarrow>
          (let ident = generate_identity E seed in
           case io of
             IdCreateFail \<Rightarrow> (Err IdentityIo, None)
           | IdWriteFail k \<Rightarrow> (Err IdentityIo, Some (take k (di_signing_key ident)))
           | _ \<Rightarrow> (Ok ident, Some (di_signing_key ident))))"

definition pubkey_b64 :: "base64 \<Rightarrow> device_identity \<Rightarrow> string" where
  "pubkey_b64 B d = b64_encode B (di_verifying_key d)"

definition hex_byte_upper :: "byte \<Rightarrow> string" where
  "hex_byte_upper b = map to_ascii_upper (hex_byte b)"

definition pubkey_fingerprint :: "(bytes \<Rightarrow> bytes) \<Rightarrow> bytes \<Rightarrow> string" where
  "pubkey_fingerprint sha256 pk = join_with '':'' (map hex_byte_upper (take 8 (sha256 pk)))"

text \<open>\<open>DeviceIdentity::verify\<close>.\<close>

definition identity_verify :: "ed25519 \<Rightarrow> bytes \<Rightarrow> bytes \<Rightarrow> bytes \<Rightarrow> bool" where
  "identity_verify E pubkey m sig =
     (if \<not> ed_key_ok E pubkey then False else ed_verify_strict E pubkey m sig)"

text \<open>\<open>generate_pin\<close> formats a number drawn below one million with six digits.\<close>

definition generate_pin :: "nat \<Rightarrow> string" where
  "generate_pin draw = (let s = show_nat draw in replicate (6 - length s) (CHR ''0'') @ s)"

definition PBKDF2_ITERATIONS :: nat where
  "PBKDF2_ITERATIONS = 100000"

definition pin_to_key :: "(nat \<Rightarrow> bytes \<Rightarrow> bytes \<Rightarrow> bytes) \<Rightarrow> string \<Rightarrow> string \<Rightarrow> bytes \<Rightarrow> bytes" where
  "pin_to_key pbkdf2 pin device_id nonce =
     (let salt = as_bytes device_id @ nonce in pbkdf2 PBKDF2_ITERATIONS salt (as_bytes pin))"

section \<open>The access-control list\<close>

datatype permission = ViewOnly | Control | FullAccess

record trusted_peer =
  tp_device_id :: string
  tp_pubkey_b64 :: string
  tp_fingerprint :: string
  tp_permission :: permission
  tp_first_seen :: u64
  tp_last_seen :: u64
  tp_friendly_name :: "string option"

type_synonym acl_store = "string \<rightharpoonup> trusted_peer"

datatype trust_decision = Trusted permission | Unknown | PubkeyMismatch

record acl_codec =
  acl_to_json :: "acl_store \<Rightarrow> bytes option"
  acl_from_json :: "bytes \<Rightarrow> acl_store option"

record acl_files =
  af_main :: "bytes option"
  af_tmp :: "bytes option"
  af_bak :: "bytes option"

text \<open>
  \<open>AclStore::load\<close>: a corrupt file is copied to the backup and an empty list is returned. \<open>None\<close> is a
  read error (\<open>read_ok\<close> false); the error of the copy is ignored by the code (\<open>copy_ok\<close>).
\<close>

definition acl_load :: "acl_codec \<Rightarrow> bool \<Rightarrow> bool \<Rightarrow> acl_files \<Rightarrow> acl_store option \<times> acl_files" where
  "acl_load J read_ok copy_ok F =
     (case af_main F of
        None \<Rightarrow> (Some Map.empty, F)
      | Some bs \<Rightarrow>
          (if \<not> read_ok then (None, F)
           else (case acl_from_json J bs of
             Some store \<Rightarrow> (Some store, F)
           | None \<Rightarrow> (Some Map.empty, if copy_ok then F\<lparr>af_bak := Some bs\<rparr> else F))))"

datatype acl_io = AclDone | AclDirFail | AclTmpFail bool | AclWriteFail nat | AclRenameFail

definition acl_save :: "acl_codec \<Rightarrow> acl_io \<Rightarrow> acl_store \<Rightarrow> acl_files \<Rightarrow> bool \<times> acl_files" where
  "acl_save J io acl F =
     (if io = AclDirFail then (False, F)
      else (case acl_to_json J acl of
        None \<Rightarrow> (False, F)
      | Some js \<Rightarrow>
          (case io of
             AclTmpFail removed \<Rightarrow> (False, if removed then F\<lparr>af_tmp := None\<rparr> else F)
           | AclWriteFail k \<Rightarrow> (False, F\<lparr>af_tmp := Some (take k js)\<rparr>)
           | AclRenameFail \<Rightarrow> (False, F\<lparr>af_tmp := Some js\<rparr>)
           | _ \<Rightarrow> (True, F\<lparr>af_main := Some js, af_tmp := None\<rparr>))))"

definition acl_check :: "acl_store \<Rightarrow> string \<Rightarrow> string \<Rightarrow> trust_decision" where
  "acl_check acl device_id pubkey =
     (case acl device_id of
        None \<Rightarrow> Unknown
      | Some peer \<Rightarrow> if tp_pubkey_b64 peer = pubkey then Trusted (tp_permission peer) else PubkeyMismatch)"

definition acl_trust :: "acl_store \<Rightarrow> trusted_peer \<Rightarrow> acl_store" where
  "acl_trust acl peer = acl(tp_device_id peer \<mapsto> peer)"

definition acl_touch :: "acl_store \<Rightarrow> string \<Rightarrow> u64 \<Rightarrow> acl_store" where
  "acl_touch acl device_id now =
     (case acl device_id of
        None \<Rightarrow> acl
      | Some peer \<Rightarrow> acl(device_id \<mapsto> peer\<lparr>tp_last_seen := now\<rparr>))"

definition acl_revoke :: "acl_store \<Rightarrow> string \<Rightarrow> bool \<times> acl_store" where
  "acl_revoke acl device_id = (acl device_id \<noteq> None, acl(device_id := None))"

section \<open>Admission of a peer\<close>

record host_acl =
  ha_acl :: acl_store
  ha_files :: acl_files

datatype pair_error = UnknownRejected string | MismatchRejected string

text \<open>\<open>check_or_pair\<close>; the result of saving is ignored by the code. \<open>now\<close> is \<open>now_unix()\<close>.\<close>

definition check_or_pair ::
  "acl_codec \<Rightarrow> base64 \<Rightarrow> (bytes \<Rightarrow> bytes) \<Rightarrow> bool \<Rightarrow> u64 \<Rightarrow> acl_io \<Rightarrow> host_acl \<Rightarrow> string \<Rightarrow> bytes \<Rightarrow>
   (pair_error + permission) \<times> host_acl" where
  "check_or_pair J B sha256 require_confirm now io H device_str pubkey =
     (let key = b64_encode B pubkey; acl = ha_acl H in
      case acl_check acl device_str key of
        Trusted p \<Rightarrow>
          (let acl' = acl_touch acl device_str now in
           (Ok p, \<lparr>ha_acl = acl', ha_files = snd (acl_save J io acl' (ha_files H))\<rparr>))
      | Unknown \<Rightarrow>
          (let fp = pubkey_fingerprint sha256 pubkey in
           if require_confirm then (Err (UnknownRejected device_str), H)
           else
             (let acl' = acl_trust acl \<lparr>tp_device_id = device_str, tp_pubkey_b64 = key, tp_fingerprint = fp,
                   tp_permission = Control, tp_first_seen = now, tp_last_seen = now, tp_friendly_name = None\<rparr>
              in (Ok Control, \<lparr>ha_acl = acl', ha_files = snd (acl_save J io acl' (ha_files H))\<rparr>)))
      | PubkeyMismatch \<Rightarrow> (Err (MismatchRejected device_str), H))"

text \<open>\<open>handle_session\<close> passes the base64 of the verified key as the device name.\<close>

definition admit_peer ::
  "acl_codec \<Rightarrow> base64 \<Rightarrow> (bytes \<Rightarrow> bytes) \<Rightarrow> bool \<Rightarrow> u64 \<Rightarrow> acl_io \<Rightarrow> host_acl \<Rightarrow> bytes \<Rightarrow>
   (pair_error + permission) \<times> host_acl" where
  "admit_peer J B sha256 require_confirm now io H pubkey =
     (let device_str = b64_encode B pubkey in check_or_pair J B sha256 require_confirm now io H device_str pubkey)"

text \<open>The list a starting host uses: a file that cannot be read or parsed counts as empty.\<close>

definition start_acl :: "acl_codec \<Rightarrow> bool \<Rightarrow> bool \<Rightarrow> acl_files \<Rightarrow> host_acl" where
  "start_acl J read_ok copy_ok F =
     (case acl_load J read_ok copy_ok F of
        (None, F') \<Rightarrow> \<lparr>ha_acl = Map.empty, ha_files = F'\<rparr>
      | (Some acl, F') \<Rightarrow> \<lparr>ha_acl = acl, ha_files = F'\<rparr>)"

section \<open>Lemmas\<close>

definition self_named :: "acl_store \<Rightarrow> bool" where
  "self_named acl \<longleftrightarrow> (\<forall>d p. acl d = Some p \<longrightarrow> tp_pubkey_b64 p = d)"

definition acl_codec_ok :: "acl_codec \<Rightarrow> acl_store \<Rightarrow> bool" where
  "acl_codec_ok J acl \<longleftrightarrow> (case acl_to_json J acl of None \<Rightarrow> False | Some js \<Rightarrow> acl_from_json J js = Some acl)"

lemma self_named_empty [simp]: "self_named Map.empty"
  by (simp add: self_named_def)

lemma identity_round_trip:
  assumes "length seed = 32" "load_or_create E seed IdDone None = (Ok d, path)"
  shows "load_or_create E seed' IdDone path = (Ok d, path)"
  using assms by (auto simp: load_or_create_def generate_identity_def Let_def)

lemma partial_identity_rejected:
  assumes "k < 32" "length seed = 32" "load_or_create E seed (IdWriteFail k) None = (r, path)"
  shows "fst (load_or_create E seed' IdDone path) = Err InvalidIdentityFile"
  using assms by (auto simp: load_or_create_def generate_identity_def Let_def)

lemma join_with_length:
  "xs \<noteq> [] \<Longrightarrow> list_all (\<lambda>x. length x = k) xs \<Longrightarrow>
   length (join_with sep xs) = length xs * k + (length xs - 1) * length sep"
  by (induction sep xs rule: join_with.induct) (auto simp: algebra_simps)

lemma fingerprint_length:
  assumes "length (sha256 pk) = 32"
  shows "length (pubkey_fingerprint sha256 pk) = 23"
proof -
  have "take 8 (sha256 pk) \<noteq> []" "length (take 8 (sha256 pk)) = 8" using assms by auto
  then show ?thesis
    using join_with_length [of "map hex_byte_upper (take 8 (sha256 pk))" 2 "'':''"]
    by (simp add: pubkey_fingerprint_def list_all_iff hex_byte_upper_def hex_byte_def)
qed

lemma acl_save_main:
  "af_main (snd (acl_save J io acl F)) = af_main F \<or> af_main (snd (acl_save J io acl F)) = acl_to_json J acl"
  "acl_codec_ok J acl \<Longrightarrow> af_main (snd (acl_save J AclDone acl F)) = acl_to_json J acl"
  by (auto simp: acl_save_def acl_codec_ok_def split: option.splits acl_io.splits)

lemma check_or_pair_cases:
  obtains (trusted) p where "ha_acl H d = Some p" "tp_pubkey_b64 p = b64_encode B pk"
      "check_or_pair J B sha strict now io H d pk =
        (Ok (tp_permission p), \<lparr>ha_acl = (ha_acl H)(d \<mapsto> p\<lparr>tp_last_seen := now\<rparr>),
           ha_files = snd (acl_save J io ((ha_acl H)(d \<mapsto> p\<lparr>tp_last_seen := now\<rparr>)) (ha_files H))\<rparr>)"
    | (rejected) "ha_acl H d = None" "strict" "check_or_pair J B sha strict now io H d pk = (Err (UnknownRejected d), H)"
    | (paired) p where "ha_acl H d = None" "\<not> strict" "tp_pubkey_b64 p = b64_encode B pk" "tp_permission p = Control"
      "check_or_pair J B sha strict now io H d pk =
        (Ok Control, \<lparr>ha_acl = (ha_acl H)(d \<mapsto> p), ha_files = snd (acl_save J io ((ha_acl H)(d \<mapsto> p)) (ha_files H))\<rparr>)"
    | (mismatch) p where "ha_acl H d = Some p" "tp_pubkey_b64 p \<noteq> b64_encode B pk"
      "check_or_pair J B sha strict now io H d pk = (Err (MismatchRejected d), H)"
proof (cases "ha_acl H d")
  case None
  then show thesis
    using rejected paired [of "\<lparr>tp_device_id = d, tp_pubkey_b64 = b64_encode B pk, tp_fingerprint = pubkey_fingerprint sha pk,
        tp_permission = Control, tp_first_seen = now, tp_last_seen = now, tp_friendly_name = None\<rparr>"]
    by (cases strict) (auto simp: check_or_pair_def acl_check_def acl_trust_def Let_def)
next
  case (Some p)
  then show thesis
    using trusted [of p] mismatch [of p]
    by (cases "tp_pubkey_b64 p = b64_encode B pk") (auto simp: check_or_pair_def acl_check_def acl_touch_def Let_def)
qed

lemma admit_peer_self_named:
  assumes "self_named (ha_acl H)"
  shows "self_named (ha_acl (snd (admit_peer J B sha strict now io H pk)))"
    and "fst (admit_peer J B sha strict now io H pk) \<noteq> Err (MismatchRejected d)"
  using assms unfolding admit_peer_def Let_def
  by (cases rule: check_or_pair_cases [where H = H and d = "b64_encode B pk" and B = B and pk = pk and J = J
        and sha = sha and strict = strict and now = now and io = io];
      auto simp: self_named_def split: if_splits)+

definition pinned_key :: "host_acl \<Rightarrow> string \<Rightarrow> string option" where
  "pinned_key H d = map_option tp_pubkey_b64 (ha_acl H d)"

interpretation hap: pin_store
  "\<lambda>H (strict, now, io, d, pk). snd (check_or_pair J B sha strict now io H d pk)" pinned_key for J B sha
proof unfold_locales
  fix H :: host_acl and d k and a :: "bool \<times> u64 \<times> acl_io \<times> string \<times> bytes"
  assume pin: "pinned_key H d = Some k"
  obtain strict now io d' pk where a: "a = (strict, now, io, d', pk)" by (metis prod_cases5)
  from pin show "pinned_key (case a of (strict, now, io, d, pk) \<Rightarrow> snd (check_or_pair J B sha strict now io H d pk)) d = Some k"
    unfolding a by (cases rule: check_or_pair_cases [where H = H and d = d' and B = B and pk = pk and J = J
        and sha = sha and strict = strict and now = now and io = io]) (auto simp: pinned_key_def)
qed

section \<open>Properties\<close>

text \<open>A host's life: admissions in a row, each with its own clock and file-system behaviour.\<close>

type_synonym admission = "bool \<times> u64 \<times> acl_io \<times> bytes"

fun admit_run ::
  "acl_codec \<Rightarrow> base64 \<Rightarrow> (bytes \<Rightarrow> bytes) \<Rightarrow> host_acl \<Rightarrow> admission list \<Rightarrow> (pair_error + permission) list \<times> host_acl" where
  "admit_run J B sha H [] = ([], H)"
| "admit_run J B sha H ((strict, now, io, pk) # as) =
     (let (r, H') = admit_peer J B sha strict now io H pk; (rs, H'') = admit_run J B sha H' as in (r # rs, H''))"

lemma admit_run_self_named:
  "self_named (ha_acl H) \<Longrightarrow> self_named (ha_acl (snd (admit_run J B sha H as))) \<and>
     list_all (\<lambda>r. \<forall>d. r \<noteq> Err (MismatchRejected d)) (fst (admit_run J B sha H as))"
proof (induction as arbitrary: H)
  case (Cons a as)
  obtain strict now io pk where a: "a = (strict, now, io, pk)" by (cases a)
  obtain r H' where r: "admit_peer J B sha strict now io H pk = (r, H')" by fastforce
  have "self_named (ha_acl H')" "\<forall>d. r \<noteq> Err (MismatchRejected d)"
    using admit_peer_self_named [OF Cons.prems, of J B sha strict now io pk] by (auto simp: r)
  with Cons.IH [of H'] show ?case by (auto simp: a r Let_def split: prod.split)
qed simp

text \<open>
  The key-mismatch rejection cannot happen. A host whose list was built by its own admissions
  (from an empty list, in any order, with any file-system failures) never answers with a key mismatch;
  a device with a new key is simply a new device: outside the strict mode it is admitted with
  the right to control, in strict mode it is refused and nothing changes.\<close>

theorem pubkey_mismatch_unreachable:
  "list_all (\<lambda>r. \<forall>d. r \<noteq> Err (MismatchRejected d)) (fst (admit_run J B sha \<lparr>ha_acl = Map.empty, ha_files = F\<rparr> as)) \<and>
   (let H = snd (admit_run J B sha \<lparr>ha_acl = Map.empty, ha_files = F\<rparr> as) in
    case ha_acl H (b64_encode B pk) of
      Some p \<Rightarrow> fst (admit_peer J B sha strict now io H pk) = Ok (tp_permission p)
    | None \<Rightarrow> (if strict then admit_peer J B sha strict now io H pk = (Err (UnknownRejected (b64_encode B pk)), H)
              else fst (admit_peer J B sha strict now io H pk) = Ok Control))"
proof -
  let ?H = "snd (admit_run J B sha \<lparr>ha_acl = Map.empty, ha_files = F\<rparr> as)"
  have run: "self_named (ha_acl ?H) \<and>
      list_all (\<lambda>r. \<forall>d. r \<noteq> Err (MismatchRejected d)) (fst (admit_run J B sha \<lparr>ha_acl = Map.empty, ha_files = F\<rparr> as))"
    by (intro admit_run_self_named) simp
  then show ?thesis
    by (cases rule: check_or_pair_cases [where H = ?H and d = "b64_encode B pk" and B = B and pk = pk and J = J
          and sha = sha and strict = strict and now = now and io = io])
       (auto simp: admit_peer_def Let_def self_named_def)
qed

text \<open>
  The list on disk is always whole. Whatever step of saving fails, after an admission the file
  is either the old one or the complete new list; when saving succeeds, a restarted host has exactly
  the list of the running one. Admission never changes the entry of another device, nor the
  permission or key of a known one.\<close>

theorem acl_update_atomic:
  assumes "check_or_pair J B sha strict now io H d pk = (r, H')" "acl_codec_ok J (ha_acl H')"
  shows "(af_main (ha_files H') = af_main (ha_files H) \<or>
      ha_acl (start_acl J True copy_ok (ha_files H')) = ha_acl H') \<and>
    (io = AclDone \<and> r = Ok q \<longrightarrow> ha_acl (start_acl J True copy_ok (ha_files H')) = ha_acl H') \<and>
    (e \<noteq> d \<longrightarrow> ha_acl H' e = ha_acl H e) \<and>
    (ha_acl H d = Some p \<longrightarrow> (\<exists>p'. ha_acl H' d = Some p' \<and> tp_permission p' = tp_permission p \<and> tp_pubkey_b64 p' = tp_pubkey_b64 p))"
proof -
  have start: "ha_acl (start_acl J True copy_ok F) = acl" if "af_main F = acl_to_json J acl" "acl_codec_ok J acl" for F acl
    using that by (auto simp: start_acl_def acl_load_def acl_codec_ok_def split: option.splits)
  have saved: "(af_main (ha_files H') = af_main (ha_files H) \<or> ha_acl (start_acl J True copy_ok (ha_files H')) = ha_acl H') \<and>
      (io = AclDone \<longrightarrow> ha_acl (start_acl J True copy_ok (ha_files H')) = ha_acl H')"
    if "ha_files H' = snd (acl_save J io (ha_acl H') (ha_files H))"
    using start [OF _ assms(2)] acl_save_main(1) [of J io "ha_acl H'" "ha_files H"]
      acl_save_main(2) [OF assms(2), of "ha_files H"] by (auto simp: that)
  show ?thesis
  proof (cases rule: check_or_pair_cases [where H = H and d = d and B = B and pk = pk and J = J
          and sha = sha and strict = strict and now = now and io = io])
    case (trusted p)
    with assms(1) have "ha_files H' = snd (acl_save J io (ha_acl H') (ha_files H))" by auto
    from saved [OF this] trusted assms(1) show ?thesis by auto
  next
    case (paired p)
    with assms(1) have "ha_files H' = snd (acl_save J io (ha_acl H') (ha_files H))" by auto
    from saved [OF this] paired assms(1) show ?thesis by auto
  qed (use assms(1) in auto)
qed

definition wit_peer :: trusted_peer where
  "wit_peer = \<lparr>tp_device_id = ''01'', tp_pubkey_b64 = ''01'', tp_fingerprint = '''', tp_permission = ViewOnly,
     tp_first_seen = 1, tp_last_seen = 1, tp_friendly_name = None\<rparr>"

definition wit_acl_codec :: acl_codec where
  "wit_acl_codec = \<lparr>acl_to_json = (\<lambda>acl. Some [7]),
     acl_from_json = (\<lambda>bs. if bs = [7] then Some [''01'' \<mapsto> wit_peer\<lparr>tp_last_seen := 9\<rparr>] else None)\<rparr>"

definition wit_host_acl :: host_acl where
  "wit_host_acl = \<lparr>ha_acl = [''01'' \<mapsto> wit_peer], ha_files = \<lparr>af_main = None, af_tmp = None, af_bak = None\<rparr>\<rparr>"

lemma wit_acl_enc: "b64_encode demo_base64 [1] = ''01''"
  by code_simp

theorem acl_update_atomic_witness:
  "\<exists>H'. check_or_pair wit_acl_codec demo_base64 id False 9 AclDone wit_host_acl ''01'' [1] = (Ok ViewOnly, H') \<and>
     ha_acl (start_acl wit_acl_codec True True (ha_files H')) = ha_acl H'"
proof -
  let ?acl = "[''01'' \<mapsto> wit_peer\<lparr>tp_last_seen := 9\<rparr>]"
  obtain H' where H': "check_or_pair wit_acl_codec demo_base64 id False 9 AclDone wit_host_acl ''01'' [1] = (Ok ViewOnly, H')"
      "ha_acl H' = ?acl"
    by (simp add: check_or_pair_def wit_acl_enc Let_def wit_host_acl_def acl_check_def wit_peer_def acl_touch_def)
  have "acl_codec_ok wit_acl_codec (ha_acl H')" by (simp add: acl_codec_ok_def wit_acl_codec_def H'(2))
  from acl_update_atomic [OF H'(1) this, of True ViewOnly] H'(1) show ?thesis by blast
qed

text \<open>
  A damaged list forgets restrictions. When the file does not parse (or cannot be read), the
  restarted host starts from an empty list, and every peer, also one that was limited to viewing, is
  admitted with the right to control.\<close>

theorem corrupt_acl_grants_control:
  assumes "af_main F = Some bs" "acl_from_json J bs = None \<or> \<not> read_ok"
  shows "fst (admit_peer J B sha False now io (start_acl J read_ok copy_ok F) pk) = Ok Control"
proof -
  have "ha_acl (start_acl J read_ok copy_ok F) = Map.empty"
    using assms by (auto simp: start_acl_def acl_load_def)
  then show ?thesis by (simp add: admit_peer_def check_or_pair_def acl_check_def Let_def)
qed

theorem corrupt_acl_grants_control_witness:
  "fst (admit_peer wit_acl_codec demo_base64 id False 9 AclDone wit_host_acl [1]) = Ok ViewOnly \<and>
   fst (admit_peer wit_acl_codec demo_base64 id False 9 AclDone
     (start_acl wit_acl_codec True True \<lparr>af_main = Some [7, 7], af_tmp = None, af_bak = None\<rparr>) [1]) = Ok Control"
proof -
  have "fst (admit_peer wit_acl_codec demo_base64 id False 9 AclDone wit_host_acl [1]) = Ok ViewOnly"
    by (simp add: admit_peer_def check_or_pair_def wit_acl_enc Let_def wit_host_acl_def acl_check_def wit_peer_def)
  moreover have "fst (admit_peer wit_acl_codec demo_base64 id False 9 AclDone
     (start_acl wit_acl_codec True True \<lparr>af_main = Some [7, 7], af_tmp = None, af_bak = None\<rparr>) [1]) = Ok Control"
    by (rule corrupt_acl_grants_control [where bs = "[7, 7]"]) (simp_all add: wit_acl_codec_def)
  ultimately show ?thesis ..
qed

end
