(* ===== verification/Handshake.thy ===== *)
theory Handshake
  imports Session_Cipher Messages
begin

text \<open>
  The key exchange of a session (\<open>miru-transport/src/handshake.rs\<close>) with the codec negotiation of
  \<open>miru-common/src/codec.rs\<close>.

  Each side is one function of what it draws at random, what it receives and whether its send
  succeeds; it returns the messages it sent and its result. X25519, Ed25519, HKDF and base64 are
  parameters.
\<close>

section \<open>Codec negotiation\<close>

definition CODEC_PRIORITY :: "video_codec list" where
  "CODEC_PRIORITY = [Av1, Vp9, Vp8, H265, H264, Jpeg]"

definition negotiate :: "video_codec list \<Rightarrow> video_codec list \<Rightarrow> video_codec option" where
  "negotiate host viewer = List.find (\<lambda>c. c \<in> set host \<and> c \<in> set viewer) CODEC_PRIORITY"

definition AUDIO_CODEC_PRIORITY :: "audio_codec list" where
  "AUDIO_CODEC_PRIORITY = [Opus, Pcm]"

definition negotiate_audio :: "audio_codec list \<Rightarrow> audio_codec list \<Rightarrow> audio_codec option" where
  "negotiate_audio host viewer =
     (if host = [] \<or> viewer = [] then Some Pcm
      else List.find (\<lambda>c. c \<in> set host \<and> c \<in> set viewer) AUDIO_CODEC_PRIORITY)"

section \<open>Parameters\<close>

record x25519 =
  x_public :: "bytes \<Rightarrow> bytes"
  x_dh :: "bytes \<Rightarrow> bytes \<Rightarrow> bytes"

definition x25519_correct :: "x25519 \<Rightarrow> bool" where
  "x25519_correct X \<longleftrightarrow>
     (\<forall>a b. x_dh X a (x_public X b) = x_dh X b (x_public X a)) \<and> (\<forall>a. length (x_public X a) = 32)"

text \<open>
  Standard base64 writes only letters, digits, plus, slash and equals signs, at most
  \<open>2 * n + 4\<close> of them for \<open>n\<close> bytes.
\<close>

definition base64_text :: "base64 \<Rightarrow> bool" where
  "base64_text B \<longleftrightarrow> (\<forall>bs. CHR '':'' \<notin> set (b64_encode B bs) \<and> length (b64_encode B bs) \<le> 2 * length bs + 4)"

record hs_ext =
  hx_x :: x25519
  hx_ed :: ed25519
  hx_b64 :: base64
  hx_hkdf :: "bytes \<Rightarrow> bytes \<Rightarrow> bytes \<Rightarrow> bytes option"

section \<open>Definitions\<close>

definition PROTOCOL_VERSION :: u32 where
  "PROTOCOL_VERSION = 1"

definition HKDF_INFO :: bytes where
  "HKDF_INFO = as_bytes ''miru-session-v1''"

record handshake_result =
  hr_tx :: session_cipher
  hr_rx :: session_cipher
  hr_session_id :: uuid
  hr_peer_identity_pubkey :: bytes
  hr_selected_video_codec :: video_codec
  hr_selected_audio_codec :: audio_codec
  hr_audio_available :: bool
  hr_peer_role :: role
  hr_peer_pubkey_field :: string

datatype handshake_error =
    ChannelError | ConnectionClosed | UnexpectedMessage | HostRejected u16 string | VersionMismatch u32
  | PubkeyTooLong nat | MalformedPubkey | Base64Error | EphLen | IdentityLen | SigLen
  | InvalidIdentity | SignatureInvalid | NoCommonCodec | NoCommonAudioCodec | HkdfError

text \<open>\<open>str::splitn(n, c)\<close>: at most \<open>n\<close> pieces, the last one unsplit.\<close>

fun splitn :: "nat \<Rightarrow> char \<Rightarrow> string \<Rightarrow> string list" where
  "splitn 0 c s = []"
| "splitn (Suc 0) c s = [s]"
| "splitn (Suc (Suc n)) c s =
     (if c \<in> set s
      then takeWhile (\<lambda>x. x \<noteq> c) s # splitn (Suc n) c (tl (dropWhile (\<lambda>x. x \<noteq> c) s))
      else [s])"

definition parse_pubkey_field :: "base64 \<Rightarrow> string \<Rightarrow> handshake_error + bytes \<times> bytes \<times> bytes" where
  "parse_pubkey_field B s =
     (if length s > 1024 then Err (PubkeyTooLong (length s))
      else
        (let parts = splitn 4 (CHR '':'') s in
         if length parts < 3 then Err MalformedPubkey
         else
           (case (b64_decode B (parts ! 0), b64_decode B (parts ! 1), b64_decode B (parts ! 2)) of
              (Some eph, Some identity, Some sig) \<Rightarrow>
                (if length eph \<noteq> 32 then Err EphLen
                 else if length identity \<noteq> 32 then Err IdentityLen
                 else if length sig \<noteq> 64 then Err SigLen
                 else Ok (eph, identity, sig))
            | _ \<Rightarrow> Err Base64Error)))"

definition challenge :: "bytes \<Rightarrow> bytes \<Rightarrow> bytes" where
  "challenge eph identity = as_bytes ''miru-handshake-v1'' @ eph @ identity"

definition pubkey_field :: "hs_ext \<Rightarrow> bytes \<Rightarrow> bytes \<Rightarrow> string" where
  "pubkey_field X identity eph_secret =
     (let eph_pub = x_public (hx_x X) eph_secret;
          identity_pub = ed_verifying_key (hx_ed X) identity;
          sig = ed_sign (hx_ed X) identity (challenge eph_pub identity_pub);
          enc = b64_encode (hx_b64 X)
      in enc eph_pub @ '':'' @ enc identity_pub @ '':'' @ enc sig)"

definition verify_field :: "hs_ext \<Rightarrow> string \<Rightarrow> handshake_error + bytes \<times> bytes" where
  "verify_field X field =
     (case parse_pubkey_field (hx_b64 X) field of
        Inl e \<Rightarrow> Err e
      | Inr (eph, identity, sig) \<Rightarrow>
          if \<not> ed_key_ok (hx_ed X) identity then Err InvalidIdentity
          else if \<not> ed_verify_strict (hx_ed X) identity (challenge eph identity) sig then Err SignatureInvalid
          else Ok (eph, identity))"

text \<open>The bytes of a UUID, most significant first.\<close>

definition uuid_bytes :: "uuid \<Rightarrow> bytes" where
  "uuid_bytes u = be_bytes 16 (unat u)"

definition hkdf_expand :: "hs_ext \<Rightarrow> bytes \<Rightarrow> bytes \<Rightarrow> handshake_error + bytes" where
  "hkdf_expand X shared salt = (case hx_hkdf X salt shared HKDF_INFO of None \<Rightarrow> Err HkdfError | Some k \<Rightarrow> Ok k)"

definition split_directional :: "hs_ext \<Rightarrow> bytes \<Rightarrow> bool \<Rightarrow> handshake_error + session_cipher \<times> session_cipher" where
  "split_directional X session_key is_host =
     (let base = cipher_new session_key in
      case (derive_subkey (hx_hkdf X) base (as_bytes ''miru-h2v-v1''),
            derive_subkey (hx_hkdf X) base (as_bytes ''miru-v2h-v1'')) of
        (Inr host_to_viewer, Inr viewer_to_host) \<Rightarrow>
          (if is_host then Ok (host_to_viewer, viewer_to_host) else Ok (viewer_to_host, host_to_viewer))
      | _ \<Rightarrow> Err HkdfError)"

text \<open>Steps 7 of the viewer and 5 of the host: both ciphers from the shared secret.\<close>

definition session_ciphers ::
  "hs_ext \<Rightarrow> bytes \<Rightarrow> bytes \<Rightarrow> uuid \<Rightarrow> bool \<Rightarrow> handshake_error + session_cipher \<times> session_cipher" where
  "session_ciphers X eph_secret peer_eph session_id is_host =
     (case hkdf_expand X (x_dh (hx_x X) eph_secret peer_eph) (uuid_bytes session_id) of
        Inl e \<Rightarrow> Err e
      | Inr k \<Rightarrow> split_directional X k is_host)"

text \<open>What \<open>recv_msg\<close> returns: \<open>Inl ()\<close> an error, \<open>Inr None\<close> the end of the stream.\<close>

type_synonym recv = "unit + msg option"

definition viewer_hello :: "hs_ext \<Rightarrow> bytes \<Rightarrow> bytes \<Rightarrow> features \<Rightarrow> hello" where
  "viewer_hello X identity eph_secret fts =
     \<lparr>he_version = PROTOCOL_VERSION, he_role = Viewer, he_pubkey = pubkey_field X identity eph_secret,
      he_features = fts\<rparr>"

definition viewer_handshake ::
  "hs_ext \<Rightarrow> bytes \<Rightarrow> features \<Rightarrow> bytes \<Rightarrow> bool \<Rightarrow> recv \<Rightarrow> msg list \<times> (handshake_error + handshake_result)" where
  "viewer_handshake X identity fts eph_secret send_ok reply =
     (if \<not> send_ok then ([], Err ChannelError)
      else
        ([MsgHello (viewer_hello X identity eph_secret fts)],
         (case reply of
            Inl _ \<Rightarrow> Err ChannelError
          | Inr None \<Rightarrow> Err ConnectionClosed
          | Inr (Some (MsgError e)) \<Rightarrow> Err (HostRejected (em_code e) (em_message e))
          | Inr (Some (MsgHelloAck ack)) \<Rightarrow>
              (case verify_field X (ha_pubkey ack) of
                 Inl e \<Rightarrow> Err e
               | Inr (host_eph, host_identity) \<Rightarrow>
                   (case session_ciphers X eph_secret host_eph (ha_session_id ack) False of
                      Inl e \<Rightarrow> Err e
                    | Inr (tx, rx) \<Rightarrow>
                        Ok \<lparr>hr_tx = tx, hr_rx = rx, hr_session_id = ha_session_id ack,
                           hr_peer_identity_pubkey = host_identity,
                           hr_selected_video_codec = ha_selected_codec ack,
                           hr_selected_audio_codec = ha_selected_audio ack,
                           hr_audio_available = ha_audio_available ack,
                           hr_peer_role = Host, hr_peer_pubkey_field = []\<rparr>))
          | Inr (Some _) \<Rightarrow> Err UnexpectedMessage)))"

definition version_error :: "u32 \<Rightarrow> msg" where
  "version_error v = MsgError \<lparr>em_code = 1001, em_message = ''protocol version '' @ show_nat (unat v) @ '' unsupported''\<rparr>"

definition host_hello_ack :: "hs_ext \<Rightarrow> bytes \<Rightarrow> bytes \<Rightarrow> uuid \<Rightarrow> video_codec \<Rightarrow> audio_codec \<Rightarrow> bool \<Rightarrow> hello_ack" where
  "host_hello_ack X identity eph_secret session_id codec audio_codec audio =
     \<lparr>ha_session_id = session_id, ha_pubkey = pubkey_field X identity eph_secret, ha_encrypted_key = [],
      ha_selected_codec = codec, ha_selected_audio = audio_codec, ha_audio_available = audio\<rparr>"

definition host_accept ::
  "hs_ext \<Rightarrow> bytes \<Rightarrow> features \<Rightarrow> bytes \<Rightarrow> uuid \<Rightarrow> hello \<Rightarrow> handshake_error + hello_ack \<times> handshake_result" where
  "host_accept X identity fts eph_secret session_id h =
     (case verify_field X (he_pubkey h) of
        Inl e \<Rightarrow> Err e
      | Inr (viewer_eph, viewer_identity) \<Rightarrow>
          (case negotiate (ft_codecs fts) (ft_codecs (he_features h)) of
             None \<Rightarrow> Err NoCommonCodec
           | Some codec \<Rightarrow>
               (case negotiate_audio (ft_audio_codecs fts) (ft_audio_codecs (he_features h)) of
                  None \<Rightarrow> Err NoCommonAudioCodec
                | Some audio_codec \<Rightarrow>
                    (case session_ciphers X eph_secret viewer_eph session_id True of
                       Inl e \<Rightarrow> Err e
                     | Inr (tx, rx) \<Rightarrow>
                         Ok (host_hello_ack X identity eph_secret session_id codec audio_codec (ft_audio fts),
                           \<lparr>hr_tx = tx, hr_rx = rx, hr_session_id = session_id,
                            hr_peer_identity_pubkey = viewer_identity, hr_selected_video_codec = codec,
                            hr_selected_audio_codec = audio_codec, hr_audio_available = ft_audio fts,
                            hr_peer_role = he_role h, hr_peer_pubkey_field = he_pubkey h\<rparr>)))))"

definition host_handshake ::
  "hs_ext \<Rightarrow> bytes \<Rightarrow> features \<Rightarrow> bytes \<Rightarrow> uuid \<Rightarrow> recv \<Rightarrow> bool \<Rightarrow> msg list \<times> (handshake_error + handshake_result)" where
  "host_handshake X identity fts eph_secret session_id request send_ok =
     (case request of
        Inl _ \<Rightarrow> ([], Err ChannelError)
      | Inr None \<Rightarrow> ([], Err ConnectionClosed)
      | Inr (Some (MsgHello h)) \<Rightarrow>
          (if he_version h \<noteq> PROTOCOL_VERSION
           then (if send_ok then [version_error (he_version h)] else [], Err (VersionMismatch (he_version h)))
           else
             (case host_accept X identity fts eph_secret session_id h of
                Inl e \<Rightarrow> ([], Err e)
              | Inr (ack, res) \<Rightarrow> if send_ok then ([MsgHelloAck ack], Ok res) else ([], Err ChannelError)))
      | Inr (Some _) \<Rightarrow> ([], Err UnexpectedMessage))"

section \<open>Lemmas\<close>

lemma x25519_correctD:
  assumes "x25519_correct X"
  shows x_dh_agree: "x_dh X a (x_public X b) = x_dh X b (x_public X a)"
    and x_public_length: "length (x_public X a) = 32"
  using assms by (auto simp: x25519_correct_def)

lemma splitn_sep:
  assumes "c \<notin> set s"
  shows "splitn (Suc (Suc n)) c (s @ c # t) = s # splitn (Suc n) c t"
proof -
  have "\<forall>x \<in> set s. x \<noteq> c" using assms by auto
  then have "takeWhile (\<lambda>x. x \<noteq> c) (s @ c # t) = s" "dropWhile (\<lambda>x. x \<noteq> c) (s @ c # t) = c # t"
    by (simp_all add: takeWhile_append2 dropWhile_append2)
  then show ?thesis by (simp only: splitn.simps) simp
qed

lemma splitn_free: "c \<notin> set s \<Longrightarrow> splitn (Suc n) c s = [s]"
  by (cases n) simp_all

lemma parse_pubkey_fieldI:
  assumes "base64_correct B" "base64_text B" "length eph = 32" "length ident = 32" "length sig = 64"
  shows "parse_pubkey_field B (b64_encode B eph @ '':'' @ b64_encode B ident @ '':'' @ b64_encode B sig) =
    Ok (eph, ident, sig)"
proof -
  let ?s = "b64_encode B eph @ '':'' @ b64_encode B ident @ '':'' @ b64_encode B sig"
  have t: "CHR '':'' \<notin> set (b64_encode B bs)" "length (b64_encode B bs) \<le> 2 * length bs + 4" for bs
    using assms(2) by (auto simp: base64_text_def)
  have "splitn (Suc (Suc (Suc (Suc 0)))) (CHR '':'') ?s = [b64_encode B eph, b64_encode B ident, b64_encode B sig]"
    using splitn_sep [OF t(1)] splitn_free [OF t(1)] by (simp only: append_Cons append_Nil)
  then have parts: "splitn 4 (CHR '':'') ?s = [b64_encode B eph, b64_encode B ident, b64_encode B sig]"
    by (simp only: numeral_eq_Suc pred_numeral_simps arith_simps BitM.simps)
  have "length ?s \<le> 1024" using t(2) [of eph] t(2) [of ident] t(2) [of sig] assms(3-5) by simp
  then show ?thesis
    unfolding parse_pubkey_field_def Let_def parts using assms by (simp add: b64_decode_encode)
qed

lemma parse_pubkey_fieldD:
  assumes "parse_pubkey_field B s = Ok (eph, ident, sig)"
  shows "length eph = 32 \<and> length ident = 32 \<and> length sig = 64 \<and> length s \<le> 1024"
  using assms by (auto simp: parse_pubkey_field_def Let_def split: if_splits option.splits)

text \<open>A field made by \<open>pubkey_field\<close> verifies and yields the keys it was made from.\<close>

definition hs_ext_ok :: "hs_ext \<Rightarrow> bool" where
  "hs_ext_ok X \<longleftrightarrow> x25519_correct (hx_x X) \<and> ed25519_correct (hx_ed X) \<and> base64_correct (hx_b64 X) \<and> base64_text (hx_b64 X)"

lemma verify_pubkey_field:
  assumes "hs_ext_ok X"
  shows "verify_field X (pubkey_field X identity eph_secret) =
    Ok (x_public (hx_x X) eph_secret, ed_verifying_key (hx_ed X) identity)"
  using assms
  by (simp add: hs_ext_ok_def verify_field_def pubkey_field_def Let_def parse_pubkey_fieldI [simplified]
      ed25519_correctD x_public_length)

lemma verify_field_Ok:
  assumes "verify_field X f = Ok (eph, ident)"
  obtains sig where "parse_pubkey_field (hx_b64 X) f = Ok (eph, ident, sig)" "ed_key_ok (hx_ed X) ident"
    "ed_verify_strict (hx_ed X) ident (challenge eph ident) sig"
  using assms by (auto simp: verify_field_def split: sum.splits prod.splits if_splits)

text \<open>Negotiation finds the most preferred common codec.\<close>

definition codec_rank :: "video_codec \<Rightarrow> nat" where
  "codec_rank c = length (takeWhile (\<lambda>d. d \<noteq> c) CODEC_PRIORITY)"

lemma find_first:
  "List.find P xs = Some c \<longleftrightarrow> c \<in> set xs \<and> P c \<and>
     (\<forall>d \<in> set xs. P d \<longrightarrow> length (takeWhile (\<lambda>x. x \<noteq> c) xs) \<le> length (takeWhile (\<lambda>x. x \<noteq> d) xs))"
  by (induction xs) auto

lemma codec_priority_all: "set CODEC_PRIORITY = UNIV"
proof -
  have "c \<in> set CODEC_PRIORITY" for c by (cases c) (simp_all add: CODEC_PRIORITY_def)
  then show ?thesis by blast
qed

lemma negotiate_Some:
  "negotiate hs vs = Some c \<longleftrightarrow>
     c \<in> set hs \<inter> set vs \<and> (\<forall>d \<in> set hs \<inter> set vs. codec_rank c \<le> codec_rank d)"
  unfolding negotiate_def find_first codec_rank_def codec_priority_all by auto

lemma negotiate_None: "negotiate hs vs = None \<longleftrightarrow> set hs \<inter> set vs = {}"
  by (auto simp: negotiate_def find_None_iff codec_priority_all)

lemma host_accept_Ok:
  assumes "host_accept X identity fts eph_secret sid h = Ok (ack, res)"
  obtains eph where "verify_field X (he_pubkey h) = Ok (eph, hr_peer_identity_pubkey res)"
    "negotiate (ft_codecs fts) (ft_codecs (he_features h)) = Some (hr_selected_video_codec res)"
    "session_ciphers X eph_secret eph sid True = Ok (hr_tx res, hr_rx res)"
    "hr_peer_role res = he_role h" "hr_session_id res = sid"
  using assms by (auto simp: host_accept_def split: sum.splits prod.splits option.splits)

lemma split_directional_mirror:
  assumes "split_directional X k True = Ok (tx, rx)"
  shows "split_directional X k False = Ok (rx, tx)"
  using assms by (auto simp: split_directional_def Let_def split: sum.splits)

lemma session_ciphers_mirror:
  assumes "x25519_correct (hx_x X)" "session_ciphers X a (x_public (hx_x X) b) sid True = Ok (tx, rx)"
  shows "session_ciphers X b (x_public (hx_x X) a) sid False = Ok (rx, tx)"
  using assms(2) x_dh_agree [OF assms(1), of a b] split_directional_mirror
  by (auto simp: session_ciphers_def split: sum.splits)

lemma session_ciphers_total:
  assumes "\<And>salt k info. hx_hkdf X salt k info \<noteq> None"
  shows "\<exists>tx rx. session_ciphers X es eph sid b = Ok (tx, rx)"
proof -
  obtain k where k: "hkdf_expand X (x_dh (hx_x X) es eph) (uuid_bytes sid) = Ok k"
    using assms [of "uuid_bytes sid" "x_dh (hx_x X) es eph" HKDF_INFO] by (auto simp: hkdf_expand_def)
  have sub: "\<exists>C. derive_subkey (hx_hkdf X) (cipher_new k) info = Ok C" for info
    using assms [of "as_bytes ''miru-subkey-v1''" k info] by (auto simp: derive_subkey_def cipher_new_def)
  show ?thesis
    using k sub [of "as_bytes ''miru-h2v-v1''"] sub [of "as_bytes ''miru-v2h-v1''"]
    by (auto simp: session_ciphers_def split_directional_def Let_def)
qed

text \<open>The viewer's half, on an acknowledgement made by a host.\<close>

lemma viewer_on_ack:
  assumes "hs_ext_ok X" "session_ciphers X ve (x_public (hx_x X) he) sid False = Ok (tx, rx)"
  shows "viewer_handshake X vid fts ve True (Inr (Some (MsgHelloAck (host_hello_ack X hid he sid codec acodec audio)))) =
    ([MsgHello (viewer_hello X vid ve fts)],
     Ok \<lparr>hr_tx = tx, hr_rx = rx, hr_session_id = sid, hr_peer_identity_pubkey = ed_verifying_key (hx_ed X) hid,
        hr_selected_video_codec = codec, hr_selected_audio_codec = acodec, hr_audio_available = audio,
        hr_peer_role = Host, hr_peer_pubkey_field = []\<rparr>)"
  using assms by (simp add: viewer_handshake_def host_hello_ack_def verify_pubkey_field)

section \<open>Properties\<close>

text \<open>
  C7. An honest handshake agrees. When the two sides share a video and an audio codec, the host accepts
  the viewer's greeting and the viewer accepts the host's answer; each side's sending cipher is the
  other side's receiving cipher, both have the same session id and the negotiated codecs, and each side
  has learned the other's real identity key.\<close>

theorem handshake_agrees:
  assumes "hs_ext_ok X" "\<And>salt k info. hx_hkdf X salt k info \<noteq> None"
    and "negotiate (ft_codecs hfts) (ft_codecs vfts) = Some codec"
    and "negotiate_audio (ft_audio_codecs hfts) (ft_audio_codecs vfts) = Some acodec"
  shows "\<exists>ack h v.
    host_handshake X hid hfts he sid (Inr (Some (MsgHello (viewer_hello X vid ve vfts)))) True = ([MsgHelloAck ack], Ok h) \<and>
    viewer_handshake X vid vfts ve True (Inr (Some (MsgHelloAck ack))) = ([MsgHello (viewer_hello X vid ve vfts)], Ok v) \<and>
    hr_tx v = hr_rx h \<and> hr_rx v = hr_tx h \<and> hr_session_id v = sid \<and> hr_session_id h = sid \<and>
    hr_selected_video_codec v = codec \<and> hr_selected_video_codec h = codec \<and>
    hr_selected_audio_codec v = acodec \<and> hr_selected_audio_codec h = acodec \<and>
    hr_peer_identity_pubkey v = ed_verifying_key (hx_ed X) hid \<and>
    hr_peer_identity_pubkey h = ed_verifying_key (hx_ed X) vid"
proof -
  have vf: "verify_field X (he_pubkey (viewer_hello X vid ve vfts)) = Ok (x_public (hx_x X) ve, ed_verifying_key (hx_ed X) vid)"
    using verify_pubkey_field [OF assms(1)] by (simp add: viewer_hello_def)
  obtain tx rx where c: "session_ciphers X he (x_public (hx_x X) ve) sid True = Ok (tx, rx)"
    using session_ciphers_total [OF assms(2)] by blast
  have "session_ciphers X ve (x_public (hx_x X) he) sid False = Ok (rx, tx)"
    using session_ciphers_mirror [OF _ c] assms(1) by (simp add: hs_ext_ok_def)
  note v = viewer_on_ack [OF assms(1) this, of vid vfts hid codec acodec "ft_audio hfts"]
  have h: "\<exists>h. host_handshake X hid hfts he sid (Inr (Some (MsgHello (viewer_hello X vid ve vfts)))) True =
      ([MsgHelloAck (host_hello_ack X hid he sid codec acodec (ft_audio hfts))], Ok h) \<and>
      hr_tx h = tx \<and> hr_rx h = rx \<and> hr_session_id h = sid \<and> hr_selected_video_codec h = codec \<and>
      hr_selected_audio_codec h = acodec \<and> hr_peer_identity_pubkey h = ed_verifying_key (hx_ed X) vid"
    using c vf assms(3,4) by (simp add: host_handshake_def host_accept_def viewer_hello_def)
  from v h show ?thesis by auto
qed

definition demo_x25519 :: x25519 where
  "demo_x25519 = \<lparr>x_public = pad_to 32, x_dh = (\<lambda>a p. map2 (+) (pad_to 32 a) p)\<rparr>"

definition demo_hs_ext :: hs_ext where
  "demo_hs_ext = \<lparr>hx_x = demo_x25519, hx_ed = demo_ed25519, hx_b64 = demo_base64,
     hx_hkdf = (\<lambda>salt k info. Some (pad_to 32 (rev info @ k)))\<rparr>"

lemma map2_plus_commute: "map2 (+) (xs :: bytes) ys = map2 (+) ys xs"
  by (induction xs arbitrary: ys) (auto simp: zip_Cons1 add.commute split: list.splits)

lemma hex_digit_no_colon: "n < 16 \<Longrightarrow> hex_digit n \<noteq> CHR '':''"
  by (auto dest: hex_digit_value simp: hex_value_def)

lemma hex_encode_no_colon: "CHR '':'' \<notin> set (hex_encode bs)"
proof (induction bs)
  case (Cons b bs)
  have "unat b < 256" using unsigned_less [of b, where 'a = nat] by simp
  then have "hex_digit (unat b div 16) \<noteq> CHR '':''" "hex_digit (unat b mod 16) \<noteq> CHR '':''"
    by (auto intro!: hex_digit_no_colon)
  with Cons show ?case by (auto simp: hex_encode_def hex_byte_def)
qed (simp add: hex_encode_def)

lemma demo_hs_ext_ok: "hs_ext_ok demo_hs_ext"
  using demo_ed25519_correct demo_base64_correct
  by (auto simp: hs_ext_ok_def demo_hs_ext_def x25519_correct_def demo_x25519_def base64_text_def
      demo_base64_def hex_encode_no_colon hex_encode_length intro: map2_plus_commute)

definition wit_features :: features where
  "wit_features = \<lparr>ft_codecs = [H264, Vp9], ft_audio_codecs = [Opus], ft_hw_encode = False, ft_hw_decode = False,
     ft_clipboard = True, ft_file_transfer = True, ft_audio = False, ft_multi_monitor = True\<rparr>"

lemma wit_negotiate:
  "negotiate (ft_codecs wit_features) (ft_codecs wit_features) = Some Vp9"
  "negotiate_audio (ft_audio_codecs wit_features) (ft_audio_codecs wit_features) = Some Opus"
  by (simp_all add: negotiate_def CODEC_PRIORITY_def negotiate_audio_def AUDIO_CODEC_PRIORITY_def wit_features_def)

lemma wit_host_accepts:
  "\<exists>sent res. host_handshake demo_hs_ext [1] wit_features [2] 7
      (Inr (Some (MsgHello (viewer_hello demo_hs_ext [3] [4] wit_features)))) True = (sent, Ok res)"
proof -
  have k: "hx_hkdf demo_hs_ext salt k info \<noteq> None" for salt k info by (simp add: demo_hs_ext_def)
  obtain tx rx where "session_ciphers demo_hs_ext [2] (x_public (hx_x demo_hs_ext) [4]) 7 True = Ok (tx, rx)"
    using session_ciphers_total [OF k] by blast
  then show ?thesis
    using verify_pubkey_field [OF demo_hs_ext_ok, of "[3]" "[4]"] wit_negotiate
    by (simp add: host_handshake_def host_accept_def viewer_hello_def)
qed

theorem handshake_agrees_witness:
  "\<exists>ack h v.
    host_handshake demo_hs_ext [1] wit_features [2] 7 (Inr (Some (MsgHello (viewer_hello demo_hs_ext [3] [4] wit_features)))) True =
      ([MsgHelloAck ack], Ok h) \<and>
    viewer_handshake demo_hs_ext [3] wit_features [4] True (Inr (Some (MsgHelloAck ack))) =
      ([MsgHello (viewer_hello demo_hs_ext [3] [4] wit_features)], Ok v) \<and>
    hr_tx v = hr_rx h \<and> hr_rx v = hr_tx h \<and> hr_selected_video_codec v = Vp9"
proof -
  have k: "hx_hkdf demo_hs_ext salt k info \<noteq> None" for salt k info by (simp add: demo_hs_ext_def)
  from handshake_agrees [OF demo_hs_ext_ok k wit_negotiate, of "[1]" "[2]" 7 "[3]" "[4]"] show ?thesis by blast
qed

text \<open>
  C8. The host accepts only authenticated greetings: the version is the supported one, the reported
  peer identity is a valid key whose strict signature covers the ephemeral key the session keys are
  derived from, and the selected codec is the most preferred codec both sides support.\<close>

theorem host_handshake_sound:
  assumes "host_handshake X identity fts eph_secret sid request send_ok = (sent, Ok res)"
  shows "\<exists>h eph sig. request = Inr (Some (MsgHello h)) \<and> he_version h = PROTOCOL_VERSION \<and>
    parse_pubkey_field (hx_b64 X) (he_pubkey h) = Ok (eph, hr_peer_identity_pubkey res, sig) \<and>
    ed_key_ok (hx_ed X) (hr_peer_identity_pubkey res) \<and>
    ed_verify_strict (hx_ed X) (hr_peer_identity_pubkey res) (challenge eph (hr_peer_identity_pubkey res)) sig \<and>
    session_ciphers X eph_secret eph sid True = Ok (hr_tx res, hr_rx res) \<and>
    hr_selected_video_codec res \<in> set (ft_codecs fts) \<inter> set (ft_codecs (he_features h)) \<and>
    (\<forall>d \<in> set (ft_codecs fts) \<inter> set (ft_codecs (he_features h)). codec_rank (hr_selected_video_codec res) \<le> codec_rank d)"
proof -
  obtain h ack where h: "request = Inr (Some (MsgHello h))" "he_version h = PROTOCOL_VERSION"
      "host_accept X identity fts eph_secret sid h = Ok (ack, res)"
    using assms by (auto simp: host_handshake_def split: sum.splits option.splits msg.splits if_splits prod.splits)
  from host_accept_Ok [OF h(3)] obtain eph where eph: "verify_field X (he_pubkey h) = Ok (eph, hr_peer_identity_pubkey res)"
      "negotiate (ft_codecs fts) (ft_codecs (he_features h)) = Some (hr_selected_video_codec res)"
      "session_ciphers X eph_secret eph sid True = Ok (hr_tx res, hr_rx res)" .
  from verify_field_Ok [OF eph(1)] obtain sig where
    "parse_pubkey_field (hx_b64 X) (he_pubkey h) = Ok (eph, hr_peer_identity_pubkey res, sig)"
    "ed_key_ok (hx_ed X) (hr_peer_identity_pubkey res)"
    "ed_verify_strict (hx_ed X) (hr_peer_identity_pubkey res) (challenge eph (hr_peer_identity_pubkey res)) sig" .
  with h eph(2,3) show ?thesis unfolding negotiate_Some by blast
qed

text \<open>
  A recorded greeting can be replayed. The signature covers only the sender's own two keys, so a
  host that accepted a greeting accepts it again from anyone, in any later session and with any role
  and features in place of the signed sender's, as long as a common codec remains; it reports the
  same peer identity and the role the replayer chose.\<close>

theorem hello_replay_accepted:
  assumes "host_handshake X identity fts es1 sid1 (Inr (Some (MsgHello h))) True = (sent, Ok res)"
    and "negotiate (ft_codecs fts) (ft_codecs fts') \<noteq> None" "negotiate_audio (ft_audio_codecs fts) (ft_audio_codecs fts') \<noteq> None"
    and "\<And>salt k info. hx_hkdf X salt k info \<noteq> None"
  shows "\<exists>sent' res'. host_handshake X identity fts es2 sid2
      (Inr (Some (MsgHello (h\<lparr>he_role := r, he_features := fts'\<rparr>)))) True = (sent', Ok res') \<and>
    hr_peer_identity_pubkey res' = hr_peer_identity_pubkey res \<and> hr_peer_role res' = r"
proof -
  obtain ack where h: "he_version h = PROTOCOL_VERSION" "host_accept X identity fts es1 sid1 h = Ok (ack, res)"
    using assms(1) by (auto simp: host_handshake_def split: if_splits sum.splits prod.splits)
  from host_accept_Ok [OF h(2)] obtain eph where eph: "verify_field X (he_pubkey h) = Ok (eph, hr_peer_identity_pubkey res)" .
  obtain tx rx where "session_ciphers X es2 eph sid2 True = Ok (tx, rx)"
    using session_ciphers_total [OF assms(4)] by blast
  with h(1) eph assms(2,3) show ?thesis
    by (auto simp: host_handshake_def host_accept_def)
qed

theorem host_handshake_sound_witness:
  "\<exists>sent res eph sig. host_handshake demo_hs_ext [1] wit_features [2] 7
      (Inr (Some (MsgHello (viewer_hello demo_hs_ext [3] [4] wit_features)))) True = (sent, Ok res) \<and>
    ed_verify_strict (hx_ed demo_hs_ext) (hr_peer_identity_pubkey res) (challenge eph (hr_peer_identity_pubkey res)) sig \<and>
    parse_pubkey_field (hx_b64 demo_hs_ext) (he_pubkey (viewer_hello demo_hs_ext [3] [4] wit_features)) = Ok (eph, hr_peer_identity_pubkey res, sig)"
proof -
  obtain sent res where r: "host_handshake demo_hs_ext [1] wit_features [2] 7
      (Inr (Some (MsgHello (viewer_hello demo_hs_ext [3] [4] wit_features)))) True = (sent, Ok res)"
    using wit_host_accepts by blast
  from host_handshake_sound [OF r] r show ?thesis by auto
qed

theorem hello_replay_accepted_witness:
  "\<exists>sent res sent' res'. host_handshake demo_hs_ext [1] wit_features [2] 7
      (Inr (Some (MsgHello (viewer_hello demo_hs_ext [3] [4] wit_features)))) True = (sent, Ok res) \<and>
    host_handshake demo_hs_ext [1] wit_features [9] 8
      (Inr (Some (MsgHello ((viewer_hello demo_hs_ext [3] [4] wit_features)\<lparr>he_role := AiAgent, he_features := wit_features\<rparr>)))) True =
      (sent', Ok res') \<and>
    hr_peer_identity_pubkey res' = hr_peer_identity_pubkey res \<and> hr_peer_role res' = AiAgent"
proof -
  obtain sent res where r: "host_handshake demo_hs_ext [1] wit_features [2] 7
      (Inr (Some (MsgHello (viewer_hello demo_hs_ext [3] [4] wit_features)))) True = (sent, Ok res)"
    using wit_host_accepts by blast
  have k: "hx_hkdf demo_hs_ext salt k info \<noteq> None" for salt k info by (simp add: demo_hs_ext_def)
  have "negotiate (ft_codecs wit_features) (ft_codecs wit_features) \<noteq> None"
    "negotiate_audio (ft_audio_codecs wit_features) (ft_audio_codecs wit_features) \<noteq> None"
    by (simp_all add: wit_negotiate)
  from hello_replay_accepted [OF r this k, of "[9]" 8 AiAgent] r show ?thesis by blast
qed

end
