(* ===== verification/Signaling.thy ===== *)
theory Signaling
  imports Messages Externals
begin

text \<open>
  The client of the signal server (\<open>miru-transport/src/signaling.rs\<close>): registration messages with
  their ownership signature, the verification the server runs on them, and the translation of
  server messages into events. Base64 (URL-safe, no padding) and Ed25519 are parameters.
\<close>

section \<open>Definitions\<close>

record signal_client =
  sg_identity_pubkey :: string
  sg_identity_pubkey_bytes :: "bytes option"
  sg_signing_key :: "bytes option"

text \<open>\<open>connect_signed\<close>, after the WebSocket is open; it then registers without an address.\<close>

definition client_new :: "base64 \<Rightarrow> bytes option \<Rightarrow> bytes option \<Rightarrow> signal_client" where
  "client_new B identity_pubkey signing_key =
     \<lparr>sg_identity_pubkey = (case identity_pubkey of None \<Rightarrow> [] | Some k \<Rightarrow> b64_encode B k),
      sg_identity_pubkey_bytes = identity_pubkey, sg_signing_key = signing_key\<rparr>"

definition register_blob :: "string \<Rightarrow> bytes \<Rightarrow> u64 \<Rightarrow> bytes" where
  "register_blob device_id pk ts = as_bytes device_id @ pk @ le_bytes 8 (unat ts)"

definition sign_registration ::
  "base64 \<Rightarrow> ed25519 \<Rightarrow> signal_client \<Rightarrow> u64 \<Rightarrow> string \<Rightarrow> string option \<times> u64 option" where
  "sign_registration B E C now device_id =
     (case (sg_signing_key C, sg_identity_pubkey_bytes C) of
        (Some sk, Some pk) \<Rightarrow> (Some (b64_encode B (ed_sign E sk (register_blob device_id pk now))), Some now)
      | _ \<Rightarrow> (None, None))"

definition register_with_pub_addr ::
  "base64 \<Rightarrow> ed25519 \<Rightarrow> signal_client \<Rightarrow> u64 \<Rightarrow> string \<Rightarrow> string option \<Rightarrow> u16 option \<Rightarrow> msg" where
  "register_with_pub_addr B E C now device_id pub_addr pub_port =
     (let (signature, signed_at_sec) = sign_registration B E C now device_id in
      MsgRegister \<lparr>rg_device_id = device_id, rg_pubkey = sg_identity_pubkey C, rg_pub_addr = pub_addr,
        rg_pub_port = pub_port, rg_signature = signature, rg_signed_at_sec = signed_at_sec\<rparr>)"

definition request_connect :: "string \<Rightarrow> string \<Rightarrow> msg" where
  "request_connect target_id viewer_addr =
     MsgConnect \<lparr>cr_target_id = target_id, cr_viewer_addr = viewer_addr, cr_viewer_port = 0\<rparr>"

text \<open>
  The messages \<open>connect_with_pub_addr_signed\<close> sends: the registration made on connecting, and a
  second one with the public address when there is one.
\<close>

definition connect_messages ::
  "base64 \<Rightarrow> ed25519 \<Rightarrow> signal_client \<Rightarrow> u64 \<Rightarrow> string \<Rightarrow> (string \<times> u16) option \<Rightarrow> msg list" where
  "connect_messages B E C now device_id pub_addr =
     register_with_pub_addr B E C now device_id None None #
     (case pub_addr of
        None \<Rightarrow> []
      | Some (addr, port) \<Rightarrow> [register_with_pub_addr B E C now device_id (Some addr) (Some port)])"

datatype signal_event =
    Registered string "string option"
  | IncomingConnection string string u16
  | ConnectAcked string bool "string option" "u16 option"
  | SignalError u16 string
  | Disconnected

text \<open>The reader task's translation of one message; \<open>None\<close> is a message it skips.\<close>

fun signal_event_of :: "msg \<Rightarrow> signal_event option" where
  "signal_event_of (MsgRegisterAck ack) = Some (Registered (ra_device_id ack) (ra_relay_addr ack))"
| "signal_event_of (MsgRelay offer) = Some (IncomingConnection (ro_token offer) (ro_relay_addr offer) (ro_relay_port offer))"
| "signal_event_of (MsgConnectAck ack) =
     Some (ConnectAcked (ca_target_id ack) (ca_relay ack) (ca_host_addr ack) (ca_host_port ack))"
| "signal_event_of (MsgError e) = Some (SignalError (em_code e) (em_message e))"
| "signal_event_of _ = None"

datatype register_error =
    TimestampSkewed u64 | PubkeyNotBase64 | PubkeyLength | InvalidPubkey | SignatureNotBase64 | SignatureLength
  | SignatureFailed

definition abs_diff :: "u64 \<Rightarrow> u64 \<Rightarrow> u64" where
  "abs_diff a b = (if a < b then b - a else a - b)"

definition verify_register_signature :: "base64 \<Rightarrow> ed25519 \<Rightarrow> u64 \<Rightarrow> register \<Rightarrow> register_error + bool" where
  "verify_register_signature B E now reg =
     (case (rg_signature reg, rg_signed_at_sec reg) of
        (Some sig_b64, Some ts) \<Rightarrow>
          (let delta = abs_diff now ts in
           if delta > 300 then Err (TimestampSkewed delta)
           else (case b64_decode B (rg_pubkey reg) of
             None \<Rightarrow> Err PubkeyNotBase64
           | Some pk \<Rightarrow>
               if length pk \<noteq> 32 then Err PubkeyLength
               else if \<not> ed_key_ok E pk then Err InvalidPubkey
               else (case b64_decode B sig_b64 of
                 None \<Rightarrow> Err SignatureNotBase64
               | Some sig \<Rightarrow>
                   if length sig \<noteq> 64 then Err SignatureLength
                   else if ed_verify_strict E pk (register_blob (rg_device_id reg) pk ts) sig then Ok True
                   else Err SignatureFailed)))
      | _ \<Rightarrow> Ok False)"

section \<open>Lemmas\<close>

lemma verify_register_True:
  assumes "verify_register_signature B E now reg = Ok True"
  obtains sig_b64 ts pk sig where "rg_signature reg = Some sig_b64" "rg_signed_at_sec reg = Some ts"
    "abs_diff now ts \<le> 300" "b64_decode B (rg_pubkey reg) = Some pk" "length pk = 32"
    "b64_decode B sig_b64 = Some sig" "ed_verify_strict E pk (register_blob (rg_device_id reg) pk ts) sig"
  using assms
  by (auto simp: verify_register_signature_def Let_def not_less split: option.splits if_splits)

lemma verify_register_False:
  "verify_register_signature B E now reg = Ok False \<longleftrightarrow> rg_signature reg = None \<or> rg_signed_at_sec reg = None"
  by (auto simp: verify_register_signature_def Let_def split: option.splits)

text \<open>The signed bytes determine the key and the time, and with them the device.\<close>

lemma register_blob_inj:
  assumes "register_blob d pk ts = register_blob d' pk' ts'" "length pk = length pk'"
  shows "d = d' \<and> pk = pk' \<and> ts = ts'"
proof -
  have l: "as_bytes d @ pk = as_bytes d' @ pk'" "le_bytes 8 (unat ts) = le_bytes 8 (unat ts')"
    using assms(1) by (simp_all add: register_blob_def flip: append_assoc del: le_bytes.simps)
  have m: "as_bytes d = as_bytes d'" "pk = pk'" using l(1) assms(2) by simp_all
  have "unat ts < 256 ^ 8" "unat ts' < 256 ^ 8" by (rule order_less_le_trans [OF unsigned_less], simp)+
  then have "unat ts = unat ts'" using l(2) by (metis from_le_bytes)
  then have "ts = ts'" by (simp add: word_unat_eq_iff)
  with m show ?thesis by (simp add: as_bytes_eq_iff)
qed

end
