(* ===== verification/Signal_Server.thy ===== *)
theory Signal_Server
  imports Signaling "HOL-Library.AList"
begin

text \<open>
  The signal server (\<open>miru-signal/src/main.rs\<close>): the registry of devices, the rate limit of
  requests per address, the rendezvous messages, and the relay that joins two sessions with the same
  token.

  The concurrent maps are association lists with one entry per key, a channel is named by the
  connection that owns its receiving end, and an \<open>Instant\<close> is a number of nanoseconds. A handler
  returns the new state and the messages it sent, with the connection each goes to; the code ignores
  whether a send fails. Interleavings of the handlers are the step relation at the end. Each worker thread of the runtime runs one
  handler at a time; a registration looks at the registry twice (the lock, the number of entries) before it inserts, and the
  other threads may run in between, so a registration is a task of several steps there.
\<close>

section \<open>State\<close>

type_synonym conn = nat

datatype ip_addr = V4 u32 | V6 u128

record connect_bucket =
  cb_count :: u32
  cb_window_start :: nat

definition CONNECT_RATE_LIMIT :: u32 where
  "CONNECT_RATE_LIMIT = 20"

definition CONNECT_RATE_WINDOW :: nat where
  "CONNECT_RATE_WINDOW = 60 * 1000000000"

record device_entry =
  de_tx :: conn
  de_pub_addr :: "string option"
  de_pub_port :: "u16 option"
  de_locked_pubkey :: "string option"

record relay_slot =
  rs_host :: "conn option"
  rs_viewer :: "conn option"

record app_state =
  as_registry :: "(string \<times> device_entry) list"
  as_relay_sessions :: "(string \<times> relay_slot) list"
  as_connect_rate :: "(ip_addr \<times> connect_bucket) list"
  as_max_devices :: nat
  as_max_relay_sessions :: nat
  as_relay_port :: u16
  as_public_host :: string
  as_require_signed_register :: bool

definition DEFAULT_MAX_DEVICES :: nat where
  "DEFAULT_MAX_DEVICES = 10000"

definition DEFAULT_MAX_RELAY_SESSIONS :: nat where
  "DEFAULT_MAX_RELAY_SESSIONS = 5000"

definition MAX_RELAY_MSG_BYTES :: nat where
  "MAX_RELAY_MSG_BYTES = 4 * 1024 * 1024"

text \<open>
  \<open>AppState::new\<close>; the arguments are the environment: the parsed limits, the public host name, and
  whether \<open>MIRU_REQUIRE_SIGNED_REGISTER\<close> is set.
\<close>

definition app_new :: "u16 \<Rightarrow> nat option \<Rightarrow> nat option \<Rightarrow> string option \<Rightarrow> bool \<Rightarrow> app_state" where
  "app_new relay_port max_devices max_relay host require_signed =
     \<lparr>as_registry = [], as_relay_sessions = [], as_connect_rate = [],
      as_max_devices = (case max_devices of None \<Rightarrow> DEFAULT_MAX_DEVICES | Some n \<Rightarrow> n),
      as_max_relay_sessions = (case max_relay of None \<Rightarrow> DEFAULT_MAX_RELAY_SESSIONS | Some n \<Rightarrow> n),
      as_relay_port = relay_port,
      as_public_host = (case host of None \<Rightarrow> ''localhost'' | Some h \<Rightarrow> h),
      as_require_signed_register = require_signed\<rparr>"

section \<open>Rate limit\<close>

definition prune_rate :: "nat \<Rightarrow> (ip_addr \<times> connect_bucket) list \<Rightarrow> (ip_addr \<times> connect_bucket) list" where
  "prune_rate now rate = filter (\<lambda>(_, b). now - cb_window_start b < CONNECT_RATE_WINDOW * 2) rate"

definition bucket_at :: "nat \<Rightarrow> connect_bucket option \<Rightarrow> connect_bucket" where
  "bucket_at now ob =
     (let entry = (case ob of None \<Rightarrow> \<lparr>cb_count = 0, cb_window_start = now\<rparr> | Some b \<Rightarrow> b) in
      if now - cb_window_start entry \<ge> CONNECT_RATE_WINDOW
      then \<lparr>cb_count = 0, cb_window_start = now\<rparr> else entry)"

definition check_connect_rate ::
  "nat \<Rightarrow> ip_addr \<Rightarrow> (ip_addr \<times> connect_bucket) list \<Rightarrow> bool \<times> (ip_addr \<times> connect_bucket) list" where
  "check_connect_rate now ip rate =
     (let rate' = prune_rate now rate;
          entry = bucket_at now (map_of rate' ip)
      in if cb_count entry < CONNECT_RATE_LIMIT
         then (True, AList.update ip (entry\<lparr>cb_count := cb_count entry + 1\<rparr>) rate')
         else (False, AList.update ip entry rate'))"

section \<open>Rendezvous\<close>

text \<open>The dash of the texts, in UTF-8.\<close>

definition em_dash :: string where
  "em_dash = [CHR 0xE2, CHR 0x80, CHR 0x94]"

definition error_to :: "conn \<Rightarrow> u16 \<Rightarrow> string \<Rightarrow> (conn \<times> msg) list" where
  "error_to c code message = [(c, MsgError \<lparr>em_code = code, em_message = message\<rparr>)]"

text \<open>The length checks, in the order of the code; \<open>None\<close> is a request that passes.\<close>

definition register_too_long :: "register \<Rightarrow> string option" where
  "register_too_long reg =
     (if length (rg_device_id reg) > 256 then Some ''device_id too long''
      else if length (rg_pubkey reg) > 64 then Some ''pubkey too long''
      else if (case rg_pub_addr reg of None \<Rightarrow> False | Some a \<Rightarrow> length a > 128) then Some ''pub_addr too long''
      else if (case rg_signature reg of None \<Rightarrow> False | Some s \<Rightarrow> length s > 128) then Some ''signature too long''
      else None)"

text \<open>An identity-locked entry refuses a registration that does not carry its key.\<close>

definition lock_refuses :: "(string \<times> device_entry) list \<Rightarrow> register \<Rightarrow> bool" where
  "lock_refuses registry reg =
     (case map_of registry (rg_device_id reg) of
        None \<Rightarrow> False
      | Some existing \<Rightarrow>
          (case de_locked_pubkey existing of
             None \<Rightarrow> False
           | Some locked_pk \<Rightarrow>
               \<not> (rg_signature reg \<noteq> None \<and> rg_pubkey reg \<noteq> [] \<and> rg_pubkey reg = locked_pk)))"

definition entry_of_register :: "conn \<Rightarrow> register \<Rightarrow> device_entry" where
  "entry_of_register c reg =
     \<lparr>de_tx = c, de_pub_addr = rg_pub_addr reg, de_pub_port = rg_pub_port reg,
      de_locked_pubkey = (if rg_signature reg \<noteq> None \<and> rg_pubkey reg \<noteq> [] then Some (rg_pubkey reg) else None)\<rparr>"

definition register_ack_for :: "app_state \<Rightarrow> register \<Rightarrow> msg" where
  "register_ack_for S reg =
     MsgRegisterAck \<lparr>ra_device_id = rg_device_id reg,
       ra_relay_addr = Some (as_public_host S @ '':'' @ show_nat (unat (as_relay_port S)))\<rparr>"

type_synonym rdv_result = "app_state \<times> string option \<times> (conn \<times> msg) list"

definition process_register ::
  "base64 \<Rightarrow> ed25519 \<Rightarrow> app_state \<Rightarrow> nat \<Rightarrow> u64 \<Rightarrow> conn \<Rightarrow> string option \<Rightarrow> ip_addr \<Rightarrow> register \<Rightarrow> rdv_result" where
  "process_register B E S now unix c my_id ip reg =
     (let (allowed, rate) = check_connect_rate now ip (as_connect_rate S);
          S = S\<lparr>as_connect_rate := rate\<rparr>
      in if \<not> allowed then (S, my_id, error_to c 429 (''too many requests '' @ em_dash @ '' retry later''))
         else case register_too_long reg of
           Some message \<Rightarrow> (S, my_id, error_to c 400 message)
         | None \<Rightarrow>
             (case verify_register_signature B E unix reg of
                Inl e \<Rightarrow> (S, my_id, error_to c 403 ''invalid registration signature'')
              | Inr verified \<Rightarrow>
                  if \<not> verified \<and> as_require_signed_register S
                  then (S, my_id, error_to c 403 ''signed registration required'')
                  else if lock_refuses (as_registry S) reg
                  then (S, my_id, error_to c 403 ''device_id is identity-locked; ownership proof required'')
                  else if length (as_registry S) \<ge> as_max_devices S
                  then (S, my_id, error_to c 503 ''server at capacity'')
                  else
                    (S\<lparr>as_registry := AList.update (rg_device_id reg) (entry_of_register c reg) (as_registry S)\<rparr>,
                     Some (rg_device_id reg), [(c, register_ack_for S reg)])))"

text \<open>
  The same handler as the other threads see it: everything before the first look at the registry, and then three accesses to the
  shared registry, each atomic by itself. \<open>register_admit\<close> is the part up to the signature; \<open>register_step\<close> is one access, which
  ends the handler (\<open>None\<close>) or leads to the next.
\<close>

datatype reg_phase = AtLock | AtCapacity | AtInsert

definition register_admit ::
  "base64 \<Rightarrow> ed25519 \<Rightarrow> app_state \<Rightarrow> nat \<Rightarrow> u64 \<Rightarrow> conn \<Rightarrow> ip_addr \<Rightarrow> register \<Rightarrow> app_state \<times> (conn \<times> msg) list option" where
  "register_admit B E S now unix c ip reg =
     (let (allowed, rate) = check_connect_rate now ip (as_connect_rate S);
          S = S\<lparr>as_connect_rate := rate\<rparr>
      in if \<not> allowed then (S, Some (error_to c 429 (''too many requests '' @ em_dash @ '' retry later'')))
         else case register_too_long reg of
           Some message \<Rightarrow> (S, Some (error_to c 400 message))
         | None \<Rightarrow>
             (case verify_register_signature B E unix reg of
                Inl e \<Rightarrow> (S, Some (error_to c 403 ''invalid registration signature''))
              | Inr verified \<Rightarrow>
                  if \<not> verified \<and> as_require_signed_register S
                  then (S, Some (error_to c 403 ''signed registration required''))
                  else (S, None)))"

fun register_step :: "app_state \<Rightarrow> conn \<Rightarrow> register \<Rightarrow> reg_phase \<Rightarrow> app_state \<times> reg_phase option \<times> (conn \<times> msg) list" where
  "register_step S c reg AtLock =
     (if lock_refuses (as_registry S) reg
      then (S, None, error_to c 403 ''device_id is identity-locked; ownership proof required'')
      else (S, Some AtCapacity, []))"
| "register_step S c reg AtCapacity =
     (if length (as_registry S) \<ge> as_max_devices S then (S, None, error_to c 503 ''server at capacity'')
      else (S, Some AtInsert, []))"
| "register_step S c reg AtInsert =
     (S\<lparr>as_registry := AList.update (rg_device_id reg) (entry_of_register c reg) (as_registry S)\<rparr>,
      None, [(c, register_ack_for S reg)])"

text \<open>The token: 16 random bytes in lowercase hexadecimal.\<close>

definition relay_offer_for :: "app_state \<Rightarrow> string \<Rightarrow> msg" where
  "relay_offer_for S token =
     MsgRelay \<lparr>ro_relay_addr = as_public_host S, ro_relay_port = as_relay_port S, ro_token = token\<rparr>"

definition process_connect ::
  "app_state \<Rightarrow> nat \<Rightarrow> bytes \<Rightarrow> conn \<Rightarrow> string option \<Rightarrow> ip_addr \<Rightarrow> connect_request \<Rightarrow> rdv_result" where
  "process_connect S now raw c my_id ip req =
     (let target = cr_target_id req in
      if length target > 256 then (S, my_id, error_to c 400 ''target_id too long'')
      else
        (let (allowed, rate) = check_connect_rate now ip (as_connect_rate S);
             S = S\<lparr>as_connect_rate := rate\<rparr>
         in if \<not> allowed then (S, my_id, error_to c 429 (''too many requests '' @ em_dash @ '' retry in 60s''))
            else case map_of (as_registry S) target of
              None \<Rightarrow> (S, my_id, error_to c 404 (''Device '' @ [CHR 0x27] @ target @ [CHR 0x27] @ '' not found or offline''))
            | Some entry \<Rightarrow>
                (let token = hex_encode raw in
                 (S\<lparr>as_relay_sessions := AList.update token \<lparr>rs_host = None, rs_viewer = None\<rparr> (as_relay_sessions S)\<rparr>,
                  my_id,
                  [(de_tx entry, relay_offer_for S token),
                   (c, MsgConnectAck \<lparr>ca_target_id = target, ca_host_addr = de_pub_addr entry,
                      ca_host_port = de_pub_port entry, ca_relay = (de_pub_addr entry = None)\<rparr>),
                   (c, relay_offer_for S token)]))))"

text \<open>\<open>process_rdv_msg\<close>; other messages are only logged.\<close>

fun process_rdv_msg ::
  "base64 \<Rightarrow> ed25519 \<Rightarrow> app_state \<Rightarrow> nat \<Rightarrow> u64 \<Rightarrow> bytes \<Rightarrow> conn \<Rightarrow> string option \<Rightarrow> ip_addr \<Rightarrow> msg \<Rightarrow> rdv_result" where
  "process_rdv_msg B E S now unix raw c my_id ip (MsgRegister reg) = process_register B E S now unix c my_id ip reg"
| "process_rdv_msg B E S now unix raw c my_id ip (MsgConnect req) = process_connect S now raw c my_id ip req"
| "process_rdv_msg B E S now unix raw c my_id ip other = (S, my_id, [])"

text \<open>The end of \<open>rendezvous_session\<close>.\<close>

definition rdv_disconnect :: "app_state \<Rightarrow> string option \<Rightarrow> app_state" where
  "rdv_disconnect S my_id =
     (case my_id of None \<Rightarrow> S | Some d \<Rightarrow> S\<lparr>as_registry := AList.delete d (as_registry S)\<rparr>)"

text \<open>The task that runs \<open>UNCLAIMED_SLOT_TTL\<close> after a slot was made.\<close>

definition reap_slot :: "app_state \<Rightarrow> string \<Rightarrow> app_state" where
  "reap_slot S token =
     (case map_of (as_relay_sessions S) token of
        None \<Rightarrow> S
      | Some s \<Rightarrow>
          if rs_host s = None \<and> rs_viewer s = None
          then S\<lparr>as_relay_sessions := AList.delete token (as_relay_sessions S)\<rparr> else S)"

section \<open>Relay\<close>

definition is_ascii_hexdigit :: "char \<Rightarrow> bool" where
  "is_ascii_hexdigit ch \<longleftrightarrow> hex_value ch \<noteq> None"

definition token_ok :: "string \<Rightarrow> bool" where
  "token_ok token \<longleftrightarrow> length token = 32 \<and> list_all is_ascii_hexdigit token"

definition slot_peer :: "bool \<Rightarrow> relay_slot \<Rightarrow> conn option" where
  "slot_peer is_host s = (if is_host then rs_viewer s else rs_host s)"

text \<open>
  The first part of \<open>relay_session\<close>: \<open>None\<close> is a connection that is dropped; otherwise the slot now
  holds the sender of this side, and the peer's sender is returned when it is already there.
\<close>

definition relay_join :: "app_state \<Rightarrow> conn \<Rightarrow> string \<Rightarrow> string option \<Rightarrow> (app_state \<times> conn option) option" where
  "relay_join S c token rl =
     (if \<not> token_ok token then None
      else
        (let is_host = (rl = Some ''host'');
             slot_known = (map_of (as_relay_sessions S) token \<noteq> None)
         in if \<not> slot_known \<and> length (as_relay_sessions S) \<ge> as_max_relay_sessions S then None
            else case map_of (as_relay_sessions S) token of
              None \<Rightarrow> None
            | Some slot \<Rightarrow>
                (let slot' = (if is_host then slot\<lparr>rs_host := Some c\<rparr> else slot\<lparr>rs_viewer := Some c\<rparr>) in
                 Some (S\<lparr>as_relay_sessions := AList.update token slot' (as_relay_sessions S)\<rparr>, slot_peer is_host slot))))"

text \<open>One tick of the poll of a waiting side.\<close>

definition relay_poll :: "app_state \<Rightarrow> string \<Rightarrow> bool \<Rightarrow> conn option" where
  "relay_poll S token is_host =
     (case map_of (as_relay_sessions S) token of None \<Rightarrow> None | Some s \<Rightarrow> slot_peer is_host s)"

text \<open>Time-out, early disconnect and end of a session all remove the slot.\<close>

definition relay_remove :: "app_state \<Rightarrow> string \<Rightarrow> app_state" where
  "relay_remove S token = S\<lparr>as_relay_sessions := AList.delete token (as_relay_sessions S)\<rparr>"

text \<open>A frame from the WebSocket of a forwarding side: what is sent to the peer, or the end.\<close>

datatype ws_in = WsBinary bytes | WsClose | WsOther

datatype forward = ForwardTo conn bytes | ForwardIgnore | ForwardEnd

fun relay_forward :: "conn \<Rightarrow> ws_in \<Rightarrow> forward" where
  "relay_forward peer (WsBinary d) = (if length d > MAX_RELAY_MSG_BYTES then ForwardEnd else ForwardTo peer d)"
| "relay_forward peer WsClose = ForwardEnd"
| "relay_forward peer WsOther = ForwardIgnore"

text \<open>
  The forwarding loop of one direction over what arrives on its WebSocket; with each frame whether the peer's channel takes it in time.
\<close>

fun relay_pump :: "conn \<Rightarrow> (ws_in \<times> bool) list \<Rightarrow> (conn \<times> bytes) list" where
  "relay_pump peer [] = []"
| "relay_pump peer ((w, taken) # ws) =
     (case relay_forward peer w of
        ForwardTo q d \<Rightarrow> if taken then (q, d) # relay_pump peer ws else []
      | ForwardIgnore \<Rightarrow> relay_pump peer ws
      | ForwardEnd \<Rightarrow> [])"

section \<open>The server as a step relation\<close>

text \<open>
  A rendezvous connection has an address and perhaps a device id; a relay connection has joined with
  a token and a role and either waits or forwards to its peer's channel. The fields \<open>sv_used\<close>,
  \<open>sv_joined\<close>, \<open>sv_sent\<close> and \<open>sv_forwarded\<close> are history: connections ever opened, what each relay
  connection joined with, messages sent, and frames passed on as source, destination and bytes. \<open>sv_tasks\<close> are the registrations that the
  worker threads are running, at most one per thread (the handler does not wait between its first look at the registry and the
  insertion) and at most one per connection.
\<close>

datatype relay_phase = Waiting | Forwarding conn

record relay_conn =
  rc_token :: string
  rc_is_host :: bool
  rc_phase :: relay_phase

record server =
  sv_app :: app_state
  sv_workers :: nat
  sv_tasks :: "(conn \<times> register \<times> reg_phase) list"
  sv_rdv :: "conn \<rightharpoonup> ip_addr \<times> string option"
  sv_relay :: "conn \<rightharpoonup> relay_conn"
  sv_used :: "conn set"
  sv_joined :: "conn \<rightharpoonup> string \<times> bool"
  sv_sent :: "(conn \<times> msg) list"
  sv_forwarded :: "(conn \<times> conn \<times> bytes) list"

definition server_init :: "nat \<Rightarrow> app_state \<Rightarrow> server" where
  "server_init n S = \<lparr>sv_app = S, sv_workers = n, sv_tasks = [], sv_rdv = Map.empty, sv_relay = Map.empty, sv_used = {}, sv_joined = Map.empty,
     sv_sent = [], sv_forwarded = []\<rparr>"

inductive server_step :: "base64 \<Rightarrow> ed25519 \<Rightarrow> server \<Rightarrow> server \<Rightarrow> bool" for B E where
  rdv_open: "c \<notin> sv_used V \<Longrightarrow>
     server_step B E V (V\<lparr>sv_rdv := (sv_rdv V)(c \<mapsto> (ip, None)), sv_used := insert c (sv_used V)\<rparr>)"
| reg_refuse: "sv_rdv V c = Some (ip, my_id) \<Longrightarrow> c \<notin> fst ` set (sv_tasks V) \<Longrightarrow>
     register_admit B E (sv_app V) now unix c ip reg = (S', Some out) \<Longrightarrow>
     server_step B E V (V\<lparr>sv_app := S', sv_sent := sv_sent V @ out\<rparr>)"
| reg_begin: "sv_rdv V c = Some (ip, my_id) \<Longrightarrow> c \<notin> fst ` set (sv_tasks V) \<Longrightarrow> length (sv_tasks V) < sv_workers V \<Longrightarrow>
     register_admit B E (sv_app V) now unix c ip reg = (S', None) \<Longrightarrow>
     server_step B E V (V\<lparr>sv_app := S', sv_tasks := sv_tasks V @ [(c, reg, AtLock)]\<rparr>)"
| reg_continue: "sv_tasks V = xs @ (c, reg, ph) # ys \<Longrightarrow> register_step (sv_app V) c reg ph = (S', nxt, out) \<Longrightarrow>
     sv_rdv V c = Some (ip, my_id) \<Longrightarrow>
     server_step B E V (V\<lparr>sv_app := S', sv_tasks := xs @ (case nxt of None \<Rightarrow> [] | Some ph' \<Rightarrow> [(c, reg, ph')]) @ ys,
       sv_rdv := (sv_rdv V)(c \<mapsto> (ip, if ph = AtInsert then Some (rg_device_id reg) else my_id)), sv_sent := sv_sent V @ out\<rparr>)"
| rdv_msg: "sv_rdv V c = Some (ip, my_id) \<Longrightarrow> length raw = 16 \<Longrightarrow> c \<notin> fst ` set (sv_tasks V) \<Longrightarrow> (\<And>reg. m \<noteq> MsgRegister reg) \<Longrightarrow>
     process_rdv_msg B E (sv_app V) now unix raw c my_id ip m = (S', my_id', out) \<Longrightarrow>
     server_step B E V (V\<lparr>sv_app := S', sv_rdv := (sv_rdv V)(c \<mapsto> (ip, my_id')), sv_sent := sv_sent V @ out\<rparr>)"
| rdv_close: "sv_rdv V c = Some (ip, my_id) \<Longrightarrow> c \<notin> fst ` set (sv_tasks V) \<Longrightarrow>
     server_step B E V (V\<lparr>sv_app := rdv_disconnect (sv_app V) my_id, sv_rdv := (sv_rdv V)(c := None)\<rparr>)"
| reap: "server_step B E V (V\<lparr>sv_app := reap_slot (sv_app V) token\<rparr>)"
| join: "c \<notin> sv_used V \<Longrightarrow> relay_join (sv_app V) c token rl = Some (S', peer) \<Longrightarrow>
     server_step B E V (V\<lparr>sv_app := S', sv_used := insert c (sv_used V),
       sv_joined := (sv_joined V)(c \<mapsto> (token, rl = Some ''host'')),
       sv_relay := (sv_relay V)(c \<mapsto> \<lparr>rc_token = token, rc_is_host = (rl = Some ''host''),
         rc_phase = (case peer of None \<Rightarrow> Waiting | Some p \<Rightarrow> Forwarding p)\<rparr>)\<rparr>)"
| poll: "sv_relay V c = Some r \<Longrightarrow> rc_phase r = Waiting \<Longrightarrow>
     relay_poll (sv_app V) (rc_token r) (rc_is_host r) = Some p \<Longrightarrow>
     server_step B E V (V\<lparr>sv_relay := (sv_relay V)(c \<mapsto> r\<lparr>rc_phase := Forwarding p\<rparr>)\<rparr>)"
| forward: "sv_relay V c = Some r \<Longrightarrow> rc_phase r = Forwarding p \<Longrightarrow> relay_forward p w = ForwardTo q d \<Longrightarrow>
     server_step B E V (V\<lparr>sv_forwarded := sv_forwarded V @ [(c, q, d)]\<rparr>)"
| relay_end: "sv_relay V c = Some r \<Longrightarrow>
     server_step B E V (V\<lparr>sv_app := relay_remove (sv_app V) (rc_token r), sv_relay := (sv_relay V)(c := None)\<rparr>)"

inductive_cases server_stepE: "server_step B E V V'"

text \<open>The states of a server with \<open>n\<close> worker threads that started with the application state \<open>S\<close>.\<close>

inductive server_reach :: "base64 \<Rightarrow> ed25519 \<Rightarrow> nat \<Rightarrow> app_state \<Rightarrow> server \<Rightarrow> bool" for B E n S where
  start: "server_reach B E n S (server_init n S)"
| step: "server_reach B E n S V \<Longrightarrow> server_step B E V V' \<Longrightarrow> server_reach B E n S V'"

section \<open>Registration\<close>

lemma process_register_cases:
  assumes "process_register B E S now unix c my_id ip reg = (S', my_id', out)"
  obtains (refused) rate where "S' = S\<lparr>as_connect_rate := rate\<rparr>" "my_id' = my_id"
      "\<exists>code txt. out = error_to c code txt"
    | (accepted) rate v where "S' = S\<lparr>as_connect_rate := rate,
        as_registry := AList.update (rg_device_id reg) (entry_of_register c reg) (as_registry S)\<rparr>"
      "my_id' = Some (rg_device_id reg)" "verify_register_signature B E unix reg = Ok v"
      "as_require_signed_register S \<Longrightarrow> v" "\<not> lock_refuses (as_registry S) reg"
      "length (as_registry S) < as_max_devices S" "out = [(c, register_ack_for S reg)]"
      "register_too_long reg = None"
proof -
  obtain a rate where r: "check_connect_rate now ip (as_connect_rate S) = (a, rate)" by fastforce
  have ack: "register_ack_for (S\<lparr>as_connect_rate := rate\<rparr>) reg = register_ack_for S reg"
    by (simp add: register_ack_for_def)
  show thesis
    using assms refused [of rate] accepted [of rate]
    unfolding process_register_def r Let_def
    by (auto simp: ack not_le split: if_splits option.splits sum.splits)
qed

text \<open>Without interference the steps of a registration are \<open>process_register\<close>.\<close>

lemma process_register_steps:
  "process_register B E S now unix c my_id ip reg =
     (case register_admit B E S now unix c ip reg of
        (S1, Some out) \<Rightarrow> (S1, my_id, out)
      | (S1, None) \<Rightarrow>
          (case register_step S1 c reg AtLock of
             (S2, None, out) \<Rightarrow> (S2, my_id, out)
           | (S2, Some _, _) \<Rightarrow>
               (case register_step S2 c reg AtCapacity of
                  (S3, None, out) \<Rightarrow> (S3, my_id, out)
                | (S3, Some _, _) \<Rightarrow>
                    (case register_step S3 c reg AtInsert of (S4, _, out) \<Rightarrow> (S4, Some (rg_device_id reg), out)))))"
proof -
  obtain a rate where r: "check_connect_rate now ip (as_connect_rate S) = (a, rate)" by fastforce
  show ?thesis
    unfolding process_register_def register_admit_def r Let_def
    by (auto split: option.splits sum.splits if_splits)
qed

lemma register_admit_app:
  assumes "register_admit B E S now unix c ip reg = (S', r)"
  obtains rate where "S' = S\<lparr>as_connect_rate := rate\<rparr>"
  using assms by (auto simp: register_admit_def Let_def split: prod.splits if_splits option.splits sum.splits)



text \<open>
  A registration that names the public key of another device, with any text as its signature, any address and no time.
\<close>

definition forged_register :: "string \<Rightarrow> string \<Rightarrow> string \<Rightarrow> string option \<Rightarrow> u16 option \<Rightarrow> register" where
  "forged_register d k sig_text addr port = \<lparr>rg_device_id = d, rg_pubkey = k, rg_pub_addr = addr, rg_pub_port = port,
     rg_signature = Some sig_text, rg_signed_at_sec = None\<rparr>"

text \<open>
  C39. The identity lock can be taken without a key. When signed registration is not required (the
  default), a registration that names the locked public key and carries a signature but no
  timestamp is not verified and yet passes the lock, whatever the text of the signature (of at most 128 bytes), and with any
  address (of at most 128 bytes): the sender becomes the registered device, with the address it names, and the
  next connection request for the device is announced to the sender.\<close>

theorem identity_lock_bypass:
  assumes "\<not> as_require_signed_register S" "map_of (as_registry S) d = Some e" "de_locked_pubkey e = Some k" "k \<noteq> []"
    and "length d \<le> 256" "length k \<le> 64" "length (as_registry S) < as_max_devices S"
    and "fst (check_connect_rate now ip (as_connect_rate S))"
    and "process_register B E S now unix c my_id ip (forged_register d k sig_text addr port) = (S', my_id', out)"
    and "cr_target_id req = d" "fst (check_connect_rate now' ip' (as_connect_rate S'))"
    and "length sig_text \<le> 128" "\<And>a. addr = Some a \<Longrightarrow> length a \<le> 128"
  shows "map_of (as_registry S') d = Some \<lparr>de_tx = c, de_pub_addr = addr, de_pub_port = port, de_locked_pubkey = Some k\<rparr> \<and>
    hd (snd (snd (process_connect S' now' raw c' my_id'' ip' req))) = (c, relay_offer_for S' (hex_encode raw))"
proof -
  obtain rate where r: "check_connect_rate now ip (as_connect_rate S) = (True, rate)"
    using assms(8) by (cases "check_connect_rate now ip (as_connect_rate S)") auto
  let ?reg = "forged_register d k sig_text addr port"
  have v: "verify_register_signature B E unix ?reg = Ok False"
    by (simp add: verify_register_False forged_register_def)
  have l: "register_too_long ?reg = None" "\<not> lock_refuses (as_registry S) ?reg"
    using assms(2-6,12,13) by (auto simp: register_too_long_def lock_refuses_def forged_register_def split: option.splits)
  have S': "map_of (as_registry S') d = Some (entry_of_register c ?reg)"
    using assms(9,1,7) v l unfolding process_register_def r Let_def
    by (auto simp: forged_register_def update_conv')
  obtain rate' where r': "check_connect_rate now' ip' (as_connect_rate S') = (True, rate')"
    using assms(11) by (cases "check_connect_rate now' ip' (as_connect_rate S')") auto
  have "hd (snd (snd (process_connect S' now' raw c' my_id'' ip' req))) = (c, relay_offer_for S' (hex_encode raw))"
    using S' assms(5,10) unfolding process_connect_def r' Let_def
    by (simp add: relay_offer_for_def entry_of_register_def)
  with S' assms(4) show ?thesis by (simp add: entry_of_register_def forged_register_def)
qed

text \<open>Base64 text is at least as long as the bytes, and URL-safe base64 without padding at most twice.\<close>

definition base64_lengths :: "base64 \<Rightarrow> bool" where
  "base64_lengths B \<longleftrightarrow> (\<forall>bs. length bs \<le> length (b64_encode B bs) \<and> length (b64_encode B bs) \<le> 2 * length bs)"

lemma base64_lengthsD:
  assumes "base64_lengths B"
  shows "length bs \<le> length (b64_encode B bs)" "length (b64_encode B bs) \<le> 2 * length bs"
  using assms by (auto simp: base64_lengths_def)

lemma register_is_register: "\<exists>reg. register_with_pub_addr B E C t d addr port = MsgRegister reg"
  by (cases "sign_registration B E C t d") (simp add: register_with_pub_addr_def)

lemma client_register_verifies:
  assumes "ed25519_correct E" "base64_correct B" "abs_diff unix t \<le> 300"
    and "register_with_pub_addr B E (client_new B (Some (ed_verifying_key E sk)) (Some sk)) t d addr port = MsgRegister reg"
  shows "verify_register_signature B E unix reg = Ok True" "rg_device_id reg = d" "rg_pub_addr reg = addr"
    "rg_pubkey reg = b64_encode B (ed_verifying_key E sk)"
    "rg_signature reg = Some (b64_encode B (ed_sign E sk (register_blob d (ed_verifying_key E sk) t)))"
  using assms
  by (auto simp: register_with_pub_addr_def sign_registration_def client_new_def verify_register_signature_def
      b64_decode_encode ed25519_correctD not_less Let_def)

text \<open>
  An honest client registers. A registration signed by the client library is accepted when the
  clocks differ by at most five minutes, the address is below its rate limit, the server has room and
  the id is not locked to another key; the entry is then locked to the client's key, so that the same
  client can register again while nobody else (with signatures required) can.\<close>

theorem signed_registration_accepted:
  assumes "ed25519_correct E" "base64_correct B" "base64_lengths B" "abs_diff unix t \<le> 300"
    and "length d \<le> 256" "list_all (\<lambda>a. length a \<le> 128) (case addr of None \<Rightarrow> [] | Some a \<Rightarrow> [a])"
    and "fst (check_connect_rate now ip (as_connect_rate S))" "length (as_registry S) < as_max_devices S"
    and "\<And>e k. map_of (as_registry S) d = Some e \<Longrightarrow> de_locked_pubkey e = Some k \<Longrightarrow> k = b64_encode B (ed_verifying_key E sk)"
  shows "\<exists>S' e. process_rdv_msg B E S now unix raw c my_id ip
      (register_with_pub_addr B E (client_new B (Some (ed_verifying_key E sk)) (Some sk)) t d addr port) =
        (S', Some d, [(c, MsgRegisterAck \<lparr>ra_device_id = d,
           ra_relay_addr = Some (as_public_host S @ '':'' @ show_nat (unat (as_relay_port S)))\<rparr>)]) \<and>
    map_of (as_registry S') d = Some e \<and> de_tx e = c \<and> de_locked_pubkey e = Some (b64_encode B (ed_verifying_key E sk))"
proof -
  let ?pk = "ed_verifying_key E sk"
  obtain reg where reg: "register_with_pub_addr B E (client_new B (Some ?pk) (Some sk)) t d addr port = MsgRegister reg"
    using register_is_register by blast
  note c = client_register_verifies [OF assms(1,2,4) reg]
  obtain rate where r: "check_connect_rate now ip (as_connect_rate S) = (True, rate)"
    using assms(7) by (cases "check_connect_rate now ip (as_connect_rate S)") auto
  have len: "length (b64_encode B ?pk) \<le> 64" "32 \<le> length (b64_encode B ?pk)" "length (b64_encode B (ed_sign E sk m)) \<le> 128" for m
    using base64_lengthsD [OF assms(3), of ?pk] base64_lengthsD(2) [OF assms(3), of "ed_sign E sk m"]
    by (simp_all add: ed25519_correctD [OF assms(1)])
  have l: "register_too_long reg = None"
    using len(1) len(3) [of "register_blob d ?pk t"] assms(5,6)
    by (auto simp: register_too_long_def c(2-5) split: option.splits)
  have k: "\<not> lock_refuses (as_registry S) reg" "b64_encode B ?pk \<noteq> []"
    using assms(9) len(2) by (auto simp: lock_refuses_def c split: option.splits)
  have "process_register B E S now unix c my_id ip reg =
      (S\<lparr>as_connect_rate := rate, as_registry := AList.update d (entry_of_register c reg) (as_registry S)\<rparr>, Some d,
       [(c, register_ack_for S reg)])"
    using c l k assms(8) unfolding process_register_def r Let_def by (simp add: register_ack_for_def)
  then show ?thesis
    using k(2) by (simp add: reg c register_ack_for_def update_conv' entry_of_register_def)
qed

definition wit_signal :: "bool \<Rightarrow> app_state" where
  "wit_signal strict = app_new 21117 (Some 3) None None strict"

lemma demo_base64_lengths: "base64_lengths demo_base64"
  by (simp add: base64_lengths_def demo_base64_def hex_encode_length)

lemma wit_signal_rate: "check_connect_rate now ip [] = (True, [(ip, \<lparr>cb_count = 1, cb_window_start = now\<rparr>)])"
  by (simp add: check_connect_rate_def prune_rate_def bucket_at_def CONNECT_RATE_WINDOW_def CONNECT_RATE_LIMIT_def)

theorem signed_registration_accepted_witness:
  "\<exists>S' e. process_rdv_msg demo_base64 demo_ed25519 (wit_signal True) 5 1000 [] 7 None (V4 1)
      (register_with_pub_addr demo_base64 demo_ed25519
        (client_new demo_base64 (Some (ed_verifying_key demo_ed25519 [9])) (Some [9])) 900 ''D1'' None None) =
        (S', Some ''D1'', [(7, MsgRegisterAck \<lparr>ra_device_id = ''D1'',
           ra_relay_addr = Some (as_public_host (wit_signal True) @ '':'' @ show_nat (unat (as_relay_port (wit_signal True))))\<rparr>)]) \<and>
    map_of (as_registry S') ''D1'' = Some e \<and> de_tx e = 7 \<and>
    de_locked_pubkey e = Some (b64_encode demo_base64 (ed_verifying_key demo_ed25519 [9]))"
  by (rule signed_registration_accepted [OF demo_ed25519_correct demo_base64_correct demo_base64_lengths])
     (simp_all add: wit_signal_def app_new_def wit_signal_rate abs_diff_def)

text \<open>A registry with one locked device, for the witnesses of the lock.\<close>

definition wit_locked :: "bool \<Rightarrow> app_state" where
  "wit_locked strict = (wit_signal strict)\<lparr>as_registry :=
     [(''D1'', \<lparr>de_tx = 1, de_pub_addr = None, de_pub_port = None,
        de_locked_pubkey = Some (b64_encode demo_base64 (ed_verifying_key demo_ed25519 [9]))\<rparr>)]\<rparr>"


theorem identity_lock_bypass_witness:
  "\<exists>k S' my_id' out. de_locked_pubkey (the (map_of (as_registry (wit_locked False)) ''D1'')) = Some k \<and>
     process_register demo_base64 demo_ed25519 (wit_locked False) 5 1000 66 None (V4 6) (forged_register ''D1'' k ''not a signature'' (Some ''6.6.6.6'') (Some 6)) = (S', my_id', out) \<and>
     hd (snd (snd (process_connect S' 9 (replicate 16 0) 8 None (V4 8)
       \<lparr>cr_target_id = ''D1'', cr_viewer_addr = [], cr_viewer_port = 0\<rparr>))) = (66, relay_offer_for S' (hex_encode (replicate 16 0)))"
proof -
  let ?k = "b64_encode demo_base64 (ed_verifying_key demo_ed25519 [9])"
  have len: "length ?k = 64" by (simp add: demo_base64_def hex_encode_length ed25519_correctD [OF demo_ed25519_correct])
  then have ne: "?k \<noteq> []" by auto
  obtain S' my_id' out where p: "process_register demo_base64 demo_ed25519 (wit_locked False) 5 1000 66 None (V4 6) (forged_register ''D1'' ?k ''not a signature'' (Some ''6.6.6.6'') (Some 6)) = (S', my_id', out)"
    using prod_cases3 by blast
  have rate: "as_connect_rate S' = [(V4 6, \<lparr>cb_count = 1, cb_window_start = 5\<rparr>)]"
  proof -
    have "as_connect_rate (wit_locked False) = []" by (simp add: wit_locked_def wit_signal_def app_new_def)
    with p show ?thesis by (auto simp: process_register_def wit_signal_rate Let_def split: option.splits sum.splits if_splits)
  qed
  have "fst (check_connect_rate 9 (V4 8) (as_connect_rate S'))"
    by (simp add: rate check_connect_rate_def prune_rate_def bucket_at_def CONNECT_RATE_WINDOW_def CONNECT_RATE_LIMIT_def)
  then have "hd (snd (snd (process_connect S' 9 (replicate 16 0) 8 None (V4 8)
       \<lparr>cr_target_id = ''D1'', cr_viewer_addr = [], cr_viewer_port = 0\<rparr>))) = (66, relay_offer_for S' (hex_encode (replicate 16 0)))"
    using len
    by (intro identity_lock_bypass [where e = "the (map_of (as_registry (wit_locked False)) ''D1'')", OF _ _ _ ne _ _ _ _ p, THEN conjunct2])
       (auto simp: wit_locked_def wit_signal_def app_new_def wit_signal_rate)
  moreover have "de_locked_pubkey (the (map_of (as_registry (wit_locked False)) ''D1'')) = Some ?k" by (simp add: wit_locked_def)
  ultimately show ?thesis using p by blast
qed

section \<open>Invariant of the server\<close>

definition issued :: "(conn \<times> msg) list \<Rightarrow> string \<Rightarrow> bool" where
  "issued out t \<longleftrightarrow> (\<exists>c offer. (c, MsgRelay offer) \<in> set out \<and> ro_token offer = t)"

definition registry_inv :: "app_state \<Rightarrow> bool" where
  "registry_inv S \<longleftrightarrow> distinct (map fst (as_registry S))"

text \<open>
  Registrations that have seen room and have not inserted yet. All of them may have seen the same last free place, so
  together with the entries they may exceed the limit by the number of the other threads.
\<close>

definition inserting :: "(conn \<times> register \<times> reg_phase) list \<Rightarrow> nat" where
  "inserting ts = length (filter (\<lambda>(c, reg, ph). ph = AtInsert) ts)"

definition capacity_inv :: "server \<Rightarrow> bool" where
  "capacity_inv V \<longleftrightarrow> length (sv_tasks V) \<le> sv_workers V \<and>
     length (as_registry (sv_app V)) + inserting (sv_tasks V) \<le> as_max_devices (sv_app V) + (sv_workers V - 1)"

text \<open>Slots hold only connections that joined with their token and role, for tokens that were issued.\<close>

definition slots_inv :: "(string \<times> relay_slot) list \<Rightarrow> (conn \<rightharpoonup> string \<times> bool) \<Rightarrow> (conn \<times> msg) list \<Rightarrow> bool" where
  "slots_inv slots joined out \<longleftrightarrow>
     (\<forall>t s. map_of slots t = Some s \<longrightarrow> issued out t \<and>
        (\<forall>h. rs_host s = Some h \<longrightarrow> joined h = Some (t, True)) \<and>
        (\<forall>v. rs_viewer s = Some v \<longrightarrow> joined v = Some (t, False)))"

definition conns_inv :: "(conn \<rightharpoonup> relay_conn) \<Rightarrow> (conn \<rightharpoonup> string \<times> bool) \<Rightarrow> bool" where
  "conns_inv relay joined \<longleftrightarrow>
     (\<forall>c r. relay c = Some r \<longrightarrow> joined c = Some (rc_token r, rc_is_host r) \<and>
        (\<forall>p. rc_phase r = Forwarding p \<longrightarrow> joined p = Some (rc_token r, \<not> rc_is_host r)))"

definition paired :: "(conn \<rightharpoonup> string \<times> bool) \<Rightarrow> conn \<Rightarrow> conn \<Rightarrow> bool" where
  "paired joined c q \<longleftrightarrow> (\<exists>t b. joined c = Some (t, b) \<and> joined q = Some (t, \<not> b))"

definition server_inv :: "server \<Rightarrow> bool" where
  "server_inv V \<longleftrightarrow>
     registry_inv (sv_app V) \<and> capacity_inv V \<and>
     slots_inv (as_relay_sessions (sv_app V)) (sv_joined V) (sv_sent V) \<and>
     conns_inv (sv_relay V) (sv_joined V) \<and>
     dom (sv_joined V) \<subseteq> sv_used V \<and>
     (\<forall>c t b. sv_joined V c = Some (t, b) \<longrightarrow> issued (sv_sent V) t) \<and>
     (\<forall>c q d. (c, q, d) \<in> set (sv_forwarded V) \<longrightarrow> paired (sv_joined V) c q \<and> length d \<le> MAX_RELAY_MSG_BYTES)"

lemma issued_append [simp]: "issued (out @ out') t \<longleftrightarrow> issued out t \<or> issued out' t"
  by (auto simp: issued_def)

lemma issued_offer: "(c, relay_offer_for S t) \<in> set out \<Longrightarrow> issued out t"
  by (force simp: issued_def relay_offer_for_def)

lemma inserting_simps [simp]:
  "inserting [] = 0" "inserting (xs @ ys) = inserting xs + inserting ys"
  "inserting ((c, reg, ph) # ts) = (if ph = AtInsert then 1 else 0) + inserting ts"
  by (simp_all add: inserting_def)

lemma inserting_le: "inserting ts \<le> length ts"
  by (simp add: inserting_def)

lemma registry_inv_update: "registry_inv S \<Longrightarrow> registry_inv (S\<lparr>as_registry := AList.update d e (as_registry S)\<rparr>)"
  by (simp add: registry_inv_def distinct_update)

lemma registry_inv_delete: "registry_inv S \<Longrightarrow> registry_inv (S\<lparr>as_registry := AList.delete d (as_registry S)\<rparr>)"
  by (simp add: registry_inv_def distinct_delete)

text \<open>What a rendezvous message does to the slots and the registry.\<close>

lemma process_rdv_slots:
  assumes "process_rdv_msg B E S now unix raw c my_id ip m = (S', my_id', out)"
  shows "as_relay_sessions S' = as_relay_sessions S \<or>
    (\<exists>t. as_relay_sessions S' = AList.update t \<lparr>rs_host = None, rs_viewer = None\<rparr> (as_relay_sessions S) \<and> issued out t)"
proof (cases "\<exists>req. m = MsgConnect req")
  case True
  then obtain req where "m = MsgConnect req" by blast
  with assms have p: "process_connect S now raw c my_id ip req = (S', my_id', out)" by simp
  have "as_relay_sessions S' = as_relay_sessions S \<or>
      (as_relay_sessions S' = AList.update (hex_encode raw) \<lparr>rs_host = None, rs_viewer = None\<rparr> (as_relay_sessions S) \<and>
       issued out (hex_encode raw))"
    using p issued_offer
    by (auto simp: process_connect_def Let_def split: if_splits prod.splits option.splits) (meson list.set_intros(1))+
  then show ?thesis by blast
next
  case False
  with assms show ?thesis
    by (cases m) (auto elim: process_register_cases)
qed

lemma process_rdv_registry:
  assumes "\<And>reg. m \<noteq> MsgRegister reg" "process_rdv_msg B E S now unix raw c my_id ip m = (S', my_id', out)"
  shows "as_registry S' = as_registry S" "as_max_devices S' = as_max_devices S"
  using assms
  by (cases m; auto simp: process_connect_def Let_def split: if_splits prod.splits option.splits)+

text \<open>One access of a registration keeps the slots, and the registry within its bound.\<close>

lemma register_step_keeps:
  assumes "register_step S c reg ph = (S', nxt, out)" "registry_inv S"
  shows "registry_inv S'" "as_relay_sessions S' = as_relay_sessions S" "as_max_devices S' = as_max_devices S"
  using assms by (cases ph; auto split: if_splits intro: registry_inv_update)+

lemma register_step_capacity:
  assumes "capacity_inv V" "sv_tasks V = xs @ (c, reg, ph) # ys" "register_step (sv_app V) c reg ph = (S', nxt, out)"
    and "sv_tasks V' = xs @ (case nxt of None \<Rightarrow> [] | Some ph' \<Rightarrow> [(c, reg, ph')]) @ ys" "sv_app V' = S'" "sv_workers V' = sv_workers V"
  shows "capacity_inv V'"
proof (cases ph)
  case AtLock
  with assms show ?thesis by (auto simp: capacity_inv_def split: if_splits)
next
  case AtCapacity
  have "inserting xs + inserting ys \<le> sv_workers V - 1"
    using assms(1,2) inserting_le [of xs] inserting_le [of ys] by (auto simp: capacity_inv_def)
  moreover have "0 < sv_workers V" using assms(1,2) by (auto simp: capacity_inv_def)
  ultimately show ?thesis using assms AtCapacity by (auto simp: capacity_inv_def split: if_splits)
next
  case AtInsert
  then have "sv_app V' = (sv_app V)\<lparr>as_registry := AList.update (rg_device_id reg) (entry_of_register c reg) (as_registry (sv_app V))\<rparr>"
      "nxt = None"
    using assms(3,5) by simp_all
  with assms(1,2,4,6) AtInsert show ?thesis by (auto simp: capacity_inv_def length_alist_update)
qed

lemma map_leD: "j \<subseteq>\<^sub>m j' \<Longrightarrow> j x = Some y \<Longrightarrow> j' x = Some y"
  by (metis domI map_le_def)

lemma map_le_fresh: "c \<notin> dom j \<Longrightarrow> j \<subseteq>\<^sub>m j(c \<mapsto> x)"
  by (simp add: map_le_def)

lemma slots_inv_mono: "slots_inv slots j out \<Longrightarrow> j \<subseteq>\<^sub>m j' \<Longrightarrow> slots_inv slots j' (out @ out')"
  unfolding slots_inv_def by (simp add: map_leD)

lemma slots_inv_delete: "slots_inv slots joined out \<Longrightarrow> slots_inv (AList.delete t slots) joined out"
  by (auto simp: slots_inv_def delete_conv' split: if_splits)

lemma slots_inv_new:
  assumes "slots_inv slots j out" "issued out t"
  shows "slots_inv (AList.update t \<lparr>rs_host = None, rs_viewer = None\<rparr> slots) j out"
  using assms by (simp add: slots_inv_def update_Some_unfold)

lemma conns_inv_mono: "conns_inv relay j \<Longrightarrow> j \<subseteq>\<^sub>m j' \<Longrightarrow> conns_inv relay j'"
  unfolding conns_inv_def by (simp add: map_leD)

lemma paired_mono: "paired j c q \<Longrightarrow> j \<subseteq>\<^sub>m j' \<Longrightarrow> paired j' c q"
  unfolding paired_def by (meson map_leD)

lemma relay_join_Some:
  assumes "relay_join S c token rl = Some (S', peer)"
  obtains slot where "map_of (as_relay_sessions S) token = Some slot" "token_ok token"
    "peer = slot_peer (rl = Some ''host'') slot"
    "S' = S\<lparr>as_relay_sessions := AList.update token
       (if rl = Some ''host'' then slot\<lparr>rs_host := Some c\<rparr> else slot\<lparr>rs_viewer := Some c\<rparr>) (as_relay_sessions S)\<rparr>"
  using assms by (auto simp: relay_join_def Let_def split: if_splits option.splits)

lemma slot_peer_joined:
  assumes "slots_inv slots j out" "map_of slots t = Some s" "slot_peer b s = Some p"
  shows "j p = Some (t, \<not> b)"
  using assms by (auto simp: slots_inv_def slot_peer_def split: if_splits)

lemma server_step_inv:
  assumes "server_step B E V V'" "server_inv V"
  shows "server_inv V'"
  using assms(1)
proof cases
  case (rdv_msg c ip my_id raw m now unix S' my_id' out)
  have "slots_inv (as_relay_sessions (sv_app V)) (sv_joined V) (sv_sent V @ out)"
    using assms(2) by (intro slots_inv_mono) (auto simp: server_inv_def)
  then have "slots_inv (as_relay_sessions S') (sv_joined V) (sv_sent V @ out)"
    using process_rdv_slots [OF rdv_msg(6)] slots_inv_new by (metis issued_append)
  with process_rdv_registry [OF rdv_msg(5,6)] assms(2) rdv_msg(1) show ?thesis
    by (auto simp: server_inv_def registry_inv_def capacity_inv_def)
next
  case (reg_refuse c ip my_id now unix reg S' out)
  have "slots_inv (as_relay_sessions (sv_app V)) (sv_joined V) (sv_sent V @ out)"
    using assms(2) by (intro slots_inv_mono) (auto simp: server_inv_def)
  moreover obtain rate where "S' = (sv_app V)\<lparr>as_connect_rate := rate\<rparr>" using register_admit_app [OF reg_refuse(4)] .
  ultimately show ?thesis using assms(2) by (auto simp: reg_refuse(1) server_inv_def registry_inv_def capacity_inv_def)
next
  case (reg_begin c ip my_id now unix reg S')
  obtain rate where "S' = (sv_app V)\<lparr>as_connect_rate := rate\<rparr>" using register_admit_app [OF reg_begin(5)] .
  then show ?thesis using assms(2) reg_begin(4) by (auto simp: reg_begin(1) server_inv_def registry_inv_def capacity_inv_def)
next
  case (reg_continue xs c reg ph ys S' nxt out ip my_id)
  have "slots_inv (as_relay_sessions (sv_app V)) (sv_joined V) (sv_sent V @ out)"
    using assms(2) by (intro slots_inv_mono) (auto simp: server_inv_def)
  moreover have "capacity_inv V'"
    using register_step_capacity [OF _ reg_continue(2,3), of V'] assms(2) by (simp add: reg_continue(1) server_inv_def)
  ultimately show ?thesis
    using register_step_keeps [OF reg_continue(3)] assms(2) by (auto simp: reg_continue(1) server_inv_def)
next
  case (join c token rl S' peer)
  let ?h = "rl = Some ''host''" and ?j = "(sv_joined V)(c \<mapsto> (token, rl = Some ''host''))"
  obtain slot where slot: "map_of (as_relay_sessions (sv_app V)) token = Some slot" "peer = slot_peer ?h slot"
    "S' = (sv_app V)\<lparr>as_relay_sessions := AList.update token
       (if ?h then slot\<lparr>rs_host := Some c\<rparr> else slot\<lparr>rs_viewer := Some c\<rparr>) (as_relay_sessions (sv_app V))\<rparr>"
    using relay_join_Some [OF join(3)] by blast
  have le: "sv_joined V \<subseteq>\<^sub>m ?j" using assms(2) join(2) by (intro map_le_fresh) (auto simp: server_inv_def)
  have slots: "slots_inv (as_relay_sessions (sv_app V)) ?j (sv_sent V @ [])"
    using assms(2) by (intro slots_inv_mono [OF _ le]) (simp add: server_inv_def)
  then have "slots_inv (as_relay_sessions S') ?j (sv_sent V)"
    using slot(1) by (auto simp: slots_inv_def slot(3) update_Some_unfold split: if_splits)
  moreover have "conns_inv ((sv_relay V)(c \<mapsto> \<lparr>rc_token = token, rc_is_host = ?h,
         rc_phase = (case peer of None \<Rightarrow> Waiting | Some p \<Rightarrow> Forwarding p)\<rparr>)) ?j"
    using conns_inv_mono [OF _ le, of "sv_relay V"] slot_peer_joined [OF slots slot(1), of ?h] assms(2)
    by (auto simp: conns_inv_def server_inv_def slot(2) split: option.splits)
  moreover have "issued (sv_sent V) token" using slots slot(1) by (auto simp: slots_inv_def)
  ultimately show ?thesis
    using assms(2) paired_mono [OF _ le] by (auto simp: join(1) server_inv_def registry_inv_def capacity_inv_def slot(3))
next
  case (poll c r p)
  obtain s where "map_of (as_relay_sessions (sv_app V)) (rc_token r) = Some s" "slot_peer (rc_is_host r) s = Some p"
    using poll(4) by (auto simp: relay_poll_def split: option.splits)
  then have "sv_joined V p = Some (rc_token r, \<not> rc_is_host r)"
    using assms(2) slot_peer_joined by (auto simp: server_inv_def)
  with assms(2) poll(1-3) show ?thesis by (auto simp: server_inv_def conns_inv_def capacity_inv_def)
next
  case (forward c r p w q d)
  have "q = p" "length d \<le> MAX_RELAY_MSG_BYTES" using forward(4) by (cases w; auto split: if_splits)+
  with assms(2) forward(1-3) show ?thesis by (auto simp: server_inv_def conns_inv_def paired_def capacity_inv_def)
next
  case (rdv_close c ip my_id)
  have "capacity_inv V'"
    using assms(2) length_delete_le [of "the my_id" "as_registry (sv_app V)"]
    by (auto simp: rdv_close(1) server_inv_def capacity_inv_def rdv_disconnect_def split: option.splits)
  then show ?thesis using assms(2) registry_inv_delete by (auto simp: rdv_close(1) server_inv_def rdv_disconnect_def split: option.splits)
qed (use assms(2) slots_inv_delete in \<open>auto simp: server_inv_def reap_slot_def relay_remove_def capacity_inv_def
       registry_inv_def conns_inv_def split: option.splits\<close>)

lemma server_inv_init: "as_registry S = [] \<Longrightarrow> as_relay_sessions S = [] \<Longrightarrow> server_inv (server_init n S)"
  by (simp add: server_inv_def server_init_def registry_inv_def capacity_inv_def slots_inv_def conns_inv_def)

lemma server_reach_inv:
  "server_reach B E n S V \<Longrightarrow> as_registry S = [] \<Longrightarrow> as_relay_sessions S = [] \<Longrightarrow> server_inv V"
  by (induction rule: server_reach.induct) (auto intro: server_inv_init server_step_inv)

section \<open>Bound of the rate limit\<close>

text \<open>The requests of a run that are allowed, with their time and address.\<close>

fun rate_grants :: "(ip_addr \<times> connect_bucket) list \<Rightarrow> (nat \<times> ip_addr) list \<Rightarrow> (nat \<times> ip_addr) list" where
  "rate_grants rate [] = []"
| "rate_grants rate ((now, ip) # rs) =
     (let (ok, rate') = check_connect_rate now ip rate in (if ok then [(now, ip)] else []) @ rate_grants rate' rs)"

definition granted_within :: "nat \<Rightarrow> ip_addr \<Rightarrow> (nat \<times> ip_addr) list \<Rightarrow> nat" where
  "granted_within t0 ip gs = length (filter (\<lambda>(t, i). i = ip \<and> t0 \<le> t \<and> t < t0 + CONNECT_RATE_WINDOW) gs)"

lemma granted_within_simps [simp]:
  "granted_within t0 ip [] = 0"
  "granted_within t0 ip (gs @ gs') = granted_within t0 ip gs + granted_within t0 ip gs'"
  "granted_within t0 ip ((t, i) # gs) =
     (if i = ip \<and> t0 \<le> t \<and> t < t0 + CONNECT_RATE_WINDOW then Suc (granted_within t0 ip gs) else granted_within t0 ip gs)"
  by (simp_all add: granted_within_def)

lemma rate_window_pos: "0 < CONNECT_RATE_WINDOW"
  by (simp add: CONNECT_RATE_WINDOW_def)

lemma map_of_prune:
  "distinct (map fst rate) \<Longrightarrow> map_of (prune_rate now rate) ip =
     (case map_of rate ip of None \<Rightarrow> None
      | Some b \<Rightarrow> if now - cb_window_start b < CONNECT_RATE_WINDOW * 2 then Some b else None)"
proof (induction rate)
  case (Cons x rate)
  then show ?case
    by (cases x) (auto simp: prune_rate_def map_of_eq_None_iff image_iff split: option.splits)
qed (simp add: prune_rate_def)

lemma distinct_check_rate:
  "distinct (map fst rate) \<Longrightarrow> distinct (map fst (snd (check_connect_rate now ip rate)))"
  by (auto simp: check_connect_rate_def Let_def prune_rate_def distinct_map_filter intro!: distinct_update)

text \<open>What one request does to the bucket of an address, whatever was pruned.\<close>

lemma check_rate_bucket:
  assumes "distinct (map fst rate)" "check_connect_rate now ip rate = (ok, rate')"
  shows "ok = (cb_count (bucket_at now (map_of rate ip)) < CONNECT_RATE_LIMIT)"
    and "map_of rate' ip = Some (let b = bucket_at now (map_of rate ip) in if ok then b\<lparr>cb_count := cb_count b + 1\<rparr> else b)"
proof -
  have b: "bucket_at now (map_of (prune_rate now rate) ip) = bucket_at now (map_of rate ip)"
    using assms(1) by (auto simp: map_of_prune bucket_at_def Let_def split: option.splits)
  show "ok = (cb_count (bucket_at now (map_of rate ip)) < CONNECT_RATE_LIMIT)"
    and "map_of rate' ip = Some (let b = bucket_at now (map_of rate ip) in if ok then b\<lparr>cb_count := cb_count b + 1\<rparr> else b)"
    using assms(2) by (auto simp: check_connect_rate_def Let_def b update_conv' split: if_splits)
qed

lemma check_rate_other:
  assumes "distinct (map fst rate)" "check_connect_rate now ip rate = (ok, rate')" "i \<noteq> ip"
    and "\<And>b. map_of rate i = Some b \<Longrightarrow> now - cb_window_start b < CONNECT_RATE_WINDOW * 2"
  shows "map_of rate' i = map_of rate i"
  using assms
  by (auto simp: check_connect_rate_def Let_def update_conv' map_of_prune split: if_splits option.splits)

lemma grants_after:
  assumes "\<forall>(t, i) \<in> set rs. t0 + CONNECT_RATE_WINDOW \<le> t"
  shows "granted_within t0 ip (rate_grants rate rs) = 0"
  using assms by (induction rs arbitrary: rate) (auto split: prod.splits)

lemma bucket_count_Suc: "c < CONNECT_RATE_LIMIT \<Longrightarrow> unat (c + 1) = Suc (unat c) \<and> unat c < 20"
  by (auto simp: CONNECT_RATE_LIMIT_def word_less_nat_alt unat_word_ariths)

lemma grants_this_window:
  assumes "distinct (map fst rate)" "map_of rate ip = Some b" "t0 \<le> cb_window_start b"
    and "sorted (map fst rs)" "\<forall>(t, i) \<in> set rs. cb_window_start b \<le> t"
  shows "granted_within t0 ip (rate_grants rate rs) \<le> 20 - unat (cb_count b)"
  using assms
proof (induction rs arbitrary: rate b)
  case (Cons r rs)
  obtain t i where r: "r = (t, i)" by (cases r)
  obtain ok rate' where c: "check_connect_rate t i rate = (ok, rate')" by fastforce
  have d: "distinct (map fst rate')" using distinct_check_rate [OF Cons.prems(1), of t i] by (simp add: c)
  show ?case
  proof (cases "t0 + CONNECT_RATE_WINDOW \<le> t")
    case True
    with Cons.prems(4) have "\<forall>(u, i) \<in> set (r # rs). t0 + CONNECT_RATE_WINDOW \<le> u" by (fastforce simp: r)
    then show ?thesis using grants_after by simp
  next
    case False
    with Cons.prems(3,5) have w: "t - cb_window_start b < CONNECT_RATE_WINDOW" by (auto simp: r)
    have rs: "sorted (map fst rs)" "\<forall>(t, i) \<in> set rs. cb_window_start b \<le> t" using Cons.prems(4,5) by (auto simp: r)
    show ?thesis
    proof (cases "i = ip")
      case True
      have bk: "bucket_at t (map_of rate ip) = b" using w by (simp add: bucket_at_def Cons.prems(2))
      have ok: "ok = (cb_count b < CONNECT_RATE_LIMIT)"
        and m: "map_of rate' ip = Some (if ok then b\<lparr>cb_count := cb_count b + 1\<rparr> else b)"
        using check_rate_bucket [OF Cons.prems(1) c [unfolded True]] by (simp_all add: bk Let_def)
      show ?thesis
      proof (cases ok)
        case True
        have "granted_within t0 ip (rate_grants rate' rs) \<le> 20 - unat (cb_count b + 1)"
          using Cons.IH [OF d m] Cons.prems(3) rs by (simp add: True)
        with bucket_count_Suc [of "cb_count b"] ok True show ?thesis by (auto simp: r c)
      next
        case False
        with Cons.IH [OF d m] Cons.prems(3) rs show ?thesis by (simp add: r c)
      qed
    next
      case False
      have "map_of rate' ip = Some b"
        using check_rate_other [OF Cons.prems(1) c, of ip] False w Cons.prems(2) by simp
      with Cons.IH [OF d this] Cons.prems(3) rs False show ?thesis by (simp add: r c)
    qed
  qed
qed simp


lemma grants_from:
  assumes "distinct (map fst rate)" "sorted (map fst rs)" "\<forall>(t, i) \<in> set rs. t0 \<le> t"
  shows "granted_within t0 ip (rate_grants rate rs) \<le>
    (case map_of rate ip of None \<Rightarrow> 20 | Some b \<Rightarrow> 20 + (20 - unat (cb_count b)))"
  using assms
proof (induction rs arbitrary: rate)
  case (Cons r rs)
  obtain t i where r: "r = (t, i)" by (cases r)
  obtain ok rate' where c: "check_connect_rate t i rate = (ok, rate')" by fastforce
  have d: "distinct (map fst rate')" using distinct_check_rate [OF Cons.prems(1), of t i] by (simp add: c)
  have rs: "sorted (map fst rs)" "\<forall>(t, i) \<in> set rs. t0 \<le> t" "\<forall>(u, i) \<in> set rs. t \<le> u" and t: "t0 \<le> t"
    using Cons.prems(2,3) by (auto simp: r)
  note IH = Cons.IH [OF d rs(1,2)]
  show ?case
  proof (cases "i = ip")
    case False
    have "map_of rate' ip = map_of rate ip \<or> map_of rate' ip = None"
      using c False Cons.prems(1)
      by (auto simp: check_connect_rate_def Let_def update_conv' map_of_prune split: if_splits option.splits)
    with IH False show ?thesis by (auto simp: r c split: option.splits)
  next
    case True
    let ?b = "bucket_at t (map_of rate ip)"
    have ok: "ok = (cb_count ?b < CONNECT_RATE_LIMIT)"
      and m: "map_of rate' ip = Some (if ok then ?b\<lparr>cb_count := cb_count ?b + 1\<rparr> else ?b)"
      using check_rate_bucket [OF Cons.prems(1) c [unfolded True]] by (simp_all add: Let_def)
    show ?thesis
    proof (cases "?b = \<lparr>cb_count = 0, cb_window_start = t\<rparr>")
      case True
      then have ok: ok using ok by (simp add: CONNECT_RATE_LIMIT_def)
      have "granted_within t0 ip (rate_grants rate' rs) \<le> 19"
        using grants_this_window [OF d m _ rs(1)] t rs(3) ok by (simp add: True)
      then show ?thesis using ok by (auto simp: r c split: option.splits)
    next
      case False
      then obtain b where b: "map_of rate ip = Some b" "?b = b"
        by (auto simp: bucket_at_def Let_def split: option.splits if_splits)
      note b2 = b(2) [unfolded b(1)]
      show ?thesis
        using IH m ok bucket_count_Suc [of "cb_count b"] by (auto simp: r c b(1) b2 split: if_splits)
    qed
  qed
qed simp

lemma grants_any:
  assumes "distinct (map fst rate)" "sorted (map fst rs)"
  shows "granted_within t0 ip (rate_grants rate rs) \<le> 40"
  using assms
proof (induction rs arbitrary: rate)
  case (Cons r rs)
  obtain t i where r: "r = (t, i)" by (cases r)
  show ?case
  proof (cases "t0 \<le> t")
    case True
    with Cons.prems(2) have "\<forall>(u, i) \<in> set (r # rs). t0 \<le> u" by (fastforce simp: r)
    from grants_from [OF Cons.prems this, of ip] show ?thesis by (auto split: option.splits)
  next
    case False
    obtain ok rate' where c: "check_connect_rate t i rate = (ok, rate')" by fastforce
    have d: "distinct (map fst rate')" using distinct_check_rate [OF Cons.prems(1), of t i] by (simp add: c)
    from Cons.IH [OF d] Cons.prems(2) False show ?thesis by (simp add: r c)
  qed
qed simp

text \<open>
  The request limit per address: in every sequence of requests in the order of time, no sixty
  seconds contain more than forty allowed registrations and connection requests of one address (twice
  the nominal limit, since the window is fixed and does not slide).\<close>

theorem connect_rate_bound:
  assumes "sorted (map fst rs)"
  shows "granted_within t0 ip (rate_grants [] rs) \<le> 40"
  using grants_any [OF _ assms, of "[]"] by simp

definition wit_rate_requests :: "(nat \<times> ip_addr) list" where
  "wit_rate_requests = [(0, V4 1), (5, V4 2), (7, V4 1), (60000000000, V4 1)]"

theorem connect_rate_bound_witness:
  "granted_within 1 (V4 1) (rate_grants [] wit_rate_requests) = 2 \<and>
   granted_within 1 (V4 1) (rate_grants [] wit_rate_requests) \<le> 40"
proof -
  have "granted_within 1 (V4 1) (rate_grants [] wit_rate_requests) = 2"
    by (simp add: wit_rate_requests_def check_connect_rate_def prune_rate_def bucket_at_def CONNECT_RATE_WINDOW_def
        CONNECT_RATE_LIMIT_def)
  moreover have "sorted (map fst wit_rate_requests)" by (simp add: wit_rate_requests_def)
  ultimately show ?thesis using connect_rate_bound [of wit_rate_requests 1 "V4 1"] by blast
qed

section \<open>Properties of the running server\<close>

text \<open>What the forwarding loop passes on of a list of frames.\<close>

lemma relay_pump_frames:
  "length oks = length fs \<Longrightarrow>
   map snd (relay_pump q (zip (map WsBinary fs) oks)) =
     take (length (takeWhile (\<lambda>(f, ok). length f \<le> MAX_RELAY_MSG_BYTES \<and> ok) (zip fs oks))) fs"
proof (induction fs arbitrary: oks)
  case (Cons f fs)
  then obtain ok oks' where "oks = ok # oks'" by (cases oks) auto
  with Cons show ?case by auto
qed simp

lemma process_rdv_max:
  assumes "process_rdv_msg B E S now unix raw c my_id ip m = (S', my_id', out)"
  shows "as_max_devices S' = as_max_devices S"
  using assms
  by (cases m) (auto simp: process_connect_def Let_def elim: process_register_cases split: if_splits prod.splits option.splits)

lemma register_step_max: "register_step S c reg ph = (S', nxt, out) \<Longrightarrow> as_max_devices S' = as_max_devices S"
  by (cases ph) (auto split: if_splits)

lemma server_step_max:
  assumes "server_step B E V V'"
  shows "as_max_devices (sv_app V') = as_max_devices (sv_app V) \<and> sv_workers V' = sv_workers V"
  using assms
  by cases (auto simp: rdv_disconnect_def reap_slot_def relay_remove_def process_rdv_max register_step_max
      elim: relay_join_Some register_admit_app split: option.splits)

lemma server_reach_max:
  "server_reach B E n S V \<Longrightarrow> as_max_devices (sv_app V) = as_max_devices S \<and> sv_workers V = n"
  by (induction rule: server_reach.induct) (auto simp: server_init_def dest: server_step_max)

text \<open>
  C18. The relay joins only partners, and the registry stays within its bounds. In every reachable state of a server with \<open>n\<close> worker threads,
  whatever the order of messages, joins, time-outs and disconnects: every frame that was passed on went from a connection to another
  that joined with the same token and the opposite role, the token had been handed out by the
  rendezvous service, and the frame was at most 4 MiB; the registry has one entry per device; and it has at most \<open>n - 1\<close> entries more than the
  configured number, since the other threads may insert between the look at the number of entries and the insertion.\<close>

theorem relay_joins_partners:
  assumes "server_reach B E n (app_new port max_dev max_rel host strict) V"
  shows "(\<forall>c q d. (c, q, d) \<in> set (sv_forwarded V) \<longrightarrow>
       (\<exists>t b. sv_joined V c = Some (t, b) \<and> sv_joined V q = Some (t, \<not> b) \<and> issued (sv_sent V) t) \<and>
       length d \<le> MAX_RELAY_MSG_BYTES) \<and>
    distinct (map fst (as_registry (sv_app V))) \<and>
    length (as_registry (sv_app V)) \<le> as_max_devices (app_new port max_dev max_rel host strict) + (n - 1)"
proof -
  have inv: "server_inv V" using server_reach_inv [OF assms(1)] by (simp add: app_new_def)
  then have "\<And>c q d. (c, q, d) \<in> set (sv_forwarded V) \<Longrightarrow> paired (sv_joined V) c q \<and> length d \<le> MAX_RELAY_MSG_BYTES"
    "registry_inv (sv_app V)" "capacity_inv V" "\<And>c t b. sv_joined V c = Some (t, b) \<Longrightarrow> issued (sv_sent V) t"
    by (auto simp: server_inv_def)
  moreover from this(3) have "length (as_registry (sv_app V)) \<le> as_max_devices (app_new port max_dev max_rel host strict) + (n - 1)"
    using server_reach_max [OF assms(1)] unfolding capacity_inv_def by linarith
  ultimately show ?thesis by (simp add: paired_def registry_inv_def) blast
qed

text \<open>A registration that no other thread interrupts, as a run of the step relation.\<close>

lemma reach_register:
  assumes "server_reach B E n S V" "sv_tasks V = []" "0 < sv_workers V" "sv_rdv V c = Some (ip, my_id)"
    and p: "process_register B E (sv_app V) now unix c my_id ip reg = (S', Some (rg_device_id reg), [(c, MsgRegisterAck ack)])"
  obtains V' where "server_reach B E n S V'" "V' = V\<lparr>sv_app := S', sv_rdv := (sv_rdv V)(c \<mapsto> (ip, Some (rg_device_id reg))),
    sv_sent := sv_sent V @ [(c, MsgRegisterAck ack)]\<rparr>"
proof -
  obtain S1 where 1: "register_admit B E (sv_app V) now unix c ip reg = (S1, None)"
      "\<not> lock_refuses (as_registry S1) reg" "length (as_registry S1) < as_max_devices S1"
      "register_step S1 c reg AtInsert = (S', None, [(c, MsgRegisterAck ack)])"
    using p unfolding process_register_steps
    by (auto simp: error_to_def not_le register_admit_def Let_def split: prod.splits option.splits if_splits sum.splits)
  define V1 where "V1 ph = V\<lparr>sv_app := S1, sv_tasks := [(c, reg, ph)]\<rparr>" for ph
  have r1: "server_reach B E n S (V1 AtLock)"
    using server_reach.step [OF assms(1) server_step.reg_begin [OF assms(4) _ _ 1(1)]] assms(2,3) by (simp add: V1_def)
  have same: "V\<lparr>sv_app := S1, sv_tasks := ts, sv_rdv := (sv_rdv V)(c \<mapsto> (ip, my_id))\<rparr> = V\<lparr>sv_app := S1, sv_tasks := ts\<rparr>" for ts
    using assms(4) by (cases V) (simp add: fun_upd_idem)
  have r2: "server_reach B E n S (V1 AtCapacity)"
    using server_reach.step [OF r1 server_step.reg_continue [of "V1 AtLock" "[]" c reg AtLock "[]" S1 "Some AtCapacity" "[]" ip my_id]]
      1(2) assms(4) by (simp add: V1_def same)
  have r3: "server_reach B E n S (V1 AtInsert)"
    using server_reach.step [OF r2 server_step.reg_continue [of "V1 AtCapacity" "[]" c reg AtCapacity "[]" S1 "Some AtInsert" "[]" ip my_id]]
      1(3) assms(4) by (simp add: V1_def same)
  have "server_reach B E n S (V\<lparr>sv_app := S', sv_tasks := [], sv_rdv := (sv_rdv V)(c \<mapsto> (ip, Some (rg_device_id reg))),
      sv_sent := sv_sent V @ [(c, MsgRegisterAck ack)]\<rparr>)"
    using server_reach.step [OF r3 server_step.reg_continue [of "V1 AtInsert" "[]" c reg AtInsert "[]" S' None _ ip my_id]]
      1(4) assms(4) by (simp add: V1_def)
  moreover have "V\<lparr>sv_app := S', sv_tasks := [], sv_rdv := f, sv_sent := g\<rparr> = V\<lparr>sv_app := S', sv_rdv := f, sv_sent := g\<rparr>" for f g
    using assms(2) by (cases V) simp
  ultimately show thesis using that by simp
qed

text \<open>A session: a device registers, a viewer asks for it, both join, the viewer sends a byte.\<close>

definition wit_token :: string where
  "wit_token = hex_encode (replicate 16 0)"

lemma wit_token_ok: "token_ok wit_token"
  by code_simp

lemma wit_relay_reach:
  obtains V where "server_reach B E 2 (wit_signal False) V" "(4, 3, [1]) \<in> set (sv_forwarded V)"
proof -
  let ?reg = "\<lparr>rg_device_id = ''D1'', rg_pubkey = [], rg_pub_addr = None, rg_pub_port = None, rg_signature = None, rg_signed_at_sec = None\<rparr>"
  let ?req = "\<lparr>cr_target_id = ''D1'', cr_viewer_addr = [], cr_viewer_port = 0\<rparr>"
  let ?S = "wit_signal False"
  define W2 where "W2 = (server_init 2 ?S)\<lparr>sv_rdv := [1 \<mapsto> (V4 1, None), 2 \<mapsto> (V4 2, None)], sv_used := {2, 1}\<rparr>"
  have r2: "server_reach B E 2 ?S W2"
    using server_reach.step [OF server_reach.step [OF server_reach.start
        server_step.rdv_open [of 1 _ B E "V4 1"]] server_step.rdv_open [of 2 _ B E "V4 2"]]
    by (simp add: W2_def server_init_def)
  have W2sel: "sv_rdv W2 1 = Some (V4 1, None)" "sv_app W2 = ?S" by (simp_all add: W2_def server_init_def)
  obtain S3 ack where p3: "process_register B E ?S 0 0 1 None (V4 1) ?reg = (S3, Some (rg_device_id ?reg), [(1, MsgRegisterAck ack)])"
      "as_registry S3 = [(''D1'', entry_of_register 1 ?reg)]" "as_relay_sessions S3 = []"
      "as_connect_rate S3 = [(V4 1, \<lparr>cb_count = 1, cb_window_start = 0\<rparr>)]"
    by (simp add: process_register_def wit_signal_def app_new_def wit_signal_rate register_too_long_def
        verify_register_signature_def lock_refuses_def register_ack_for_def)
  have W2free: "sv_tasks W2 = []" "0 < sv_workers W2" by (simp_all add: W2_def server_init_def)
  obtain W3 where r3: "server_reach B E 2 ?S W3" "W3 = W2\<lparr>sv_app := S3, sv_rdv := (sv_rdv W2)(1 \<mapsto> (V4 1, Some (rg_device_id ?reg))),
      sv_sent := sv_sent W2 @ [(1, MsgRegisterAck ack)]\<rparr>"
    using reach_register [OF r2 W2free W2sel(1) p3(1) [folded W2sel(2)]] by blast
  have W3sel: "sv_rdv W3 2 = Some (V4 2, None)" "sv_app W3 = S3" "sv_tasks W3 = []" by (simp_all add: r3(2) W2_def server_init_def)
  obtain S4 out4 where p4: "process_rdv_msg B E S3 1 0 (replicate 16 0) 2 None (V4 2) (MsgConnect ?req) = (S4, None, out4)"
      "as_relay_sessions S4 = [(wit_token, \<lparr>rs_host = None, rs_viewer = None\<rparr>)]"
    using p3(2-4)
    by (simp add: process_connect_def check_connect_rate_def prune_rate_def bucket_at_def CONNECT_RATE_WINDOW_def
        CONNECT_RATE_LIMIT_def wit_token_def Let_def)
  define W4 where "W4 = W3\<lparr>sv_app := S4, sv_rdv := (sv_rdv W3)(2 \<mapsto> (V4 2, None)), sv_sent := sv_sent W3 @ out4\<rparr>"
  have r4: "server_reach B E 2 ?S W4"
    unfolding W4_def
    by (rule server_reach.step [OF r3(1) server_step.rdv_msg [OF W3sel(1) _ _ _ p4(1) [folded W3sel(2)]]]) (simp_all add: W3sel(3))
  have used: "sv_used W4 = {2, 1}" "sv_app W4 = S4" by (simp_all add: W4_def r3(2) W2_def)
  obtain S5 where p5: "relay_join S4 3 wit_token (Some ''host'') = Some (S5, None)"
      "as_relay_sessions S5 = [(wit_token, \<lparr>rs_host = Some 3, rs_viewer = None\<rparr>)]"
    using p4(2) wit_token_ok by (simp add: relay_join_def slot_peer_def)
  obtain S6 where p6: "relay_join S5 4 wit_token (Some ''viewer'') = Some (S6, Some 3)"
    using p5(2) wit_token_ok by (simp add: relay_join_def slot_peer_def)
  obtain V5 where r5: "server_reach B E 2 ?S V5" "sv_app V5 = S5" "sv_used V5 = {3, 2, 1}"
    using server_reach.step [OF r4 server_step.join [of 3 W4 wit_token "Some ''host''" S5 None]] p5(1) used by auto
  obtain V6 r where r6: "server_reach B E 2 ?S V6" "sv_relay V6 4 = Some r" "rc_phase r = Forwarding 3"
    using server_reach.step [OF r5(1) server_step.join [of 4 V5 wit_token "Some ''viewer''" S6 "Some 3"]] p6 r5 by auto
  have "relay_forward 3 (WsBinary [1]) = ForwardTo 3 [1]" by (simp add: MAX_RELAY_MSG_BYTES_def)
  from server_reach.step [OF r6(1) server_step.forward [OF r6(2,3) this]] show thesis by (rule that) simp
qed

theorem relay_joins_partners_witness:
  "\<exists>V t. server_reach demo_base64 demo_ed25519 2 (app_new 21117 (Some 3) None None False) V \<and> length (as_registry (sv_app V)) \<le> 4 \<and>
     map_option fst (sv_joined V 4) = Some t \<and> map_option fst (sv_joined V 3) = Some t \<and> issued (sv_sent V) t"
proof -
  obtain V where V: "server_reach demo_base64 demo_ed25519 2 (app_new 21117 (Some 3) None None False) V" "(4, 3, [1]) \<in> set (sv_forwarded V)"
    using wit_relay_reach [of demo_base64 demo_ed25519] unfolding wit_signal_def by blast
  from relay_joins_partners [OF V(1)] V(2) obtain t b where
    "sv_joined V 4 = Some (t, b)" "sv_joined V 3 = Some (t, \<not> b)" "issued (sv_sent V) t" "length (as_registry (sv_app V)) \<le> 4"
    by (fastforce simp: app_new_def)
  then show ?thesis using V(1) by (intro exI [of _ V] exI [of _ t]) simp
qed

text \<open>
  The bound is sharp: with two worker threads and room for one device, two registrations that look at the number of entries before either inserts
  leave two devices in the registry.
\<close>

definition wit_race_register :: "string \<Rightarrow> register" where
  "wit_race_register d = \<lparr>rg_device_id = d, rg_pubkey = [], rg_pub_addr = None, rg_pub_port = None, rg_signature = None, rg_signed_at_sec = None\<rparr>"

lemma race_continue:
  assumes "server_reach B E n S V" "sv_tasks V = xs @ (c, reg, ph) # ys" "register_step (sv_app V) c reg ph = (S', nxt, out)"
    and "c \<in> dom (sv_rdv V)"
  obtains V' where "server_reach B E n S V'" "sv_app V' = S'" "sv_tasks V' = xs @ (case nxt of None \<Rightarrow> [] | Some ph' \<Rightarrow> [(c, reg, ph')]) @ ys"
    "dom (sv_rdv V') = dom (sv_rdv V)"
proof -
  obtain ip my_id where "sv_rdv V c = Some (ip, my_id)" using assms(4) by auto
  from server_reach.step [OF assms(1) server_step.reg_continue [OF assms(2,3) this]] show thesis
    by (rule that) (use assms(4) in \<open>auto simp: insert_absorb\<close>)
qed

theorem registry_limit_exceeded:
  "\<exists>V. server_reach B E 2 (app_new port (Some 1) max_rel host False) V \<and> length (as_registry (sv_app V)) = 2"
proof -
  let ?S = "app_new port (Some 1) max_rel host False"
  let ?a = "wit_race_register ''A''" and ?b = "wit_race_register ''B''"
  have adm: "register_admit B E S 0 0 c ip (wit_race_register d) = (S\<lparr>as_connect_rate := snd (check_connect_rate 0 ip (as_connect_rate S))\<rparr>, None)"
    if "fst (check_connect_rate 0 ip (as_connect_rate S))" "\<not> as_require_signed_register S" "length d \<le> 256" for S c ip d
    using that by (cases "check_connect_rate 0 ip (as_connect_rate S)")
      (simp add: register_admit_def register_too_long_def wit_race_register_def verify_register_signature_def)
  have "server_reach B E 2 ?S (server_init 2 ?S)" by (rule server_reach.start)
  from server_reach.step [OF this server_step.rdv_open [of 1 _ B E "V4 1"]]
  obtain V1 where 1: "server_reach B E 2 ?S V1" "sv_app V1 = ?S" "sv_tasks V1 = []" "sv_workers V1 = 2" "sv_used V1 = {1}" "sv_rdv V1 1 = Some (V4 1, None)"
    by (auto simp: server_init_def)
  from server_reach.step [OF 1(1) server_step.rdv_open [of 2 V1 B E "V4 2"]] 1
  obtain V2 where 2: "server_reach B E 2 ?S V2" "sv_app V2 = ?S" "sv_tasks V2 = []" "sv_workers V2 = 2"
      "sv_rdv V2 1 = Some (V4 1, None)" "sv_rdv V2 2 = Some (V4 2, None)"
    by auto
  let ?S3 = "?S\<lparr>as_connect_rate := [(V4 1, \<lparr>cb_count = 1, cb_window_start = 0\<rparr>)]\<rparr>"
  have rate1: "check_connect_rate 0 (V4 1) (as_connect_rate ?S) = (True, [(V4 1, \<lparr>cb_count = 1, cb_window_start = 0\<rparr>)])"
    by (simp add: app_new_def wit_signal_rate)
  have "register_admit B E (sv_app V2) 0 0 1 (V4 1) ?a = (?S3, None)"
    using adm [of "V4 1" ?S "''A''" 1] unfolding 2(2) rate1 by (simp add: app_new_def)
  from server_reach.step [OF 2(1) server_step.reg_begin [OF 2(5) _ _ this]] 2
  obtain V3 where 3: "server_reach B E 2 ?S V3" "sv_app V3 = ?S3" "sv_tasks V3 = [(1, ?a, AtLock)]" "sv_workers V3 = 2"
      "sv_rdv V3 1 = Some (V4 1, None)" "sv_rdv V3 2 = Some (V4 2, None)"
    by auto
  obtain S4 where S4: "register_admit B E (sv_app V3) 0 0 2 (V4 2) ?b = (S4, None)" "as_registry S4 = []" "as_max_devices S4 = 1"
    using adm [of "V4 2" ?S3 "''B''" 2] unfolding 3(2)
    by (simp add: app_new_def check_connect_rate_def prune_rate_def bucket_at_def CONNECT_RATE_WINDOW_def CONNECT_RATE_LIMIT_def)
  define W4 where "W4 = V3\<lparr>sv_app := S4, sv_tasks := [(1, ?a, AtLock), (2, ?b, AtLock)]\<rparr>"
  have 4: "server_reach B E 2 ?S W4" "sv_app W4 = S4" "sv_tasks W4 = [(1, ?a, AtLock), (2, ?b, AtLock)]" "{1, 2} \<subseteq> dom (sv_rdv W4)"
    using server_reach.step [OF 3(1) server_step.reg_begin [OF 3(6) _ _ S4(1)]] 3 by (auto simp: W4_def)
  have ids: "rg_device_id ?a = ''A''" "rg_device_id ?b = ''B''" by (simp_all add: wit_race_register_def)
  have nolock: "\<not> lock_refuses [] r" for r by (simp add: lock_refuses_def)
  obtain V5 where 5: "server_reach B E 2 ?S V5" "sv_app V5 = S4" "sv_tasks V5 = [(1, ?a, AtCapacity), (2, ?b, AtLock)]"
      "{1, 2} \<subseteq> dom (sv_rdv V5)"
    by (rule race_continue [OF 4(1), of "[]" 1 ?a AtLock "[(2, ?b, AtLock)]" S4 "Some AtCapacity" "[]"]) (use 4 S4(2) nolock in auto)
  obtain V6 where 6: "server_reach B E 2 ?S V6" "sv_app V6 = S4" "sv_tasks V6 = [(1, ?a, AtCapacity), (2, ?b, AtCapacity)]"
      "{1, 2} \<subseteq> dom (sv_rdv V6)"
    by (rule race_continue [OF 5(1), of "[(1, ?a, AtCapacity)]" 2 ?b AtLock "[]" S4 "Some AtCapacity" "[]"]) (use 5 S4(2) nolock in auto)
  obtain V7 where 7: "server_reach B E 2 ?S V7" "sv_app V7 = S4" "sv_tasks V7 = [(1, ?a, AtInsert), (2, ?b, AtCapacity)]"
      "{1, 2} \<subseteq> dom (sv_rdv V7)"
    by (rule race_continue [OF 6(1), of "[]" 1 ?a AtCapacity "[(2, ?b, AtCapacity)]" S4 "Some AtInsert" "[]"]) (use 6 S4(2,3) in auto)
  obtain V8 where 8: "server_reach B E 2 ?S V8" "sv_app V8 = S4" "sv_tasks V8 = [(1, ?a, AtInsert), (2, ?b, AtInsert)]"
      "{1, 2} \<subseteq> dom (sv_rdv V8)"
    by (rule race_continue [OF 7(1), of "[(1, ?a, AtInsert)]" 2 ?b AtCapacity "[]" S4 "Some AtInsert" "[]"]) (use 7 S4(2,3) in auto)
  obtain V9 where 9: "server_reach B E 2 ?S V9" "sv_app V9 = S4\<lparr>as_registry := [(''A'', entry_of_register 1 ?a)]\<rparr>" "sv_tasks V9 = [(2, ?b, AtInsert)]"
      "dom (sv_rdv V9) = dom (sv_rdv V8)"
    by (rule race_continue [OF 8(1), of "[]" 1 ?a AtInsert "[(2, ?b, AtInsert)]"]) (use 8 S4(2) ids in auto)
  obtain V10 where "server_reach B E 2 ?S V10" "sv_app V10 = S4\<lparr>as_registry := [(''A'', entry_of_register 1 ?a), (''B'', entry_of_register 2 ?b)]\<rparr>"
    by (rule race_continue [OF 9(1), of "[]" 2 ?b AtInsert "[]"]) (use 8(4) 9 ids in auto)
  then show ?thesis by (intro exI [of _ V10]) simp
qed

text \<open>
  A late disconnect unregisters the reconnected device. When a device registers again over a new
  connection and the old connection is closed only afterwards, the entry of the new connection is
  removed: requests for the device are answered as if it were offline although it is connected.\<close>

theorem stale_disconnect_unregisters:
  assumes "process_register B E S now unix c' my_id ip reg = (S', Some (rg_device_id reg), [(c', MsgRegisterAck ack)])"
    and "cr_target_id req = rg_device_id reg" "length (rg_device_id reg) \<le> 256"
    and "fst (check_connect_rate now' ip' (as_connect_rate S'))"
  shows "de_tx (the (map_of (as_registry S') (rg_device_id reg))) = c' \<and>
    (\<exists>S'' txt. process_connect (rdv_disconnect S' (Some (rg_device_id reg))) now' raw v my_id' ip' req = (S'', my_id', error_to v 404 txt))"
proof -
  have e: "map_of (as_registry S') (rg_device_id reg) = Some (entry_of_register c' reg)"
    using assms(1) by (rule process_register_cases) (auto simp: update_conv' error_to_def)
  obtain rate where r: "check_connect_rate now' ip' (as_connect_rate S') = (True, rate)"
    using assms(4) by (cases "check_connect_rate now' ip' (as_connect_rate S')") auto
  have "\<exists>S'' txt. process_connect (rdv_disconnect S' (Some (rg_device_id reg))) now' raw v my_id' ip' req = (S'', my_id', error_to v 404 txt)"
    using assms(2,3) by (auto simp: process_connect_def rdv_disconnect_def r Let_def delete_conv')
  with e show ?thesis by (simp add: entry_of_register_def)
qed

theorem stale_disconnect_unregisters_witness:
  "\<exists>S' ack S'' txt. process_register demo_base64 demo_ed25519 (wit_signal False) 5 0 7 None (V4 1)
       \<lparr>rg_device_id = ''D1'', rg_pubkey = [], rg_pub_addr = None, rg_pub_port = None, rg_signature = None, rg_signed_at_sec = None\<rparr> =
       (S', Some ''D1'', [(7, MsgRegisterAck ack)]) \<and>
     process_connect (rdv_disconnect S' (Some ''D1'')) 9 [] 8 None (V4 2) \<lparr>cr_target_id = ''D1'', cr_viewer_addr = [], cr_viewer_port = 0\<rparr> =
       (S'', None, error_to 8 404 txt)"
proof -
  let ?reg = "\<lparr>rg_device_id = ''D1'', rg_pubkey = [], rg_pub_addr = None, rg_pub_port = None, rg_signature = None, rg_signed_at_sec = None\<rparr>"
  obtain S' ack where p: "process_register demo_base64 demo_ed25519 (wit_signal False) 5 0 7 None (V4 1) ?reg =
      (S', Some (rg_device_id ?reg), [(7, MsgRegisterAck ack)])" "as_connect_rate S' = [(V4 1, \<lparr>cb_count = 1, cb_window_start = 5\<rparr>)]"
    by (simp add: process_register_def wit_signal_def app_new_def wit_signal_rate register_too_long_def
        verify_register_signature_def lock_refuses_def register_ack_for_def)
  have r: "fst (check_connect_rate 9 (V4 2) (as_connect_rate S'))"
    by (simp add: p(2) check_connect_rate_def prune_rate_def bucket_at_def CONNECT_RATE_WINDOW_def CONNECT_RATE_LIMIT_def)
  from stale_disconnect_unregisters [OF p(1) _ _ r, of "\<lparr>cr_target_id = ''D1'', cr_viewer_addr = [], cr_viewer_port = 0\<rparr>" "[]" 8 None] p(1)
  show ?thesis by auto
qed

text \<open>The configured number of relay sessions limits nothing: an unknown token is refused in any case.\<close>

lemma relay_capacity_not_enforced:
  "map_option snd (relay_join (S\<lparr>as_max_relay_sessions := n\<rparr>) c token rl) = map_option snd (relay_join S c token rl)"
  by (auto simp: relay_join_def Let_def split: option.splits)

lemma connect_ignores_capacity:
  assumes "fst (check_connect_rate now ip (as_connect_rate S))" "map_of (as_registry S) (cr_target_id req) = Some e"
    and "length (cr_target_id req) \<le> 256" "hex_encode raw \<notin> set (map fst (as_relay_sessions S))"
  shows "length (as_relay_sessions (fst (process_connect S now raw c my_id ip req))) = Suc (length (as_relay_sessions S))"
  using assms
  by (cases "check_connect_rate now ip (as_connect_rate S)") (auto simp: process_connect_def Let_def length_alist_update)

end
