(* ===== verification/Text_Bytes.thy ===== *)
theory Text_Bytes
  imports Prelude
begin

text \<open>
  Text by characters and bytes by index: what \<open>str::chars\<close> and slice indexing mean, shared by the
  components that sanitize names or read binary headers.
\<close>

section \<open>Characters\<close>

text \<open>\<open>str::chars\<close>: the characters of a valid UTF-8 string, each as its bytes.\<close>

function utf8_chars :: "string \<Rightarrow> string list" where
  "utf8_chars [] = []"
| "utf8_chars (c # cs) =
     (c # takeWhile (\<lambda>x. utf8_cont (of_char x)) cs) # utf8_chars (dropWhile (\<lambda>x. utf8_cont (of_char x)) cs)"
  by pat_completeness auto
termination
  by (relation "measure length") (auto intro: le_imp_less_Suc length_dropWhile_le)

text \<open>\<open>s.chars().take(n).collect()\<close>.\<close>

definition take_chars :: "nat \<Rightarrow> string \<Rightarrow> string" where
  "take_chars n s = concat (take n (utf8_chars s))"

lemma concat_utf8_chars [simp]: "concat (utf8_chars s) = s"
  by (induction s rule: utf8_chars.induct) auto

lemma set_take_chars: "set (concat (take n (utf8_chars v))) \<subseteq> set v"
  using concat_utf8_chars [of v] by (metis append_take_drop_id concat_append set_append sup_ge1)

lemma chars_count_append [simp]: "chars_count (s @ t) = chars_count s + chars_count t"
  by (simp add: chars_count_def)

lemma filter_takeWhile_not: "filter (\<lambda>x. \<not> Q x) (takeWhile Q xs) = []"
  by (induction xs) auto

lemma chars_count_chars: "list_all (\<lambda>ch. chars_count ch \<le> 1) (utf8_chars s)"
  by (induction s rule: utf8_chars.induct)
     (auto simp: chars_count_def filter_takeWhile_not)

lemma chars_count_concat: "list_all (\<lambda>ch. chars_count ch \<le> 1) xs \<Longrightarrow> chars_count (concat xs) \<le> length xs"
  by (induction xs) (auto simp: chars_count_def)

lemma take_chars_count: "chars_count (take_chars n s) \<le> n"
proof -
  have "list_all (\<lambda>ch. chars_count ch \<le> 1) (take n (utf8_chars s))"
    using chars_count_chars [of s] by (auto simp: list_all_iff dest: in_set_takeD)
  from chars_count_concat [OF this] show ?thesis by (simp add: take_chars_def)
qed

lemma hd_take_chars:
  assumes "concat (take n (utf8_chars v)) \<noteq> []"
  shows "v \<noteq> [] \<and> hd (concat (take n (utf8_chars v))) = hd v"
  using assms by (cases v; cases n) simp_all

section \<open>Indexing\<close>

text \<open>An index past the end of a slice panics.\<close>

datatype index_panic = IndexPanic

definition byte_at :: "bytes \<Rightarrow> nat \<Rightarrow> nat option" where
  "byte_at data i = (if i < length data then Some (unat (data ! i)) else None)"

lemma byte_at_Some: "i < length data \<Longrightarrow> byte_at data i = Some (unat (data ! i))"
  by (simp add: byte_at_def)

lemma byte_at_bound: "byte_at data i = Some b \<Longrightarrow> b < 256"
  using unsigned_less [of "data ! i", where 'a = nat] by (auto simp: byte_at_def split: if_splits)

section \<open>Numbers in text\<close>

text \<open>\<open>str::parse\<close> for an unsigned type with the given number of values: digits, after an optional plus sign.\<close>

definition parse_uint :: "nat \<Rightarrow> string \<Rightarrow> nat option" where
  "parse_uint bound s =
     (let ds = (case s of CHR ''+'' # t \<Rightarrow> t | _ \<Rightarrow> s);
          n = foldl (\<lambda>n c. 10 * n + (of_char c - 48)) 0 ds
      in if ds \<noteq> [] \<and> list_all (\<lambda>c. 48 \<le> (of_char c :: nat) \<and> (of_char c :: nat) \<le> 57) ds \<and> n < bound then Some n else None)"

lemma parse_uint_bound: "parse_uint bound s = Some n \<Longrightarrow> n < bound"
  by (auto simp: parse_uint_def Let_def split: if_splits)

end
