(* ===== verification/File_Transfer.thy ===== *)
theory File_Transfer
  imports Text_Bytes Messages "HOL-Library.AList"
begin

text \<open>
  Files received from a viewer: path checks and name sanitizing (\<open>miru-host/src/safe_fs.rs\<close>) and
  the transfer state machine \<open>handle_file_transfer\<close> (\<open>miru-host/src/session.rs\<close>), on Unix.

  Paths are strings. What the operating system knows about paths (canonical form, symbolic links) is
  the record \<open>path_sys\<close>; the files are a map from paths to contents, and a record \<open>ft_io\<close> says
  which of the operations on files fail while a message is handled. SHA-256 is an argument.
\<close>

section \<open>Names and paths\<close>

text \<open>\<open>char::is_control\<close>: the characters U+0000 to U+001F and U+007F to U+009F.\<close>

definition is_control :: "string \<Rightarrow> bool" where
  "is_control ch =
     (case map of_char ch of
        [a] \<Rightarrow> a < (0x20 :: nat) \<or> a = 0x7F
      | [a, b] \<Rightarrow> a = 0xC2 \<and> 0x80 \<le> b \<and> b \<le> 0x9F
      | _ \<Rightarrow> False)"

definition separator_char :: "string \<Rightarrow> bool" where
  "separator_char ch \<longleftrightarrow> ch \<in> {''/'', [CHR 0x5C], [CHR 0x00], '':''}"

definition sanitize_filename :: "string \<Rightarrow> string" where
  "sanitize_filename name =
     (let kept = concat (filter (\<lambda>ch. \<not> is_control ch) (filter (\<lambda>ch. \<not> separator_char ch) (utf8_chars name)));
          visible = dropWhile (\<lambda>x. x = CHR ''.'') kept
      in concat (take 255 (utf8_chars visible)))"

datatype path_comp = RootDir | CurDir | ParentDir | Normal string

text \<open>
  \<open>Path::components\<close> on Unix: repeated separators are one, a dot counts only at the start of a
  relative path.
\<close>

fun norm_comps :: "string list \<Rightarrow> path_comp list" where
  "norm_comps [] = []"
| "norm_comps (p # ps) =
     (if p = [] \<or> p = ''.'' then norm_comps ps
      else (if p = ''..'' then ParentDir else Normal p) # norm_comps ps)"

definition is_absolute :: "string \<Rightarrow> bool" where
  "is_absolute p \<longleftrightarrow> p \<noteq> [] \<and> hd p = CHR ''/''"

definition path_components :: "string \<Rightarrow> path_comp list" where
  "path_components p =
     (let parts = split_on (CHR ''/'') p
      in if is_absolute p then RootDir # norm_comps parts
         else if hd parts = ''.'' then CurDir # norm_comps parts
         else norm_comps parts)"

text \<open>\<open>Path::join\<close>, \<open>Path::starts_with\<close>.\<close>

definition path_join :: "string \<Rightarrow> string \<Rightarrow> string" where
  "path_join dir p =
     (if is_absolute p then p
      else if dir = [] \<or> last dir = CHR ''/'' then dir @ p
      else dir @ ''/'' @ p)"

definition path_starts_with :: "string \<Rightarrow> string \<Rightarrow> bool" where
  "path_starts_with p base \<longleftrightarrow> prefix (path_components base) (path_components p)"

text \<open>\<open>Path::parent\<close> and \<open>Path::file_name\<close>, by components.\<close>

fun comp_text :: "path_comp \<Rightarrow> string" where
  "comp_text RootDir = []"
| "comp_text CurDir = ''.''"
| "comp_text ParentDir = ''..''"
| "comp_text (Normal s) = s"

definition path_of_comps :: "path_comp list \<Rightarrow> string" where
  "path_of_comps cs = (if cs = [RootDir] then ''/'' else join_with ''/'' (map comp_text cs))"

definition path_parent :: "string \<Rightarrow> string option" where
  "path_parent p =
     (let cs = path_components p in
      if cs = [] \<or> last cs = RootDir then None else Some (path_of_comps (butlast cs)))"

definition path_file_name :: "string \<Rightarrow> string option" where
  "path_file_name p =
     (let cs = path_components p in
      if cs = [] then None else (case last cs of Normal s \<Rightarrow> Some s | _ \<Rightarrow> None))"

text \<open>
  What the operating system answers: \<open>canonicalize\<close> and \<open>symlink_metadata\<close> (\<open>Some True\<close>: a symbolic
  link).
\<close>

record path_sys =
  ps_canonicalize :: "string \<Rightarrow> string option"
  ps_is_symlink :: "string \<Rightarrow> bool option"

record file_transfer_config =
  fc_allowed_roots :: "string list"
  fc_max_file_bytes :: u64
  fc_max_session_bytes :: u64

definition default_transfer_config :: file_transfer_config where
  "default_transfer_config = \<lparr>fc_allowed_roots = [], fc_max_file_bytes = 10 * 1024 * 1024 * 1024,
     fc_max_session_bytes = 100 * 1024 * 1024 * 1024\<rparr>"

datatype path_error =
    EmptyPath | PathNul | PathParentDir | NoAllowedRoots | PathNoParent | CanonicalizeFailed
  | PathNoFilename | EscapesRoots string | PathIsSymlink string

definition resolve_candidate :: "path_sys \<Rightarrow> string \<Rightarrow> path_error + string" where
  "resolve_candidate P candidate =
     (case ps_canonicalize P candidate of
        Some c \<Rightarrow> Ok c
      | None \<Rightarrow>
          (case path_parent candidate of
             None \<Rightarrow> Err PathNoParent
           | Some parent \<Rightarrow>
               (case ps_canonicalize P parent of
                  None \<Rightarrow> Err CanonicalizeFailed
                | Some parent_canon \<Rightarrow>
                    (case path_file_name candidate of
                       None \<Rightarrow> Err PathNoFilename
                     | Some filename \<Rightarrow> Ok (path_join parent_canon filename)))))"

definition inside_root :: "path_sys \<Rightarrow> string list \<Rightarrow> string \<Rightarrow> bool" where
  "inside_root P roots canon \<longleftrightarrow>
     list_ex (\<lambda>d. path_starts_with canon (case ps_canonicalize P d of Some r \<Rightarrow> r | None \<Rightarrow> d)) roots"

definition resolve_safe_path :: "path_sys \<Rightarrow> file_transfer_config \<Rightarrow> string \<Rightarrow> path_error + string" where
  "resolve_safe_path P cfg requested =
     (if requested = [] then Err EmptyPath
      else if CHR 0x00 \<in> set requested then Err PathNul
      else if ParentDir \<in> set (path_components requested) then Err PathParentDir
      else
        (case (if is_absolute requested then Ok requested
               else (case fc_allowed_roots cfg of
                       [] \<Rightarrow> Err NoAllowedRoots
                     | d # _ \<Rightarrow> Ok (path_join d requested))) of
           Inl e \<Rightarrow> Err e
         | Inr candidate \<Rightarrow>
             (case resolve_candidate P candidate of
                Inl e \<Rightarrow> Err e
              | Inr canon \<Rightarrow>
                  if \<not> inside_root P (fc_allowed_roots cfg) canon then Err (EscapesRoots canon)
                  else if ps_is_symlink P canon = Some True then Err (PathIsSymlink canon)
                  else Ok canon)))"

section \<open>Transfers\<close>

record file_receive =
  fr_temp_path :: string
  fr_expected_size :: u64
  fr_expected_hash :: string
  fr_name :: string

record ft_state =
  ts_transfers :: "(uuid \<times> file_receive) list"
  ts_files :: "string \<rightharpoonup> bytes"

text \<open>
  Which file operations succeed while one message is handled; \<open>fi_write = Some k\<close> is a write that
  fails after \<open>k\<close> bytes.
\<close>

record ft_io =
  fi_create :: bool
  fi_write :: "nat option"
  fi_read :: bool
  fi_rename :: bool
  fi_remove :: bool

definition MAX_CONCURRENT_TRANSFERS :: nat where
  "MAX_CONCURRENT_TRANSFERS = 8"

definition MAX_DEDUP :: nat where
  "MAX_DEDUP = 9999"

definition uuid_text :: "uuid \<Rightarrow> string" where
  "uuid_text u =
     (let h = hex_encode (be_bytes 16 (unat u)) in
      take 8 h @ ''-'' @ take 4 (drop 8 h) @ ''-'' @ take 4 (drop 12 h) @ ''-'' @ take 4 (drop 16 h) @ ''-'' @ drop 20 h)"

definition hash_format_ok :: "string \<Rightarrow> bool" where
  "hash_format_ok h \<longleftrightarrow> length h = 64 \<and> list_all (\<lambda>c. hex_value c \<noteq> None) h"

text \<open>Writing at an offset; a gap before it reads as zeros.\<close>

definition write_at :: "bytes \<Rightarrow> nat \<Rightarrow> bytes \<Rightarrow> bytes" where
  "write_at content off data =
     (if data = [] then content
      else take off (content @ replicate (off - length content) 0) @ data @ drop (off + length data) content)"

definition remove_temp :: "ft_io \<Rightarrow> string \<Rightarrow> (string \<rightharpoonup> bytes) \<Rightarrow> (string \<rightharpoonup> bytes)" where
  "remove_temp io path files = (if fi_remove io then files(path := None) else files)"

definition hash_file_streaming :: "(bytes \<Rightarrow> bytes) \<Rightarrow> bytes \<Rightarrow> string" where
  "hash_file_streaming sha256 content = hex_encode (sha256 content)"

text \<open>\<open>Path::file_stem\<close> and \<open>Path::extension\<close>: the file name around its last dot.\<close>

definition before_dot :: "string \<Rightarrow> string" where
  "before_dot f = rev (tl (dropWhile (\<lambda>x. x \<noteq> CHR ''.'') (rev f)))"

definition after_dot :: "string \<Rightarrow> string" where
  "after_dot f = rev (takeWhile (\<lambda>x. x \<noteq> CHR ''.'') (rev f))"

definition file_stem :: "string \<Rightarrow> string option" where
  "file_stem p =
     map_option (\<lambda>f. if f = ''..'' \<or> CHR ''.'' \<notin> set f \<or> before_dot f = [] then f else before_dot f) (path_file_name p)"

definition extension :: "string \<Rightarrow> string option" where
  "extension p =
     (case path_file_name p of
        None \<Rightarrow> None
      | Some f \<Rightarrow> if f = ''..'' \<or> CHR ''.'' \<notin> set f \<or> before_dot f = [] then None else Some (after_dot f))"

definition dedup_name :: "string \<Rightarrow> nat \<Rightarrow> string" where
  "dedup_name name counter =
     (let stem = (case file_stem name of Some s \<Rightarrow> s | None \<Rightarrow> ''transfer'');
          ext = (case extension name of Some e \<Rightarrow> ''.'' @ e | None \<Rightarrow> [])
      in stem @ '' ('' @ show_nat counter @ '')'' @ ext)"

text \<open>The search for a free name; \<open>ex\<close> says which paths exist.\<close>

function dedup_loop :: "(string \<Rightarrow> bool) \<Rightarrow> string \<Rightarrow> string \<Rightarrow> string \<Rightarrow> nat \<Rightarrow> string \<times> nat" where
  "dedup_loop ex dir name dest counter =
     (if ex dest \<and> counter \<le> MAX_DEDUP
      then dedup_loop ex dir name (path_join dir (dedup_name name counter)) (counter + 1)
      else (dest, counter))"
  by pat_completeness auto
termination
  by (relation "measure (\<lambda>(ex, dir, name, dest, counter). Suc MAX_DEDUP - counter)") auto

declare dedup_loop.simps [simp del]

definition ft_start ::
  "path_sys \<Rightarrow> file_transfer_config \<Rightarrow> ft_io \<Rightarrow> ft_state \<Rightarrow> uuid \<Rightarrow> string \<Rightarrow> u64 \<Rightarrow> string \<Rightarrow> ft_state" where
  "ft_start P cfg io T i name sz hash =
     (if length (ts_transfers T) \<ge> MAX_CONCURRENT_TRANSFERS then T
      else if sz > fc_max_file_bytes cfg then T
      else
        (let safe_name = sanitize_filename name in
         if safe_name = [] then T
         else if \<not> hash_format_ok hash then T
         else
           (case resolve_safe_path P cfg (''.'' @ uuid_text i @ ''.tmp'') of
              Inl e \<Rightarrow> T
            | Inr temp_path \<Rightarrow>
                if \<not> fi_create io \<or> ts_files T temp_path \<noteq> None then T
                else \<lparr>ts_transfers = AList.update i \<lparr>fr_temp_path = temp_path, fr_expected_size = sz,
                        fr_expected_hash = hash, fr_name = safe_name\<rparr> (ts_transfers T),
                      ts_files = (ts_files T)(temp_path \<mapsto> [])\<rparr>)))"

definition ft_chunk :: "ft_io \<Rightarrow> ft_state \<Rightarrow> uuid \<Rightarrow> u64 \<Rightarrow> bytes \<Rightarrow> ft_state" where
  "ft_chunk io T i off data =
     (case map_of (ts_transfers T) i of
        None \<Rightarrow> T
      | Some rx \<Rightarrow>
          (let chunk_end = sat_add off (word_of_nat (length data));
               content = (case ts_files T (fr_temp_path rx) of Some c \<Rightarrow> c | None \<Rightarrow> [])
           in if chunk_end > fr_expected_size rx
              then \<lparr>ts_transfers = AList.delete i (ts_transfers T), ts_files = remove_temp io (fr_temp_path rx) (ts_files T)\<rparr>
              else (case fi_write io of
                None \<Rightarrow> T\<lparr>ts_files := (ts_files T)(fr_temp_path rx \<mapsto> write_at content (unat off) data)\<rparr>
              | Some k \<Rightarrow>
                  \<lparr>ts_transfers = AList.delete i (ts_transfers T),
                   ts_files = remove_temp io (fr_temp_path rx)
                     ((ts_files T)(fr_temp_path rx \<mapsto> write_at content (unat off) (take k data)))\<rparr>)))"

definition ft_finish :: "(bytes \<Rightarrow> bytes) \<Rightarrow> ft_io \<Rightarrow> (string \<rightharpoonup> bytes) \<Rightarrow> file_receive \<Rightarrow> (string \<rightharpoonup> bytes)" where
  "ft_finish sha256 io files rx =
     (case (if fi_read io then files (fr_temp_path rx) else None) of
        None \<Rightarrow> remove_temp io (fr_temp_path rx) files
      | Some content \<Rightarrow>
          if hash_file_streaming sha256 content \<noteq> fr_expected_hash rx then remove_temp io (fr_temp_path rx) files
          else
            (let dir = (case path_parent (fr_temp_path rx) of Some d \<Rightarrow> d | None \<Rightarrow> ''.'');
                 (dest, counter) = dedup_loop (\<lambda>p. files p \<noteq> None) dir (fr_name rx) (path_join dir (fr_name rx)) 1
             in if counter > MAX_DEDUP then remove_temp io (fr_temp_path rx) files
                else if fi_rename io then files(fr_temp_path rx := None, dest \<mapsto> content)
                else remove_temp io (fr_temp_path rx) files))"

fun handle_file_transfer ::
  "(bytes \<Rightarrow> bytes) \<Rightarrow> path_sys \<Rightarrow> file_transfer_config \<Rightarrow> ft_io \<Rightarrow> ft_state \<Rightarrow> file_transfer \<Rightarrow> ft_state" where
  "handle_file_transfer sha256 P cfg io T (FtStart i name sz hash) = ft_start P cfg io T i name sz hash"
| "handle_file_transfer sha256 P cfg io T (FtChunk i off data) = ft_chunk io T i off data"
| "handle_file_transfer sha256 P cfg io T (FtDone i) =
     (case map_of (ts_transfers T) i of
        None \<Rightarrow> T
      | Some rx \<Rightarrow>
          \<lparr>ts_transfers = AList.delete i (ts_transfers T), ts_files = ft_finish sha256 io (ts_files T) rx\<rparr>)"
| "handle_file_transfer sha256 P cfg io T (FtAbort i reason) =
     (case map_of (ts_transfers T) i of
        None \<Rightarrow> T
      | Some rx \<Rightarrow>
          \<lparr>ts_transfers = AList.delete i (ts_transfers T), ts_files = remove_temp io (fr_temp_path rx) (ts_files T)\<rparr>)"

text \<open>The end of a session removes the temporary files of unfinished transfers.\<close>

definition ft_teardown :: "ft_io \<Rightarrow> ft_state \<Rightarrow> ft_state" where
  "ft_teardown io T =
     \<lparr>ts_transfers = [], ts_files = foldr (\<lambda>(i, rx). remove_temp io (fr_temp_path rx)) (ts_transfers T) (ts_files T)\<rparr>"

section \<open>Lemmas on names\<close>

text \<open>In a valid string no continuation byte comes first, and an ASCII character is one byte.\<close>

definition ascii_single :: "string \<Rightarrow> bool" where
  "ascii_single ch \<longleftrightarrow> (\<exists>c cs. ch = c # cs \<and> (of_char c < (0x80 :: nat) \<longrightarrow> cs = []) \<and>
     list_all (\<lambda>x. utf8_cont (of_char x)) cs)"

lemma utf8_valid_head: "utf8_valid (c # cs) \<Longrightarrow> \<not> utf8_cont (of_char c)"
  by (auto simp: utf8_valid_def utf8_cont_def split: if_splits)

lemma utf8_valid_no_cont: "utf8_valid s \<Longrightarrow> takeWhile (\<lambda>x. utf8_cont (of_char x)) s = []"
  by (cases s) (auto dest: utf8_valid_head)

lemma dropWhile_no_cont: "utf8_valid s \<Longrightarrow> dropWhile (\<lambda>x. utf8_cont (of_char x)) s = s"
  by (cases s) (auto dest: utf8_valid_head)

lemma utf8_codes_head: "utf8_codes (a # cs) \<Longrightarrow> \<not> utf8_cont a"
  by (auto simp: utf8_cont_def split: if_splits)

lemma dropWhile_codes: "utf8_codes cs \<Longrightarrow> dropWhile utf8_cont cs = cs"
  by (cases cs) (auto simp del: utf8_codes.simps dest: utf8_codes_head)

lemma utf8_codes_rest:
  assumes "utf8_codes (a # cs)"
  shows "utf8_codes (dropWhile utf8_cont cs)"
proof -
  consider "a < 0x80" | "0xC2 \<le> a" "a \<le> 0xDF" | "0xE0 \<le> a" "a \<le> 0xEF" | "0xF0 \<le> a" "a \<le> 0xF4"
    using assms by (auto simp: not_less split: if_splits)
  then show ?thesis
  proof cases
    case 1
    then show ?thesis using assms by (simp add: dropWhile_codes)
  next
    case 2
    then obtain b ds where "cs = b # ds" "utf8_cont b" "utf8_codes ds" using assms by (cases cs) simp_all
    then show ?thesis by (simp add: dropWhile_codes)
  next
    case 3
    then obtain b c ds where "cs = b # c # ds" "utf8_cont b" "utf8_cont c" "utf8_codes ds"
      using assms by (cases cs; cases "tl cs") simp_all
    then show ?thesis by (simp add: dropWhile_codes)
  next
    case 4
    then obtain b c d ds where "cs = b # c # d # ds" "utf8_cont b" "utf8_cont c" "utf8_cont d" "utf8_codes ds"
      using assms by (cases cs; cases "tl cs"; cases "tl (tl cs)") simp_all
    then show ?thesis by (simp add: dropWhile_codes)
  qed
qed

lemma utf8_valid_rest:
  assumes "utf8_valid (c # cs)"
  shows "utf8_valid (dropWhile (\<lambda>x. utf8_cont (of_char x)) cs)"
    and "of_char c < (0x80 :: nat) \<Longrightarrow> takeWhile (\<lambda>x. utf8_cont (of_char x)) cs = []"
proof -
  have "map of_char (dropWhile (\<lambda>x. utf8_cont (of_char x)) cs) = dropWhile utf8_cont (map of_char cs)"
    by (simp add: dropWhile_map comp_def)
  then show "utf8_valid (dropWhile (\<lambda>x. utf8_cont (of_char x)) cs)"
    using assms utf8_codes_rest by (simp add: utf8_valid_def del: utf8_codes.simps)
  show "takeWhile (\<lambda>x. utf8_cont (of_char x)) cs = []" if "of_char c < (0x80 :: nat)"
    using assms that by (intro utf8_valid_no_cont) (simp add: utf8_valid_def)
qed

lemma utf8_chars_single: "utf8_valid s \<Longrightarrow> ch \<in> set (utf8_chars s) \<Longrightarrow> ascii_single ch"
proof (induction s rule: utf8_chars.induct)
  case (2 c cs)
  have "ascii_single (c # takeWhile (\<lambda>x. utf8_cont (of_char x)) cs)"
    using utf8_valid_rest(2) [OF "2.prems"(1)] by (auto simp: ascii_single_def list_all_iff dest: set_takeWhileD)
  with 2 utf8_valid_rest(1) [OF "2.prems"(1)] show ?case by auto
qed simp

lemma ascii_in_char:
  assumes "ascii_single ch" "x \<in> set ch" "of_char x < (0x80 :: nat)"
  shows "ch = [x]"
proof -
  obtain c cs where ch: "ch = c # cs" "of_char c < (0x80 :: nat) \<Longrightarrow> cs = []" "list_all (\<lambda>x. utf8_cont (of_char x)) cs"
    using assms(1) by (auto simp: ascii_single_def)
  have "x \<notin> set cs" using ch(3) assms(3) by (force simp: list_all_iff utf8_cont_def)
  with ch assms(2,3) show ?thesis by auto
qed

lemma set_sanitize:
  "set (sanitize_filename s) \<subseteq>
   set (concat (filter (\<lambda>ch. \<not> is_control ch) (filter (\<lambda>ch. \<not> separator_char ch) (utf8_chars s))))"
  unfolding sanitize_filename_def Let_def
  by (rule subset_trans [OF set_take_chars]) (auto dest: set_dropWhileD)

lemma sanitize_no_ascii:
  assumes "utf8_valid s" "of_char x < (0x80 :: nat)" "separator_char [x] \<or> is_control [x]"
  shows "x \<notin> set (sanitize_filename s)"
proof
  assume "x \<in> set (sanitize_filename s)"
  then obtain ch where ch: "ch \<in> set (utf8_chars s)" "\<not> separator_char ch" "\<not> is_control ch" "x \<in> set ch"
    using set_sanitize by fastforce
  from ascii_in_char [OF utf8_chars_single [OF assms(1) ch(1)] ch(4) assms(2)] ch(2,3) assms(3) show False by simp
qed

lemma sanitize_count: "chars_count (sanitize_filename s) \<le> 255"
proof -
  have "chars_count (concat (take 255 (utf8_chars v))) \<le> 255" for v
    using take_chars_count [of 255 v] by (simp add: take_chars_def)
  then show ?thesis by (simp add: sanitize_filename_def Let_def)
qed

lemma sanitize_no_leading_dot:
  assumes "sanitize_filename s \<noteq> []"
  shows "hd (sanitize_filename s) \<noteq> CHR ''.''"
proof -
  define kept where
    "kept = concat (filter (\<lambda>ch. \<not> is_control ch) (filter (\<lambda>ch. \<not> separator_char ch) (utf8_chars s)))"
  define v where "v = dropWhile (\<lambda>x. x = CHR ''.'') kept"
  have san: "sanitize_filename s = concat (take 255 (utf8_chars v))"
    by (simp only: sanitize_filename_def Let_def v_def kept_def)
  from hd_take_chars [of 255 v] assms have "v \<noteq> []" "hd (sanitize_filename s) = hd v" unfolding san by simp_all
  with hd_dropWhile [of "\<lambda>x. x = CHR ''.''" kept] show ?thesis unfolding v_def by simp
qed

text \<open>
  Sanitized names are safe: whatever valid text a peer sends as a file name, the result has no path
  separator, colon, NUL or other ASCII control character, does not start with a dot (so it is neither
  hidden nor \<open>.\<close> or \<open>..\<close>), and has at most 255 characters.\<close>

theorem sanitized_name_safe:
  assumes "utf8_valid name"
  shows "set (sanitize_filename name) \<inter> {CHR ''/'', CHR 0x5C, CHR 0x00, CHR '':'', CHR 0x0A, CHR 0x7F} = {} \<and>
    hd (sanitize_filename name @ ''x'') \<noteq> CHR ''.'' \<and> sanitize_filename name \<notin> {''.'', ''..''} \<and>
    chars_count (sanitize_filename name) \<le> 255"
proof -
  have "x \<notin> set (sanitize_filename name)" if "x \<in> {CHR ''/'', CHR 0x5C, CHR 0x00, CHR '':'', CHR 0x0A, CHR 0x7F}" for x
    by (rule sanitize_no_ascii [OF assms]) (use that in \<open>auto simp: separator_char_def is_control_def\<close>)
  moreover have "hd (sanitize_filename name @ ''x'') \<noteq> CHR ''.''" "sanitize_filename name \<notin> {''.'', ''..''}"
    using sanitize_no_leading_dot [of name] by (cases "sanitize_filename name"; auto)+
  ultimately show ?thesis using sanitize_count by blast
qed

theorem sanitized_name_safe_witness:
  "utf8_valid ''../..//etc/x'' \<and> hd (sanitize_filename ''../..//etc/x'' @ ''x'') \<noteq> CHR ''.'' \<and>
   chars_count (sanitize_filename ''../..//etc/x'') \<le> 255"
proof -
  have "utf8_valid ''../..//etc/x''" by code_simp
  with sanitized_name_safe [OF this] show ?thesis by blast
qed

section \<open>The search for a free name\<close>

definition dedup_cand :: "string \<Rightarrow> string \<Rightarrow> nat \<Rightarrow> string" where
  "dedup_cand dir name k = path_join dir (if k = 0 then name else dedup_name name k)"

lemma dedup_loop_spec:
  assumes "k \<le> MAX_DEDUP"
  shows "\<exists>n. k \<le> n \<and> n \<le> MAX_DEDUP \<and> dedup_loop ex dir name (dedup_cand dir name k) (Suc k) = (dedup_cand dir name n, Suc n) \<and>
    (\<forall>j. k \<le> j \<and> j < n \<longrightarrow> ex (dedup_cand dir name j)) \<and> (n < MAX_DEDUP \<longrightarrow> \<not> ex (dedup_cand dir name n))"
  using assms
proof (induction "MAX_DEDUP - k" arbitrary: k)
  case 0
  then have "k = MAX_DEDUP" by simp
  then show ?case by (intro exI [of _ k]) (auto simp: dedup_loop.simps)
next
  case (Suc m)
  show ?case
  proof (cases "ex (dedup_cand dir name k)")
    case True
    have step: "dedup_loop ex dir name (dedup_cand dir name k) (Suc k) =
      dedup_loop ex dir name (dedup_cand dir name (Suc k)) (Suc (Suc k))"
    proof -
      have "Suc k \<le> MAX_DEDUP" using Suc.hyps(2) by simp
      with True show ?thesis by (subst dedup_loop.simps) (simp add: dedup_cand_def)
    qed
    have "m = MAX_DEDUP - Suc k" "Suc k \<le> MAX_DEDUP" using Suc.hyps(2) by simp_all
    from Suc.hyps(1) [OF this] obtain n where n: "Suc k \<le> n" "n \<le> MAX_DEDUP"
      "dedup_loop ex dir name (dedup_cand dir name (Suc k)) (Suc (Suc k)) = (dedup_cand dir name n, Suc n)"
      "\<forall>j. Suc k \<le> j \<and> j < n \<longrightarrow> ex (dedup_cand dir name j)" "n < MAX_DEDUP \<longrightarrow> \<not> ex (dedup_cand dir name n)"
      by auto
    have "ex (dedup_cand dir name j)" if "k \<le> j" "j < n" for j
      using that True n(4) by (cases "j = k") auto
    with n step show ?thesis by (intro exI [of _ n]) auto
  next
    case False
    then show ?thesis using Suc.prems by (intro exI [of _ k]) (auto simp: dedup_loop.simps)
  qed
qed

lemma dedup_loop_start:
  obtains n where "n \<le> MAX_DEDUP" "dedup_loop ex dir name (path_join dir name) 1 = (dedup_cand dir name n, Suc n)"
    "\<And>j. j < n \<Longrightarrow> ex (dedup_cand dir name j)" "n < MAX_DEDUP \<Longrightarrow> \<not> ex (dedup_cand dir name n)"
  using dedup_loop_spec [of 0 ex dir name] by (auto simp: dedup_cand_def)

text \<open>
  The search for a free file name ends: after at most 9999 steps it stops at the first of
  \<open>name\<close>, \<open>name (1)\<close>, \<open>name (2)\<close>, ... that does not exist, and the counter it returns passes the
  limit only when all of the first 9999 candidates exist.\<close>

theorem dedup_search_total:
  "\<exists>n \<le> 9999. dedup_loop ex dir name (path_join dir name) 1 = (dedup_cand dir name n, n + 1) \<and>
     (\<forall>j < n. ex (dedup_cand dir name j)) \<and> (n < 9999 \<longrightarrow> \<not> ex (dedup_cand dir name n))"
  by (rule dedup_loop_start [of ex dir name]) (auto simp: MAX_DEDUP_def)

theorem dedup_search_total_witness:
  "\<exists>n. dedup_loop (\<lambda>p. p = ''/d/a.txt'') ''/d'' ''a.txt'' (path_join ''/d'' ''a.txt'') 1 = (dedup_cand ''/d'' ''a.txt'' n, n + 1) \<and>
     dedup_cand ''/d'' ''a.txt'' n = ''/d/a (1).txt''"
proof -
  let ?ex = "\<lambda>p. p = ''/d/a.txt''"
  have c: "dedup_cand ''/d'' ''a.txt'' 0 = ''/d/a.txt''" "dedup_cand ''/d'' ''a.txt'' 1 = ''/d/a (1).txt''" by code_simp+
  obtain n where n: "dedup_loop ?ex ''/d'' ''a.txt'' (path_join ''/d'' ''a.txt'') 1 = (dedup_cand ''/d'' ''a.txt'' n, n + 1)"
    "\<forall>j < n. ?ex (dedup_cand ''/d'' ''a.txt'' j)" "n < 9999 \<longrightarrow> \<not> ?ex (dedup_cand ''/d'' ''a.txt'' n)"
    using dedup_search_total [of ?ex "''/d''" "''a.txt''"] by blast
  have "n \<noteq> 0" using n(3) c(1) by (metis zero_less_numeral)
  moreover have "\<not> 1 < n" using n(2) c(2) by auto
  ultimately have "n = 1" by simp
  with n(1) c(2) show ?thesis by blast
qed

section \<open>What a session does to the files\<close>

definition temp_paths :: "ft_state \<Rightarrow> string set" where
  "temp_paths T = (fr_temp_path \<circ> snd) ` set (ts_transfers T)"

text \<open>The messages of a session, each with the outcome of its file operations.\<close>

definition ft_run ::
  "(bytes \<Rightarrow> bytes) \<Rightarrow> path_sys \<Rightarrow> file_transfer_config \<Rightarrow> ft_state \<Rightarrow> (ft_io \<times> file_transfer) list \<Rightarrow> ft_state" where
  "ft_run sha256 P cfg = foldl (\<lambda>T (io, m). handle_file_transfer sha256 P cfg io T m)"

lemma ft_run_simps [simp]:
  "ft_run sha256 P cfg T [] = T"
  "ft_run sha256 P cfg T ((io, m) # ms) = ft_run sha256 P cfg (handle_file_transfer sha256 P cfg io T m) ms"
  by (simp_all add: ft_run_def)

lemma remove_temp_other [simp]: "p \<noteq> t \<Longrightarrow> remove_temp io t files p = files p"
  by (simp add: remove_temp_def)

lemma temp_paths_lookup: "map_of (ts_transfers T) i = Some rx \<Longrightarrow> fr_temp_path rx \<in> temp_paths T"
  by (force simp: temp_paths_def dest: map_of_SomeD)

lemma temp_paths_delete: "temp_paths \<lparr>ts_transfers = AList.delete i ts, ts_files = fs\<rparr> \<subseteq> temp_paths \<lparr>ts_transfers = ts, ts_files = fs'\<rparr>"
  by (auto simp: temp_paths_def AList.delete_eq)

lemma ft_finish_cases:
  obtains (removed) "ft_finish sha256 io files rx = remove_temp io (fr_temp_path rx) files"
  | (saved) content dir n where "files (fr_temp_path rx) = Some content" "hash_file_streaming sha256 content = fr_expected_hash rx"
      "dir = (case path_parent (fr_temp_path rx) of Some d \<Rightarrow> d | None \<Rightarrow> ''.'')" "n < MAX_DEDUP"
      "files (dedup_cand dir (fr_name rx) n) = None"
      "ft_finish sha256 io files rx = files(fr_temp_path rx := None, dedup_cand dir (fr_name rx) n \<mapsto> content)"
proof (cases "fi_read io \<and> files (fr_temp_path rx) \<noteq> None \<and>
    hash_file_streaming sha256 (the (files (fr_temp_path rx))) = fr_expected_hash rx")
  case True
  then obtain content where c: "fi_read io" "files (fr_temp_path rx) = Some content"
    "hash_file_streaming sha256 content = fr_expected_hash rx" by auto
  define dir where "dir = (case path_parent (fr_temp_path rx) of Some d \<Rightarrow> d | None \<Rightarrow> ''.'')"
  obtain n where n: "n \<le> MAX_DEDUP" "dedup_loop (\<lambda>p. files p \<noteq> None) dir (fr_name rx) (path_join dir (fr_name rx)) 1 =
      (dedup_cand dir (fr_name rx) n, Suc n)" "n < MAX_DEDUP \<Longrightarrow> files (dedup_cand dir (fr_name rx) n) = None"
    using dedup_loop_start [of "\<lambda>p. files p \<noteq> None" dir "fr_name rx"] by metis
  have fin: "ft_finish sha256 io files rx =
    (if n = MAX_DEDUP \<or> \<not> fi_rename io then remove_temp io (fr_temp_path rx) files
     else files(fr_temp_path rx := None, dedup_cand dir (fr_name rx) n \<mapsto> content))"
    using c n(1) by (simp add: ft_finish_def dir_def [symmetric] n(2) del: not_None_eq One_nat_def)
  show ?thesis
    using fin n(1,3) saved [OF c(2,3) dir_def, of n] removed by (cases "n = MAX_DEDUP \<or> \<not> fi_rename io") auto
next
  case False
  then show ?thesis by (intro removed) (auto simp: ft_finish_def split: option.split)
qed

text \<open>
  The invariant of a session's transfers: at most 8, each with its own temporary file, which holds no
  more than the size announced, itself within the limit.
\<close>

definition receive_ok :: "file_transfer_config \<Rightarrow> (string \<rightharpoonup> bytes) \<Rightarrow> file_receive \<Rightarrow> bool" where
  "receive_ok cfg files rx \<longleftrightarrow>
     (\<exists>c. files (fr_temp_path rx) = Some c \<and> length c \<le> unat (fr_expected_size rx)) \<and>
     fr_expected_size rx \<le> fc_max_file_bytes cfg \<and> hash_format_ok (fr_expected_hash rx) \<and> fr_name rx \<noteq> []"

definition ft_inv :: "file_transfer_config \<Rightarrow> ft_state \<Rightarrow> bool" where
  "ft_inv cfg T \<longleftrightarrow> distinct (map fst (ts_transfers T)) \<and> distinct (map (fr_temp_path \<circ> snd) (ts_transfers T)) \<and>
     length (ts_transfers T) \<le> MAX_CONCURRENT_TRANSFERS \<and> list_all (receive_ok cfg (ts_files T) \<circ> snd) (ts_transfers T)"

text \<open>A chunk's data fits a 64-bit length, as every Rust vector does.\<close>

fun ft_fits :: "file_transfer \<Rightarrow> bool" where
  "ft_fits (FtChunk i off data) = (length data < 2 ^ 64)"
| "ft_fits _ = True"

lemma length_write_at: "length (write_at c off d) \<le> max (length c) (off + length d)"
  by (auto simp: write_at_def)

lemma receive_ok_other: "receive_ok cfg files rx \<Longrightarrow> files' (fr_temp_path rx) = files (fr_temp_path rx) \<Longrightarrow> receive_ok cfg files' rx"
  by (simp add: receive_ok_def)

lemma ft_inv_remove:
  assumes "ft_inv cfg T" "map_of (ts_transfers T) i = Some rx"
    "\<And>t. t \<in> temp_paths T \<Longrightarrow> t \<noteq> fr_temp_path rx \<Longrightarrow> files' t = ts_files T t"
  shows "ft_inv cfg \<lparr>ts_transfers = AList.delete i (ts_transfers T), ts_files = files'\<rparr>"
proof -
  have "receive_ok cfg files' rx'" if "(j, rx') \<in> set (ts_transfers T)" "j \<noteq> i" for j rx'
  proof (rule receive_ok_other)
    show "receive_ok cfg (ts_files T) rx'" using assms(1) that by (auto simp: ft_inv_def list_all_iff)
    have "fr_temp_path rx' \<noteq> fr_temp_path rx"
      using assms(1) that map_of_SomeD [OF assms(2)] by (force simp: ft_inv_def distinct_map inj_on_def)
    then show "files' (fr_temp_path rx') = ts_files T (fr_temp_path rx')"
      using that(1) by (intro assms(3)) (force simp: temp_paths_def)
  qed
  with assms(1) show ?thesis
    by (auto simp: ft_inv_def AList.delete_eq list_all_iff distinct_map inj_on_def
        intro: order_trans [OF length_filter_le])
qed

lemma distinct_alist_update:
  "distinct (map (f \<circ> snd) ts) \<Longrightarrow> f v \<notin> (f \<circ> snd) ` set ts \<Longrightarrow> distinct (map (f \<circ> snd) (AList.update i v ts))"
proof (induction ts)
  case (Cons a ts)
  obtain j w where a: "a = (j, w)" by (cases a)
  have "f w \<notin> (f \<circ> snd) ` set (AList.update i v ts)" if "j \<noteq> i"
  proof -
    have "(f \<circ> snd) ` set (AList.update i v ts) \<subseteq> insert (f v) ((f \<circ> snd) ` set ts)"
      using image_mono [OF set_alist_update [of i v ts], of "f \<circ> snd"] by simp
    with Cons.prems a show ?thesis by auto
  qed
  with Cons a show ?case by auto
qed simp

lemma ft_inv_start: "ft_inv cfg T \<Longrightarrow> ft_inv cfg (ft_start P cfg io T i name sz hash)"
proof -
  assume inv: "ft_inv cfg T"
  show ?thesis
  proof (cases "ft_start P cfg io T i name sz hash = T")
    case False
    then obtain t where t: "length (ts_transfers T) < MAX_CONCURRENT_TRANSFERS" "sz \<le> fc_max_file_bytes cfg"
        "sanitize_filename name \<noteq> []" "hash_format_ok hash" "ts_files T t = None"
        "ft_start P cfg io T i name sz hash = \<lparr>ts_transfers = AList.update i \<lparr>fr_temp_path = t, fr_expected_size = sz,
           fr_expected_hash = hash, fr_name = sanitize_filename name\<rparr> (ts_transfers T), ts_files = (ts_files T)(t \<mapsto> [])\<rparr>"
      by (auto simp: ft_start_def Let_def not_le not_less split: if_splits sum.splits)
    have new: "t \<noteq> fr_temp_path rx" if "(j, rx) \<in> set (ts_transfers T)" for j rx
      using inv that t(5) by (force simp: ft_inv_def list_all_iff receive_ok_def)
    let ?rx = "\<lparr>fr_temp_path = t, fr_expected_size = sz, fr_expected_hash = hash, fr_name = sanitize_filename name\<rparr>"
    have "receive_ok cfg ((ts_files T)(t \<mapsto> [])) rx" if "(j, rx) \<in> set (AList.update i ?rx (ts_transfers T))" for j rx
      using set_alist_update that inv t(2,3,4) new
      by (fastforce simp: ft_inv_def list_all_iff receive_ok_def)
    moreover have "distinct (map (fr_temp_path \<circ> snd) (AList.update i ?rx (ts_transfers T)))"
      using inv by (intro distinct_alist_update) (auto simp: ft_inv_def dest: new)
    moreover have "length (AList.update i ?rx (ts_transfers T)) \<le> MAX_CONCURRENT_TRANSFERS"
      using t(1) by (simp add: length_alist_update split: if_splits)
    moreover have "distinct (map fst (AList.update i ?rx (ts_transfers T)))"
      using inv by (simp add: ft_inv_def distinct_update)
    ultimately show ?thesis unfolding t(6) by (auto simp: ft_inv_def list_all_iff)
  qed (use inv in simp)
qed

lemma sat_add_le:
  fixes a e :: u64
  assumes "sat_add a (word_of_nat n) \<le> e" "n < 2 ^ 64" "e < - 1"
  shows "unat a + n \<le> unat e"
proof -
  have n: "unat (word_of_nat n :: u64) = n" using assms(2) by (simp add: unat_of_nat)
  show ?thesis
  proof (cases "unat a + n < 2 ^ 64")
    case True
    then have "unat (a + word_of_nat n) = unat a + n" by (simp add: unat_word_ariths n)
    with True assms(1) show ?thesis by (simp add: sat_add_def n word_le_nat_alt)
  next
    case False
    with assms(1,3) show ?thesis by (simp add: sat_add_def n)
  qed
qed

lemma ft_inv_write:
  assumes inv: "ft_inv cfg T" and rx: "map_of (ts_transfers T) i = Some rx"
    and c: "length c \<le> unat (fr_expected_size rx)"
  shows "ft_inv cfg (T\<lparr>ts_files := (ts_files T)(fr_temp_path rx \<mapsto> c)\<rparr>)"
proof -
  have "receive_ok cfg ((ts_files T)(fr_temp_path rx \<mapsto> c)) rx'" if "(j, rx') \<in> set (ts_transfers T)" for j rx'
  proof (cases "j = i")
    case True
    then have "rx' = rx" using inv that map_of_SomeD [OF rx] by (auto simp: ft_inv_def dest: eq_key_imp_eq_value)
    with inv that c show ?thesis by (auto simp: ft_inv_def list_all_iff receive_ok_def)
  next
    case False
    then have "fr_temp_path rx' \<noteq> fr_temp_path rx"
      using inv that map_of_SomeD [OF rx] by (force simp: ft_inv_def distinct_map inj_on_def)
    moreover have "receive_ok cfg (ts_files T) rx'" using inv that by (auto simp: ft_inv_def list_all_iff)
    ultimately show ?thesis by (elim receive_ok_other) simp
  qed
  with inv show ?thesis by (auto simp: ft_inv_def list_all_iff)
qed

lemma ft_inv_chunk:
  assumes inv: "ft_inv cfg T" and cfg: "fc_max_file_bytes cfg < - 1" and len: "length data < 2 ^ 64"
  shows "ft_inv cfg (ft_chunk io T i off data)"
proof (cases "map_of (ts_transfers T) i")
  case (Some rx)
  then have ok: "receive_ok cfg (ts_files T) rx" using inv by (auto simp: ft_inv_def list_all_iff dest: map_of_SomeD)
  then obtain c where c: "ts_files T (fr_temp_path rx) = Some c" "length c \<le> unat (fr_expected_size rx)"
    by (auto simp: receive_ok_def)
  have fit: "unat off + length data \<le> unat (fr_expected_size rx)" if "\<not> sat_add off (word_of_nat (length data)) > fr_expected_size rx"
    using that ok cfg len by (intro sat_add_le) (auto simp: receive_ok_def)
  have "length (write_at c (unat off) data) \<le> unat (fr_expected_size rx)"
    if "\<not> sat_add off (word_of_nat (length data)) > fr_expected_size rx"
    using length_write_at [of c "unat off" data] fit [OF that] c(2) by simp
  then show ?thesis using inv Some c(1)
    by (auto simp: ft_chunk_def Let_def split: option.splits intro!: ft_inv_remove ft_inv_write)
qed (use inv in \<open>simp add: ft_chunk_def\<close>)

lemma ft_inv_done:
  assumes inv: "ft_inv cfg T"
  shows "ft_inv cfg (handle_file_transfer sha256 P cfg io T (FtDone i))"
proof (cases "map_of (ts_transfers T) i")
  case (Some rx)
  have "ft_finish sha256 io (ts_files T) rx t = ts_files T t" if "t \<in> temp_paths T" "t \<noteq> fr_temp_path rx" for t
  proof -
    have "ts_files T t \<noteq> None" using inv that(1) by (auto simp: ft_inv_def temp_paths_def list_all_iff receive_ok_def)
    then show ?thesis using that(2)
      by (cases rule: ft_finish_cases [of sha256 io "ts_files T" rx]) auto
  qed
  with ft_inv_remove [OF inv Some] Some show ?thesis by simp
qed (use inv in simp)

lemma ft_inv_step:
  assumes "ft_inv cfg T" "fc_max_file_bytes cfg < - 1" "ft_fits m"
  shows "ft_inv cfg (handle_file_transfer sha256 P cfg io T m)"
proof (cases m)
  case (FtStart i name sz hash)
  then show ?thesis using ft_inv_start assms(1) by simp
next
  case (FtChunk i off data)
  then show ?thesis using ft_inv_chunk assms by simp
next
  case (FtDone i)
  then show ?thesis using ft_inv_done [OF assms(1)] by simp
next
  case (FtAbort i r)
  then show ?thesis using assms(1) by (auto split: option.split intro: ft_inv_remove)
qed

lemma ft_inv_run:
  "ft_inv cfg T \<Longrightarrow> fc_max_file_bytes cfg < - 1 \<Longrightarrow> list_all (ft_fits \<circ> snd) ms \<Longrightarrow> ft_inv cfg (ft_run sha256 P cfg T ms)"
  by (induction ms arbitrary: T) (auto simp: ft_inv_step)

definition ft_begin :: "(string \<rightharpoonup> bytes) \<Rightarrow> ft_state" where
  "ft_begin files = \<lparr>ts_transfers = [], ts_files = files\<rparr>"

lemma ft_inv_begin: "ft_inv cfg (ft_begin files)"
  by (simp add: ft_inv_def ft_begin_def)

text \<open>
  C23. Resource limits of file transfers: whatever messages a viewer sends and whichever file operations
  fail, at most 8 transfers are in progress, and each has its own temporary file that never holds more
  bytes than its announced size, which is within the configured limit.\<close>

theorem transfer_resources_bounded:
  assumes "fc_max_file_bytes cfg < - 1" "list_all (ft_fits \<circ> snd) ms"
    "T = ft_run sha256 P cfg (ft_begin files) ms" "(i, rx) \<in> set (ts_transfers T)"
  shows "length (ts_transfers T) \<le> 8 \<and> distinct (map (fr_temp_path \<circ> snd) (ts_transfers T)) \<and>
    (\<exists>c. ts_files T (fr_temp_path rx) = Some c \<and> length c \<le> unat (fr_expected_size rx) \<and>
       fr_expected_size rx \<le> fc_max_file_bytes cfg)"
proof -
  have "ft_inv cfg T" unfolding assms(3) by (intro ft_inv_run ft_inv_begin assms(1,2))
  with assms(4) show ?thesis
    by (auto simp: ft_inv_def MAX_CONCURRENT_TRANSFERS_def list_all_iff receive_ok_def)
qed

lemma ft_keeps_existing:
  assumes "p \<notin> temp_paths T" "ts_files T p = Some c" "T' = handle_file_transfer sha256 P cfg io T m"
  shows "p \<notin> temp_paths T' \<and> ts_files T' p = Some c"
proof (cases m)
  case (FtStart i name sz hash)
  have "temp_paths \<lparr>ts_transfers = AList.update i rx (ts_transfers T), ts_files = fs\<rparr> \<subseteq> insert (fr_temp_path rx) (temp_paths T)" for rx fs
    using image_mono [OF set_alist_update [of i rx "ts_transfers T"], of "fr_temp_path \<circ> snd"] by (simp add: temp_paths_def)
  with assms FtStart show ?thesis
    by (fastforce simp: ft_start_def Let_def split: if_splits sum.splits)
next
  case (FtChunk i off data)
  then show ?thesis using assms temp_paths_lookup [of T i]
    by (auto simp: ft_chunk_def Let_def temp_paths_def AList.delete_eq split: option.splits if_splits)
next
  case (FtDone i)
  show ?thesis
  proof (cases "map_of (ts_transfers T) i")
    case (Some rx)
    have "p \<noteq> fr_temp_path rx" using assms(1) temp_paths_lookup [OF Some] by auto
    then have "ft_finish sha256 io (ts_files T) rx p = Some c"
      using assms(2) by (cases rule: ft_finish_cases [of sha256 io "ts_files T" rx]) auto
    with Some FtDone assms show ?thesis by (auto simp: temp_paths_def AList.delete_eq)
  qed (use FtDone assms in simp)
next
  case (FtAbort i r)
  show ?thesis
  proof (cases "map_of (ts_transfers T) i")
    case (Some rx)
    have "p \<noteq> fr_temp_path rx" using assms(1) temp_paths_lookup [OF Some] by auto
    with Some FtAbort assms show ?thesis by (auto simp: temp_paths_def AList.delete_eq)
  qed (use FtAbort assms in simp)
qed

lemma ft_run_keeps_existing:
  "p \<notin> temp_paths T \<Longrightarrow> ts_files T p = Some c \<Longrightarrow>
   p \<notin> temp_paths (ft_run sha256 P cfg T ms) \<and> ts_files (ft_run sha256 P cfg T ms) p = Some c"
proof (induction ms arbitrary: T)
  case (Cons a ms)
  then show ?case using ft_keeps_existing [of p T c _ sha256 P cfg "fst a" "snd a"] by (cases a) simp
qed simp

lemma foldr_remove_other:
  "p \<notin> (fr_temp_path \<circ> snd) ` set ts \<Longrightarrow> foldr (\<lambda>(i, rx). remove_temp io (fr_temp_path rx)) ts files p = files p"
  by (induction ts) auto

lemma ft_teardown_other: "p \<notin> temp_paths T \<Longrightarrow> ts_files (ft_teardown io T) p = ts_files T p"
  by (simp add: ft_teardown_def temp_paths_def foldr_remove_other)

text \<open>
  Received files never replace anything: a file that exists when the session begins has the same
  contents when it ends, whatever transfer messages arrive, whatever names they carry and whichever
  file operations fail.\<close>

theorem existing_files_kept:
  assumes "files p = Some c"
  shows "ts_files (ft_teardown io (ft_run sha256 P cfg (ft_begin files) ms)) p = Some c"
  using ft_run_keeps_existing [of p "ft_begin files" c sha256 P cfg ms] assms
  by (simp add: ft_begin_def temp_paths_def ft_teardown_other [unfolded temp_paths_def])

text \<open>The rule that puts a file in place: an announced transfer whose data has the announced hash.\<close>

definition verified_file ::
  "(bytes \<Rightarrow> bytes) \<Rightarrow> path_sys \<Rightarrow> file_transfer_config \<Rightarrow> (ft_io \<times> file_transfer) list \<Rightarrow> string \<Rightarrow> bytes \<Rightarrow> bool" where
  "verified_file sha256 P cfg ms p c \<longleftrightarrow>
     (\<exists>i name sz temp n. FtStart i name sz (hex_encode (sha256 c)) \<in> snd ` set ms \<and> length c \<le> unat sz \<and> sz \<le> fc_max_file_bytes cfg \<and>
        resolve_safe_path P cfg (''.'' @ uuid_text i @ ''.tmp'') = Ok temp \<and>
        p = dedup_cand (case path_parent temp of Some d \<Rightarrow> d | None \<Rightarrow> ''.'') (sanitize_filename name) n)"

definition announced :: "path_sys \<Rightarrow> file_transfer_config \<Rightarrow> (ft_io \<times> file_transfer) list \<Rightarrow> uuid \<Rightarrow> file_receive \<Rightarrow> bool" where
  "announced P cfg ms i rx \<longleftrightarrow>
     (\<exists>name. FtStart i name (fr_expected_size rx) (fr_expected_hash rx) \<in> snd ` set ms \<and> fr_name rx = sanitize_filename name \<and>
        resolve_safe_path P cfg (''.'' @ uuid_text i @ ''.tmp'') = Ok (fr_temp_path rx))"

definition files_accounted ::
  "(bytes \<Rightarrow> bytes) \<Rightarrow> path_sys \<Rightarrow> file_transfer_config \<Rightarrow> (string \<rightharpoonup> bytes) \<Rightarrow> (ft_io \<times> file_transfer) list \<Rightarrow> ft_state \<Rightarrow> bool" where
  "files_accounted sha256 P cfg files ms T \<longleftrightarrow>
     (\<forall>(i, rx) \<in> set (ts_transfers T). announced P cfg ms i rx) \<and>
     (\<forall>p c. ts_files T p = Some c \<and> files p = None \<longrightarrow> p \<in> temp_paths T \<or> verified_file sha256 P cfg ms p c)"

lemma verified_file_mono: "verified_file sha256 P cfg ms p c \<Longrightarrow> verified_file sha256 P cfg (ms @ ms') p c"
  unfolding verified_file_def by (metis (no_types, lifting) UnI1 image_Un set_append)

lemma announced_mono: "announced P cfg ms i rx \<Longrightarrow> announced P cfg (ms @ ms') i rx"
  by (auto simp: announced_def)

lemma ft_run_snoc: "ft_run sha256 P cfg T (ms @ [(io, m)]) = handle_file_transfer sha256 P cfg io (ft_run sha256 P cfg T ms) m"
  by (simp add: ft_run_def)

lemma accounted_remove:
  assumes acc: "files_accounted sha256 P cfg files ms T" and inv: "ft_inv cfg T" and rx: "map_of (ts_transfers T) i = Some rx"
    and files': "\<And>p c. files' p = Some c \<Longrightarrow> p \<noteq> fr_temp_path rx \<and> (ts_files T p = Some c \<or> verified_file sha256 P cfg ms p c)"
  shows "files_accounted sha256 P cfg files ms \<lparr>ts_transfers = AList.delete i (ts_transfers T), ts_files = files'\<rparr>"
proof -
  have "p \<in> temp_paths \<lparr>ts_transfers = AList.delete i (ts_transfers T), ts_files = files'\<rparr>"
    if "p \<in> temp_paths T" "p \<noteq> fr_temp_path rx" for p
  proof -
    from that(1) obtain j rx' where j: "(j, rx') \<in> set (ts_transfers T)" "p = fr_temp_path rx'" by (auto simp: temp_paths_def)
    have "j \<noteq> i" using inv j that(2) map_of_SomeD [OF rx] by (auto simp: ft_inv_def dest: eq_key_imp_eq_value)
    with j show ?thesis by (force simp: temp_paths_def AList.delete_eq)
  qed
  moreover have "\<forall>(j, rx') \<in> set (AList.delete i (ts_transfers T)). announced P cfg ms j rx'"
    using acc by (auto simp: files_accounted_def AList.delete_eq)
  ultimately show ?thesis using acc files' unfolding files_accounted_def by (simp) blast
qed

lemma accounted_done:
  assumes acc: "files_accounted sha256 P cfg files ms T" and inv: "ft_inv cfg T" and rx: "map_of (ts_transfers T) i = Some rx"
    and io: "fi_remove io"
  shows "files_accounted sha256 P cfg files ms
    \<lparr>ts_transfers = AList.delete i (ts_transfers T), ts_files = ft_finish sha256 io (ts_files T) rx\<rparr>"
proof (rule accounted_remove [OF acc inv rx])
  fix p c assume fin: "ft_finish sha256 io (ts_files T) rx p = Some c"
  have ok: "receive_ok cfg (ts_files T) rx" "announced P cfg ms i rx"
    using inv acc map_of_SomeD [OF rx] by (auto simp: ft_inv_def list_all_iff files_accounted_def)
  show "p \<noteq> fr_temp_path rx \<and> (ts_files T p = Some c \<or> verified_file sha256 P cfg ms p c)"
  proof (cases rule: ft_finish_cases [of sha256 io "ts_files T" rx])
    case removed
    with fin io show ?thesis by (auto simp: remove_temp_def split: if_splits)
  next
    case (saved content dir n)
    have ne: "dedup_cand dir (fr_name rx) n \<noteq> fr_temp_path rx" using saved(1,5) by auto
    have "verified_file sha256 P cfg ms (dedup_cand dir (fr_name rx) n) content"
      using ok saved(1,2,3) unfolding verified_file_def announced_def receive_ok_def hash_file_streaming_def by force
    with fin saved(6) ne show ?thesis by (auto split: if_splits)
  qed
qed

lemma alist_update_new: "i \<notin> fst ` set ts \<Longrightarrow> AList.update i v ts = ts @ [(i, v)]"
  by (induction ts) auto

lemma accounted_start:
  assumes acc: "files_accounted sha256 P cfg files ms T" and inv: "ft_inv cfg T"
  shows "files_accounted sha256 P cfg files (ms @ [(io, FtStart i name sz hash)]) (ft_start P cfg io' T i name sz hash)"
    (is "files_accounted _ _ _ _ ?ms ?T")
proof -
  have old: "files_accounted sha256 P cfg files ?ms T"
    using acc by (auto simp: files_accounted_def intro: announced_mono verified_file_mono)
  show ?thesis
  proof (cases "?T = T")
    case False
    then obtain t where t: "ts_files T t = None" "resolve_safe_path P cfg (''.'' @ uuid_text i @ ''.tmp'') = Ok t"
      and T': "?T = \<lparr>ts_transfers = AList.update i \<lparr>fr_temp_path = t, fr_expected_size = sz,
           fr_expected_hash = hash, fr_name = sanitize_filename name\<rparr> (ts_transfers T), ts_files = (ts_files T)(t \<mapsto> [])\<rparr>"
      by (auto simp: ft_start_def Let_def not_le not_less split: if_splits sum.splits)
    have "i \<notin> fst ` set (ts_transfers T)"
      using acc inv t by (force simp: files_accounted_def ft_inv_def list_all_iff receive_ok_def announced_def)
    note upd = alist_update_new [OF this]
    have "announced P cfg ?ms i \<lparr>fr_temp_path = t, fr_expected_size = sz, fr_expected_hash = hash, fr_name = sanitize_filename name\<rparr>"
      using t(2) by (auto simp: announced_def)
    with old show ?thesis unfolding T' upd by (auto simp: files_accounted_def temp_paths_def)
  qed (use old in simp)
qed

lemma accounted_step:
  assumes acc: "files_accounted sha256 P cfg files ms T" and inv: "ft_inv cfg T" and io: "fi_remove io"
  shows "files_accounted sha256 P cfg files (ms @ [(io, m)]) (handle_file_transfer sha256 P cfg io T m)"
proof -
  have acc': "files_accounted sha256 P cfg files (ms @ [(io, m)]) T"
    using acc by (auto simp: files_accounted_def intro: announced_mono verified_file_mono)
  have drop: "files_accounted sha256 P cfg files (ms @ [(io, m)])
      \<lparr>ts_transfers = AList.delete i (ts_transfers T), ts_files = remove_temp io (fr_temp_path rx) fs\<rparr>"
    if "map_of (ts_transfers T) i = Some rx" "\<And>p. p \<noteq> fr_temp_path rx \<Longrightarrow> fs p = ts_files T p" for i rx fs
    using that io by (intro accounted_remove [OF acc' inv that(1)]) (auto simp: remove_temp_def split: if_splits)
  show ?thesis
  proof (cases m)
    case (FtStart i name sz hash)
    then show ?thesis using accounted_start [OF acc inv] by simp
  next
    case (FtChunk i off data)
    show ?thesis
    proof (cases "map_of (ts_transfers T) i")
      case (Some rx)
      have "files_accounted sha256 P cfg files (ms @ [(io, m)]) (T\<lparr>ts_files := (ts_files T)(fr_temp_path rx \<mapsto> c)\<rparr>)" for c
        using acc' temp_paths_lookup [OF Some] by (auto simp: files_accounted_def temp_paths_def)
      with FtChunk Some show ?thesis by (auto simp: ft_chunk_def Let_def split: option.split intro!: drop [unfolded FtChunk])
    qed (use acc' FtChunk in \<open>simp add: ft_chunk_def\<close>)
  next
    case (FtDone i)
    then show ?thesis using acc' accounted_done [OF acc' inv _ io] by (auto split: option.split)
  next
    case (FtAbort i r)
    then show ?thesis using acc' by (auto split: option.split intro!: drop [unfolded FtAbort])
  qed
qed

lemma accounted_run:
  assumes "fc_max_file_bytes cfg < - 1" "list_all (ft_fits \<circ> snd) ms" "list_all (fi_remove \<circ> fst) ms"
  shows "files_accounted sha256 P cfg files ms (ft_run sha256 P cfg (ft_begin files) ms)"
  using assms(2,3)
proof (induction ms rule: rev_induct)
  case Nil
  then show ?case by (auto simp: files_accounted_def ft_begin_def)
next
  case (snoc a ms)
  obtain io m where a: "a = (io, m)" by (cases a)
  from snoc.prems a have ms: "list_all (ft_fits \<circ> snd) ms" "list_all (fi_remove \<circ> fst) ms" "fi_remove io" by (simp_all add: comp_def)
  show ?case unfolding a ft_run_snoc
    by (rule accounted_step [OF snoc.IH [OF ms(1,2)] ft_inv_run [OF ft_inv_begin assms(1) ms(1)] ms(3)])
qed

lemma foldr_remove_all:
  "fi_remove io \<Longrightarrow> p \<in> (fr_temp_path \<circ> snd) ` set ts \<Longrightarrow> foldr (\<lambda>(i, rx). remove_temp io (fr_temp_path rx)) ts files p = None"
  by (induction ts) (force simp: remove_temp_def)+

text \<open>
  When file operations fail, also the removal of a temporary file, such files may stay behind; they lie at the temporary path of
  an announced transfer.
\<close>

definition temp_file :: "path_sys \<Rightarrow> file_transfer_config \<Rightarrow> (ft_io \<times> file_transfer) list \<Rightarrow> string \<Rightarrow> bool" where
  "temp_file P cfg ms p \<longleftrightarrow> (\<exists>i name sz hash. FtStart i name sz hash \<in> snd ` set ms \<and>
     resolve_safe_path P cfg (''.'' @ uuid_text i @ ''.tmp'') = Ok p)"

definition files_explained ::
  "(bytes \<Rightarrow> bytes) \<Rightarrow> path_sys \<Rightarrow> file_transfer_config \<Rightarrow> (string \<rightharpoonup> bytes) \<Rightarrow> (ft_io \<times> file_transfer) list \<Rightarrow> ft_state \<Rightarrow> bool" where
  "files_explained sha256 P cfg files ms T \<longleftrightarrow>
     (\<forall>(i, rx) \<in> set (ts_transfers T). announced P cfg ms i rx) \<and>
     (\<forall>p c. ts_files T p = Some c \<and> files p = None \<longrightarrow> temp_file P cfg ms p \<or> verified_file sha256 P cfg ms p c)"

lemma announced_temp: "announced P cfg ms i rx \<Longrightarrow> temp_file P cfg ms (fr_temp_path rx)"
  unfolding announced_def temp_file_def by blast

lemma explained_change:
  assumes "files_explained sha256 P cfg files ms T" "map_of (ts_transfers T) i = Some rx" "set ts \<subseteq> set (ts_transfers T)"
    and "\<And>p c. files' p = Some c \<Longrightarrow> p = fr_temp_path rx \<or> ts_files T p = Some c \<or> verified_file sha256 P cfg ms p c"
  shows "files_explained sha256 P cfg files ms \<lparr>ts_transfers = ts, ts_files = files'\<rparr>"
proof -
  have "announced P cfg ms i rx" using assms(1) map_of_SomeD [OF assms(2)] by (auto simp: files_explained_def)
  from announced_temp [OF this] assms show ?thesis by (simp add: files_explained_def subset_iff) blast
qed

lemma temp_file_mono: "temp_file P cfg ms p \<Longrightarrow> temp_file P cfg (ms @ ms') p"
  unfolding temp_file_def by (metis (no_types, lifting) UnI1 image_Un set_append)

lemma explained_mono: "files_explained sha256 P cfg files ms T \<Longrightarrow> files_explained sha256 P cfg files (ms @ ms') T"
  unfolding files_explained_def using announced_mono [of P cfg ms _ _ ms'] verified_file_mono [of sha256 P cfg ms _ _ ms'] temp_file_mono [of P cfg ms _ ms']
  by (simp add: case_prod_unfold) blast

lemma explained_start:
  assumes "files_explained sha256 P cfg files ms T" "ft_inv cfg T"
  shows "files_explained sha256 P cfg files (ms @ [(io, FtStart i name sz hash)]) (ft_start P cfg io' T i name sz hash)"
    (is "files_explained _ _ _ _ ?ms ?T")
proof (cases "?T = T")
  case False
  then obtain t where t: "ts_files T t = None" "resolve_safe_path P cfg (''.'' @ uuid_text i @ ''.tmp'') = Ok t"
    and T': "?T = \<lparr>ts_transfers = AList.update i \<lparr>fr_temp_path = t, fr_expected_size = sz,
         fr_expected_hash = hash, fr_name = sanitize_filename name\<rparr> (ts_transfers T), ts_files = (ts_files T)(t \<mapsto> [])\<rparr>"
    by (auto simp: ft_start_def Let_def not_le not_less split: if_splits sum.splits)
  have "i \<notin> fst ` set (ts_transfers T)"
    using assms t by (force simp: files_explained_def ft_inv_def list_all_iff receive_ok_def announced_def)
  note upd = alist_update_new [OF this]
  have new: "announced P cfg ?ms i \<lparr>fr_temp_path = t, fr_expected_size = sz, fr_expected_hash = hash, fr_name = sanitize_filename name\<rparr>"
    using t(2) by (auto simp: announced_def)
  from announced_temp [OF new] have "temp_file P cfg ?ms t" by simp
  with new explained_mono [OF assms(1), of "[(io, FtStart i name sz hash)]"] show ?thesis
    unfolding T' upd by (auto simp: files_explained_def)
qed (use explained_mono [OF assms(1)] in simp)

lemma explained_step:
  assumes "files_explained sha256 P cfg files ms T" "ft_inv cfg T"
  shows "files_explained sha256 P cfg files (ms @ [(io, m)]) (handle_file_transfer sha256 P cfg io T m)"
proof -
  note old = explained_mono [OF assms(1), of "[(io, m)]"]
  have sub: "set (AList.delete i ts) \<subseteq> set ts" for i and ts :: "(uuid \<times> file_receive) list" by (auto simp: AList.delete_eq)
  have touch: "files_explained sha256 P cfg files (ms @ [(io, m)]) \<lparr>ts_transfers = ts, ts_files = fs\<rparr>"
    if "map_of (ts_transfers T) i = Some rx" "set ts \<subseteq> set (ts_transfers T)" "\<And>p. p \<noteq> fr_temp_path rx \<Longrightarrow> fs p = ts_files T p" for i rx ts fs
    by (rule explained_change [OF old that(1,2)]) (metis that(3))
  show ?thesis
  proof (cases m)
    case (FtStart i name sz hash)
    then show ?thesis using explained_start [OF assms] by simp
  next
    case (FtChunk i off data)
    show ?thesis
    proof (cases "map_of (ts_transfers T) i")
      case (Some rx)
      have "files_explained sha256 P cfg files (ms @ [(io, m)]) (T\<lparr>ts_files := (ts_files T)(fr_temp_path rx \<mapsto> c)\<rparr>)" for c
        using touch [OF Some subset_refl, of "(ts_files T)(fr_temp_path rx \<mapsto> c)"] by (cases T) simp
      with FtChunk Some old show ?thesis
        by (auto simp: ft_chunk_def Let_def remove_temp_def split: option.split intro!: touch [unfolded FtChunk] sub)
    qed (use old FtChunk in \<open>simp add: ft_chunk_def\<close>)
  next
    case (FtDone i)
    show ?thesis
    proof (cases "map_of (ts_transfers T) i")
      case (Some rx)
      have ok: "receive_ok cfg (ts_files T) rx" "announced P cfg (ms @ [(io, m)]) i rx"
        using assms(2) old map_of_SomeD [OF Some] by (auto simp: ft_inv_def list_all_iff files_explained_def)
      have "files_explained sha256 P cfg files (ms @ [(io, m)])
          \<lparr>ts_transfers = AList.delete i (ts_transfers T), ts_files = ft_finish sha256 io (ts_files T) rx\<rparr>"
      proof (cases rule: ft_finish_cases [of sha256 io "ts_files T" rx])
        case removed
        then show ?thesis by (auto intro!: touch [OF Some sub])
      next
        case (saved content dir n)
        have "verified_file sha256 P cfg (ms @ [(io, m)]) (dedup_cand dir (fr_name rx) n) content"
          using ok saved(1,2,3) unfolding verified_file_def announced_def receive_ok_def hash_file_streaming_def by force
        with saved(6) show ?thesis by (intro explained_change [OF old Some sub]) (auto split: if_splits)
      qed
      with FtDone Some show ?thesis by simp
    qed (use old FtDone in simp)
  next
    case (FtAbort i r)
    then show ?thesis using old by (auto split: option.split simp: remove_temp_def intro!: touch [unfolded FtAbort] sub)
  qed
qed

lemma explained_run:
  assumes "fc_max_file_bytes cfg < - 1" "list_all (ft_fits \<circ> snd) ms"
  shows "files_explained sha256 P cfg files ms (ft_run sha256 P cfg (ft_begin files) ms)"
  using assms(2)
proof (induction ms rule: rev_induct)
  case Nil
  then show ?case by (auto simp: files_explained_def ft_begin_def ft_run_def)
next
  case (snoc a ms)
  obtain io m where a: "a = (io, m)" by (cases a)
  from snoc.prems a have ms: "list_all (ft_fits \<circ> snd) ms" by (simp add: comp_def)
  show ?case unfolding a ft_run_snoc
    by (rule explained_step [OF snoc.IH [OF ms] ft_inv_run [OF ft_inv_begin assms(1) ms]])
qed

text \<open>
  C3. Only intact files appear. At every moment of a session, whichever file operations fail, a file that did not exist before it is either a
  temporary file, at the hidden temporary path of a transfer that a \<open>Start\<close> message announced, or it is verified: some \<open>Start\<close> message announced
  the SHA-256 hash of exactly its contents and a size that its length does not exceed (a shorter file whose hash is right is
  saved too), and it lies in the transfer directory under the announced name, sanitized and numbered. When temporary files can be removed and the session is torn down in order, all
  new files are verified.\<close>

theorem received_files_verified:
  assumes "fc_max_file_bytes cfg < - 1" "list_all (ft_fits \<circ> snd) ms" "files p = None"
  shows "(ts_files (ft_run sha256 P cfg (ft_begin files) ms) p = Some c \<longrightarrow> temp_file P cfg ms p \<or> verified_file sha256 P cfg ms p c) \<and>
    (list_all (fi_remove \<circ> fst) ms \<and> fi_remove io \<and> ts_files (ft_teardown io (ft_run sha256 P cfg (ft_begin files) ms)) p = Some c \<longrightarrow>
       verified_file sha256 P cfg ms p c)"
proof (intro conjI impI)
  let ?T = "ft_run sha256 P cfg (ft_begin files) ms"
  show "temp_file P cfg ms p \<or> verified_file sha256 P cfg ms p c" if "ts_files ?T p = Some c"
    using explained_run [OF assms(1,2), of sha256 P files] that assms(3) by (auto simp: files_explained_def)
  assume a: "list_all (fi_remove \<circ> fst) ms \<and> fi_remove io \<and> ts_files (ft_teardown io ?T) p = Some c"
  then have acc: "files_accounted sha256 P cfg files ms ?T" using accounted_run [OF assms(1,2)] by blast
  have "p \<notin> temp_paths ?T"
    using foldr_remove_all [of io p "ts_transfers ?T" "ts_files ?T"] a by (auto simp: temp_paths_def ft_teardown_def comp_def)
  with acc a assms(3) show "verified_file sha256 P cfg ms p c" by (auto simp: files_accounted_def ft_teardown_other)
qed

section \<open>A complete transfer\<close>

fun chunk_msgs :: "uuid \<Rightarrow> nat \<Rightarrow> bytes list \<Rightarrow> file_transfer list" where
  "chunk_msgs i off [] = []"
| "chunk_msgs i off (d # ds) = FtChunk i (word_of_nat off) d # chunk_msgs i (off + length d) ds"

definition io_ok :: ft_io where
  "io_ok = \<lparr>fi_create = True, fi_write = None, fi_read = True, fi_rename = True, fi_remove = True\<rparr>"

definition ft_run_ok ::
  "(bytes \<Rightarrow> bytes) \<Rightarrow> path_sys \<Rightarrow> file_transfer_config \<Rightarrow> ft_state \<Rightarrow> file_transfer list \<Rightarrow> ft_state" where
  "ft_run_ok sha256 P cfg T ms = ft_run sha256 P cfg T (map (Pair io_ok) ms)"

lemma ft_run_ok_simps [simp]:
  "ft_run_ok sha256 P cfg T [] = T"
  "ft_run_ok sha256 P cfg T (m # ms) = ft_run_ok sha256 P cfg (handle_file_transfer sha256 P cfg io_ok T m) ms"
  "ft_run_ok sha256 P cfg T (ms @ ms') = ft_run_ok sha256 P cfg (ft_run_ok sha256 P cfg T ms) ms'"
  by (simp_all add: ft_run_ok_def ft_run_def)

lemma write_at_end: "length c = off \<Longrightarrow> write_at c off d = c @ d"
  by (auto simp: write_at_def)

lemma chunk_in_order:
  assumes "map_of (ts_transfers T) i = Some rx" "ts_files T (fr_temp_path rx) = Some c"
    "length c + length d \<le> unat (fr_expected_size rx)"
  shows "ft_chunk io_ok T i (word_of_nat (length c)) d = T\<lparr>ts_files := (ts_files T)(fr_temp_path rx \<mapsto> c @ d)\<rparr>"
proof -
  have lt: "length c + length d < 2 ^ 64" using assms(3) unsigned_less [of "fr_expected_size rx", where 'a = nat] by simp
  then have u: "unat (word_of_nat (length c) :: u64) = length c" "unat (word_of_nat (length d) :: u64) = length d"
    by (simp_all add: unat_of_nat)
  have "sat_add (word_of_nat (length c)) (word_of_nat (length d)) = (word_of_nat (length c + length d) :: u64)"
    using lt by (simp add: sat_add_def u)
  moreover have "unat (word_of_nat (length c + length d) :: u64) = length c + length d"
    using lt by (simp only: unat_of_nat) (simp del: of_nat_add)
  ultimately have "\<not> sat_add (word_of_nat (length c)) (word_of_nat (length d)) > fr_expected_size rx"
    using assms(3) by (simp only: word_less_nat_alt not_less)
  with assms(1,2) show ?thesis by (simp add: ft_chunk_def Let_def io_ok_def u write_at_end)
qed

lemma chunks_in_order:
  "map_of (ts_transfers T) i = Some rx \<Longrightarrow> ts_files T (fr_temp_path rx) = Some c \<Longrightarrow>
   length c + length (concat ds) \<le> unat (fr_expected_size rx) \<Longrightarrow>
   ft_run_ok sha256 P cfg T (chunk_msgs i (length c) ds) = T\<lparr>ts_files := (ts_files T)(fr_temp_path rx \<mapsto> c @ concat ds)\<rparr>"
proof (induction ds arbitrary: T c)
  case (Cons d ds)
  let ?T = "T\<lparr>ts_files := (ts_files T)(fr_temp_path rx \<mapsto> c @ d)\<rparr>"
  have "ft_run_ok sha256 P cfg ?T (chunk_msgs i (length (c @ d)) ds) = ?T\<lparr>ts_files := (ts_files ?T)(fr_temp_path rx \<mapsto> (c @ d) @ concat ds)\<rparr>"
    using Cons.prems by (intro Cons.IH) auto
  with chunk_in_order [of T i rx c d] Cons.prems show ?case by (simp del: fun_upd_apply)
qed (auto simp: fun_upd_idem)

lemma hash_format_hex: "length bs = 32 \<Longrightarrow> hash_format_ok (hex_encode bs)"
  by (simp add: hash_format_ok_def hex_encode_length hex_encode_digits del: not_None_eq)

definition transfer_dest :: "string \<Rightarrow> string \<Rightarrow> string" where
  "transfer_dest temp name = path_join (case path_parent temp of Some d \<Rightarrow> d | None \<Rightarrow> ''.'') (sanitize_filename name)"

lemma transfer_complete:
  assumes "resolve_safe_path P cfg (''.'' @ uuid_text i @ ''.tmp'') = Ok temp" "files temp = None"
    and "sanitize_filename name \<noteq> []" "files (transfer_dest temp name) = None"
    and "transfer_dest temp name \<noteq> temp" "unat sz = length (concat ds)" "sz \<le> fc_max_file_bytes cfg" "length (sha256 (concat ds)) = 32"
  shows "ft_run_ok sha256 P cfg (ft_begin files)
      (FtStart i name sz (hex_encode (sha256 (concat ds))) # chunk_msgs i 0 ds @ [FtDone i]) =
    ft_begin (files(transfer_dest temp name \<mapsto> concat ds))"
proof -
  let ?h = "hex_encode (sha256 (concat ds))"
  let ?rx = "\<lparr>fr_temp_path = temp, fr_expected_size = sz, fr_expected_hash = ?h, fr_name = sanitize_filename name\<rparr>"
  let ?T = "\<lparr>ts_transfers = [(i, ?rx)], ts_files = files(temp \<mapsto> [])\<rparr>"
  have h: "hash_format_ok ?h" using assms(8) by (rule hash_format_hex)
  have "ft_start P cfg io_ok (ft_begin files) i name sz ?h = ?T"
    using assms(1-3,7) h by (simp add: ft_start_def ft_begin_def MAX_CONCURRENT_TRANSFERS_def io_ok_def not_less)
  moreover have "ft_run_ok sha256 P cfg ?T (chunk_msgs i (length ([] :: bytes)) ds) = ?T\<lparr>ts_files := (ts_files ?T)(temp \<mapsto> [] @ concat ds)\<rparr>"
    using assms(6) chunks_in_order [of ?T i ?rx "[]" ds sha256 P cfg] by simp
  moreover have "ft_finish sha256 io_ok (files(temp \<mapsto> concat ds)) ?rx = files(transfer_dest temp name \<mapsto> concat ds)"
    using assms(2,4,5) by (auto simp: ft_finish_def io_ok_def hash_file_streaming_def transfer_dest_def MAX_DEDUP_def
        Let_def dedup_loop.simps fun_eq_iff)
  ultimately show ?thesis by (simp add: ft_begin_def AList.delete_eq)
qed

text \<open>
  A file sent is the file saved: a \<open>Start\<close> with the size and hash of some data, its chunks in order
  (however it was cut) and \<open>Done\<close> leave exactly one new file, under the sanitized name in the transfer
  directory, with exactly that data.\<close>

theorem transfer_roundtrip:
  assumes "resolve_safe_path P cfg (''.'' @ uuid_text i @ ''.tmp'') = Ok temp" "files temp = None"
    and "sanitize_filename name \<noteq> []" "files (transfer_dest temp name) = None"
    and "transfer_dest temp name \<noteq> temp" "unat sz = length (concat ds)" "sz \<le> fc_max_file_bytes cfg" "length (sha256 (concat ds)) = 32"
  shows "ft_run_ok sha256 P cfg (ft_begin files)
      (FtStart i name sz (hex_encode (sha256 (concat ds))) # chunk_msgs i 0 ds @ [FtDone i]) =
    ft_begin (files(transfer_dest temp name \<mapsto> concat ds))"
  using assms by (rule transfer_complete)

definition wit_ft_sys :: path_sys where
  "wit_ft_sys = \<lparr>ps_canonicalize = (\<lambda>p. if p = ''/d'' then Some p else None), ps_is_symlink = (\<lambda>p. None)\<rparr>"

definition wit_ft_cfg :: file_transfer_config where
  "wit_ft_cfg = \<lparr>fc_allowed_roots = [''/d''], fc_max_file_bytes = 100, fc_max_session_bytes = 1000\<rparr>"

definition wit_ft_temp :: string where
  "wit_ft_temp = ''/d/.00000000-0000-0000-0000-000000000001.tmp''"

definition wit_ft_sha :: "bytes \<Rightarrow> bytes" where
  "wit_ft_sha bs = replicate 32 (word_of_nat (length bs))"

definition wit_ft_start :: file_transfer where
  "wit_ft_start = FtStart 1 ''../a.txt'' 3 (hex_encode (wit_ft_sha [1, 2, 3]))"

definition wit_ft_msgs :: "file_transfer list" where
  "wit_ft_msgs = wit_ft_start # chunk_msgs 1 0 [[1, 2], [3]] @ [FtDone 1]"

lemma wit_ft_resolve: "resolve_safe_path wit_ft_sys wit_ft_cfg (''.'' @ uuid_text 1 @ ''.tmp'') = Ok wit_ft_temp"
  by code_simp

lemma wit_ft_name: "sanitize_filename ''../a.txt'' = ''a.txt''" "transfer_dest wit_ft_temp ''../a.txt'' = ''/d/a.txt''"
  "wit_ft_temp \<noteq> ''/d/a.txt''"
  by code_simp+

lemma wit_ft_complete:
  "ft_run_ok wit_ft_sha wit_ft_sys wit_ft_cfg (ft_begin Map.empty) wit_ft_msgs = ft_begin [''/d/a.txt'' \<mapsto> [1, 2, 3]]"
  using transfer_complete [OF wit_ft_resolve, of Map.empty "''../a.txt''" 3 "[[1, 2], [3]]" wit_ft_sha]
  by (simp add: wit_ft_name wit_ft_name(3) [symmetric] wit_ft_msgs_def wit_ft_start_def wit_ft_cfg_def wit_ft_sha_def)

theorem transfer_roundtrip_witness:
  "ft_run_ok wit_ft_sha wit_ft_sys wit_ft_cfg (ft_begin Map.empty) wit_ft_msgs = ft_begin [''/d/a.txt'' \<mapsto> [1, 2, 3]]"
  using transfer_roundtrip [OF wit_ft_resolve, of Map.empty "''../a.txt''" 3 "[[1, 2], [3]]" wit_ft_sha]
  by (simp add: wit_ft_name wit_ft_name(3) [symmetric] wit_ft_msgs_def wit_ft_start_def wit_ft_cfg_def wit_ft_sha_def)

theorem existing_files_kept_witness:
  "ts_files (ft_teardown io_ok (ft_run wit_ft_sha wit_ft_sys wit_ft_cfg (ft_begin [''/d/a.txt'' \<mapsto> [9]])
     (map (Pair io_ok) wit_ft_msgs))) ''/d/a.txt'' = Some [9]"
  by (rule existing_files_kept) simp

theorem received_files_verified_witness:
  "verified_file wit_ft_sha wit_ft_sys wit_ft_cfg (map (Pair io_ok) wit_ft_msgs) ''/d/a.txt'' [1, 2, 3]"
proof -
  have "ts_files (ft_teardown io_ok (ft_run wit_ft_sha wit_ft_sys wit_ft_cfg (ft_begin Map.empty) (map (Pair io_ok) wit_ft_msgs)))
      ''/d/a.txt'' = Some [1, 2, 3]"
    using wit_ft_complete by (simp add: ft_run_ok_def ft_begin_def ft_teardown_def)
  moreover have "list_all (fi_remove \<circ> fst) (map (Pair io_ok) wit_ft_msgs)" "fi_remove io_ok"
    by (simp_all add: wit_ft_msgs_def wit_ft_start_def io_ok_def)
  moreover have "fc_max_file_bytes wit_ft_cfg < - 1" "list_all (ft_fits \<circ> snd) (map (Pair io_ok) wit_ft_msgs)"
    by (simp_all add: wit_ft_cfg_def wit_ft_msgs_def wit_ft_start_def)
  ultimately show ?thesis using received_files_verified [of wit_ft_cfg "map (Pair io_ok) wit_ft_msgs" Map.empty "''/d/a.txt''"] by blast
qed

theorem transfer_resources_bounded_witness:
  "\<exists>c. ts_files (ft_run wit_ft_sha wit_ft_sys wit_ft_cfg (ft_begin Map.empty) [(io_ok, wit_ft_start)]) wit_ft_temp = Some c \<and>
     length c \<le> 3"
proof -
  let ?rx = "\<lparr>fr_temp_path = wit_ft_temp, fr_expected_size = 3, fr_expected_hash = hex_encode (wit_ft_sha [1, 2, 3]), fr_name = ''a.txt''\<rparr>"
  have "(1, ?rx) \<in> set (ts_transfers (ft_run wit_ft_sha wit_ft_sys wit_ft_cfg (ft_begin Map.empty) [(io_ok, wit_ft_start)]))"
    using wit_ft_resolve hash_format_hex [of "wit_ft_sha [1, 2, 3]"]
    by (simp add: wit_ft_start_def ft_start_def ft_begin_def MAX_CONCURRENT_TRANSFERS_def wit_ft_name io_ok_def
        wit_ft_cfg_def [THEN arg_cong, of fc_max_file_bytes] wit_ft_sha_def)
  from transfer_resources_bounded [OF _ _ refl this] show ?thesis
    by (simp add: wit_ft_cfg_def wit_ft_start_def)
qed

end
