(* ===== verification/Input_Handler.thy ===== *)
theory Input_Handler
  imports Messages
begin

text \<open>
  Input injection on the host: the mapping of pointer positions onto the virtual desktop
  (\<open>miru-common/src/display_map.rs\<close>) and the handler that limits, tracks and injects a viewer's
  events (\<open>miru-host/src/input_handler.rs\<close>).

  Floating-point values are real numbers, rounded after every operation; NaN is not among them. The
  operating system's answer to an injection is an argument, and the events handed to it are part of
  the result. An \<open>Instant\<close> is a number of nanoseconds.
\<close>

section \<open>The virtual desktop\<close>

record bounds =
  bo_x :: int
  bo_y :: int
  bo_width :: u32
  bo_height :: u32

definition clamp_u32 :: "int \<Rightarrow> u32" where
  "clamp_u32 v = word_of_int (max 0 (min v (2 ^ 32 - 1)))"

definition virtual_desktop :: "display_info list \<Rightarrow> bounds option" where
  "virtual_desktop displays =
     (case displays of
        [] \<Rightarrow> None
      | first # rest \<Rightarrow>
          (let min_x = foldl (\<lambda>a d. min a (di_x d)) (di_x first) rest;
               min_y = foldl (\<lambda>a d. min a (di_y d)) (di_y first) rest;
               max_x = foldl (\<lambda>a d. max a (di_x d + uint (di_width d))) (di_x first + uint (di_width first)) rest;
               max_y = foldl (\<lambda>a d. max a (di_y d + uint (di_height d))) (di_y first + uint (di_height first)) rest
           in Some \<lparr>bo_x = min_x, bo_y = min_y, bo_width = clamp_u32 (max_x - min_x), bo_height = clamp_u32 (max_y - min_y)\<rparr>))"

definition unit_f64 :: "f32 \<Rightarrow> f64" where
  "unit_f64 v = clampf 0 1 v"

definition select_display :: "display_info list \<Rightarrow> u8 \<Rightarrow> display_info option" where
  "select_display displays index =
     (case List.find (\<lambda>d. di_index d = index) displays of
        Some d \<Rightarrow> Some d
      | None \<Rightarrow>
          (case List.find di_primary displays of
             Some d \<Rightarrow> Some d
           | None \<Rightarrow> (case displays of [] \<Rightarrow> None | d # _ \<Rightarrow> Some d)))"

definition absolute :: "display_info list \<Rightarrow> u8 \<Rightarrow> f32 \<Rightarrow> f32 \<Rightarrow> (f64 \<times> f64) option" where
  "absolute displays index nx ny =
     map_option (\<lambda>d.
       (to_f64 (of_int (di_x d) + to_f64 (unit_f64 nx * of_int (uint (di_width d)))),
        to_f64 (of_int (di_y d) + to_f64 (unit_f64 ny * of_int (uint (di_height d))))))
     (select_display displays index)"

definition virtual_normalized :: "display_info list \<Rightarrow> u8 \<Rightarrow> f32 \<Rightarrow> f32 \<Rightarrow> (f64 \<times> f64) option" where
  "virtual_normalized displays index nx ny =
     (case (absolute displays index nx ny, virtual_desktop displays) of
        (Some (ax, ay), Some vd) \<Rightarrow>
          if bo_width vd = 0 \<or> bo_height vd = 0 then None
          else Some
            (clampf 0 1 (to_f64 (to_f64 (ax - of_int (bo_x vd)) / of_int (uint (bo_width vd)))),
             clampf 0 1 (to_f64 (to_f64 (ay - of_int (bo_y vd)) / of_int (uint (bo_height vd)))))
      | _ \<Rightarrow> None)"

section \<open>The handler\<close>

record input_handler =
  ih_event_count :: u32
  ih_window_start :: nat
  ih_held_keys :: "(u32 \<times> string option) list"
  ih_displays :: "display_info list"

definition MAX_EVENTS_PER_SEC :: u32 where
  "MAX_EVENTS_PER_SEC = 1000"

definition MAX_TEXT_CHARS :: nat where
  "MAX_TEXT_CHARS = 4096"

definition SECOND_NS :: nat where
  "SECOND_NS = 1000000000"

definition new_input_handler :: "nat \<Rightarrow> input_handler" where
  "new_input_handler now = \<lparr>ih_event_count = 0, ih_window_start = now, ih_held_keys = [], ih_displays = []\<rparr>"

definition set_displays :: "input_handler \<Rightarrow> display_info list \<Rightarrow> input_handler" where
  "set_displays H displays = H\<lparr>ih_displays := displays\<rparr>"

definition to_virtual :: "input_handler \<Rightarrow> f32 \<Rightarrow> f32 \<Rightarrow> u8 \<Rightarrow> f32 \<times> f32" where
  "to_virtual H x y display =
     (case virtual_normalized (ih_displays H) display x y of
        Some (vx, vy) \<Rightarrow> (to_f32 vx, to_f32 vy)
      | None \<Rightarrow> (x, y))"

definition release_event :: "u32 \<times> string option \<Rightarrow> input_event" where
  "release_event k = \<lparr>ie_kind = KeyUp (fst k) 0 (snd k), ie_timestamp_ms = 0\<rparr>"

text \<open>\<open>release_all_keys\<close>: the events injected (failures are only logged) and the handler after it.\<close>

definition release_all_keys :: "input_handler \<Rightarrow> input_event list \<times> input_handler" where
  "release_all_keys H = (map release_event (ih_held_keys H), H\<lparr>ih_held_keys := []\<rparr>)"

definition track_keys :: "input_kind \<Rightarrow> (u32 \<times> string option) list \<Rightarrow> (u32 \<times> string option) list" where
  "track_keys k held =
     (case k of
        KeyDown key m code \<Rightarrow> List.insert (key, code) held
      | KeyUp key m code \<Rightarrow> removeAll (key, code) held
      | _ \<Rightarrow> held)"

definition remap :: "input_handler \<Rightarrow> input_kind \<Rightarrow> input_kind" where
  "remap H k =
     (case k of
        MouseMove x y display \<Rightarrow> (let (x, y) = to_virtual H x y display in MouseMove x y display)
      | MouseDown button x y display \<Rightarrow> (let (x, y) = to_virtual H x y display in MouseDown button x y display)
      | MouseUp button x y display \<Rightarrow> (let (x, y) = to_virtual H x y display in MouseUp button x y display)
      | Scroll dx dy x y display \<Rightarrow> (let (x, y) = to_virtual H x y display in Scroll dx dy x y display)
      | _ \<Rightarrow> k)"

text \<open>
  \<open>handle_input\<close> reads the clock once to see whether the window is over and again to start the next
  one. The result is the injection's success, the events injected and the handler after the call.
\<close>

definition handle_input ::
  "(input_event \<Rightarrow> bool) \<Rightarrow> nat \<Rightarrow> nat \<Rightarrow> input_handler \<Rightarrow> input_event \<Rightarrow> bool \<times> input_event list \<times> input_handler" where
  "handle_input inject now now' H event =
     (let H1 = (if now - ih_window_start H > SECOND_NS then H\<lparr>ih_event_count := 0, ih_window_start := now'\<rparr> else H);
          H2 = H1\<lparr>ih_event_count := ih_event_count H1 + 1\<rparr>
      in if ih_event_count H2 > MAX_EVENTS_PER_SEC then (True, [], H2)
         else if (case ie_kind event of TextInput text \<Rightarrow> chars_count text > MAX_TEXT_CHARS | _ \<Rightarrow> False) then (True, [], H2)
         else
           (let H3 = H2\<lparr>ih_held_keys := track_keys (ie_kind event) (ih_held_keys H2)\<rparr>;
                event' = event\<lparr>ie_kind := remap H3 (ie_kind event)\<rparr>
            in (inject event', [event'], H3)))"

text \<open>\<open>handle_clipboard\<close>: what is handed to the operating system's clipboard.\<close>

datatype clipboard_write = SetClipboard string | SetClipboardRaw bytes string

definition handle_clipboard :: "(bytes \<Rightarrow> string) \<Rightarrow> clipboard_sync \<Rightarrow> clipboard_write" where
  "handle_clipboard from_utf8_lossy sync =
     (case cs_format sync of
        ClipText \<Rightarrow> SetClipboard (from_utf8_lossy (cs_data sync))
      | ClipHtml \<Rightarrow> SetClipboardRaw (cs_data sync) ''text/html''
      | ClipImage \<Rightarrow> SetClipboardRaw (cs_data sync) ''image/png'')"

text \<open>A sequence of calls, each with its clock readings; the events injected and the handler at the end.\<close>

fun input_run ::
  "(input_event \<Rightarrow> bool) \<Rightarrow> input_handler \<Rightarrow> (nat \<times> nat \<times> input_event) list \<Rightarrow> input_event list \<times> input_handler" where
  "input_run inject H [] = ([], H)"
| "input_run inject H ((now, now', ev) # evs) =
     (let (_, out, H') = handle_input inject now now' H ev; (outs, H'') = input_run inject H' evs in (out @ outs, H''))"

section \<open>Held keys\<close>

text \<open>The keys that are down after a sequence of injected events.\<close>

fun press :: "input_event \<Rightarrow> (u32 \<times> string option) set \<Rightarrow> (u32 \<times> string option) set" where
  "press ev ks =
     (case ie_kind ev of
        KeyDown key m code \<Rightarrow> insert (key, code) ks
      | KeyUp key m code \<Rightarrow> ks - {(key, code)}
      | _ \<Rightarrow> ks)"

definition keys_down :: "(u32 \<times> string option) set \<Rightarrow> input_event list \<Rightarrow> (u32 \<times> string option) set" where
  "keys_down ks evs = fold press evs ks"

lemma press_remap: "press (ev\<lparr>ie_kind := remap H (ie_kind ev)\<rparr>) (set held) = set (track_keys (ie_kind ev) held)"
  by (cases "ie_kind ev") (auto simp: remap_def track_keys_def Let_def split: prod.splits)

lemma handle_input_held:
  "handle_input inject now now' H ev = (ok, out, H') \<Longrightarrow> keys_down (set (ih_held_keys H)) out = set (ih_held_keys H')"
  by (auto simp: handle_input_def Let_def keys_down_def press_remap simp del: press.simps split: if_splits)

lemma input_run_held:
  "input_run inject H evs = (out, H') \<Longrightarrow> keys_down (set (ih_held_keys H)) out = set (ih_held_keys H')"
proof (induction inject H evs arbitrary: out H' rule: input_run.induct)
  case (2 inject H now now' ev evs)
  obtain ok o1 H1 where h: "handle_input inject now now' H ev = (ok, o1, H1)" using prod_cases3 by blast
  obtain o2 H2 where r: "input_run inject H1 evs = (o2, H2)" by fastforce
  from 2 h r have "keys_down (set (ih_held_keys H1)) o2 = set (ih_held_keys H2)" "out = o1 @ o2" "H' = H2" by auto
  with handle_input_held [OF h] show ?case by (simp add: keys_down_def)
qed (simp add: keys_down_def)

lemma keys_down_release: "keys_down ks (map release_event held) = ks - set held"
  by (induction held arbitrary: ks) (auto simp: keys_down_def release_event_def)

text \<open>
  No key stays down after a session: whatever events a viewer sent, dropped or injected, once the
  handler has released its keys every key that was injected as pressed has been injected as released.\<close>

theorem no_stuck_keys:
  assumes "input_run inject (new_input_handler t) evs = (out, H)"
  shows "keys_down {} (out @ fst (release_all_keys H)) = {} \<and> ih_held_keys (snd (release_all_keys H)) = []"
  using input_run_held [OF assms] by (simp add: new_input_handler_def release_all_keys_def keys_down_release [unfolded keys_down_def] keys_down_def)

definition wit_key_event :: input_event where
  "wit_key_event = \<lparr>ie_kind = KeyDown 17 0 (Some ''ControlLeft''), ie_timestamp_ms = 5\<rparr>"

lemma wit_key_run: "input_run (\<lambda>_. True) (new_input_handler 0) [(0, 0, wit_key_event)] =
  ([wit_key_event], (new_input_handler 0)\<lparr>ih_event_count := 1, ih_held_keys := [(17, Some ''ControlLeft'')]\<rparr>)"
  by (simp add: handle_input_def new_input_handler_def wit_key_event_def MAX_EVENTS_PER_SEC_def track_keys_def remap_def)

theorem no_stuck_keys_witness:
  "keys_down {} [wit_key_event] = {(17, Some ''ControlLeft'')} \<and>
   keys_down {} ([wit_key_event] @ [release_event (17, Some ''ControlLeft'')]) = {}"
  using no_stuck_keys [OF wit_key_run]
  by (simp add: keys_down_def wit_key_event_def release_all_keys_def)

section \<open>Rate limit\<close>

lemma handle_input_count:
  assumes "handle_input inject now now' H ev = (ok, out, H')"
  shows "length out \<le> 1" "now - ih_window_start H \<le> SECOND_NS \<Longrightarrow> ih_window_start H' = ih_window_start H"
    "now - ih_window_start H \<le> SECOND_NS \<Longrightarrow> ih_event_count H' = ih_event_count H + 1"
    "ih_event_count H' > MAX_EVENTS_PER_SEC \<Longrightarrow> out = []"
    "now - ih_window_start H > SECOND_NS \<Longrightarrow> ih_window_start H' = now' \<and> ih_event_count H' = 1"
  using assms by (auto simp: handle_input_def Let_def split: if_splits)

lemma input_run_Cons:
  assumes "input_run inject H ((now, now', ev) # evs) = (out, H'')"
  obtains ok o1 H' o2 where "handle_input inject now now' H ev = (ok, o1, H')" "input_run inject H' evs = (o2, H'')" "out = o1 @ o2"
  using assms by (auto split: prod.splits)

text \<open>Within one window.\<close>

lemma input_run_window:
  "input_run inject H evs = (out, H') \<Longrightarrow> \<forall>(now, now', ev) \<in> set evs. now - ih_window_start H \<le> SECOND_NS \<Longrightarrow>
   unat (ih_event_count H) + length evs < 2 ^ 32 \<Longrightarrow> length out \<le> 1000 - unat (ih_event_count H)"
proof (induction evs arbitrary: H out)
  case (Cons a evs)
  obtain now now' ev where a: "a = (now, now', ev)" using prod_cases3 by blast
  from Cons.prems(1) [unfolded a] obtain ok o1 H1 o2
    where h: "handle_input inject now now' H ev = (ok, o1, H1)" "input_run inject H1 evs = (o2, H')" "out = o1 @ o2"
    by (rule input_run_Cons)
  have now: "now - ih_window_start H \<le> SECOND_NS" using Cons.prems(2) a by auto
  have c: "unat (ih_event_count H1) = Suc (unat (ih_event_count H))"
    using Cons.prems(3) handle_input_count(3) [OF h(1) now] by (simp add: unat_word_ariths)
  have "length o2 \<le> 1000 - unat (ih_event_count H1)"
    using Cons.prems c handle_input_count(2) [OF h(1) now] a by (intro Cons.IH [OF h(2)]) auto
  moreover have "length o1 \<le> (if unat (ih_event_count H1) > 1000 then 0 else 1)"
    using handle_input_count(1,4) [OF h(1)] by (auto simp: MAX_EVENTS_PER_SEC_def word_less_nat_alt)
  ultimately show ?case using h(3) c by (auto split: if_splits)
qed simp

lemma input_run_two_windows:
  assumes "input_run inject H evs = (out, H')"
    and "list_all (\<lambda>(now, now', ev). t \<le> now \<and> now \<le> now' \<and> now' \<le> t + SECOND_NS) evs"
    and "unat (ih_event_count H) + length evs < 2 ^ 32"
  shows "length out \<le> (1000 - unat (ih_event_count H)) + 1000"
  using assms
proof (induction evs arbitrary: H out)
  case (Cons a evs)
  obtain now now' ev where a: "a = (now, now', ev)" using prod_cases3 by blast
  from Cons.prems(1) [unfolded a] obtain ok o1 H1 o2
    where h: "handle_input inject now now' H ev = (ok, o1, H1)" "input_run inject H1 evs = (o2, H')" "out = o1 @ o2"
    by (rule input_run_Cons)
  show ?case
  proof (cases "now - ih_window_start H \<le> SECOND_NS")
    case True
    have c: "unat (ih_event_count H1) = Suc (unat (ih_event_count H))"
      using Cons.prems(3) handle_input_count(3) [OF h(1) True] by (simp add: unat_word_ariths)
    have "length o2 \<le> (1000 - unat (ih_event_count H1)) + 1000"
      using Cons.prems c by (intro Cons.IH [OF h(2)]) auto
    moreover have "length o1 \<le> (if unat (ih_event_count H1) > 1000 then 0 else 1)"
      using handle_input_count(1,4) [OF h(1)] by (auto simp: MAX_EVENTS_PER_SEC_def word_less_nat_alt)
    ultimately show ?thesis using h(3) c by (auto split: if_splits)
  next
    case False
    then have w: "ih_window_start H1 = now'" "ih_event_count H1 = 1" using handle_input_count(5) [OF h(1)] by auto
    have "\<forall>(n, n', e) \<in> set evs. n - ih_window_start H1 \<le> SECOND_NS"
      using Cons.prems(2) a w(1) by (fastforce simp: list_all_iff)
    from input_run_window [OF h(2) this] Cons.prems(3) w(2) have "length o2 \<le> 999" by simp
    with handle_input_count(1) [OF h(1)] h(3) show ?thesis by simp
  qed
qed simp

text \<open>
  Injection rate: from any state of the handler, calls whose clock readings lie within one second
  inject at most 2000 events, whatever the viewer sends: a window of one second lets at most 1000 through,
  and at most one new window starts within a second.\<close>

theorem input_rate_bound:
  assumes "input_run inject H evs = (out, H')"
    and "list_all (\<lambda>(now, now', ev). t \<le> now \<and> now \<le> now' \<and> now' \<le> t + 1000000000) evs"
    and "unat (ih_event_count H) + length evs < 2 ^ 32"
  shows "length out \<le> 2000"
  using input_run_two_windows [of inject H evs out H' t] assms by (simp add: SECOND_NS_def)

theorem input_rate_bound_witness:
  "length (fst (input_run (\<lambda>_. True) (new_input_handler 0) [(0, 0, wit_key_event)])) \<le> 2000"
  unfolding wit_key_run fst_conv
  by (rule input_rate_bound [OF wit_key_run, of 0]) (simp_all add: new_input_handler_def)

section \<open>Pointer positions\<close>

text \<open>Rounding keeps what the format can represent.\<close>

definition representable :: "int \<Rightarrow> int \<Rightarrow> real \<Rightarrow> bool" where
  "representable p emin r \<longleftrightarrow> (\<exists>m e. r = of_int m * 2 powr of_int e \<and> \<bar>m\<bar> < 2 ^ nat p \<and> emin \<le> e)"

lemma round_bin_exact:
  assumes "representable p emin r" "0 < p"
  shows "round_bin p emin r = r"
proof (cases "r = 0")
  case False
  obtain m e where r: "r = of_int m * 2 powr of_int e" "\<bar>m\<bar> < 2 ^ nat p" "emin \<le> e"
    using assms(1) by (auto simp: representable_def)
  let ?s = "max (\<lfloor>log 2 \<bar>r\<bar>\<rfloor> - (p - 1)) emin"
  have m: "m \<noteq> 0" using r(1) False by auto
  have "log 2 \<bar>of_int m\<bar> < of_int p"
  proof -
    have "\<bar>real_of_int m\<bar> < 2 ^ nat p" using r(2) by (metis of_int_abs of_int_less_iff of_int_numeral of_int_power)
    then have "\<bar>real_of_int m\<bar> < 2 powr of_int p" using assms(2) by (simp add: powr_realpow [symmetric])
    with m show ?thesis by (simp add: log_less_iff)
  qed
  moreover have "log 2 \<bar>r\<bar> = log 2 \<bar>of_int m\<bar> + of_int e"
    using m by (simp add: r(1) abs_mult log_mult)
  ultimately have "\<lfloor>log 2 \<bar>r\<bar>\<rfloor> < p + e" by (simp add: floor_less_iff)
  then have s: "?s \<le> e" using r(3) by simp
  have "r / 2 powr of_int ?s = of_int m * 2 powr (of_int e - of_int ?s)"
    by (simp add: r(1) powr_diff)
  also have "2 powr (of_int e - of_int ?s) = (2 :: real) ^ nat (e - ?s)"
    using s by (simp add: powr_realpow [symmetric] flip: of_int_diff)
  finally have "r / 2 powr of_int ?s = of_int (m * 2 ^ nat (e - ?s))" by simp
  then have "of_int (round_half_even (r / 2 powr of_int ?s)) = r / 2 powr of_int ?s" by (metis round_half_even_int)
  with False show ?thesis by (simp add: round_bin_def Let_def)
qed simp

definition is_f32 :: "real \<Rightarrow> bool" where
  "is_f32 r \<longleftrightarrow> representable 24 (- 149) r"

lemma to_f32_exact: "is_f32 r \<Longrightarrow> to_f32 r = r"
  by (simp add: is_f32_def to_f32_def round_bin_exact)

lemma to_f64_exact: "representable 53 (- 1074) r \<Longrightarrow> to_f64 r = r"
  by (simp add: to_f64_def round_bin_exact)

lemma to_f64_of_f32: "is_f32 r \<Longrightarrow> to_f64 r = r"
  by (rule to_f64_exact) (force simp: is_f32_def representable_def)

lemma to_f64_scaled:
  assumes "is_f32 r" "w < 2 ^ 29"
  shows "to_f64 (r * of_int (uint (w :: u32))) = r * of_int (uint w)"
proof (rule to_f64_exact)
  obtain m e where r: "r = of_int m * 2 powr of_int e" "\<bar>m\<bar> < 2 ^ 24" "- 149 \<le> e"
    using assms(1) by (auto simp: is_f32_def representable_def)
  have "uint w < 2 ^ 29" using assms(2) by (simp add: word_less_def)
  then have "\<bar>m\<bar> * uint w < 2 ^ 24 * 2 ^ 29"
    using r(2) by (intro mult_strict_mono') auto
  then have "\<bar>m * uint w\<bar> < 2 ^ nat 53" by (simp add: abs_mult)
  moreover have "r * of_int (uint w) = of_int (m * uint w) * 2 powr of_int e" by (simp add: r(1))
  ultimately show "representable 53 (- 1074) (r * of_int (uint w))"
    using r(3) unfolding representable_def by (intro exI [of _ "m * uint w"] exI [of _ e]) simp
qed

lemma axis_identity:
  assumes "is_f32 r" "0 \<le> r" "r \<le> 1" "0 < w" "w < 2 ^ 29"
  shows "to_f32 (clampf 0 1 (to_f64 (to_f64 (to_f64 (0 + to_f64 (unit_f64 r * of_int (uint (w :: u32)))) - 0) / of_int (uint w)))) = r"
proof -
  have u: "unit_f64 r = r" using assms(2,3) by (simp add: unit_f64_def clampf_def)
  have "uint w \<noteq> 0" using assms(4) by (simp add: word_less_def)
  then have w: "of_int (uint w) \<noteq> (0 :: real)" by (simp only: of_int_eq_0_iff) simp
  show ?thesis
    using assms(2,3) w by (simp add: u to_f64_scaled [OF assms(1,5), simplified] to_f64_of_f32 [OF assms(1)] to_f32_exact [OF assms(1)] clampf_def)
qed

text \<open>
  One display changes nothing: with a single display at the origin (sides below \<open>2 ^ 29\<close> pixels),
  the position injected is bit for bit the position received, for every pair of \<open>f32\<close> values between 0
  and 1 and every display index the event names, although five double-precision operations lie between.\<close>

theorem single_display_identity:
  assumes "ih_displays H = [d]" "di_x d = 0" "di_y d = 0"
    and "0 < di_width d" "di_width d < 2 ^ 29" "0 < di_height d" "di_height d < 2 ^ 29"
    and "is_f32 x" "0 \<le> x" "x \<le> 1" "is_f32 y" "0 \<le> y" "y \<le> 1"
  shows "to_virtual H x y i = (x, y)"
proof -
  have clamp: "clamp_u32 (uint w) = w" for w :: u32
    using uint_bounded [of w] by (simp add: clamp_u32_def min_def)
  have "virtual_desktop [d] = Some \<lparr>bo_x = 0, bo_y = 0, bo_width = di_width d, bo_height = di_height d\<rparr>"
    by (simp add: virtual_desktop_def assms(2,3) clamp)
  moreover have "select_display [d] i = Some d" by (simp add: select_display_def)
  ultimately show ?thesis
    using assms(4,6) axis_identity [OF assms(8,9,10,4,5)] axis_identity [OF assms(11,12,13,6,7)]
    by (simp add: to_virtual_def assms(1) virtual_normalized_def absolute_def assms(2,3))
qed

definition wit_display :: display_info where
  "wit_display = \<lparr>di_index = 0, di_x = 0, di_y = 0, di_width = 1920, di_height = 1080, di_refresh_hz = 60, di_name = ''D'', di_primary = True\<rparr>"

theorem single_display_identity_witness:
  "to_virtual (set_displays (new_input_handler 0) [wit_display]) (1 / 2) (3 / 4) 7 = (1 / 2, 3 / 4)"
proof (rule single_display_identity [of _ wit_display])
  show "is_f32 (1 / 2)" unfolding is_f32_def representable_def
    by (intro exI [of _ 1] exI [of _ "- 1"]) (simp add: powr_minus)
  show "is_f32 (3 / 4)" unfolding is_f32_def representable_def
    by (intro exI [of _ 3] exI [of _ "- 2"]) (simp add: powr_minus powr_numeral)
qed (simp_all add: set_displays_def wit_display_def)

lemma no_layout_unchanged: "ih_displays H = [] \<Longrightarrow> to_virtual H x y i = (x, y)"
  by (simp add: to_virtual_def virtual_normalized_def absolute_def select_display_def)

lemma handle_input_displays: "ih_displays (snd (snd (handle_input inject now now' H ev))) = ih_displays H"
  by (simp add: handle_input_def Let_def)

end
