(* ===== verification/Qos.thy ===== *)
theory Qos
  imports Messages
begin

text \<open>
  Adaptive quality: the congestion controller (\<open>miru-host/src/qos_bbr.rs\<close>) and the frame
  controller that skips captures while the viewer is behind (\<open>miru-host/src/backpressure.rs\<close>), with
  the capture thread's side of it (\<open>miru-host/src/capture_loop.rs\<close>).

  An \<open>Instant\<close> is a number of nanoseconds; every operation takes the clock readings it makes. A
  panic is the result \<open>Inl\<close>; the release build wraps on overflow and aborts on panic.
\<close>

section \<open>The congestion controller\<close>

definition RTT_WINDOW :: nat where
  "RTT_WINDOW = 10000000000"

definition BW_WINDOW :: nat where
  "BW_WINDOW = 10000000000"

definition ADJUST_INTERVAL :: nat where
  "ADJUST_INTERVAL = 200000000"

definition PROBE_RTT_INTERVAL :: nat where
  "PROBE_RTT_INTERVAL = 10000000000"

datatype hint_mode = Balanced | Quality | Smooth

datatype phase = Startup | Drain | ProbeBw u8 | ProbeRtt

record bbr_qos =
  bq_rtt_min_us :: "u32 option"
  bq_bw_max_kbps :: u32
  bq_rtt_samples :: "(nat \<times> u32) list"
  bq_bw_samples :: "(nat \<times> u32) list"
  bq_cur_bitrate_kbps :: u32
  bq_cur_fps :: u8
  bq_phase :: phase
  bq_last_adjust :: nat
  bq_last_probe_rtt :: nat
  bq_hint_max_fps :: u8
  bq_hint_min_quality :: u8
  bq_hint_mode :: hint_mode

definition gain_cycle :: "f32 list" where
  "gain_cycle = [5 / 4, 3 / 4, 1, 1, 1, 1, 1, 1]"

fun pacing_gain :: "phase \<Rightarrow> f32" where
  "pacing_gain Startup = to_f32 (289 / 100)"
| "pacing_gain Drain = to_f32 (1 / to_f32 (289 / 100))"
| "pacing_gain (ProbeBw gain_idx) = gain_cycle ! (unat gain_idx mod 8)"
| "pacing_gain ProbeRtt = 1"

definition new_bbr :: "nat \<Rightarrow> u8 \<Rightarrow> u32 \<Rightarrow> bbr_qos" where
  "new_bbr now initial_fps initial_kbps =
     \<lparr>bq_rtt_min_us = None, bq_bw_max_kbps = max initial_kbps 1, bq_rtt_samples = [], bq_bw_samples = [],
      bq_cur_bitrate_kbps = initial_kbps, bq_cur_fps = initial_fps, bq_phase = Startup, bq_last_adjust = now,
      bq_last_probe_rtt = now, bq_hint_max_fps = 0, bq_hint_min_quality = 0, bq_hint_mode = Balanced\<rparr>"

definition apply_hint :: "bbr_qos \<Rightarrow> qos_hint \<Rightarrow> bbr_qos" where
  "apply_hint q hint =
     q\<lparr>bq_hint_max_fps := qh_max_fps hint, bq_hint_min_quality := qh_min_quality hint,
       bq_hint_mode := (if qh_mode hint = ''quality'' then Quality else if qh_mode hint = ''smooth'' then Smooth else Balanced)\<rparr>"

definition evict :: "nat \<Rightarrow> nat \<Rightarrow> (nat \<times> u32) list \<Rightarrow> (nat \<times> u32) list" where
  "evict now window samples = dropWhile (\<lambda>(t, _). now - t > window) samples"

fun list_min :: "u32 list \<Rightarrow> u32 option" where
  "list_min [] = None"
| "list_min (x # xs) = Some (foldl min x xs)"

fun list_max :: "u32 list \<Rightarrow> u32 option" where
  "list_max [] = None"
| "list_max (x # xs) = Some (foldl max x xs)"

definition on_rtt :: "nat \<Rightarrow> bbr_qos \<Rightarrow> u32 \<Rightarrow> bbr_qos" where
  "on_rtt now q rtt_us =
     (let samples = evict now RTT_WINDOW (bq_rtt_samples q @ [(now, rtt_us)])
      in q\<lparr>bq_rtt_samples := samples, bq_rtt_min_us := list_min (map snd samples)\<rparr>)"

definition on_delivery :: "nat \<Rightarrow> bbr_qos \<Rightarrow> u32 \<Rightarrow> bbr_qos" where
  "on_delivery now q kbps =
     (let samples = evict now BW_WINDOW (bq_bw_samples q @ [(now, kbps)])
      in q\<lparr>bq_bw_samples := samples, bq_bw_max_kbps := max (case list_max (map snd samples) of Some v \<Rightarrow> v | None \<Rightarrow> kbps) 1\<rparr>)"

definition u32_f32 :: "u32 \<Rightarrow> f32" where
  "u32_f32 w = to_f32 (of_nat (unat w))"

text \<open>\<open>advance_phase\<close>, with its own clock reading.\<close>

definition advance_phase :: "nat \<Rightarrow> bbr_qos \<Rightarrow> bbr_qos" where
  "advance_phase now q =
     (case bq_phase q of
        Startup \<Rightarrow>
          (case rev (bq_bw_samples q) of
             (_, newest) # _ # (_, third_last) # _ \<Rightarrow>
               if u32_f32 newest < to_f32 (u32_f32 third_last * to_f32 (11 / 10)) then q\<lparr>bq_phase := Drain\<rparr> else q
           | _ \<Rightarrow> q)
      | Drain \<Rightarrow> q\<lparr>bq_phase := ProbeBw 0\<rparr>
      | ProbeBw gain_idx \<Rightarrow>
          if now - bq_last_probe_rtt q > PROBE_RTT_INTERVAL \<or> bq_rtt_samples q = []
          then q\<lparr>bq_phase := ProbeRtt\<rparr>
          else q\<lparr>bq_phase := ProbeBw (gain_idx + 1)\<rparr>
      | ProbeRtt \<Rightarrow> q\<lparr>bq_last_probe_rtt := now, bq_phase := ProbeBw 0\<rparr>)"

text \<open>\<open>f32 as u8\<close>, \<open>saturating_add\<close>, \<open>saturating_sub\<close>, and \<open>clamp\<close>, which panics on an empty range.\<close>

definition f32_as_u8 :: "f32 \<Rightarrow> u8" where
  "f32_as_u8 r = (if r < 0 then 0 else if \<lfloor>r\<rfloor> \<ge> 2 ^ 8 then - 1 else word_of_int \<lfloor>r\<rfloor>)"

datatype panic = ClampPanic

definition clamp_u32_range :: "u32 \<Rightarrow> u32 \<Rightarrow> u32 \<Rightarrow> panic + u32" where
  "clamp_u32_range lo hi x = (if lo \<le> hi then Ok (if x < lo then lo else if x > hi then hi else x) else Err ClampPanic)"

definition smooth_cap :: "bbr_qos \<Rightarrow> u32" where
  "smooth_cap q = f32_as_u32 (to_f32 (u32_f32 (bq_bw_max_kbps q) * to_f32 (7 / 10)))"

definition target_bitrate :: "bbr_qos \<Rightarrow> panic + u32" where
  "target_bitrate q =
     (let target = f32_as_u32 (to_f32 (u32_f32 (bq_bw_max_kbps q) * pacing_gain (bq_phase q)))
      in case bq_hint_mode q of
           Quality \<Rightarrow> clamp_u32_range 500 50000 target
         | Smooth \<Rightarrow> map_sum id (\<lambda>t. max t 500) (clamp_u32_range 500 (smooth_cap q) target)
         | Balanced \<Rightarrow> clamp_u32_range 500 50000 target)"

definition fps_ceil :: "bbr_qos \<Rightarrow> u8" where
  "fps_ceil q = (if bq_hint_max_fps q > 0 then bq_hint_max_fps q else 60)"

definition fps_floor :: "bbr_qos \<Rightarrow> u8" where
  "fps_floor q = (if bq_hint_mode q = Smooth then 30 else 15)"

definition target_fps :: "bbr_qos \<Rightarrow> u8" where
  "target_fps q =
     (case bq_rtt_min_us q of
        None \<Rightarrow> min (bq_cur_fps q) (fps_ceil q)
      | Some rtt \<Rightarrow>
          if rtt > 100000 then max (sat_sub (bq_cur_fps q) 5) (fps_floor q)
          else if rtt < 30000 \<and> bq_cur_fps q < fps_ceil q then min (bq_cur_fps q + 5) (fps_ceil q)
          else min (bq_cur_fps q) (fps_ceil q))"

definition quality_estimate :: "bbr_qos \<Rightarrow> u8" where
  "quality_estimate q =
     (let bw_score = min (to_f32 (u32_f32 (bq_cur_bitrate_kbps q) / 100)) 50;
          rtt_us = (case bq_rtt_min_us q of Some r \<Rightarrow> r | None \<Rightarrow> 0);
          rtt_penalty = min (to_f32 (to_f32 (u32_f32 rtt_us / 1000) / 10)) 50;
          base = f32_as_u8 (clampf 20 95 (to_f32 (to_f32 (50 + bw_score) - rtt_penalty)));
          biased = (case bq_hint_mode q of
             Quality \<Rightarrow> min (sat_add base 10) 95
           | Smooth \<Rightarrow> max (sat_sub base 10) 20
           | Balanced \<Rightarrow> base)
      in max biased (bq_hint_min_quality q))"

text \<open>\<open>tick\<close>: the update to send, if any, and the controller after it.\<close>

definition tick :: "nat \<Rightarrow> nat \<Rightarrow> bbr_qos \<Rightarrow> panic + (qos_update option \<times> bbr_qos)" where
  "tick now now' q =
     (if now - bq_last_adjust q < ADJUST_INTERVAL then Ok (None, q)
      else
        (let q1 = advance_phase now' (q\<lparr>bq_last_adjust := now\<rparr>)
         in case target_bitrate q1 of
              Inl p \<Rightarrow> Err p
            | Inr target \<Rightarrow>
                (let fps = target_fps q1;
                     changed = (target \<noteq> bq_cur_bitrate_kbps q1 \<or> fps \<noteq> bq_cur_fps q1);
                     q2 = q1\<lparr>bq_cur_bitrate_kbps := target, bq_cur_fps := fps\<rparr>
                 in Ok (if changed then Some \<lparr>qu_fps = bq_cur_fps q2, qu_bitrate_kbps = bq_cur_bitrate_kbps q2,
                                             qu_quality = quality_estimate q2\<rparr> else None, q2))))"

section \<open>Rounding\<close>

lemma abs_diff_bounds: "\<bar>x - y\<bar> \<le> (e :: real) \<Longrightarrow> x \<le> y + e" "\<bar>x - y\<bar> \<le> (e :: real) \<Longrightarrow> y - e \<le> x"
  by linarith+

lemma to_f32_error:
  assumes "1 \<le> r"
  shows "\<bar>to_f32 r - r\<bar> \<le> r / 2 ^ 24"
proof -
  have l: "0 \<le> \<lfloor>log 2 r\<rfloor>" using assms by simp
  have "\<bar>to_f32 r - r\<bar> \<le> 2 powr of_int (max (\<lfloor>log 2 \<bar>r\<bar>\<rfloor> - (24 - 1)) (- 149)) / 2"
    unfolding to_f32_def by (rule round_bin_error)
  also have "max (\<lfloor>log 2 \<bar>r\<bar>\<rfloor> - (24 - 1)) (- 149) = \<lfloor>log 2 r\<rfloor> - 23" using l assms by simp
  also have "2 powr of_int (\<lfloor>log 2 r\<rfloor> - 23) = 2 powr of_int \<lfloor>log 2 r\<rfloor> / (2 :: real) ^ 23"
    by (simp add: powr_diff powr_realpow [symmetric])
  also have "2 powr of_int \<lfloor>log 2 r\<rfloor> \<le> 2 powr (log 2 r)" by (intro powr_mono) auto
  also have "2 powr (log 2 r) = r" using assms by simp
  finally show ?thesis by simp
qed

lemma to_f32_error_small:
  assumes "0 \<le> r" "r \<le> 1"
  shows "\<bar>to_f32 r - r\<bar> \<le> 1 / 2 ^ 24"
proof (cases "r = 0")
  case False
  have "\<bar>to_f32 r - r\<bar> \<le> 2 powr of_int (max (\<lfloor>log 2 \<bar>r\<bar>\<rfloor> - (24 - 1)) (- 149)) / 2"
    unfolding to_f32_def by (rule round_bin_error)
  also have "\<dots> \<le> 2 powr of_int (- 23) / 2"
  proof -
    have "log 2 r \<le> 0" using assms False by simp
    then have "\<lfloor>log 2 \<bar>r\<bar>\<rfloor> \<le> 0" using assms(1) by (simp add: floor_le_iff)
    then have "max (\<lfloor>log 2 \<bar>r\<bar>\<rfloor> - (24 - 1)) (- 149) \<le> - 23" by simp
    then have "real_of_int (max (\<lfloor>log 2 \<bar>r\<bar>\<rfloor> - (24 - 1)) (- 149)) \<le> of_int (- 23)" by (simp only: of_int_le_iff)
    then show ?thesis by (intro divide_right_mono powr_mono) auto
  qed
  also have "\<dots> = 1 / 2 ^ 24" by (simp add: powr_minus powr_numeral)
  finally show ?thesis .
qed (simp add: to_f32_def)

lemma u32_f32_bounds:
  assumes "unat w = n"
  shows "real n * (1 - 1 / 2 ^ 24) \<le> u32_f32 w" "u32_f32 w \<le> real n * (1 + 1 / 2 ^ 24)"
proof -
  have "\<bar>u32_f32 w - real n\<bar> \<le> real n / 2 ^ 24"
  proof (cases "n = 0")
    case True
    then show ?thesis using assms by (simp add: u32_f32_def to_f32_def)
  next
    case False
    then have "1 \<le> real n" by simp
    then show ?thesis unfolding u32_f32_def assms by (rule to_f32_error)
  qed
  from abs_diff_bounds [OF this]
  show "real n * (1 - 1 / 2 ^ 24) \<le> u32_f32 w" "u32_f32 w \<le> real n * (1 + 1 / 2 ^ 24)"
    by (simp_all add: field_simps)
qed

lemma smooth_product:
  assumes "unat w = n"
  shows "real n * (699999 / 1000000) \<le> u32_f32 w * to_f32 (7 / 10)" "u32_f32 w * to_f32 (7 / 10) \<le> real n * (700001 / 1000000)"
proof -
  have c: "7 / 10 - 1 / 2 ^ 24 \<le> to_f32 (7 / 10)" "to_f32 (7 / 10) \<le> 7 / 10 + 1 / 2 ^ 24"
    using abs_diff_bounds [OF to_f32_error_small [of "7 / 10"]] by simp_all
  have "real n * (699999 / 1000000) \<le> (real n * (1 - 1 / 2 ^ 24)) * (7 / 10 - 1 / 2 ^ 24)"
    by (simp add: field_simps)
  also have "\<dots> \<le> u32_f32 w * to_f32 (7 / 10)"
    using c u32_f32_bounds(1) [OF assms] by (intro mult_mono) (auto intro: order_trans [OF _ u32_f32_bounds(1) [OF assms]])
  finally show "real n * (699999 / 1000000) \<le> u32_f32 w * to_f32 (7 / 10)" .
  have "u32_f32 w * to_f32 (7 / 10) \<le> (real n * (1 + 1 / 2 ^ 24)) * (7 / 10 + 1 / 2 ^ 24)"
    using c u32_f32_bounds(2) [OF assms] by (intro mult_mono) (auto intro: order_trans [OF _ c(1)])
  also have "\<dots> \<le> real n * (700001 / 1000000)"
    by (simp add: field_simps)
  finally show "u32_f32 w * to_f32 (7 / 10) \<le> real n * (700001 / 1000000)" .
qed

lemma unat_minus_one_u32: "unat (- 1 :: u32) = 4294967295"
  by (simp add: unsigned_minus_1_eq_mask mask_eq_exp_minus_1)

lemma f32_as_u32_val: "0 \<le> r \<Longrightarrow> \<lfloor>r\<rfloor> < 2 ^ 32 \<Longrightarrow> unat (f32_as_u32 r) = nat \<lfloor>r\<rfloor>"
  by (simp add: f32_as_u32_def not_less not_le unat_eq_nat_uint uint_word_of_int)

lemma f32_as_u32_less: "r < of_nat n \<Longrightarrow> 0 < n \<Longrightarrow> n < 2 ^ 32 \<Longrightarrow> unat (f32_as_u32 r) < n"
proof -
  assume a: "r < of_nat n" "0 < n" "n < 2 ^ 32"
  then have "\<lfloor>r\<rfloor> < int n" by (simp add: floor_less_iff)
  moreover have "int n < 2 ^ 32" using a(3) by simp
  ultimately have f: "\<lfloor>r\<rfloor> < 2 ^ 32" by (rule less_trans)
  show ?thesis
  proof (cases "r < 0")
    case True
    then show ?thesis using a(2) by (simp add: f32_as_u32_def)
  next
    case False
    then show ?thesis using f32_as_u32_val [OF _ f] \<open>\<lfloor>r\<rfloor> < int n\<close> a(2) by (simp add: nat_less_iff)
  qed
qed

lemma f32_as_u32_ge: "of_nat n \<le> r \<Longrightarrow> n < 2 ^ 32 \<Longrightarrow> n \<le> unat (f32_as_u32 r)"
proof -
  assume a: "of_nat n \<le> r" "n < 2 ^ 32"
  then have f: "int n \<le> \<lfloor>r\<rfloor>" by (simp add: le_floor_iff)
  have "\<not> r < 0" using a(1) by (meson less_le_trans not_le of_nat_0_le_iff)
  then show ?thesis using a(2) f f32_as_u32_val [of r]
    by (cases "\<lfloor>r\<rfloor> < 2 ^ 32") (simp_all add: f32_as_u32_def unat_minus_one_u32)
qed

lemma smooth_cap_iff: "smooth_cap q < 500 \<longleftrightarrow> unat (bq_bw_max_kbps q) < 715"
proof -
  let ?w = "bq_bw_max_kbps q"
  obtain n where n: "unat ?w = n" by simp
  let ?p = "u32_f32 ?w * to_f32 (7 / 10)"
  have "unat (smooth_cap q) < 500" if "n < 715"
  proof -
    have p: "0 \<le> ?p" "?p \<le> 4999 / 10"
      using smooth_product [OF n] that by (auto simp: field_simps intro: order_trans [rotated])
    have "to_f32 ?p < 500"
    proof (cases "?p \<le> 1")
      case True
      have "?p + 1 / 2 ^ 24 < 500" using True by simp
      with abs_diff_bounds(1) [OF to_f32_error_small [OF p(1) True]] show ?thesis by linarith
    next
      case False
      then have "\<bar>to_f32 ?p - ?p\<bar> \<le> ?p / 2 ^ 24" by (intro to_f32_error) simp
      moreover have "?p + ?p / 2 ^ 24 < 500" using p(2) by simp
      ultimately show ?thesis using abs_diff_bounds(1) by (meson le_less_trans)
    qed
    then show ?thesis unfolding smooth_cap_def using f32_as_u32_less [of _ 500] by simp
  qed
  moreover have "500 \<le> unat (smooth_cap q)" if "715 \<le> n"
  proof -
    have "5004 / 10 \<le> ?p" using smooth_product(1) [OF n] that by simp
    then have "500 \<le> ?p - ?p / 2 ^ 24" "\<bar>to_f32 ?p - ?p\<bar> \<le> ?p / 2 ^ 24" by (simp, intro to_f32_error, simp)
    then have "500 \<le> to_f32 ?p" using abs_diff_bounds(2) by (meson order_trans)
    then show ?thesis unfolding smooth_cap_def using f32_as_u32_ge [of 500] by simp
  qed
  ultimately show ?thesis using n by (cases "n < 715") (simp_all add: word_less_nat_alt)
qed

section \<open>The control step\<close>

lemma advance_phase_keeps [simp]:
  "bq_bw_max_kbps (advance_phase now q) = bq_bw_max_kbps q" "bq_hint_mode (advance_phase now q) = bq_hint_mode q"
  "bq_rtt_min_us (advance_phase now q) = bq_rtt_min_us q" "bq_cur_fps (advance_phase now q) = bq_cur_fps q"
  "bq_hint_max_fps (advance_phase now q) = bq_hint_max_fps q" "bq_hint_min_quality (advance_phase now q) = bq_hint_min_quality q"
  "bq_last_adjust (advance_phase now q) = bq_last_adjust q"
  by (auto simp: advance_phase_def split: phase.splits list.splits)

lemma smooth_cap_cong: "bq_bw_max_kbps q = bq_bw_max_kbps q' \<Longrightarrow> smooth_cap q = smooth_cap q'"
  by (simp add: smooth_cap_def)

lemma clamp_range_ok: "lo \<le> hi \<Longrightarrow> \<exists>t. clamp_u32_range lo hi x = Ok t \<and> lo \<le> t \<and> t \<le> hi"
  by (auto simp: clamp_u32_range_def)

text \<open>
  A viewer can stop the host: while the quality hint is \<open>smooth\<close>, a due control step panics exactly
  when the bandwidth estimate is below 715 kbit/s, because the upper end of the clamp (70 percent of the
  estimate) is then below its lower end of 500; an idle session reports 100 kbit/s.\<close>

theorem smooth_mode_panics:
  assumes "bq_hint_mode q = Smooth" "ADJUST_INTERVAL \<le> now - bq_last_adjust q"
  shows "tick now now' q = Err ClampPanic \<longleftrightarrow> unat (bq_bw_max_kbps q) < 715"
proof -
  let ?q = "advance_phase now' (q\<lparr>bq_last_adjust := now\<rparr>)"
  have cap: "smooth_cap ?q = smooth_cap q" by (rule smooth_cap_cong) simp
  have "target_bitrate ?q = Err ClampPanic \<longleftrightarrow> smooth_cap q < 500"
    using assms(1) by (auto simp: target_bitrate_def Let_def clamp_u32_range_def cap)
  then show ?thesis
    using assms(2) by (auto simp: tick_def Let_def smooth_cap_iff not_less split: sum.splits)
qed

definition wit_bbr :: bbr_qos where
  "wit_bbr = on_delivery 10000000000 (apply_hint (new_bbr 0 60 5000) \<lparr>qh_mode = ''smooth'', qh_max_fps = 30, qh_min_quality = 0\<rparr>) 100"

lemma wit_bbr_simps: "bq_hint_mode wit_bbr = Smooth" "bq_bw_max_kbps wit_bbr = 100" "bq_last_adjust wit_bbr = 0"
  by (simp_all add: wit_bbr_def on_delivery_def apply_hint_def new_bbr_def evict_def BW_WINDOW_def Let_def max_def word_le_nat_alt)

theorem smooth_mode_panics_witness: "tick 10000000000 10000000000 wit_bbr = Err ClampPanic"
  using smooth_mode_panics [of wit_bbr 10000000000 10000000000]
  by (simp add: wit_bbr_simps ADJUST_INTERVAL_def)

text \<open>
  Bounds of the control step: without the \<open>smooth\<close> hint a control step never fails; when it is due it
  sets a bit rate between 500 and 50000 kbit/s, and unless the round trip is above 100 ms a frame rate
  within the viewer's limit; when it is not due (200 ms) it changes nothing.\<close>

theorem qos_step_bounds:
  assumes "bq_hint_mode q \<noteq> Smooth"
  shows "\<exists>u q'. tick now now' q = Ok (u, q') \<and>
    (now - bq_last_adjust q < 200000000 \<longrightarrow> u = None \<and> q' = q) \<and>
    (200000000 \<le> now - bq_last_adjust q \<longrightarrow>
       500 \<le> bq_cur_bitrate_kbps q' \<and> bq_cur_bitrate_kbps q' \<le> 50000 \<and> bq_last_adjust q' = now \<and>
       (\<not> (\<exists>rtt > 100000. bq_rtt_min_us q = Some rtt) \<longrightarrow> bq_cur_fps q' \<le> fps_ceil q))"
proof (cases "now - bq_last_adjust q < ADJUST_INTERVAL")
  case True
  then show ?thesis by (simp add: tick_def ADJUST_INTERVAL_def)
next
  case False
  let ?q = "advance_phase now' (q\<lparr>bq_last_adjust := now\<rparr>)"
  obtain t where t: "target_bitrate ?q = Ok t" "500 \<le> t" "t \<le> 50000"
    using clamp_range_ok [of 500 50000] assms by (cases "bq_hint_mode q") (auto simp: target_bitrate_def Let_def)
  have "target_fps ?q \<le> fps_ceil q" if "\<not> (\<exists>rtt > 100000. bq_rtt_min_us q = Some rtt)"
    using that by (auto simp: target_fps_def fps_ceil_def split: option.splits)
  with False t show ?thesis
    by (auto simp: tick_def Let_def ADJUST_INTERVAL_def)
qed

theorem qos_step_bounds_witness:
  "\<exists>u q'. tick 1000000000 1000000000 (new_bbr 0 60 5000) = Ok (u, q') \<and>
     500 \<le> bq_cur_bitrate_kbps q' \<and> bq_cur_bitrate_kbps q' \<le> 50000 \<and> bq_cur_fps q' \<le> 60"
  using qos_step_bounds [of "new_bbr 0 60 5000" 1000000000 1000000000]
  by (auto simp: new_bbr_def fps_ceil_def)

text \<open>The frame limit a viewer asks for is exceeded while the round trip is long.\<close>

lemma long_rtt_ignores_limit:
  assumes "bq_rtt_min_us q = Some rtt" "rtt > 100000"
  shows "15 \<le> target_fps q"
proof -
  have "15 \<le> fps_floor q" by (simp add: fps_floor_def word_le_nat_alt)
  then show ?thesis using assms by (simp add: target_fps_def le_max_iff_disj)
qed

lemma evict_filter:
  assumes "sorted (map fst samples)"
  shows "evict now window samples = filter (\<lambda>(t, _). now - t \<le> window) samples"
  using assms
proof (induction samples)
  case (Cons a samples)
  show ?case
  proof (cases "now - fst a > window")
    case True
    with Cons show ?thesis by (simp add: evict_def case_prod_beta)
  next
    case False
    then have "\<forall>x \<in> set samples. now - fst x \<le> window" using Cons.prems by fastforce
    with False show ?thesis by (simp add: evict_def case_prod_beta filter_True)
  qed
qed (simp add: evict_def)

lemma fold_min_flip: "fold (\<lambda>x y. min y x) ys x = fold min ys (x :: u32)"
  by (rule fold_cong) (auto simp: min.commute)

lemma list_min_Min: "xs \<noteq> [] \<Longrightarrow> list_min xs = Some (Min (set xs))"
proof (cases xs)
  case (Cons x ys)
  have "foldl min x ys = Min (set (x # ys))"
    using Min.set_eq_fold [of x ys] by (simp add: foldl_conv_fold min.commute [of x] fold_min_flip)
  with Cons show ?thesis by simp
qed simp

section \<open>Frame backpressure\<close>

definition MAX_IN_FLIGHT :: int where
  "MAX_IN_FLIGHT = 3"

definition PANIC_THRESHOLD :: int where
  "PANIC_THRESHOLD = 8"

record frame_controller =
  fc_in_flight :: int
  fc_captured :: u64
  fc_skipped :: u64
  fc_sent :: u64
  fc_last_keyframe_request :: "nat option"
  fc_target_fps :: u8
  fc_target_bitrate_kbps :: u32

definition new_frame_controller :: "u8 \<Rightarrow> u32 \<Rightarrow> frame_controller" where
  "new_frame_controller initial_fps initial_bitrate_kbps =
     \<lparr>fc_in_flight = 0, fc_captured = 0, fc_skipped = 0, fc_sent = 0, fc_last_keyframe_request = None,
      fc_target_fps = initial_fps, fc_target_bitrate_kbps = initial_bitrate_kbps\<rparr>"

definition apply_qos :: "frame_controller \<Rightarrow> u8 \<Rightarrow> u32 \<Rightarrow> frame_controller" where
  "apply_qos fc fps bitrate_kbps = fc\<lparr>fc_target_fps := fps, fc_target_bitrate_kbps := bitrate_kbps\<rparr>"

definition should_capture :: "frame_controller \<Rightarrow> bool \<times> frame_controller" where
  "should_capture fc =
     (let fc = fc\<lparr>fc_captured := fc_captured fc + 1\<rparr>
      in if fc_in_flight fc \<ge> MAX_IN_FLIGHT then (False, fc\<lparr>fc_skipped := fc_skipped fc + 1\<rparr>) else (True, fc))"

text \<open>The counter is an \<open>i32\<close>: additions and subtractions wrap.\<close>

definition wrap_i32 :: "int \<Rightarrow> int" where
  "wrap_i32 i = sint (word_of_int i :: u32)"

definition on_send :: "frame_controller \<Rightarrow> frame_controller" where
  "on_send fc = fc\<lparr>fc_in_flight := wrap_i32 (fc_in_flight fc + 1), fc_sent := fc_sent fc + 1\<rparr>"

definition on_ack :: "frame_controller \<Rightarrow> u32 \<Rightarrow> frame_controller" where
  "on_ack fc n =
     (let k = min (uint n) (2 ^ 31 - 1);
          cur = wrap_i32 (fc_in_flight fc - k)
      in fc\<lparr>fc_in_flight := (if cur < 0 then 0 else cur)\<rparr>)"

definition on_pong :: "frame_controller \<Rightarrow> frame_controller" where
  "on_pong fc = fc\<lparr>fc_in_flight := 0\<rparr>"

definition want_keyframe :: "nat \<Rightarrow> frame_controller \<Rightarrow> bool \<times> frame_controller" where
  "want_keyframe now fc =
     (if fc_in_flight fc < PANIC_THRESHOLD then (False, fc)
      else
        (case fc_last_keyframe_request fc of
           Some t \<Rightarrow>
             if now - t < 1000000000 then (False, fc)
             else (True, fc\<lparr>fc_last_keyframe_request := Some now, fc_in_flight := MAX_IN_FLIGHT\<rparr>)
         | None \<Rightarrow> (True, fc\<lparr>fc_last_keyframe_request := Some now, fc_in_flight := MAX_IN_FLIGHT\<rparr>)))"

record frame_stats =
  fs_captured :: u64
  fs_sent :: u64
  fs_skipped :: u64
  fs_in_flight :: u32

definition frame_controller_stats :: "frame_controller \<Rightarrow> frame_stats" where
  "frame_controller_stats fc =
     \<lparr>fs_captured = fc_captured fc, fs_sent = fc_sent fc, fs_skipped = fc_skipped fc,
      fs_in_flight = word_of_int (max (fc_in_flight fc) 0)\<rparr>"

text \<open>
  The capture thread and the session loop run concurrently: the thread asks the controller, captures and
  encodes, then puts the frame into a channel of 8 (dropping it when full); the loop takes frames out and
  sends them; a pong of the viewer resets the window,
  and a display switch starts a fresh thread and channel. \<open>vp_encoding\<close>: a frame is being encoded;
  \<open>vp_window\<close>: the frames sent since the last pong.
\<close>

record video_pipe =
  vp_fc :: frame_controller
  vp_encoding :: bool
  vp_queue :: nat
  vp_window :: nat

definition FRAME_QUEUE :: nat where
  "FRAME_QUEUE = 8"

inductive pipe_step :: "video_pipe \<Rightarrow> video_pipe \<Rightarrow> bool" where
  pipe_capture: "\<not> vp_encoding v \<Longrightarrow> should_capture (vp_fc v) = (ok, fc) \<Longrightarrow>
    pipe_step v (v\<lparr>vp_fc := fc, vp_encoding := ok\<rparr>)"
| pipe_no_frame: "vp_encoding v \<Longrightarrow> pipe_step v (v\<lparr>vp_encoding := False\<rparr>)"
| pipe_enqueue: "vp_encoding v \<Longrightarrow>
    pipe_step v (v\<lparr>vp_encoding := False, vp_queue := (if vp_queue v < FRAME_QUEUE then vp_queue v + 1 else vp_queue v)\<rparr>)"
| pipe_send: "0 < vp_queue v \<Longrightarrow>
    pipe_step v (v\<lparr>vp_queue := vp_queue v - 1, vp_fc := on_send (vp_fc v), vp_window := vp_window v + 1\<rparr>)"
| pipe_pong: "pipe_step v (v\<lparr>vp_fc := on_pong (vp_fc v), vp_window := 0\<rparr>)"
| pipe_switch: "pipe_step v (v\<lparr>vp_encoding := False, vp_queue := 0\<rparr>)"
| pipe_qos: "pipe_step v (v\<lparr>vp_fc := apply_qos (vp_fc v) fps br\<rparr>)"

definition new_pipe :: "u8 \<Rightarrow> u32 \<Rightarrow> video_pipe" where
  "new_pipe fps br = \<lparr>vp_fc = new_frame_controller fps br, vp_encoding = False, vp_queue = 0, vp_window = 0\<rparr>"

definition pipe_inv :: "video_pipe \<Rightarrow> bool" where
  "pipe_inv v \<longleftrightarrow> fc_in_flight (vp_fc v) = int (vp_window v) \<and> vp_queue v \<le> FRAME_QUEUE \<and>
     vp_window v + vp_queue v + of_bool (vp_encoding v) \<le> 3 + FRAME_QUEUE"

lemma wrap_i32_small: "0 \<le> i \<Longrightarrow> i < 2 ^ 31 \<Longrightarrow> wrap_i32 i = i"
  by (simp add: wrap_i32_def signed_of_int signed_take_bit_int_eq_self)

lemma pipe_inv_step: "pipe_step v v' \<Longrightarrow> pipe_inv v \<Longrightarrow> pipe_inv v'"
  by (induction rule: pipe_step.induct)
     (auto simp: pipe_inv_def should_capture_def MAX_IN_FLIGHT_def FRAME_QUEUE_def on_send_def on_pong_def apply_qos_def
        Let_def wrap_i32_small split: if_splits)

text \<open>
  Frames between two pongs: whatever the interleaving of the capture thread and the session loop, at
  most 11 frames are sent after a pong before the next one (3 of the window and 8 in the channel), so with
  a pong per second no more than 11 frames per second reach the viewer, whatever rate the controller sets.\<close>

theorem frames_per_pong:
  assumes "pipe_step\<^sup>*\<^sup>* (new_pipe fps br) v"
  shows "vp_window v \<le> 11"
proof -
  have "pipe_inv v"
    using assms
  proof (induction rule: rtranclp_induct)
    case base
    show ?case by (simp add: pipe_inv_def new_pipe_def new_frame_controller_def)
  qed (rule pipe_inv_step)
  then show ?thesis by (simp add: pipe_inv_def FRAME_QUEUE_def)
qed

lemma wit_pipe_capture:
  "pipe_step (new_pipe 60 5000) ((new_pipe 60 5000)\<lparr>vp_fc := (new_frame_controller 60 5000)\<lparr>fc_captured := 1\<rparr>, vp_encoding := True\<rparr>)"
  by (rule pipe_capture) (simp_all add: new_pipe_def should_capture_def new_frame_controller_def MAX_IN_FLIGHT_def)

theorem frames_per_pong_witness:
  "vp_window ((new_pipe 60 5000)\<lparr>vp_fc := (new_frame_controller 60 5000)\<lparr>fc_captured := 1\<rparr>, vp_encoding := True\<rparr>) \<le> 11"
  by (rule frames_per_pong [OF r_into_rtranclp [of pipe_step, OF wit_pipe_capture]])

end
