(* ===== verification/Recording.thy ===== *)
theory Recording
  imports File_Transfer
begin

text \<open>
  Session recording (\<open>miru-host/src/recording.rs\<close>) and the counters of a session
  (\<open>miru-host/src/metrics.rs\<close>). A recording is the file's path and contents; every write takes its
  outcome (\<open>Some k\<close>: failed after \<open>k\<close> bytes).
\<close>

section \<open>Definitions\<close>

definition DEFAULT_MAX_RECORDING_BYTES :: u64 where
  "DEFAULT_MAX_RECORDING_BYTES = 10 * 1024 * 1024 * 1024"

record session_recorder =
  re_path :: string
  re_content :: bytes
  re_frame_count :: u64
  re_bytes_written :: u64
  re_max_bytes :: u64

definition two_digits :: "nat \<Rightarrow> string" where
  "two_digits n = (if n < 10 then ''0'' @ show_nat n else show_nat n)"

definition chrono_format_now :: "nat \<Rightarrow> string" where
  "chrono_format_now secs =
     ''ts'' @ show_nat (secs div 86400) @ ''-'' @ two_digits (secs mod 86400 div 3600) @
     two_digits (secs mod 3600 div 60) @ two_digits (secs mod 60)"

definition REC_MAGIC :: bytes where
  "REC_MAGIC = as_bytes ''MIRU-REC'' @ [0, 1]"

definition recorder_name_ok :: "string \<Rightarrow> bool" where
  "recorder_name_ok session_id \<longleftrightarrow>
     session_id \<noteq> [] \<and> set session_id \<inter> {CHR ''/'', CHR 0x5C, CHR 0x00, CHR ''.''} = {}"

datatype recording_error = InvalidSessionId | RecordIo | RecordLimit

definition recorder_create ::
  "bool \<Rightarrow> bool \<Rightarrow> nat \<Rightarrow> u64 option \<Rightarrow> string \<Rightarrow> string \<Rightarrow> (string \<rightharpoonup> bytes) \<Rightarrow> recording_error + session_recorder" where
  "recorder_create mkdir_ok write_ok secs limit dir session_id files =
     (if \<not> recorder_name_ok session_id then Err InvalidSessionId
      else if \<not> mkdir_ok then Err RecordIo
      else
        (let path = path_join dir (''miru-'' @ session_id @ ''-'' @ chrono_format_now secs @ ''.mkv'')
         in if files path \<noteq> None \<or> \<not> write_ok then Err RecordIo
            else Ok \<lparr>re_path = path, re_content = REC_MAGIC, re_frame_count = 0, re_bytes_written = 0,
                     re_max_bytes = (case limit of Some m \<Rightarrow> m | None \<Rightarrow> DEFAULT_MAX_RECORDING_BYTES)\<rparr>))"

fun codec_byte :: "video_codec \<Rightarrow> byte" where
  "codec_byte Av1 = 1"
| "codec_byte H265 = 2"
| "codec_byte H264 = 3"
| "codec_byte Vp9 = 4"
| "codec_byte Vp8 = 5"
| "codec_byte Jpeg = 6"

definition frame_header :: "video_frame \<Rightarrow> bytes" where
  "frame_header f =
     [codec_byte (vf_codec f), of_bool (vf_keyframe f), 0, 0] @ le_bytes 4 (unat (vf_width f)) @
     le_bytes 4 (unat (vf_height f)) @ le_bytes 8 (unat (vf_timestamp_ms f)) @
     le_bytes 4 (unat (word_of_nat (length (vf_data f)) :: u32))"

definition record_frame :: "nat option \<Rightarrow> session_recorder \<Rightarrow> video_frame \<Rightarrow> (recording_error + unit) \<times> session_recorder" where
  "record_frame io R f =
     (let frame_bytes = 24 + word_of_nat (length (vf_data f)) :: u64;
          out = frame_header f @ vf_data f
      in if re_bytes_written R + frame_bytes > re_max_bytes R then (Err RecordLimit, R)
         else (case io of
           Some k \<Rightarrow> (Err RecordIo, R\<lparr>re_content := re_content R @ take k out\<rparr>)
         | None \<Rightarrow> (Ok (), R\<lparr>re_content := re_content R @ out, re_frame_count := re_frame_count R + 1,
                              re_bytes_written := re_bytes_written R + 24 + word_of_nat (length (vf_data f))\<rparr>)))"

record recording_summary =
  rs_path :: string
  rs_frame_count :: u64
  rs_bytes :: u64

definition recorder_finalize :: "bool \<Rightarrow> session_recorder \<Rightarrow> recording_error + recording_summary" where
  "recorder_finalize flush_ok R =
     (if flush_ok then Ok \<lparr>rs_path = re_path R, rs_frame_count = re_frame_count R, rs_bytes = re_bytes_written R\<rparr>
      else Err RecordIo)"

section \<open>Reading a recording\<close>

text \<open>
  The file format, as the comment in \<open>record_frame\<close> documents it, read back: the codec, the
  key-frame flag, the size, the time stamp and the payload of every frame.
\<close>

record recorded =
  rd_codec :: video_codec
  rd_keyframe :: bool
  rd_width :: nat
  rd_height :: nat
  rd_timestamp :: nat
  rd_data :: bytes

definition recorded_of :: "video_frame \<Rightarrow> recorded" where
  "recorded_of f =
     \<lparr>rd_codec = vf_codec f, rd_keyframe = vf_keyframe f, rd_width = unat (vf_width f), rd_height = unat (vf_height f),
      rd_timestamp = unat (vf_timestamp_ms f), rd_data = vf_data f\<rparr>"

definition codec_of_byte :: "byte \<Rightarrow> video_codec option" where
  "codec_of_byte b = map_of (map (\<lambda>c. (codec_byte c, c)) [Av1, H265, H264, Vp9, Vp8, Jpeg]) b"

function parse_frames :: "bytes \<Rightarrow> recorded list option" where
  "parse_frames bs =
     (if bs = [] then Some []
      else if length bs < 24 then None
      else
        (let n = from_le (take 4 (drop 20 bs)); rest = drop 24 bs
         in if length rest < n then None
            else (case (codec_of_byte (hd bs), parse_frames (drop n rest)) of
              (Some c, Some fs) \<Rightarrow>
                Some (\<lparr>rd_codec = c, rd_keyframe = (bs ! 1 = 1), rd_width = from_le (take 4 (drop 4 bs)),
                      rd_height = from_le (take 4 (drop 8 bs)), rd_timestamp = from_le (take 8 (drop 12 bs)),
                      rd_data = take n rest\<rparr> # fs)
            | _ \<Rightarrow> None)))"
  by pat_completeness auto
termination
  by (relation "measure length") auto

declare parse_frames.simps [simp del]

definition parse_recording :: "bytes \<Rightarrow> recorded list option" where
  "parse_recording bs = (if take 10 bs = REC_MAGIC then parse_frames (drop 10 bs) else None)"

fun record_run :: "session_recorder \<Rightarrow> video_frame list \<Rightarrow> session_recorder" where
  "record_run R [] = R"
| "record_run R (f # fs) = record_run (snd (record_frame None R f)) fs"

lemma codec_of_byte [simp]: "codec_of_byte (codec_byte c) = Some c"
  by (cases c) (simp_all add: codec_of_byte_def)

lemma frame_header_length [simp]: "length (frame_header f) = 24"
  by (simp add: frame_header_def)

lemma parse_one_frame:
  assumes "length (vf_data f) < 2 ^ 32"
  shows "parse_frames (frame_header f @ vf_data f @ rest) = map_option (Cons (recorded_of f)) (parse_frames rest)"
proof -
  let ?bs = "frame_header f @ vf_data f @ rest"
  have u: "unat (word_of_nat (length (vf_data f)) :: u32) = length (vf_data f)"
    using assms by (simp add: unat_of_nat)
  have "from_le (take 4 (drop 20 ?bs)) = length (vf_data f)"
    using assms by (simp add: frame_header_def u from_le_bytes)
  moreover have "from_le (take 4 (drop 4 ?bs)) = unat (vf_width f)" "from_le (take 4 (drop 8 ?bs)) = unat (vf_height f)"
    "from_le (take 8 (drop 12 ?bs)) = unat (vf_timestamp_ms f)"
    using unsigned_less [of "vf_width f", where 'a = nat] unsigned_less [of "vf_height f", where 'a = nat]
      unsigned_less [of "vf_timestamp_ms f", where 'a = nat]
    by (simp_all add: frame_header_def from_le_bytes)
  moreover have "hd ?bs = codec_byte (vf_codec f)" "?bs ! 1 = of_bool (vf_keyframe f)" "drop 24 ?bs = vf_data f @ rest"
    "frame_header f \<noteq> []" by (simp_all add: frame_header_def)
  ultimately show ?thesis
    by (subst parse_frames.simps) (simp add: Let_def recorded_of_def split: option.split)
qed

definition frame_size :: "video_frame \<Rightarrow> nat" where
  "frame_size f = 24 + length (vf_data f)"

lemma record_frame_fits:
  assumes "unat (re_bytes_written R) + frame_size f \<le> unat (re_max_bytes R)"
  shows "fst (record_frame None R f) = Ok ()"
    and "re_content (snd (record_frame None R f)) = re_content R @ frame_header f @ vf_data f"
    and "unat (re_bytes_written (snd (record_frame None R f))) = unat (re_bytes_written R) + frame_size f"
    and "re_max_bytes (snd (record_frame None R f)) = re_max_bytes R"
    and "re_frame_count (snd (record_frame None R f)) = re_frame_count R + 1"
proof -
  have lt: "unat (re_bytes_written R) + frame_size f < 2 ^ 64"
    using assms unsigned_less [of "re_max_bytes R", where 'a = nat] by simp
  have w: "re_bytes_written R + (24 + word_of_nat (length (vf_data f))) = re_bytes_written R + word_of_nat (frame_size f)"
    by (simp add: frame_size_def)
  have u: "unat (re_bytes_written R + word_of_nat (frame_size f)) = unat (re_bytes_written R) + frame_size f"
  proof -
    have "unat (word_of_nat (frame_size f) :: u64) = frame_size f" using lt by (intro unat_u64_small) simp
    then show ?thesis using lt by (simp add: unat_word_ariths)
  qed
  then have ok: "\<not> re_bytes_written R + (24 + word_of_nat (length (vf_data f))) > re_max_bytes R"
    unfolding w using assms by (simp only: word_less_nat_alt)
  then show "fst (record_frame None R f) = Ok ()"
    "re_content (snd (record_frame None R f)) = re_content R @ frame_header f @ vf_data f"
    "re_max_bytes (snd (record_frame None R f)) = re_max_bytes R"
    "re_frame_count (snd (record_frame None R f)) = re_frame_count R + 1"
    by (simp_all add: record_frame_def Let_def)
  show "unat (re_bytes_written (snd (record_frame None R f))) = unat (re_bytes_written R) + frame_size f"
    using ok u w by (simp add: record_frame_def Let_def add.assoc)
qed

lemma record_run_content:
  "unat (re_bytes_written R) + sum_list (map frame_size fs) \<le> unat (re_max_bytes R) \<Longrightarrow>
   re_content (record_run R fs) = re_content R @ concat (map (\<lambda>f. frame_header f @ vf_data f) fs) \<and>
   unat (re_bytes_written (record_run R fs)) = unat (re_bytes_written R) + sum_list (map frame_size fs)"
proof (induction fs arbitrary: R)
  case (Cons f fs)
  have fit: "unat (re_bytes_written R) + frame_size f \<le> unat (re_max_bytes R)" using Cons.prems by simp
  have "unat (re_bytes_written (snd (record_frame None R f))) + sum_list (map frame_size fs) \<le> unat (re_max_bytes (snd (record_frame None R f)))"
    using record_frame_fits(3,4) [OF fit] Cons.prems by simp
  from Cons.IH [OF this] record_frame_fits(2,3) [OF fit] show ?case by simp
qed simp

lemma parse_frames_concat:
  "list_all (\<lambda>f. length (vf_data f) < 2 ^ 32) fs \<Longrightarrow>
   parse_frames (concat (map (\<lambda>f. frame_header f @ vf_data f) fs)) = Some (map recorded_of fs)"
proof (induction fs)
  case Nil
  show ?case by (simp add: parse_frames.simps)
next
  case (Cons f fs)
  then show ?case using parse_one_frame [of f "concat (map (\<lambda>f. frame_header f @ vf_data f) fs)"] by simp
qed

text \<open>
  Recordings can be read back: frames recorded into a new recording within its size limit are read
  back from the file, in order, with their codec, key-frame flag, size, time stamp and payload, by a
  reader of the documented layout.\<close>

theorem recording_roundtrip:
  assumes "recorder_create mkdir_ok write_ok secs limit dir session_id files = Ok R"
    and "sum_list (map frame_size fs) \<le> unat (re_max_bytes R)" "list_all (\<lambda>f. length (vf_data f) < 2 ^ 32) fs"
  shows "parse_recording (re_content (record_run R fs)) = Some (map recorded_of fs)"
proof -
  have R: "re_content R = REC_MAGIC" "re_bytes_written R = 0"
    using assms(1) by (auto simp: recorder_create_def Let_def split: if_splits)
  have m: "length REC_MAGIC = 10" by (simp add: REC_MAGIC_def as_bytes_def)
  have "re_content (record_run R fs) = REC_MAGIC @ concat (map (\<lambda>f. frame_header f @ vf_data f) fs)"
    using record_run_content [of R fs] assms(2) R by simp
  then show ?thesis using parse_frames_concat [OF assms(3)] m by (simp add: parse_recording_def)
qed

definition wit_video_frame :: video_frame where
  "wit_video_frame = \<lparr>vf_seq = 1, vf_display_idx = 0, vf_keyframe = True, vf_codec = Av1, vf_data = [7, 8, 9], vf_width = 1920, vf_height = 1080,
     vf_timestamp_ms = 5, vf_color_primaries = CpBt709, vf_transfer = TfBt709, vf_color_range = CrLimited, vf_hdr_metadata = None\<rparr>"

theorem recording_roundtrip_witness:
  "\<exists>R. recorder_create True True 0 (Some 1000) ''/r'' ''abc'' Map.empty = Ok R \<and>
     parse_recording (re_content (record_run R [wit_video_frame, wit_video_frame])) = Some (map recorded_of [wit_video_frame, wit_video_frame])"
proof -
  have "recorder_name_ok ''abc''" by (simp add: recorder_name_ok_def)
  then obtain R where R: "recorder_create True True 0 (Some 1000) ''/r'' ''abc'' Map.empty = Ok R" "re_max_bytes R = 1000"
    by (simp add: recorder_create_def Let_def)
  have "parse_recording (re_content (record_run R [wit_video_frame, wit_video_frame])) = Some (map recorded_of [wit_video_frame, wit_video_frame])"
    by (rule recording_roundtrip [OF R(1)]) (simp_all add: R(2) frame_size_def wit_video_frame_def)
  with R(1) show ?thesis by blast
qed

text \<open>The limit: the bytes counted never pass it.\<close>

lemma record_frame_limit:
  assumes "re_bytes_written R \<le> re_max_bytes R"
  shows "re_bytes_written (snd (record_frame io R f)) \<le> re_max_bytes (snd (record_frame io R f))"
  using assms by (auto simp: record_frame_def Let_def not_less add.assoc split: option.split)

section \<open>Session counters\<close>

record session_metrics =
  sx_started_at :: u64
  sx_session_id :: uuid
  sx_host_pubkey_b64 :: string
  sx_viewer_pubkey_b64 :: string
  sx_codec :: string
  sx_video_frames :: u64
  sx_total_bytes :: u64
  sx_relayed :: bool

definition new_metrics :: "u64 \<Rightarrow> uuid \<Rightarrow> string \<Rightarrow> string \<Rightarrow> string \<Rightarrow> bool \<Rightarrow> session_metrics" where
  "new_metrics now i host viewer codec relayed =
     \<lparr>sx_started_at = now, sx_session_id = i, sx_host_pubkey_b64 = host, sx_viewer_pubkey_b64 = viewer, sx_codec = codec,
      sx_video_frames = 0, sx_total_bytes = 0, sx_relayed = relayed\<rparr>"

definition on_video_frame :: "session_metrics \<Rightarrow> u64 \<Rightarrow> session_metrics" where
  "on_video_frame M n = M\<lparr>sx_video_frames := sx_video_frames M + 1, sx_total_bytes := sx_total_bytes M + n\<rparr>"

end
