(* ===== verification/Host_Session.thy ===== *)
theory Host_Session
  imports Agent_Session Handshake Acl Input_Handler Qos Recording Transparency
begin

text \<open>
  The host's side of a session (\<open>miru-host/src/session.rs\<close>): admission after the handshake, the
  capability gate for AI agents (\<open>miru-host/src/agent_handler.rs\<close>), the main loop with what each
  permission may do, and the end of the session.

  One step of the loop handles one event; it returns how the loop goes on, the effects on the outside
  world in order, and the state after it. What the step reads from outside (clocks, the clipboard, the
  outcome of sends, captures and file operations) is the record \<open>host_env\<close>.
\<close>

section \<open>Agents\<close>

definition extract_agent_token :: "string \<Rightarrow> string option" where
  "extract_agent_token field =
     (let parts = splitn 4 (CHR '':'') field in if length parts < 4 then None else Some (parts ! 3))"

fun button_name :: "mouse_button \<Rightarrow> string" where
  "button_name LeftButton = ''left''"
| "button_name RightButton = ''right''"
| "button_name MiddleButton = ''middle''"
| "button_name X1Button = ''x1''"
| "button_name X2Button = ''x2''"

definition jfloat :: "f32 \<Rightarrow> json" where
  "jfloat r = JNum (JFloat r)"

definition obj_of :: "(string \<times> json) list \<Rightarrow> json" where
  "obj_of ps = JObj (fold (\<lambda>(k, v). obj_insert k v) ps [])"

fun gate_request :: "input_kind \<Rightarrow> capability \<times> string \<times> json" where
  "gate_request (MouseMove x y display) =
     (PointerMove, ''mouse_move'', obj_of [(''x'', jfloat x), (''y'', jfloat y), (''display'', json_of_nat (unat display))])"
| "gate_request (MouseDown button x y display) =
     (PointerClick, ''mouse_click'', obj_of [(''button'', JStr (button_name button)), (''x'', jfloat x), (''y'', jfloat y)])"
| "gate_request (MouseUp button x y display) =
     (PointerClick, ''mouse_click'', obj_of [(''button'', JStr (button_name button)), (''x'', jfloat x), (''y'', jfloat y)])"
| "gate_request (Scroll dx dy x y display) =
     (PointerMove, ''scroll'', obj_of [(''dx'', jfloat dx), (''dy'', jfloat dy), (''x'', jfloat x), (''y'', jfloat y)])"
| "gate_request (KeyDown key modifiers code) =
     (if modifiers = 0 then (KeyType, ''key'', obj_of [(''key'', json_of_nat (unat key))])
      else (KeyCombo, ''key_combo'', obj_of [(''key'', json_of_nat (unat key)), (''mods'', json_of_nat (unat modifiers))]))"
| "gate_request (KeyUp key modifiers code) =
     (if modifiers = 0 then (KeyType, ''key'', obj_of [(''key'', json_of_nat (unat key))])
      else (KeyCombo, ''key_combo'', obj_of [(''key'', json_of_nat (unat key)), (''mods'', json_of_nat (unat modifiers))]))"
| "gate_request (TextInput txt) = (KeyType, ''key_type'', obj_of [(''len'', json_of_nat (length txt))])"

text \<open>\<open>gate_input\<close>; the headless host answers every confirmation with no.\<close>

definition gate_input :: "audit_ext \<Rightarrow> auth_env \<Rightarrow> agent_session \<Rightarrow> input_event \<Rightarrow> bool \<times> agent_session" where
  "gate_input X V A evt =
     (case gate_request (ie_kind evt) of
        (cap, scope_key, action) \<Rightarrow>
          (case authorize X V (\<lambda>_. False) A cap action scope_key of
             (Inl _, _, A') \<Rightarrow> (False, A')
           | (Inr _, _, A') \<Rightarrow> (True, A')))"

definition allow_screen_send :: "agent_session \<Rightarrow> bool" where
  "allow_screen_send A = has_capability (ag_token A) ScreenRead"

text \<open>Step 3b of \<open>handle_viewer\<close>: whether the peer is served, and through which gate.\<close>

datatype session_admission = SessionRefused | SessionError | SessionOpened "agent_session option"

definition open_gate :: "bool \<Rightarrow> token_ext \<Rightarrow> (audit_error + audit_log) \<Rightarrow> bytes \<Rightarrow> u64 \<Rightarrow> handshake_result \<Rightarrow> session_admission" where
  "open_gate agent_feature X audit issuer_pub now result =
     (if hr_peer_role result \<noteq> AiAgent then SessionOpened None
      else if \<not> agent_feature then SessionRefused
      else
        (case extract_agent_token (hr_peer_pubkey_field result) of
           None \<Rightarrow> SessionRefused
         | Some token_str \<Rightarrow>
             (case audit of
                Inl e \<Rightarrow> SessionError
              | Inr L \<Rightarrow>
                  (case parse_and_verify X token_str issuer_pub now of
                     Inl e \<Rightarrow> SessionRefused
                   | Inr t \<Rightarrow> SessionOpened (Some (agent_open t L))))))"

section \<open>The session\<close>

record host_session =
  hs_permission :: permission
  hs_agent :: "agent_session option"
  hs_input :: input_handler
  hs_ft_cfg :: "file_transfer_config option"
  hs_transfers :: ft_state
  hs_display :: u8
  hs_qos :: bbr_qos
  hs_frames :: frame_controller
  hs_bytes_since_ping :: u64
  hs_last_clip :: string
  hs_metrics :: session_metrics
  hs_recorder :: "session_recorder option"
  hs_audio :: bool

record host_env =
  hv_now :: nat
  hv_now' :: nat
  hv_now_ms :: u64
  hv_audit :: audit_ext
  hv_auth :: auth_env
  hv_inject :: "input_event \<Rightarrow> bool"
  hv_lossy :: "bytes \<Rightarrow> string"
  hv_clipboard :: "string option"
  hv_capture_ok :: bool
  hv_send_ok :: bool
  hv_sha256 :: "bytes \<Rightarrow> bytes"
  hv_paths :: path_sys
  hv_io :: ft_io
  hv_rec_io :: "nat option"

datatype host_event =
    FromCapture msg
  | FromAudio "msg option"
  | FromViewer "msg option"
  | ReceiveError
  | PingTick
  | ClipTick

datatype host_effect =
    Inject input_event
  | WriteClipboard clipboard_write
  | LaunchUrl string
  | SwitchCapture u8
  | SendMsg msg

datatype loop_result = LoopOn | LoopBreak | LoopFail | LoopPanic

text \<open>\<open>clip_truncate\<close>.\<close>

definition CLIP_TRUNCATE_BYTES :: nat where
  "CLIP_TRUNCATE_BYTES = 1048576"

definition char_boundary :: "string \<Rightarrow> nat \<Rightarrow> bool" where
  "char_boundary s i \<longleftrightarrow> i = 0 \<or> i = length s \<or> (i < length s \<and> \<not> utf8_cont (of_char (s ! i)))"

fun clip_end :: "string \<Rightarrow> nat \<Rightarrow> nat" where
  "clip_end s 0 = 0"
| "clip_end s (Suc n) = (if char_boundary s (Suc n) then Suc n else clip_end s n)"

definition clip_truncate :: "string \<Rightarrow> string" where
  "clip_truncate s = (if length s \<le> CLIP_TRUNCATE_BYTES then s else take (clip_end s CLIP_TRUNCATE_BYTES) s)"

definition clipboard_msg :: "string \<Rightarrow> msg" where
  "clipboard_msg s = MsgClipboardSync \<lparr>cs_format = ClipText, cs_data = as_bytes s\<rparr>"

definition may_control :: "permission \<Rightarrow> bool" where
  "may_control p \<longleftrightarrow> p \<in> {Control, FullAccess}"

text \<open>The first part of the session: what is set up from the permission and the handshake.\<close>

definition start_session ::
  "nat \<Rightarrow> permission \<Rightarrow> agent_session option \<Rightarrow> string \<Rightarrow> bool \<Rightarrow> (string \<rightharpoonup> bytes) \<Rightarrow> session_metrics
    \<Rightarrow> session_recorder option \<Rightarrow> bool \<Rightarrow> host_session" where
  "start_session now p agent ft_dir mkdir_ok files metrics recorder audio =
     \<lparr>hs_permission = p, hs_agent = agent, hs_input = new_input_handler now,
      hs_ft_cfg = (if p = FullAccess \<and> mkdir_ok then Some (default_transfer_config\<lparr>fc_allowed_roots := [ft_dir]\<rparr>) else None),
      hs_transfers = ft_begin files, hs_display = 0, hs_qos = new_bbr now 60 5000,
      hs_frames = new_frame_controller 60 5000, hs_bytes_since_ping = 0, hs_last_clip = [], hs_metrics = metrics,
      hs_recorder = recorder, hs_audio = audio\<rparr>"

text \<open>\<open>Msg::InputEvent\<close>: gated for agents, then injected.\<close>

definition on_input_event :: "host_env \<Rightarrow> host_session \<Rightarrow> input_event \<Rightarrow> host_effect list \<times> host_session" where
  "on_input_event E S evt =
     (let (allowed, agent) =
        (case hs_agent S of
           Some A \<Rightarrow> (let (ok, A') = gate_input (hv_audit E) (hv_auth E) A evt in (ok, Some A'))
         | None \<Rightarrow> (True, None));
        S1 = S\<lparr>hs_agent := agent\<rparr>
      in if allowed
         then (let (_, out, H) = handle_input (hv_inject E) (hv_now E) (hv_now' E) (hs_input S1) evt
               in (map Inject out, S1\<lparr>hs_input := H\<rparr>))
         else ([], S1))"

definition MAX_VIEWER_CLIP_BYTES :: nat where
  "MAX_VIEWER_CLIP_BYTES = 16777216"

definition MAX_URL_BYTES :: nat where
  "MAX_URL_BYTES = 2048"

definition on_open_url :: "string \<Rightarrow> host_effect list" where
  "on_open_url req_url =
     (let url = trim req_url
      in if length url > MAX_URL_BYTES then []
         else if prefix ''https://'' url \<or> prefix ''http://'' url then [LaunchUrl url]
         else [])"

definition sat_mul :: "u32 \<Rightarrow> u32 \<Rightarrow> u32" where
  "sat_mul a b = (if unat a * unat b < 2 ^ 32 then a * b else - 1)"

text \<open>A message of the viewer: the guards of the loop's \<open>match\<close>, in its order.\<close>

definition on_viewer_msg :: "host_env \<Rightarrow> host_session \<Rightarrow> msg \<Rightarrow> loop_result \<times> host_effect list \<times> host_session" where
  "on_viewer_msg E S m =
     (case m of
        MsgInputEvent evt \<Rightarrow>
          if may_control (hs_permission S) then (let (eff, S') = on_input_event E S evt in (LoopOn, eff, S')) else (LoopOn, [], S)
      | MsgClipboardSync s \<Rightarrow>
          if hs_permission S = FullAccess \<and> length (cs_data s) \<le> MAX_VIEWER_CLIP_BYTES
          then (LoopOn, [WriteClipboard (handle_clipboard (hv_lossy E) s)], S) else (LoopOn, [], S)
      | MsgSelectDisplay index \<Rightarrow>
          if may_control (hs_permission S) \<and> index \<noteq> hs_display S \<and> hv_capture_ok E
          then (LoopOn, [SwitchCapture index], S\<lparr>hs_display := index\<rparr>) else (LoopOn, [], S)
      | MsgRequestClipboard \<Rightarrow>
          if may_control (hs_permission S)
          then (case hv_clipboard E of
                  Some txt \<Rightarrow> (LoopOn, [SendMsg (clipboard_msg (clip_truncate txt))], S)
                | None \<Rightarrow> (LoopOn, [], S))
          else (LoopOn, [], S)
      | MsgOpenUrl url \<Rightarrow> if hs_permission S = FullAccess then (LoopOn, on_open_url url, S) else (LoopOn, [], S)
      | MsgQosHint hint \<Rightarrow>
          if may_control (hs_permission S) then (LoopOn, [], S\<lparr>hs_qos := apply_hint (hs_qos S) hint\<rparr>) else (LoopOn, [], S)
      | MsgFileTransfer ft \<Rightarrow>
          (case hs_ft_cfg S of
             Some cfg \<Rightarrow>
               (LoopOn, [], S\<lparr>hs_transfers := handle_file_transfer (hv_sha256 E) (hv_paths E) cfg (hv_io E) (hs_transfers S) ft\<rparr>)
           | None \<Rightarrow> (LoopOn, [], S))
      | MsgPong ts server_ts \<Rightarrow>
          (let rtt = ucast (sat_sub (hv_now_ms E) ts) :: u32
           in (LoopOn, [], S\<lparr>hs_frames := on_pong (hs_frames S), hs_qos := on_rtt (hv_now E) (hs_qos S) (sat_mul rtt 1000)\<rparr>))
      | MsgClose reason \<Rightarrow> (LoopBreak, [], S)
      | _ \<Rightarrow> (LoopOn, [], S))"

text \<open>A frame of the capture thread: recorded, then counted and sent unless the agent may not see the screen.\<close>

definition on_capture :: "host_env \<Rightarrow> host_session \<Rightarrow> msg \<Rightarrow> loop_result \<times> host_effect list \<times> host_session" where
  "on_capture E S m =
     (case m of
        MsgVideoFrame vf \<Rightarrow>
          (let S1 = S\<lparr>hs_recorder := map_option (\<lambda>R. snd (record_frame (hv_rec_io E) R vf)) (hs_recorder S)\<rparr>;
               n = word_of_nat (length (vf_data vf)) :: u64
           in if (case hs_agent S of Some A \<Rightarrow> \<not> allow_screen_send A | None \<Rightarrow> False) then (LoopOn, [], S1)
              else (if hv_send_ok E then LoopOn else LoopBreak, [SendMsg m],
                    S1\<lparr>hs_bytes_since_ping := hs_bytes_since_ping S1 + n, hs_metrics := on_video_frame (hs_metrics S1) n,
                       hs_frames := on_send (hs_frames S1)\<rparr>))
      | _ \<Rightarrow> (if hv_send_ok E then LoopOn else LoopBreak, [SendMsg m], S))"

definition msg_audio_len :: "msg \<Rightarrow> u64" where
  "msg_audio_len m = (case m of MsgAudioFrame af \<Rightarrow> word_of_nat (length (af_data af)) | _ \<Rightarrow> 0)"

definition on_ping_tick :: "host_env \<Rightarrow> host_session \<Rightarrow> loop_result \<times> host_effect list \<times> host_session" where
  "on_ping_tick E S =
     (let kbps = ucast (hs_bytes_since_ping S * 8 div 1024) :: u32;
          q = on_delivery (hv_now E) (hs_qos S) (max kbps 100);
          S1 = S\<lparr>hs_bytes_since_ping := 0, hs_qos := q\<rparr>
      in case tick (hv_now E) (hv_now' E) q of
           Inl p \<Rightarrow> (LoopPanic, [], S1)
         | Inr (None, q') \<Rightarrow> (LoopOn, [SendMsg (MsgPing (hv_now_ms E))], S1\<lparr>hs_qos := q'\<rparr>)
         | Inr (Some u, q') \<Rightarrow>
             (LoopOn, [SendMsg (MsgQosUpdate u), SendMsg (MsgPing (hv_now_ms E))],
              S1\<lparr>hs_qos := q', hs_frames := apply_qos (hs_frames S1) (qu_fps u) (qu_bitrate_kbps u)\<rparr>))"

definition on_clip_tick :: "host_env \<Rightarrow> host_session \<Rightarrow> host_effect list \<times> host_session" where
  "on_clip_tick E S =
     (if \<not> may_control (hs_permission S) then ([], S)
      else
        (case hv_clipboard E of
           None \<Rightarrow> ([], S)
         | Some raw \<Rightarrow>
             (let txt = clip_truncate raw
              in if txt \<noteq> [] \<and> txt \<noteq> hs_last_clip S then ([SendMsg (clipboard_msg txt)], S\<lparr>hs_last_clip := txt\<rparr>)
                 else ([], S))))"

fun host_step :: "host_env \<Rightarrow> host_session \<Rightarrow> host_event \<Rightarrow> loop_result \<times> host_effect list \<times> host_session" where
  "host_step E S (FromCapture m) = on_capture E S m"
| "host_step E S (FromAudio (Some m)) =
     (if hs_audio S
      then (if hv_send_ok E then LoopOn else LoopBreak, [SendMsg m],
            S\<lparr>hs_bytes_since_ping := hs_bytes_since_ping S + msg_audio_len m\<rparr>)
      else (LoopOn, [], S))"
| "host_step E S (FromAudio None) = (LoopOn, [], S\<lparr>hs_audio := False\<rparr>)"
| "host_step E S (FromViewer (Some m)) = on_viewer_msg E S m"
| "host_step E S (FromViewer None) = (LoopBreak, [], S)"
| "host_step E S ReceiveError = (LoopFail, [], S)"
| "host_step E S PingTick = on_ping_tick E S"
| "host_step E S ClipTick = (let (eff, S') = on_clip_tick E S in (LoopOn, eff, S'))"

text \<open>The loop, over a list of events, until it leaves.\<close>

fun host_run :: "host_session \<Rightarrow> (host_env \<times> host_event) list \<Rightarrow> loop_result \<times> host_effect list \<times> host_session" where
  "host_run S [] = (LoopOn, [], S)"
| "host_run S ((E, ev) # evs) =
     (case host_step E S ev of
        (LoopOn, eff, S') \<Rightarrow> (let (r, eff', S'') = host_run S' evs in (r, eff @ eff', S''))
      | (r, eff, S') \<Rightarrow> (r, eff, S'))"

text \<open>
  The end of a session: after the loop, the keys are released and the unfinished transfers removed; a
  receive error leaves early, and then dropping the input handler releases the keys.
\<close>

definition host_teardown :: "ft_io \<Rightarrow> loop_result \<Rightarrow> host_session \<Rightarrow> host_effect list \<times> host_session" where
  "host_teardown io r S =
     (if r = LoopPanic then ([], S)
      else
        (let (out, H) = release_all_keys (hs_input S); S1 = S\<lparr>hs_input := H\<rparr>
         in (map Inject out, if r = LoopFail then S1 else S1\<lparr>hs_transfers := ft_teardown io (hs_transfers S1)\<rparr>)))"

definition metrics_snapshot :: "session_metrics \<Rightarrow> u64 \<Rightarrow> session_metadata" where
  "metrics_snapshot M ended_at =
     \<lparr>sm_session_id = sx_session_id M, sm_host_pubkey_b64 = sx_host_pubkey_b64 M, sm_viewer_pubkey_b64 = sx_viewer_pubkey_b64 M,
      sm_codec = sx_codec M, sm_started_at = sx_started_at M, sm_ended_at = ended_at, sm_video_frames = sx_video_frames M,
      sm_total_bytes = sx_total_bytes M, sm_relayed = sx_relayed M\<rparr>"

section \<open>Permissions\<close>

text \<open>What a peer of each permission may cause.\<close>

fun effect_allowed :: "permission \<Rightarrow> host_effect \<Rightarrow> bool" where
  "effect_allowed p (Inject ev) = (p \<noteq> ViewOnly)"
| "effect_allowed p (WriteClipboard w) = (p = FullAccess)"
| "effect_allowed p (LaunchUrl u) = (p = FullAccess)"
| "effect_allowed p (SwitchCapture i) = (p \<noteq> ViewOnly)"
| "effect_allowed p (SendMsg m) = (case m of MsgClipboardSync s \<Rightarrow> p \<noteq> ViewOnly | _ \<Rightarrow> True)"

text \<open>The capture threads produce video and audio frames only.\<close>

fun media_event :: "host_event \<Rightarrow> bool" where
  "media_event (FromCapture m) = (\<exists>vf. m = MsgVideoFrame vf)"
| "media_event (FromAudio (Some m)) = (\<exists>af. m = MsgAudioFrame af)"
| "media_event _ = True"

lemma may_control_iff: "may_control p \<longleftrightarrow> p \<noteq> ViewOnly"
  by (cases p) (simp_all add: may_control_def)

lemma on_input_event_keeps:
  "on_input_event E S evt = (eff, S') \<Longrightarrow>
   hs_permission S' = hs_permission S \<and> hs_ft_cfg S' = hs_ft_cfg S \<and> hs_transfers S' = hs_transfers S \<and> (\<forall>e \<in> set eff. \<exists>ev. e = Inject ev)"
  by (auto simp: on_input_event_def Let_def split: option.splits prod.splits if_splits)

lemma on_viewer_msg_allowed:
  assumes "on_viewer_msg E S m = (r, eff, S')"
  shows "list_all (effect_allowed (hs_permission S)) eff \<and> hs_permission S' = hs_permission S \<and> hs_ft_cfg S' = hs_ft_cfg S \<and>
    (hs_ft_cfg S = None \<longrightarrow> hs_transfers S' = hs_transfers S)"
proof (cases "\<exists>evt. m = MsgInputEvent evt")
  case True
  then obtain evt where "m = MsgInputEvent evt" ..
  with assms on_input_event_keeps [of E S evt] show ?thesis
    by (auto simp: on_viewer_msg_def may_control_iff list_all_iff split: prod.splits if_splits)
next
  case False
  with assms show ?thesis
    by (cases m) (auto simp: on_viewer_msg_def Let_def may_control_iff on_open_url_def clipboard_msg_def
        split: if_splits option.splits)
qed

lemma host_step_allowed:
  assumes "host_step E S ev = (r, eff, S')" "media_event ev"
  shows "list_all (effect_allowed (hs_permission S)) eff \<and> hs_permission S' = hs_permission S \<and> hs_ft_cfg S' = hs_ft_cfg S \<and>
    (hs_ft_cfg S = None \<longrightarrow> hs_transfers S' = hs_transfers S)"
proof (cases "(E, S, ev)" rule: host_step.cases)
  case (4 E S m)
  then show ?thesis using on_viewer_msg_allowed assms(1) by simp
qed (use assms in \<open>auto simp: on_capture_def on_ping_tick_def on_clip_tick_def may_control_iff clipboard_msg_def Let_def
       split: if_splits option.splits sum.splits prod.splits\<close>)

lemma host_run_Cons:
  assumes "host_run S ((E, ev) # evs) = (r, eff, S'')"
  obtains (stop) "host_step E S ev = (r, eff, S'')" "r \<noteq> LoopOn"
  | (more) eff1 S' eff2 where "host_step E S ev = (LoopOn, eff1, S')" "host_run S' evs = (r, eff2, S'')" "eff = eff1 @ eff2"
proof (cases "fst (host_step E S ev) = LoopOn")
  case True
  then obtain eff1 S' where "host_step E S ev = (LoopOn, eff1, S')" by (metis prod.collapse)
  with assms more show ?thesis by (auto split: prod.splits)
next
  case False
  obtain r1 eff1 S1 where h: "host_step E S ev = (r1, eff1, S1)" by (metis prod_cases3)
  with False have "r1 \<noteq> LoopOn" by simp
  with h assms show ?thesis by (intro stop) (cases r1; simp)+
qed

lemma host_run_allowed:
  "host_run S evs = (r, eff, S') \<Longrightarrow> list_all (media_event \<circ> snd) evs \<Longrightarrow>
   list_all (effect_allowed (hs_permission S)) eff \<and> (hs_ft_cfg S = None \<longrightarrow> hs_transfers S' = hs_transfers S)"
proof (induction evs arbitrary: S eff)
  case (Cons a evs)
  obtain E ev where a: "a = (E, ev)" by (cases a)
  have m: "media_event ev" "list_all (media_event \<circ> snd) evs" using Cons.prems(2) a by (simp_all add: comp_def)
  from Cons.prems(1) [unfolded a] show ?case
  proof (cases rule: host_run_Cons)
    case stop
    then show ?thesis using host_step_allowed [OF stop(1) m(1)] by simp
  next
    case (more eff1 S1 eff2)
    then show ?thesis using host_step_allowed [OF more(1) m(1)] Cons.IH [OF more(2) m(2)] by simp
  qed
qed simp

text \<open>
  C2. Permissions hold for a whole session: whatever a peer sends and whatever happens around it, only
  peers with control may inject input, switch the display or be sent the clipboard, only peers with full
  access may write the clipboard or open addresses, and without full access no file changes.\<close>

theorem permissions_respected:
  assumes "host_run (start_session now p agent ft_dir mkdir_ok files metrics recorder audio) evs = (r, eff, S')"
    and "list_all (media_event \<circ> snd) evs"
  shows "list_all (effect_allowed p) eff \<and> (p \<noteq> FullAccess \<longrightarrow> ts_files (hs_transfers S') = files)"
  using host_run_allowed [OF assms] by (auto simp: start_session_def ft_begin_def)

text \<open>
  C20. An agent's input passes the gate: in a session of an AI agent, an event is injected only in answer
  to an input message whose capability the agent's token grants, while the token is neither expired nor
  revoked, and after the attempt was written to the audit log.\<close>

theorem agent_input_gated:
  assumes "host_step E S ev = (r, eff, S')" "hs_agent S = Some A" "Inject out \<in> set eff"
  shows "\<exists>evt cap key action r' A'. ev = FromViewer (Some (MsgInputEvent evt)) \<and> gate_request (ie_kind evt) = (cap, key, action) \<and>
    cap \<in> set (caps (payload (ag_token A))) \<and> \<not> ag_locally_revoked A \<and> av_unix_now (hv_auth E) < tok_exp (payload (ag_token A)) \<and>
    hs_agent S' = Some A' \<and> session_log (hv_audit E) (hv_auth E) A cap action None AuditOk = (Ok r', A')"
proof -
  obtain evt where ev: "ev = FromViewer (Some (MsgInputEvent evt))" and on: "on_input_event E S evt = (eff, S')"
    using assms(1,3)
    by (cases "(E, S, ev)" rule: host_step.cases)
       (auto simp: on_capture_def on_ping_tick_def on_clip_tick_def on_viewer_msg_def on_open_url_def Let_def
          split: if_splits option.splits sum.splits prod.splits msg.splits)
  obtain cap key action where g: "gate_request (ie_kind evt) = (cap, key, action)" by (metis prod_cases3)
  obtain res req A' where a: "authorize (hv_audit E) (hv_auth E) (\<lambda>_. False) A cap action key = (res, req, A')" by (metis prod_cases3)
  have res: "res = Ok ()" and A': "hs_agent S' = Some A'"
    using on assms(2,3) g a by (auto simp: on_input_event_def gate_input_def Let_def split: sum.splits prod.splits if_splits)
  have nc: "\<not> requires_confirmation cap"
    using g by (cases "ie_kind evt") (auto simp: requires_confirmation_def split: if_splits)
  from a show ?thesis
  proof (cases rule: authorize_cases)
    case (denied err)
    then show ?thesis using res by (auto simp: deny_def split: sum.splits prod.splits)
  next
    case (checked c S1 r1)
    have "c = None" "S1 = A" using checked(2) nc by (simp_all add: confirm_step_def)
    with checked res have "\<exists>r'. session_log (hv_audit E) (hv_auth E) A cap action None AuditOk = (Ok r', A')"
      by (auto split: sum.splits)
    with checked(1) ev g A' show ?thesis by (auto simp: auth_admissible_def)
  qed
qed

text \<open>A concrete session for the witnesses.\<close>

definition wit_host_env :: host_env where
  "wit_host_env = \<lparr>hv_now = 0, hv_now' = 0, hv_now_ms = 0, hv_audit = wit_session_ext, hv_auth = wit_env, hv_inject = (\<lambda>_. True),
     hv_lossy = (\<lambda>_. []), hv_clipboard = Some ''secret'', hv_capture_ok = True, hv_send_ok = True, hv_sha256 = wit_ft_sha,
     hv_paths = wit_ft_sys, hv_io = io_ok, hv_rec_io = None\<rparr>"

definition wit_metrics :: session_metrics where
  "wit_metrics = new_metrics 0 1 ''h'' ''v'' ''av1'' True"

definition wit_host :: "permission \<Rightarrow> agent_session option \<Rightarrow> host_session" where
  "wit_host p agent = start_session 0 p agent ''/d'' True Map.empty wit_metrics None False"

definition wit_agent :: agent_session where
  "wit_agent = agent_open \<lparr>payload = wit_payload\<lparr>caps := [KeyType]\<rparr>, signature = []\<rparr> fresh_log"

theorem permissions_respected_witness:
  "\<exists>r eff S'. host_run (wit_host ViewOnly None) [(wit_host_env, FromViewer (Some (MsgInputEvent wit_key_event)))] = (r, eff, S') \<and>
     list_all (effect_allowed ViewOnly) eff"
proof -
  obtain r eff S' where h: "host_run (wit_host ViewOnly None) [(wit_host_env, FromViewer (Some (MsgInputEvent wit_key_event)))] = (r, eff, S')"
    by (metis prod_cases3)
  from permissions_respected [OF h [unfolded wit_host_def]] h show ?thesis by auto
qed

theorem agent_input_gated_witness:
  "\<exists>S' A'. host_step wit_host_env (wit_host Control (Some wit_agent)) (FromViewer (Some (MsgInputEvent wit_key_event))) =
     (LoopOn, [Inject wit_key_event], S') \<and> hs_agent S' = Some A' \<and> KeyType \<in> set (caps (payload (ag_token wit_agent)))"
proof -
  have a: "\<exists>A'. authorize wit_session_ext wit_env (\<lambda>_. False) wit_agent KeyType action key = (Ok (), None, A')" for action key
    by (simp add: wit_authorize_defs wit_agent_def)
  have g: "gate_request (ie_kind wit_key_event) = (KeyType, ''key'', obj_of [(''key'', json_of_nat (unat (17 :: u32)))])"
    by (simp add: wit_key_event_def)
  obtain A' where "gate_input wit_session_ext wit_env wit_agent wit_key_event = (True, A')"
    using a [of "obj_of [(''key'', json_of_nat (unat (17 :: u32)))]" "''key''"] by (auto simp: gate_input_def g)
  moreover have "\<exists>H. handle_input (\<lambda>_. True) 0 0 (new_input_handler 0) wit_key_event = (True, [wit_key_event], H)"
    by (simp add: handle_input_def new_input_handler_def wit_key_event_def MAX_EVENTS_PER_SEC_def track_keys_def remap_def)
  ultimately obtain S' where h: "host_step wit_host_env (wit_host Control (Some wit_agent)) (FromViewer (Some (MsgInputEvent wit_key_event))) =
     (LoopOn, [Inject wit_key_event], S')"
    by (auto simp: on_viewer_msg_def may_control_def on_input_event_def wit_host_def start_session_def wit_host_env_def)
  from agent_input_gated [OF h, of wit_agent] h show ?thesis
    by (auto simp: wit_host_def start_session_def g)
qed

section \<open>What the gate does not cover\<close>

text \<open>
  The clipboard is not behind the gate: a peer admitted as an AI agent with control is sent the host's
  clipboard on request, and whenever it changes, whatever capabilities its token has; the token's
  \<open>ClipboardRead\<close> capability and its confirmation are never consulted and nothing is logged.\<close>

theorem agent_reads_clipboard:
  assumes "hs_agent S = Some A" "hs_permission S = Control" "hv_clipboard E = Some txt"
  shows "host_step E S (FromViewer (Some MsgRequestClipboard)) = (LoopOn, [SendMsg (clipboard_msg (clip_truncate txt))], S) \<and>
    (clip_truncate txt \<notin> {[], hs_last_clip S} \<longrightarrow>
       host_step E S ClipTick = (LoopOn, [SendMsg (clipboard_msg (clip_truncate txt))], S\<lparr>hs_last_clip := clip_truncate txt\<rparr>))"
  using assms by (simp add: on_viewer_msg_def on_clip_tick_def may_control_def Let_def)

theorem agent_reads_clipboard_witness:
  "ClipboardRead \<notin> set (caps (payload (ag_token wit_agent))) \<and>
   host_step wit_host_env (wit_host Control (Some wit_agent)) (FromViewer (Some MsgRequestClipboard)) =
     (LoopOn, [SendMsg (clipboard_msg ''secret'')], wit_host Control (Some wit_agent))"
proof -
  have "hs_agent (wit_host Control (Some wit_agent)) = Some wit_agent" "hs_permission (wit_host Control (Some wit_agent)) = Control"
    "hv_clipboard wit_host_env = Some ''secret''" by (simp_all add: wit_host_def start_session_def wit_host_env_def)
  from agent_reads_clipboard [OF this] show ?thesis by (simp add: wit_agent_def agent_open_def open_with_revocation_def clip_truncate_def CLIP_TRUNCATE_BYTES_def)
qed

section \<open>The end of a session\<close>

fun injected :: "host_effect list \<Rightarrow> input_event list" where
  "injected [] = []"
| "injected (Inject ev # es) = ev # injected es"
| "injected (_ # es) = injected es"

lemma injected_append [simp]: "injected (xs @ ys) = injected xs @ injected ys"
  by (induction xs rule: injected.induct) auto

lemma injected_map [simp]: "injected (map Inject evs) = evs"
  by (induction evs) auto

definition key_sync :: "host_session \<Rightarrow> host_effect list \<Rightarrow> host_session \<Rightarrow> bool" where
  "key_sync S eff S' \<longleftrightarrow> keys_down (set (ih_held_keys (hs_input S))) (injected eff) = set (ih_held_keys (hs_input S'))"

lemma key_sync_input: "on_input_event E S evt = (eff, S') \<Longrightarrow> key_sync S eff S'"
  by (auto simp: on_input_event_def key_sync_def Let_def keys_down_def split: option.splits prod.splits if_splits
      dest!: handle_input_held)

lemma key_sync_step: "host_step E S ev = (r, eff, S') \<Longrightarrow> key_sync S eff S'"
proof (cases "\<exists>evt. ev = FromViewer (Some (MsgInputEvent evt))")
  case True
  assume "host_step E S ev = (r, eff, S')"
  with True show ?thesis using key_sync_input
    by (auto simp: on_viewer_msg_def split: if_splits prod.splits) (simp add: key_sync_def keys_down_def)
next
  case False
  assume h: "host_step E S ev = (r, eff, S')"
  have "injected eff = [] \<and> hs_input S' = hs_input S"
    using h False
    by (cases "(E, S, ev)" rule: host_step.cases)
       (auto simp: on_capture_def on_ping_tick_def on_clip_tick_def on_viewer_msg_def on_open_url_def Let_def
          split: if_splits option.splits sum.splits prod.splits msg.splits)
  then show ?thesis by (simp add: key_sync_def keys_down_def)
qed

lemma key_sync_trans: "key_sync S e1 S1 \<Longrightarrow> key_sync S1 e2 S2 \<Longrightarrow> key_sync S (e1 @ e2) S2"
  by (simp add: key_sync_def keys_down_def)

lemma key_sync_run: "host_run S evs = (r, eff, S') \<Longrightarrow> key_sync S eff S'"
proof (induction evs arbitrary: S eff)
  case (Cons a evs)
  obtain E ev where a: "a = (E, ev)" by (cases a)
  from Cons.prems [unfolded a] show ?case
  proof (cases rule: host_run_Cons)
    case stop
    then show ?thesis by (simp add: key_sync_step)
  next
    case (more eff1 S1 eff2)
    with Cons.IH show ?thesis by (auto intro: key_sync_trans key_sync_step)
  qed
qed (simp add: key_sync_def keys_down_def)

text \<open>
  C21. A session ends with all keys up: however the loop ends short of a panic (the viewer closes, a send
  fails, the connection breaks), the keys the session injected as pressed have all been released when the
  session is over.\<close>

theorem session_releases_keys:
  assumes "host_run (start_session now p agent ft_dir mkdir_ok files metrics recorder audio) evs = (r, eff, S)"
    and "r \<noteq> LoopPanic" "host_teardown io r S = (eff', S')"
  shows "keys_down {} (injected (eff @ eff')) = {}"
proof -
  have "keys_down {} (injected eff) = set (ih_held_keys (hs_input S))"
    using key_sync_run [OF assms(1)] by (simp add: key_sync_def start_session_def new_input_handler_def)
  moreover have "injected eff' = map release_event (ih_held_keys (hs_input S))"
    using assms(2,3) by (auto simp: host_teardown_def release_all_keys_def Let_def simp del: map_map)
  ultimately show ?thesis using keys_down_release [of "set (ih_held_keys (hs_input S))" "ih_held_keys (hs_input S)"]
    by (simp add: keys_down_def)
qed

text \<open>A receive error ends the session before the unfinished transfers are removed.\<close>

lemma receive_error_keeps_temp:
  "host_run S [(E, ReceiveError)] = (LoopFail, [], S) \<and>
   hs_transfers (snd (host_teardown io LoopFail S)) = hs_transfers S"
  by (simp add: host_teardown_def Let_def release_all_keys_def)

text \<open>A viewer with control can make the host abort: an idle session whose viewer asked for \<open>smooth\<close>.\<close>

lemma smooth_hint_aborts_host:
  assumes "may_control (hs_permission S)" "qh_mode hint = ''smooth''"
    and "tick (hv_now E) (hv_now' E) (on_delivery (hv_now E) (apply_hint (hs_qos S) hint) (max (ucast (hs_bytes_since_ping S * 8 div 1024)) 100)) = Err p"
  shows "fst (host_run S [(E', FromViewer (Some (MsgQosHint hint))), (E, PingTick)]) = LoopPanic"
  using assms by (simp add: on_viewer_msg_def on_ping_tick_def Let_def)

theorem session_releases_keys_witness:
  "\<exists>eff S eff' S'. host_run (wit_host Control None) [(wit_host_env, FromViewer (Some (MsgInputEvent wit_key_event))), (wit_host_env, ReceiveError)] =
       (LoopFail, eff, S) \<and> host_teardown io_ok LoopFail S = (eff', S') \<and> keys_down {} (injected (eff @ eff')) = {}"
proof -
  have "\<exists>eff S. host_run (wit_host Control None) [(wit_host_env, FromViewer (Some (MsgInputEvent wit_key_event))), (wit_host_env, ReceiveError)] = (LoopFail, eff, S)"
    by (simp add: on_viewer_msg_def may_control_def on_input_event_def wit_host_def start_session_def Let_def split: prod.split)
  then obtain eff S where h: "host_run (wit_host Control None) [(wit_host_env, FromViewer (Some (MsgInputEvent wit_key_event))), (wit_host_env, ReceiveError)] = (LoopFail, eff, S)" by blast
  obtain eff' S' where t: "host_teardown io_ok LoopFail S = (eff', S')" by fastforce
  from session_releases_keys [OF h [unfolded wit_host_def] _ t] h t show ?thesis by auto
qed

end
