(* ===== verification/Backoff.thy ===== *)
theory Backoff
  imports Messages
begin

text \<open>
  Small services shared by host and viewer: reconnect delays (\<open>miru-common/src/backoff.rs\<close>) and
  Wake-on-LAN packets (\<open>miru-common/src/wol.rs\<close>). The random draw of a delay is an argument.
\<close>

section \<open>Reconnect delays\<close>

definition sat_mul64 :: "u64 \<Rightarrow> u64 \<Rightarrow> u64" where
  "sat_mul64 a b = (if unat a * unat b < 2 ^ 64 then a * b else - 1)"

text \<open>\<open>f64 as u64\<close>.\<close>

definition f64_as_u64 :: "f64 \<Rightarrow> u64" where
  "f64_as_u64 r = (if r < 0 then 0 else if \<lfloor>r\<rfloor> \<ge> 2 ^ 64 then - 1 else word_of_int \<lfloor>r\<rfloor>)"

definition equal_jitter_secs :: "u32 \<Rightarrow> u64 \<Rightarrow> u64 \<Rightarrow> f64 \<Rightarrow> u64" where
  "equal_jitter_secs attempt base_secs cap_secs rand_unit =
     (let base = max base_secs 1;
          cap = max cap_secs base;
          doubled = (if attempt \<ge> 63 then cap else min (sat_mul64 base (push_bit (unat attempt) 1)) cap);
          half = doubled div 2;
          unit = clampf 0 1 rand_unit
      in half + f64_as_u64 (to_f64 (to_f64 (of_nat (unat half)) * unit)))"

section \<open>Wake-on-LAN\<close>

definition build_magic_packet :: "bytes \<Rightarrow> bytes" where
  "build_magic_packet mac = replicate 6 0xFF @ concat (replicate 16 mac)"

datatype mac_error = MacLength nat

fun hex_pairs :: "string \<Rightarrow> byte list" where
  "hex_pairs (a # b # s) = word_of_nat (16 * the (hex_value a) + the (hex_value b)) # hex_pairs s"
| "hex_pairs _ = []"

definition parse_mac :: "string \<Rightarrow> mac_error + bytes" where
  "parse_mac s =
     (let cleaned = filter (\<lambda>c. hex_value c \<noteq> None) s
      in if length cleaned \<noteq> 12 then Err (MacLength (length cleaned)) else Ok (hex_pairs cleaned))"

definition hex_upper_digit :: "nat \<Rightarrow> char" where
  "hex_upper_digit n = (if n < 10 then char_of (48 + n) else char_of (55 + n))"

definition mac_byte :: "byte \<Rightarrow> string" where
  "mac_byte b = [hex_upper_digit (unat b div 16), hex_upper_digit (unat b mod 16)]"

definition format_mac :: "bytes \<Rightarrow> string" where
  "format_mac mac = join_with '':'' (map mac_byte mac)"

text \<open>\<open>wake\<close>: the datagrams sent (port and payload).\<close>

definition wake :: "bool \<Rightarrow> bool \<Rightarrow> bytes \<Rightarrow> (u16 \<times> bytes) list option" where
  "wake bind_ok send9_ok mac =
     (if \<not> bind_ok \<or> \<not> send9_ok then None
      else Some [(9, build_magic_packet mac), (7, build_magic_packet mac)])"

section \<open>Delays stay in range\<close>

lemma round_bin_le_nat:
  assumes "0 \<le> x" "x \<le> of_nat n" "n < 2 ^ nat p" "0 < p" "emin \<le> 0"
  shows "round_bin p emin x \<le> of_nat n"
proof (cases "x = 0")
  case False
  let ?s = "max (\<lfloor>log 2 \<bar>x\<bar>\<rfloor> - (p - 1)) emin"
  have x: "0 < x" using assms(1) False by simp
  have "x < 2 powr of_int p"
  proof -
    have "real n < 2 ^ nat p" using assms(3) by (metis of_nat_less_iff of_nat_numeral of_nat_power)
    then show ?thesis using assms(2,4) by (simp add: powr_realpow [symmetric])
  qed
  then have "log 2 x < of_int p" using x by (simp add: log_less_iff)
  then have s: "?s \<le> 0" using x assms(5) by (simp add: floor_less_iff)
  have pos: "(0 :: real) < 2 powr of_int ?s" by simp
  have "1 / 2 powr of_int ?s = (2 :: real) ^ nat (- ?s)"
    using s by (simp add: powr_realpow [symmetric] powr_minus_divide [symmetric])
  then have int: "real n / 2 powr of_int ?s = of_int (int n * 2 ^ nat (- ?s))"
    by (simp add: divide_inverse)
  have "x / 2 powr of_int ?s \<le> real n / 2 powr of_int ?s" using assms(2) pos by (simp add: divide_right_mono)
  then have "round_half_even (x / 2 powr of_int ?s) \<le> int n * 2 ^ nat (- ?s)"
    unfolding int by (metis round_half_even_int round_half_even_mono)
  then have "of_int (round_half_even (x / 2 powr of_int ?s)) \<le> real n / 2 powr of_int ?s"
    unfolding int by (simp only: of_int_le_iff)
  then have "of_int (round_half_even (x / 2 powr of_int ?s)) * 2 powr of_int ?s \<le> real n"
    using pos by (simp add: pos_le_divide_eq)
  then show ?thesis using False by (simp add: round_bin_def Let_def)
qed simp

lemma round_bin_nonneg: "0 \<le> x \<Longrightarrow> 0 \<le> round_bin p emin x"
proof -
  assume x: "0 \<le> x"
  have "0 \<le> round_half_even (x / 2 powr s)" for s
    using round_half_even_mono [of 0 "x / 2 powr s"] x round_half_even_int [of 0] by simp
  then show ?thesis by (simp add: round_bin_def Let_def)
qed

lemma to_f64_range: "0 \<le> x \<Longrightarrow> x \<le> of_nat n \<Longrightarrow> n < 2 ^ 53 \<Longrightarrow> 0 \<le> to_f64 x \<and> to_f64 x \<le> of_nat n"
  using round_bin_le_nat [of x n 53 "- 1074"] by (simp add: to_f64_def round_bin_nonneg)

lemma f64_as_u64_le: "0 \<le> r \<Longrightarrow> r \<le> of_nat n \<Longrightarrow> n < 2 ^ 53 \<Longrightarrow> unat (f64_as_u64 r) \<le> n"
proof -
  assume r: "0 \<le> r" "r \<le> of_nat n" "n < 2 ^ 53"
  have f: "\<lfloor>r\<rfloor> \<le> int n" "0 \<le> \<lfloor>r\<rfloor>" using r by (auto simp: floor_le_iff)
  have "int n < 2 ^ 64" using r(3) by simp
  with f(1) have "\<lfloor>r\<rfloor> < 2 ^ 64" by (rule le_less_trans)
  then have "unat (f64_as_u64 r) = nat \<lfloor>r\<rfloor>"
    using r(1) f by (simp add: f64_as_u64_def unat_eq_nat_uint uint_word_of_int)
  with f show ?thesis by simp
qed

lemma jitter_doubled:
  fixes base cap :: u64
  assumes "attempt < 63" "1 \<le> base" "base \<le> cap"
  shows "unat (min (sat_mul64 base (push_bit (unat (attempt :: u32)) 1)) cap) = min (unat base * 2 ^ unat attempt) (unat cap)"
proof -
  have a: "unat attempt < 63" using assms(1) by (simp add: word_less_nat_alt)
  have p: "unat (2 ^ unat attempt :: u64) = 2 ^ unat attempt"
  proof -
    have "(2 :: nat) ^ unat attempt < 2 ^ 64" using a by (intro power_strict_increasing) auto
    moreover have "2 ^ unat attempt = (word_of_nat (2 ^ unat attempt) :: u64)" by simp
    ultimately show ?thesis by (metis unat_u64_small)
  qed
  show ?thesis
  proof (cases "unat base * 2 ^ unat attempt < 2 ^ 64")
    case True
    then have "unat (base * push_bit (unat attempt) 1) = unat base * 2 ^ unat attempt"
      by (simp add: unat_word_ariths p)
    with True show ?thesis by (simp add: sat_mul64_def p min_def word_le_nat_alt)
  next
    case False
    have "cap \<le> - 1" by simp
    then have "min (- 1) cap = cap" by (simp add: min_absorb2)
    with False show ?thesis using unsigned_less [of cap, where 'a = nat] by (simp add: sat_mul64_def p min_def [where 'a = nat])
  qed
qed

text \<open>
  Reconnect delays: with a cap below \<open>2 ^ 53\<close> seconds the delay before every retry lies between half
  of and the full \<open>min (cap, base * 2 ^ attempt)\<close>, for every attempt number up to the largest and every
  random draw, although the computation goes through floating point.\<close>

theorem jitter_in_range:
  assumes "1 \<le> base_secs" "base_secs \<le> cap_secs" "unat cap_secs < 2 ^ 53"
    and "temp = min (unat cap_secs) (unat base_secs * 2 ^ unat attempt)"
  shows "temp div 2 \<le> unat (equal_jitter_secs attempt base_secs cap_secs rand_unit) \<and>
    unat (equal_jitter_secs attempt base_secs cap_secs rand_unit) \<le> temp"
proof -
  define doubled where "doubled = (if attempt \<ge> 63 then cap_secs else min (sat_mul64 base_secs (push_bit (unat attempt) 1)) cap_secs)"
  have mx: "max base_secs 1 = base_secs" "max cap_secs base_secs = cap_secs" using assms(1,2) by (simp_all add: max_def)
  have d: "unat doubled = temp"
  proof (cases "attempt \<ge> 63")
    case True
    have "unat cap_secs \<le> 2 ^ 63" using assms(3) by simp
    also have "(2 :: nat) ^ 63 \<le> 2 ^ unat attempt" using True by (intro power_increasing) (simp_all add: word_le_nat_alt)
    also have "\<dots> \<le> unat base_secs * 2 ^ unat attempt" using assms(1) by (simp add: word_le_nat_alt)
    finally show ?thesis using True by (simp add: doubled_def assms(4) min_def)
  next
    case False
    then show ?thesis using jitter_doubled [of attempt base_secs cap_secs] assms(1,2) by (simp add: doubled_def assms(4) min.commute)
  qed
  define half where "half = doubled div 2"
  have h: "unat half = temp div 2" by (simp add: half_def unat_div d)
  have hn: "unat half < 2 ^ 53" using h assms(3,4) by (simp add: min_def split: if_splits)
  define n where "n = unat half"
  define u where "u = clampf 0 1 rand_unit"
  define r where "r = to_f64 (to_f64 (of_nat n) * u)"
  have u: "0 \<le> u" "u \<le> 1" using clampf_bounds [of 0 1 rand_unit] by (simp_all add: u_def)
  have n53: "n < 2 ^ 53" using hn by (simp add: n_def)
  have a: "0 \<le> to_f64 (real n)" "to_f64 (real n) \<le> real n" using to_f64_range [of "real n" n] n53 by simp_all
  have "to_f64 (real n) * u \<le> real n * 1" using a u by (intro mult_mono) auto
  then have "0 \<le> r \<and> r \<le> real n" unfolding r_def using a u n53 by (intro to_f64_range) auto
  then have le: "unat (f64_as_u64 r) \<le> n" using n53 by (intro f64_as_u64_le) auto
  have eq: "equal_jitter_secs attempt base_secs cap_secs rand_unit = half + f64_as_u64 r"
    unfolding equal_jitter_secs_def Let_def mx doubled_def [symmetric] half_def [symmetric] n_def [symmetric] u_def [symmetric] r_def ..
  have "unat (half + f64_as_u64 r) = n + unat (f64_as_u64 r)"
    using le n53 by (simp add: unat_word_ariths n_def)
  then show ?thesis using eq le h n_def by simp
qed

theorem jitter_in_range_witness:
  "2 \<le> unat (equal_jitter_secs 1 2 16 (1 / 2)) \<and> unat (equal_jitter_secs 1 2 16 (1 / 2)) \<le> 4"
proof -
  have "(1 :: u64) \<le> 2" "(2 :: u64) \<le> 16" "unat (16 :: u64) < 2 ^ 53" "4 = min (unat (16 :: u64)) (unat (2 :: u64) * 2 ^ unat (1 :: u32))"
    by (simp_all add: word_le_nat_alt)
  from jitter_in_range [OF this, of "1 / 2"] show ?thesis by (simp del: unat_div)
qed

section \<open>Addresses\<close>

lemma upper_digit_value: "n < 16 \<Longrightarrow> hex_value (hex_upper_digit n) = Some n"
  by (cases "n < 10") (auto simp: hex_value_def hex_upper_digit_def Let_def)

lemma byte_digits: "unat (b :: byte) div 16 < 16" "unat b mod 16 < 16"
  using unsigned_less [of b, where 'a = nat] by simp_all

lemma filter_mac_byte: "filter (\<lambda>c. hex_value c \<noteq> None) (mac_byte b) = mac_byte b"
  by (simp add: mac_byte_def upper_digit_value byte_digits)

lemma filter_join_mac:
  "filter (\<lambda>c. hex_value c \<noteq> None) (join_with '':'' (map mac_byte mac)) = concat (map mac_byte mac)"
proof (induction mac)
  case (Cons b mac)
  have "hex_value CHR '':'' = None" by (simp add: hex_value_def)
  with Cons filter_mac_byte [of b] show ?case by (cases mac) (simp_all del: not_None_eq)
qed simp

lemma hex_pairs_mac: "hex_pairs (concat (map mac_byte mac)) = mac"
proof (induction mac)
  case (Cons b mac)
  have "word_of_nat (16 * (unat b div 16) + unat b mod 16) = b" by (simp only: mult_div_mod_eq of_nat_unat) simp
  with Cons show ?case by (simp add: mac_byte_def upper_digit_value byte_digits del: mult_div_mod_eq)
qed simp

text \<open>
  Addresses survive text: the text of a six-byte hardware address parses to the same address, and the
  packet built for it is 102 bytes: six of \<open>0xFF\<close> and sixteen copies.\<close>

theorem mac_roundtrip:
  assumes "length mac = 6"
  shows "parse_mac (format_mac mac) = Ok mac \<and> length (build_magic_packet mac) = 102 \<and>
    take 6 (build_magic_packet mac) = replicate 6 0xFF \<and> drop 96 (build_magic_packet mac) = mac"
proof -
  have f: "format_mac mac = join_with '':'' (map mac_byte mac)" by (simp add: format_mac_def)
  have len: "length (concat (map mac_byte mac)) = 12"
    using assms by (simp add: length_concat comp_def mac_byte_def sum_list_triv)
  have "parse_mac (format_mac mac) = Ok mac"
    unfolding parse_mac_def Let_def f filter_join_mac using len by (simp add: hex_pairs_mac)
  moreover have "concat (replicate 16 mac) = concat (replicate 15 mac) @ mac"
    by (simp add: numeral_eq_Suc replicate_append_same [symmetric])
  ultimately show ?thesis using assms
    by (simp add: build_magic_packet_def length_concat sum_list_replicate)
qed

theorem mac_roundtrip_witness: "parse_mac (format_mac [0xDE, 0xAD, 0, 1, 2, 255]) = Ok [0xDE, 0xAD, 0, 1, 2, 255]"
  using mac_roundtrip [of "[0xDE, 0xAD, 0, 1, 2, 255]"] by simp

end
