(* ===== verification/Viewer.thy ===== *)
theory Viewer
  imports Acl File_Transfer Backoff Token
begin

text \<open>
  The viewer (\<open>miru-client/src-tauri/src\<close>): trust in the host's key and the messages a session
  handles (\<open>session.rs\<close>), connecting, reconnecting, sending files and local recordings
  (\<open>state.rs\<close>), and what the commands of the user interface check (\<open>commands.rs\<close>).
\<close>

section \<open>Trust on first use\<close>

text \<open>
  The gate between the handshake and the session. \<open>answer\<close> is what the prompt yields: \<open>Some True\<close> the
  user accepted, \<open>Some False\<close> rejected or timed out, \<open>None\<close> the session was cancelled meanwhile. The
  third component tells whether the prompt was shown.
\<close>

datatype gate_error = KeyMismatch string | PairingCancelled | PairingRejected

definition viewer_gate ::
  "acl_codec \<Rightarrow> base64 \<Rightarrow> (bytes \<Rightarrow> bytes) \<Rightarrow> u64 \<Rightarrow> acl_io \<Rightarrow> bool option \<Rightarrow> host_acl \<Rightarrow> string \<Rightarrow> bytes
    \<Rightarrow> (gate_error + unit) \<times> host_acl \<times> bool" where
  "viewer_gate J B sha256 now io answer H device_id host_key =
     (let key = b64_encode B host_key in
      case acl_check (ha_acl H) device_id key of
        Trusted p \<Rightarrow>
          (let acl' = acl_touch (ha_acl H) device_id now
           in (Ok (), \<lparr>ha_acl = acl', ha_files = snd (acl_save J io acl' (ha_files H))\<rparr>, False))
      | PubkeyMismatch \<Rightarrow> (Err (KeyMismatch device_id), H, False)
      | Unknown \<Rightarrow>
          (case answer of
             None \<Rightarrow> (Err PairingCancelled, H, True)
           | Some False \<Rightarrow> (Err PairingRejected, H, True)
           | Some True \<Rightarrow>
               (let acl' = acl_trust (ha_acl H) \<lparr>tp_device_id = device_id, tp_pubkey_b64 = key,
                      tp_fingerprint = pubkey_fingerprint sha256 host_key, tp_permission = Control, tp_first_seen = now,
                      tp_last_seen = now, tp_friendly_name = None\<rparr>
                in (Ok (), \<lparr>ha_acl = acl', ha_files = snd (acl_save J io acl' (ha_files H))\<rparr>, True))))"

text \<open>Later connections, each with its clock, file system, answer, target and host key.\<close>

type_synonym gate_call = "u64 \<times> acl_io \<times> bool option \<times> string \<times> bytes"

definition gate_step :: "acl_codec \<Rightarrow> base64 \<Rightarrow> (bytes \<Rightarrow> bytes) \<Rightarrow> host_acl \<Rightarrow> gate_call \<Rightarrow> host_acl" where
  "gate_step J B sha256 H c =
     (case c of (now, io, answer, device_id, key) \<Rightarrow> fst (snd (viewer_gate J B sha256 now io answer H device_id key)))"

text \<open>\<open>revoke_peer\<close>: forgetting a device; the list is saved only when something was removed.\<close>

definition revoke_peer :: "acl_codec \<Rightarrow> acl_io \<Rightarrow> host_acl \<Rightarrow> string \<Rightarrow> bool \<times> host_acl" where
  "revoke_peer J io H device_id =
     (case acl_revoke (ha_acl H) device_id of
        (removed, acl') \<Rightarrow>
          (removed, \<lparr>ha_acl = acl', ha_files = (if removed then snd (acl_save J io acl' (ha_files H)) else ha_files H)\<rparr>))"

section \<open>Messages from the host\<close>

record session_stats =
  st_fps :: f32
  st_bitrate_kbps :: u32
  st_rtt_ms :: u32
  st_bytes_recv :: u64
  st_frames_decoded :: u64
  st_packet_loss_pct :: f32

text \<open>The loop's counters; \<open>vc_last_update\<close> in nanoseconds.\<close>

record viewer_counters =
  vc_frame_count :: u64
  vc_frames_since_update :: u64
  vc_last_update :: nat
  vc_bytes_since_update :: u64
  vc_last_seq :: "u64 option"
  vc_seq_gaps :: u64
  vc_seq_total :: u64

definition track_seq :: "viewer_counters \<Rightarrow> video_frame \<Rightarrow> viewer_counters" where
  "track_seq C vf =
     (let C1 = C\<lparr>vc_bytes_since_update := vc_bytes_since_update C + word_of_nat (length (vf_data vf))\<rparr>;
          C2 = (case vc_last_seq C1 of
                  None \<Rightarrow> C1
                | Some prev \<Rightarrow>
                    (let gap = sat_sub (vf_seq vf) (prev + 1)
                     in C1\<lparr>vc_seq_gaps := vc_seq_gaps C1 + gap, vc_seq_total := vc_seq_total C1 + gap + 1\<rparr>))
      in C2\<lparr>vc_last_seq := Some (vf_seq vf)\<rparr>)"

definition u64_f32 :: "u64 \<Rightarrow> f32" where
  "u64_f32 w = to_f32 (of_nat (unat w))"

text \<open>Counting a shown frame; once a second the totals become the published statistics.\<close>

definition count_frame :: "nat \<Rightarrow> viewer_counters \<Rightarrow> session_stats \<Rightarrow> viewer_counters \<times> session_stats" where
  "count_frame now C s =
     (let C1 = C\<lparr>vc_frame_count := vc_frame_count C + 1, vc_frames_since_update := vc_frames_since_update C + 1\<rparr>;
          elapsed = now - vc_last_update C1
      in if elapsed < 1000000000 then (C1, s)
         else
           (let secs = to_f32 (of_nat elapsed / 1000000000);
                s' = s\<lparr>st_frames_decoded := vc_frame_count C1, st_bytes_recv := st_bytes_recv s + vc_bytes_since_update C1,
                       st_fps := to_f32 (u64_f32 (vc_frames_since_update C1) / secs),
                       st_bitrate_kbps := f32_as_u32 (to_f32 (to_f32 (u64_f32 (vc_bytes_since_update C1 * 8) / secs) / 1000)),
                       st_packet_loss_pct :=
                         (if vc_seq_total C1 > 0
                          then to_f32 (to_f32 (u64_f32 (vc_seq_gaps C1) / u64_f32 (vc_seq_total C1)) * 100) else 0)\<rparr>
            in (C1\<lparr>vc_bytes_since_update := 0, vc_frames_since_update := 0, vc_seq_gaps := 0, vc_seq_total := 0,
                   vc_last_update := now\<rparr>, s')))"

definition MAX_DISPLAYS :: nat where
  "MAX_DISPLAYS = 16"

definition cap_display_list :: "display_info list \<Rightarrow> display_info list" where
  "cap_display_list ds =
     map (\<lambda>d. if chars_count (di_name d) > 64 then d\<lparr>di_name := take_chars 64 (di_name d)\<rparr> else d)
       (if length ds > MAX_DISPLAYS then take MAX_DISPLAYS ds else ds)"

definition VIEWER_CLIP_BYTES :: nat where
  "VIEWER_CLIP_BYTES = 1048576"

text \<open>The text handed to the interface for a clipboard message, if any.\<close>

definition clipboard_text :: "clipboard_sync \<Rightarrow> string option" where
  "clipboard_text cs =
     (if cs_format cs \<noteq> ClipText then None
      else if length (cs_data cs) > VIEWER_CLIP_BYTES then None
      else (let s = map (\<lambda>b. char_of (unat b)) (cs_data cs) in if utf8_valid s then Some s else None))"

definition pong_for :: "u64 \<Rightarrow> u64 \<Rightarrow> msg" where
  "pong_for now ts = MsgPong ts now"

section \<open>JPEG headers\<close>

text \<open>\<open>jpeg_dimensions\<close>; an access past the end would panic.\<close>

function jpeg_scan :: "bytes \<Rightarrow> nat \<Rightarrow> index_panic + (nat \<times> nat) option" where
  "jpeg_scan data i =
     (if i + 4 \<le> length data
      then (case (byte_at data i, byte_at data (i + 1), byte_at data (i + 2), byte_at data (i + 3)) of
              (Some ff, Some marker, Some l1, Some l0) \<Rightarrow>
                (let len = 256 * l1 + l0 in
                 if ff \<noteq> 0xFF then Ok None
                 else if len < 2 then Ok None
                 else if 0xC0 \<le> marker \<and> marker \<le> 0xC2 \<and> i + 9 \<le> length data
                 then (case (byte_at data (i + 5), byte_at data (i + 6), byte_at data (i + 7), byte_at data (i + 8)) of
                         (Some h1, Some h0, Some w1, Some w0) \<Rightarrow> Ok (Some (256 * w1 + w0, 256 * h1 + h0))
                       | _ \<Rightarrow> Err IndexPanic)
                 else jpeg_scan data (i + 2 + len))
            | _ \<Rightarrow> Err IndexPanic)
      else Ok None)"
  by pat_completeness auto
termination
  by (relation "measure (\<lambda>(data, i). length data - i)") auto

declare jpeg_scan.simps [simp del]

definition jpeg_dimensions :: "bytes \<Rightarrow> index_panic + (nat \<times> nat) option" where
  "jpeg_dimensions data = (if take 2 data = [0xFF, 0xD8] then jpeg_scan data 2 else Ok None)"

section \<open>Sending files\<close>

definition CHUNK_SIZE :: nat where
  "CHUNK_SIZE = 262144"

text \<open>\<open>slice::chunks\<close>.\<close>

function chunks :: "nat \<Rightarrow> bytes \<Rightarrow> bytes list" where
  "chunks n data = (if data = [] \<or> n = 0 then [] else take n data # chunks n (drop n data))"
  by pat_completeness auto
termination
  by (relation "measure (\<lambda>(n, data). length data)") auto

declare chunks.simps [simp del]

text \<open>\<open>send_file_transfer\<close>: the messages put into the session's queue.\<close>

definition file_messages :: "(bytes \<Rightarrow> bytes) \<Rightarrow> uuid \<Rightarrow> string \<Rightarrow> bytes \<Rightarrow> file_transfer list" where
  "file_messages sha256 i name data =
     FtStart i name (word_of_nat (length data)) (hex_encode (sha256 data)) #
     map (\<lambda>(k, chunk). FtChunk i (word_of_nat (k * CHUNK_SIZE)) chunk) (List.enumerate 0 (chunks CHUNK_SIZE data)) @
     [FtDone i]"

definition MAX_DATA_BYTES :: nat where
  "MAX_DATA_BYTES = 104857600"

definition MAX_B64_BYTES :: nat where
  "MAX_B64_BYTES = MAX_DATA_BYTES * 4 div 3 + 1024"

datatype send_file_error = FilenameRequired | FileTooLarge | FileBase64 | FilenameNotAscii

definition viewer_safe_name :: "string \<Rightarrow> string" where
  "viewer_safe_name name =
     concat (take 255 (filter (\<lambda>ch. length ch = 1 \<and> of_char (hd ch) < (0x80 :: nat) \<and> ch \<notin> {''/'', [CHR 0x5C], [CHR 0x00]}) (utf8_chars name)))"

definition send_file :: "(bytes \<Rightarrow> bytes) \<Rightarrow> base64 \<Rightarrow> uuid \<Rightarrow> string \<Rightarrow> string \<Rightarrow> send_file_error + file_transfer list" where
  "send_file sha256 B i name data_b64 =
     (if trim name = [] then Err FilenameRequired
      else if length data_b64 > MAX_B64_BYTES then Err FileTooLarge
      else
        (case b64_decode B data_b64 of
           None \<Rightarrow> Err FileBase64
         | Some data \<Rightarrow>
             if length data > MAX_DATA_BYTES then Err FileTooLarge
             else if trim (viewer_safe_name name) = [] then Err FilenameNotAscii
             else Ok (file_messages sha256 i (viewer_safe_name name) data)))"

section \<open>Reconnecting\<close>

definition MAX_RECONNECT_ATTEMPTS :: nat where
  "MAX_RECONNECT_ATTEMPTS = 3"

datatype run_outcome = RunOk | RunNoRetry | RunError

text \<open>
  The task of \<open>connect\<close>: it runs sessions until one ends well, must not be repeated, or too many failed.
  \<open>run k\<close> is the outcome of the \<open>k\<close>-th session, \<open>draw k\<close> its random draw; the result lists the delays
  slept between the sessions and the outcome of the last one.
\<close>

function reconnect :: "(nat \<Rightarrow> run_outcome) \<Rightarrow> (nat \<Rightarrow> f64) \<Rightarrow> nat \<Rightarrow> u64 list \<times> run_outcome" where
  "reconnect run draw attempt =
     (case run attempt of
        RunError \<Rightarrow>
          if attempt + 1 > MAX_RECONNECT_ATTEMPTS then ([], RunError)
          else (let delay = equal_jitter_secs (word_of_nat attempt) 2 16 (draw attempt);
                    (ds, r) = reconnect run draw (attempt + 1)
                in (delay # ds, r))
      | r \<Rightarrow> ([], r))"
  by pat_completeness auto
termination
  by (relation "measure (\<lambda>(run, draw, attempt). Suc MAX_RECONNECT_ATTEMPTS - attempt)") auto

declare reconnect.simps [simp del]

text \<open>
  The session slot shared by the interface and the session tasks. A session is its number; \<open>cl_slot\<close>
  is the session whose handle is stored, \<open>cl_running\<close> the tasks that run, \<open>cl_cancelled\<close> the sessions
  whose cancel signal fired: it was sent, or its sender was dropped with the handle.
\<close>

record client =
  cl_slot :: "nat option"
  cl_running :: "nat set"
  cl_cancelled :: "nat set"

definition store_handle :: "nat option \<Rightarrow> client \<Rightarrow> client" where
  "store_handle h c = c\<lparr>cl_slot := h, cl_cancelled := cl_cancelled c \<union> set_option (cl_slot c)\<rparr>"

definition client_disconnect :: "client \<Rightarrow> client" where
  "client_disconnect c = store_handle None c"

definition client_connect :: "nat \<Rightarrow> client \<Rightarrow> client" where
  "client_connect n c =
     (let c1 = store_handle (Some n) (client_disconnect c) in c1\<lparr>cl_running := insert n (cl_running c1)\<rparr>)"

text \<open>The end of a session's run: the slot is cleared; a task that retries stores a fresh handle later.\<close>

definition task_ended :: "nat \<Rightarrow> client \<Rightarrow> client" where
  "task_ended n c = (store_handle None c)\<lparr>cl_running := cl_running c - {n}\<rparr>"

definition task_retries :: "nat \<Rightarrow> client \<Rightarrow> client" where
  "task_retries n c = (store_handle (Some n) c)\<lparr>cl_running := insert n (cl_running c)\<rparr>"

section \<open>Local recordings\<close>

record recording_state =
  rg_frames :: bytes
  rg_offsets :: bytes
  rg_frame_count :: u64

definition start_recording :: recording_state where
  "start_recording = \<lparr>rg_frames = [], rg_offsets = [], rg_frame_count = 0\<rparr>"

text \<open>\<open>Some k\<close>: a write that fails after \<open>k\<close> bytes.\<close>

definition write_recording_frame :: "bool \<Rightarrow> nat option \<Rightarrow> nat option \<Rightarrow> recording_state \<Rightarrow> bytes \<Rightarrow> recording_state" where
  "write_recording_frame meta_ok io_frames io_offsets R jpeg =
     (let off = (if meta_ok then length (rg_frames R) else 0);
          entry = le_bytes 8 off @ le_bytes 4 (unat (word_of_nat (length jpeg) :: u32))
      in case io_frames of
           Some k \<Rightarrow> R\<lparr>rg_frames := rg_frames R @ take k jpeg\<rparr>
         | None \<Rightarrow>
             (let R1 = R\<lparr>rg_frames := rg_frames R @ jpeg\<rparr>
              in case io_offsets of
                   Some k \<Rightarrow> R1\<lparr>rg_offsets := rg_offsets R1 @ take k entry\<rparr>
                 | None \<Rightarrow> R1\<lparr>rg_offsets := rg_offsets R1 @ entry, rg_frame_count := rg_frame_count R1 + 1\<rparr>))"

definition MAX_FRAME_BYTES :: nat where
  "MAX_FRAME_BYTES = 33554432"

datatype frame_error = BadRecordingPath | FrameIndexOverflow | FrameIndexRead | FrameImplausible nat | FrameRead

text \<open>\<open>get_recording_frame\<close>, after the path check; \<open>read_exact\<close> fails when the file is too short.\<close>

definition recording_path_ok :: "path_sys \<Rightarrow> string \<Rightarrow> string \<Rightarrow> string option" where
  "recording_path_ok P recordings_dir path =
     (let dir = (case ps_canonicalize P recordings_dir of Some d \<Rightarrow> d | None \<Rightarrow> recordings_dir)
      in case ps_canonicalize P path of
           None \<Rightarrow> None
         | Some base \<Rightarrow> if path_starts_with base dir then Some base else None)"

definition get_recording_frame ::
  "path_sys \<Rightarrow> base64 \<Rightarrow> string \<Rightarrow> (string \<rightharpoonup> recording_state) \<Rightarrow> string \<Rightarrow> u64 \<Rightarrow> frame_error + string" where
  "get_recording_frame P B recordings_dir store path frame_idx =
     (case recording_path_ok P recordings_dir path of
        None \<Rightarrow> Err BadRecordingPath
      | Some base \<Rightarrow>
          if unat frame_idx * 12 \<ge> 2 ^ 64 then Err FrameIndexOverflow
          else
            (case store base of
               None \<Rightarrow> Err FrameIndexRead
             | Some R \<Rightarrow>
                 (let entry = take 12 (drop (unat frame_idx * 12) (rg_offsets R));
                      off = from_le (take 8 entry); sz = from_le (drop 8 entry)
                  in if length entry < 12 then Err FrameIndexRead
                     else if sz > MAX_FRAME_BYTES then Err (FrameImplausible sz)
                     else if length (rg_frames R) < off + sz then Err FrameRead
                     else Ok (b64_encode B (take sz (drop off (rg_frames R)))))))"

section \<open>Commands\<close>

fun parse_capability :: "string \<Rightarrow> capability option" where
  "parse_capability s =
     map_of [(''screen_read'', ScreenRead), (''pointer_move'', PointerMove), (''pointer_click'', PointerClick),
       (''key_type'', KeyType), (''key_combo'', KeyCombo), (''clipboard_read'', ClipboardRead),
       (''clipboard_write'', ClipboardWrite), (''file_read'', FileRead), (''file_write'', FileWrite),
       (''shell_exec'', ShellExec), (''open_url'', OpenUrl)] s"

datatype issue_error = LabelRequired | LabelTooLong | TtlRequired | TtlTooLong | NoCapability

text \<open>\<open>issue_agent_token\<close>; a set of capabilities is a list without repetitions.\<close>

definition issue_agent_token ::
  "token_ext \<Rightarrow> bytes \<Rightarrow> u64 \<Rightarrow> u128 \<Rightarrow> string \<Rightarrow> u64 \<Rightarrow> string list \<Rightarrow> issue_error + (string \<times> u64)" where
  "issue_agent_token X signing_key now uuid raw_label ttl_mins capabilities =
     (let label = trim raw_label in
      if label = [] then Err LabelRequired
      else if chars_count label > 64 then Err LabelTooLong
      else if ttl_mins = 0 then Err TtlRequired
      else if ttl_mins > 15 then Err TtlTooLong
      else
        (let cs = remdups (List.map_filter parse_capability capabilities) in
         if cs = [] then Err NoCapability
         else (let t = issue X signing_key label cs (ttl_mins * 60) None now uuid
               in Ok (token_to_string X t, tok_exp (payload t)))))"

fun parse_button :: "string option \<Rightarrow> mouse_button" where
  "parse_button (Some s) =
     (if s = ''right'' then RightButton else if s = ''middle'' then MiddleButton
      else if s = ''x1'' then X1Button else if s = ''x2'' then X2Button else LeftButton)"
| "parse_button None = LeftButton"

section \<open>Pinned hosts\<close>

lemma viewer_gate_pin:
  assumes "pinned_key H d = Some k"
  shows "pinned_key (fst (snd (viewer_gate J B sha now io answer H d' key))) d = Some k"
  using assms
  by (auto simp: viewer_gate_def pinned_key_def acl_check_def acl_touch_def acl_trust_def Let_def
      split: option.splits trust_decision.splits bool.splits if_splits)

interpretation vgp: pin_store "gate_step J B sha" pinned_key for J B sha
  by unfold_locales (auto simp: gate_step_def viewer_gate_pin split: prod.splits)

lemma viewer_gate_admits:
  assumes "viewer_gate J B sha now io answer H d key = (Ok (), H', prompted)"
  shows "pinned_key H' d = Some (b64_encode B key)"
  using assms
  by (auto simp: viewer_gate_def pinned_key_def acl_check_def acl_touch_def acl_trust_def Let_def
      split: option.splits trust_decision.splits bool.splits if_splits)

lemma viewer_gate_pinned:
  assumes "pinned_key H d = Some k"
  shows "viewer_gate J B sha now io answer H d key = (if b64_encode B key = k then viewer_gate J B sha now io answer H d key
    else (Err (KeyMismatch d), H, False))"
  using assms by (auto simp: viewer_gate_def pinned_key_def acl_check_def Let_def)

text \<open>
  C25. A host's key is pinned: once the viewer has admitted a host under some name, whatever connections,
  answers and file errors follow, a host with another key is refused under that name, without a prompt
  that could be accepted by mistake and without touching the list.\<close>

theorem viewer_key_pinned:
  assumes "base64_correct B" "viewer_gate J B sha now io answer H d key = (Ok (), H1, prompted)"
    and "H2 = foldl (gate_step J B sha) H1 calls" "key' \<noteq> key"
  shows "viewer_gate J B sha now' io' answer' H2 d key' = (Err (KeyMismatch d), H2, False)"
proof -
  have "pinned_key H2 d = Some (b64_encode B key)"
    unfolding assms(3) by (rule vgp.pin_run) (rule viewer_gate_admits [OF assms(2)])
  moreover have "b64_encode B key' \<noteq> b64_encode B key"
    using assms(1,4) unfolding base64_correct_def by (metis option.inject)
  ultimately show ?thesis using viewer_gate_pinned by metis
qed

theorem viewer_key_pinned_witness:
  "viewer_gate wit_acl_codec demo_base64 (\<lambda>b. b) 9 AclDone (Some True)
     (fst (snd (viewer_gate wit_acl_codec demo_base64 (\<lambda>b. b) 5 AclDone (Some True) \<lparr>ha_acl = Map.empty, ha_files = \<lparr>af_main = None, af_tmp = None, af_bak = None\<rparr>\<rparr> ''D'' [1])))
     ''D'' [2] =
   (Err (KeyMismatch ''D''),
    fst (snd (viewer_gate wit_acl_codec demo_base64 (\<lambda>b. b) 5 AclDone (Some True) \<lparr>ha_acl = Map.empty, ha_files = \<lparr>af_main = None, af_tmp = None, af_bak = None\<rparr>\<rparr> ''D'' [1])), False)"
proof -
  let ?H = "\<lparr>ha_acl = Map.empty, ha_files = \<lparr>af_main = None, af_tmp = None, af_bak = None\<rparr>\<rparr>"
  obtain H1 where h: "viewer_gate wit_acl_codec demo_base64 (\<lambda>b. b) 5 AclDone (Some True) ?H ''D'' [1] = (Ok (), H1, True)"
    by (simp add: viewer_gate_def acl_check_def Let_def)
  have "viewer_gate wit_acl_codec demo_base64 (\<lambda>b. b) 9 AclDone (Some True) H1 ''D'' [2] = (Err (KeyMismatch ''D''), H1, False)"
    by (rule viewer_key_pinned [OF demo_base64_correct h, of _ "[]"]) simp_all
  with h show ?thesis by simp
qed

section \<open>Reconnecting\<close>

lemma reconnect_last:
  "run attempt \<noteq> RunError \<or> attempt \<ge> MAX_RECONNECT_ATTEMPTS \<Longrightarrow> reconnect run draw attempt = ([], run attempt)"
  by (subst reconnect.simps) (auto split: run_outcome.split)

lemma reconnect_again:
  "run attempt = RunError \<Longrightarrow> attempt < MAX_RECONNECT_ATTEMPTS \<Longrightarrow> reconnect run draw attempt =
     (equal_jitter_secs (word_of_nat attempt) 2 16 (draw attempt) # fst (reconnect run draw (Suc attempt)),
      snd (reconnect run draw (Suc attempt)))"
  by (subst reconnect.simps) (simp add: case_prod_beta)

lemma reconnect_spec:
  "attempt \<le> MAX_RECONNECT_ATTEMPTS \<Longrightarrow>
   \<exists>n. attempt + length (fst (reconnect run draw attempt)) = n \<and> n \<le> MAX_RECONNECT_ATTEMPTS \<and>
     snd (reconnect run draw attempt) = run n \<and> (\<forall>k. attempt \<le> k \<and> k < n \<longrightarrow> run k = RunError) \<and>
     (run n = RunError \<longrightarrow> n = MAX_RECONNECT_ATTEMPTS)"
proof (induction "MAX_RECONNECT_ATTEMPTS - attempt" arbitrary: attempt)
  case 0
  then show ?case by (auto simp: reconnect_last)
next
  case (Suc m)
  show ?case
  proof (cases "run attempt = RunError")
    case True
    have le: "attempt < MAX_RECONNECT_ATTEMPTS" "m = MAX_RECONNECT_ATTEMPTS - Suc attempt" using Suc.hyps(2) by simp_all
    from Suc.hyps(1) [OF le(2)] le(1) obtain n where n: "Suc attempt + length (fst (reconnect run draw (Suc attempt))) = n"
      "n \<le> MAX_RECONNECT_ATTEMPTS" "snd (reconnect run draw (Suc attempt)) = run n"
      "\<forall>k. Suc attempt \<le> k \<and> k < n \<longrightarrow> run k = RunError" "run n = RunError \<longrightarrow> n = MAX_RECONNECT_ATTEMPTS" by auto
    have "run k = RunError" if "attempt \<le> k" "k < n" for k
      using that True n(4) by (cases "k = attempt") auto
    with n show ?thesis by (simp add: reconnect_again [of run attempt, OF True le(1)])
  qed (use Suc.prems in \<open>auto simp: reconnect_last\<close>)
qed

text \<open>
  C26. Reconnecting ends: at most four sessions are run for one connect request; the task stops at the first
  one that ends well or must not be repeated (a changed key, a rejected pairing), and its outcome is that
  session's outcome.\<close>

theorem reconnect_ends:
  "\<exists>n \<le> 3. length (fst (reconnect run draw 0)) = n \<and> snd (reconnect run draw 0) = run n \<and>
     (\<forall>k < n. run k = RunError) \<and> (run n = RunError \<longrightarrow> n = 3)"
  using reconnect_spec [of 0 run draw] by (auto simp: MAX_RECONNECT_ATTEMPTS_def)

theorem reconnect_ends_witness:
  "length (fst (reconnect (\<lambda>k. if k = 1 then RunNoRetry else RunError) (\<lambda>_. 0) 0)) = 1 \<and>
   snd (reconnect (\<lambda>k. if k = 1 then RunNoRetry else RunError) (\<lambda>_. 0) 0) = RunNoRetry"
proof -
  let ?run = "\<lambda>k. if k = 1 then RunNoRetry else RunError"
  obtain n where n: "length (fst (reconnect ?run (\<lambda>_. 0) 0)) = n" "snd (reconnect ?run (\<lambda>_. 0) 0) = ?run n"
    "\<forall>k < n. ?run k = RunError" "?run n = RunError \<longrightarrow> n = 3"
    using reconnect_ends [of ?run "\<lambda>_. 0"] by auto
  from n(3) have "\<not> 1 < n" by (metis run_outcome.distinct(5))
  with n(4) have "n = 1" by (auto split: if_splits)
  with n(1,2) show ?thesis by simp
qed

text \<open>
  Connecting while connected cancels the new session: the task of the replaced session clears the
  slot when it ends, which drops the new session's handle and with it the sender of its cancel signal.\<close>

theorem replaced_session_cancels_new:
  assumes "cl_slot c = Some old" "new \<noteq> old" "new \<notin> cl_cancelled c"
  shows "cl_slot (client_connect new c) = Some new \<and> new \<notin> cl_cancelled (client_connect new c) \<and>
    old \<in> cl_cancelled (client_connect new c) \<and>
    new \<in> cl_cancelled (task_ended old (client_connect new c)) \<and> cl_slot (task_ended old (client_connect new c)) = None"
  using assms by (auto simp: client_connect_def client_disconnect_def store_handle_def task_ended_def Let_def)

theorem replaced_session_cancels_new_witness:
  "2 \<in> cl_cancelled (task_ended 1 (client_connect 2 \<lparr>cl_slot = Some 1, cl_running = {1}, cl_cancelled = {}\<rparr>))"
  using replaced_session_cancels_new [of "\<lparr>cl_slot = Some 1, cl_running = {1}, cl_cancelled = {}\<rparr>" 1 2] by simp

section \<open>Local recordings are read back\<close>

text \<open>
  Frames offered to a recording, each with the outcome of writing its data; the index is written
  without error. The frames whose data was written are the recorded ones.
\<close>

definition record_all :: "recording_state \<Rightarrow> (nat option \<times> bytes) list \<Rightarrow> recording_state" where
  "record_all = foldl (\<lambda>R (io, jpeg). write_recording_frame True io None R jpeg)"

definition recorded_frames :: "(nat option \<times> bytes) list \<Rightarrow> bytes list" where
  "recorded_frames fs = map snd (filter (\<lambda>f. fst f = None) fs)"

definition index_entry :: "nat \<Rightarrow> bytes \<Rightarrow> bytes" where
  "index_entry off jpeg = le_bytes 8 off @ le_bytes 4 (unat (word_of_nat (length jpeg) :: u32))"

definition recording_inv :: "bytes list \<Rightarrow> recording_state \<Rightarrow> bool" where
  "recording_inv js R \<longleftrightarrow>
     (\<exists>offs. length offs = length js \<and> rg_offsets R = concat (map2 index_entry offs js) \<and>
       (\<forall>i < length js. offs ! i + length (js ! i) \<le> length (rg_frames R) \<and>
          take (length (js ! i)) (drop (offs ! i) (rg_frames R)) = js ! i))"

lemma recording_inv_write:
  assumes "recording_inv js R"
  shows "recording_inv (js @ recorded_frames [(io, jpeg)]) (write_recording_frame True io None R jpeg)"
proof -
  obtain offs where o: "length offs = length js" "rg_offsets R = concat (map2 index_entry offs js)"
    "\<forall>i < length js. offs ! i + length (js ! i) \<le> length (rg_frames R) \<and>
       take (length (js ! i)) (drop (offs ! i) (rg_frames R)) = js ! i"
    using assms by (auto simp: recording_inv_def)
  show ?thesis
  proof (cases io)
    case (Some k)
    have "\<forall>i < length js. offs ! i + length (js ! i) \<le> length (rg_frames R @ take k jpeg) \<and>
        take (length (js ! i)) (drop (offs ! i) (rg_frames R @ take k jpeg)) = js ! i"
      using o(3) by auto
    with Some o(1,2) show ?thesis unfolding recording_inv_def
      by (intro exI [of _ offs]) (simp add: write_recording_frame_def recorded_frames_def Let_def)
  next
    case None
    have idx: "(offs @ [length (rg_frames R)]) ! i + length ((js @ [jpeg]) ! i) \<le> length (rg_frames R @ jpeg) \<and>
        take (length ((js @ [jpeg]) ! i)) (drop ((offs @ [length (rg_frames R)]) ! i) (rg_frames R @ jpeg)) = (js @ [jpeg]) ! i"
      if "i < Suc (length js)" for i
    proof (cases "i = length js")
      case False
      then have "i < length js" using that by simp
      with o(3) have "offs ! i + length (js ! i) \<le> length (rg_frames R)"
        "take (length (js ! i)) (drop (offs ! i) (rg_frames R)) = js ! i" by auto
      with \<open>i < length js\<close> o(1) show ?thesis by (simp add: nth_append)
    qed (use o(1) in \<open>simp add: nth_append\<close>)
    have ent: "rg_offsets (write_recording_frame True io None R jpeg) =
        concat (map2 index_entry (offs @ [length (rg_frames R)]) (js @ [jpeg]))"
      using None o by (simp add: write_recording_frame_def Let_def index_entry_def)
    show ?thesis unfolding recording_inv_def
    proof (intro exI [of _ "offs @ [length (rg_frames R)]"] conjI)
      show "rg_offsets (write_recording_frame True io None R jpeg) =
          concat (map2 index_entry (offs @ [length (rg_frames R)]) (js @ recorded_frames [(io, jpeg)]))"
        using ent None by (simp add: recorded_frames_def)
    qed (use None o(1) idx in \<open>auto simp: recorded_frames_def write_recording_frame_def Let_def less_Suc_eq\<close>)
  qed
qed

lemma recording_inv_all: "recording_inv (recorded_frames fs) (record_all start_recording fs)"
proof (induction fs rule: rev_induct)
  case Nil
  show ?case by (simp add: recording_inv_def record_all_def recorded_frames_def start_recording_def)
next
  case (snoc a fs)
  then show ?case using recording_inv_write [of "recorded_frames fs" "record_all start_recording fs" "fst a" "snd a"]
    by (cases a) (simp add: record_all_def recorded_frames_def)
qed

lemma index_entry_length [simp]: "length (index_entry off jpeg) = 12"
  by (simp add: index_entry_def)

lemma drop_concat_index:
  "length offs = length js \<Longrightarrow> i < length js \<Longrightarrow>
   take 12 (drop (i * 12) (concat (map2 index_entry offs js))) = index_entry (offs ! i) (js ! i)"
proof (induction i arbitrary: offs js)
  case 0
  then show ?case by (cases offs; cases js) auto
next
  case (Suc i)
  then show ?case by (cases offs; cases js) auto
qed

text \<open>
  Local recordings are read back: whatever writes of frame data fail in between, the frame with index
  \<open>i\<close> that the viewer reads from its recording is the \<open>i\<close>-th recorded frame.\<close>

theorem viewer_recording_roundtrip:
  assumes "recording_path_ok P dir path = Some base" "store base = Some (record_all start_recording fs)"
    and "i < length (recorded_frames fs)" "i * 12 < 2 ^ 64"
    and "length (rg_frames (record_all start_recording fs)) < 2 ^ 64" "length (recorded_frames fs ! i) \<le> MAX_FRAME_BYTES"
  shows "get_recording_frame P B dir store path (word_of_nat i) = Ok (b64_encode B (recorded_frames fs ! i))"
proof -
  let ?R = "record_all start_recording fs"
  let ?j = "recorded_frames fs ! i"
  obtain offs where o: "length offs = length (recorded_frames fs)"
    "rg_offsets ?R = concat (map2 index_entry offs (recorded_frames fs))"
    "offs ! i + length ?j \<le> length (rg_frames ?R)" "take (length ?j) (drop (offs ! i) (rg_frames ?R)) = ?j"
    using recording_inv_all [of fs] assms(3) by (auto simp: recording_inv_def)
  have e: "take 12 (drop (i * 12) (rg_offsets ?R)) = index_entry (offs ! i) ?j"
    unfolding o(2) using o(1) assms(3) by (rule drop_concat_index)
  have i: "unat (word_of_nat i :: u64) = i" using assms(4) by (intro unat_u64_small) simp
  have sz: "unat (word_of_nat (length ?j) :: u32) = length ?j" "length ?j < 256 ^ 4"
    using assms(6) by (simp_all add: MAX_FRAME_BYTES_def unat_of_nat)
  have "from_le (take 8 (index_entry (offs ! i) ?j)) = offs ! i" "from_le (drop 8 (index_entry (offs ! i) ?j)) = length ?j"
    using o(3) assms(5) sz by (simp_all add: index_entry_def from_le_bytes)
  with e i o(3,4) assms(1,2,4,6) show ?thesis
    by (simp add: get_recording_frame_def Let_def)
qed

theorem viewer_recording_roundtrip_witness:
  "get_recording_frame wit_ft_sys demo_base64 ''/d'' [''/d'' \<mapsto> record_all start_recording [(None, [1, 2]), (Some 1, [9, 9]), (None, [3])]] ''/d'' 1 =
   Ok (b64_encode demo_base64 [3])"
proof -
  have "get_recording_frame wit_ft_sys demo_base64 ''/d'' [''/d'' \<mapsto> record_all start_recording [(None, [1, 2]), (Some 1, [9, 9]), (None, [3])]] ''/d'' (word_of_nat 1) =
     Ok (b64_encode demo_base64 (recorded_frames [(None, [1, 2]), (Some 1, [9, 9]), (None, [3])] ! 1))"
    by (rule viewer_recording_roundtrip [where base = "''/d''"])
       (simp_all add: recorded_frames_def record_all_def start_recording_def write_recording_frame_def Let_def MAX_FRAME_BYTES_def
          recording_path_ok_def wit_ft_sys_def path_starts_with_def)
  then show ?thesis by (simp add: recorded_frames_def)
qed

section \<open>JPEG headers are read safely\<close>

lemma jpeg_scan_safe: "\<exists>r. jpeg_scan data i = Ok r \<and> (\<forall>w h. r = Some (w, h) \<longrightarrow> w < 65536 \<and> h < 65536)"
proof (induction data i rule: jpeg_scan.induct)
  case (1 data i)
  show ?case
  proof (cases "i + 4 \<le> length data")
    case True
    obtain a m l1 l0 where b: "byte_at data i = Some a" "byte_at data (i + 1) = Some m" "byte_at data (i + 2) = Some l1" "byte_at data (i + 3) = Some l0"
      using True by (simp add: byte_at_Some)
    consider (stop) "a \<noteq> 0xFF \<or> 256 * l1 + l0 < 2"
      | (sof) "a = 0xFF" "\<not> 256 * l1 + l0 < 2" "0xC0 \<le> m \<and> m \<le> 0xC2 \<and> i + 9 \<le> length data"
      | (next_seg) "a = 0xFF" "\<not> 256 * l1 + l0 < 2" "\<not> (0xC0 \<le> m \<and> m \<le> 0xC2 \<and> i + 9 \<le> length data)"
      by blast
    then show ?thesis
    proof cases
      case stop
      then show ?thesis using True b by (subst jpeg_scan.simps) (auto simp: Let_def)
    next
      case sof
      obtain h1 h0 w1 w0 where d: "byte_at data (i + 5) = Some h1" "byte_at data (i + 6) = Some h0" "byte_at data (i + 7) = Some w1" "byte_at data (i + 8) = Some w0"
        using sof(3) by (simp add: byte_at_Some)
      have "jpeg_scan data i = Ok (Some (256 * w1 + w0, 256 * h1 + h0))"
        using sof True b d by (subst jpeg_scan.simps) (simp add: Let_def)
      with d [THEN byte_at_bound] show ?thesis by simp
    next
      case next_seg
      have "jpeg_scan data i = jpeg_scan data (i + 2 + (256 * l1 + l0))"
        using next_seg True b by (subst jpeg_scan.simps) (auto simp: Let_def)
      with 1 True b next_seg show ?thesis by auto
    qed
  next
    case False
    then show ?thesis by (subst jpeg_scan.simps) simp
  qed
qed

text \<open>
  Frame headers from the host are read safely: for every byte string the search for the image size
  ends, reads no byte outside the data, and yields sizes below 65536 if it yields any.\<close>

theorem jpeg_dimensions_safe:
  "\<exists>r. jpeg_dimensions data = Ok r \<and> (\<forall>w h. r = Some (w, h) \<longrightarrow> w < 65536 \<and> h < 65536)"
  using jpeg_scan_safe [of data 2] by (auto simp: jpeg_dimensions_def)

theorem jpeg_dimensions_safe_witness:
  "\<exists>r. jpeg_dimensions [0xFF, 0xD8, 0xFF, 0xC0, 0, 17, 8, 4, 56, 7, 128] = Ok r"
  using jpeg_dimensions_safe [of "[0xFF, 0xD8, 0xFF, 0xC0, 0, 17, 8, 4, 56, 7, 128]"] by blast

lemma jpeg_dimensions_example: "jpeg_dimensions [0xFF, 0xD8, 0xFF, 0xC0, 0, 17, 8, 4, 56, 7, 128] = Ok (Some (1920, 1080))"
  by (simp add: jpeg_dimensions_def jpeg_scan.simps [of _ 2] byte_at_def)

section \<open>Files are sent completely\<close>

lemma concat_chunks: "0 < n \<Longrightarrow> concat (chunks n data) = data"
  by (induction n data rule: chunks.induct) (subst chunks.simps, auto)

lemma chunk_msgs_enumerate:
  "0 < n \<Longrightarrow> chunk_msgs i (k * n) (chunks n data) =
     map (\<lambda>(j, c). FtChunk i (word_of_nat (j * n)) c) (List.enumerate k (chunks n data))"
proof (induction n data arbitrary: k rule: chunks.induct)
  case (1 n data)
  show ?case
  proof (cases "data = []")
    case True
    then show ?thesis by (simp add: chunks.simps)
  next
    case False
    have c: "chunks n data = take n data # chunks n (drop n data)" using False 1(2) by (subst chunks.simps) simp
    show ?thesis
    proof (cases "length data \<le> n")
      case True
      then show ?thesis by (simp add: c chunks.simps [of n "[]"])
    next
      case False
      have "n + k * n = Suc k * n" by simp
      then show ?thesis using 1(1) [of "Suc k"] 1(2) \<open>data \<noteq> []\<close> False by (simp add: c min_def add.commute)
    qed
  qed
qed

lemma file_messages_chunks:
  "file_messages sha256 i name data =
   FtStart i name (word_of_nat (length data)) (hex_encode (sha256 data)) # chunk_msgs i 0 (chunks CHUNK_SIZE data) @ [FtDone i]"
  using chunk_msgs_enumerate [of CHUNK_SIZE i 0 data] by (simp add: file_messages_def CHUNK_SIZE_def)

end
