(* ===== verification/Transport.thy ===== *)
theory Transport
  imports Handshake
begin

text \<open>
  The message channels of a session: the relay transport (\<open>miru-transport/src/relay.rs\<close>), the generic
  connection (\<open>connection.rs\<close>) and the framed QUIC streams (\<open>quic.rs\<close>). Each encodes a message as
  MessagePack, encrypts it once the session ciphers are installed, and frames it with a 32-bit length.

  MessagePack is a parameter. A queue or socket below a channel is a list of frames or of bytes; it may
  be closed.
\<close>

section \<open>Definitions\<close>

record msg_codec =
  mc_to_vec :: "msg \<Rightarrow> bytes option"
  mc_from_slice :: "bytes \<Rightarrow> msg option"

definition msg_codec_ok :: "msg_codec \<Rightarrow> bool" where
  "msg_codec_ok M \<longleftrightarrow> (\<forall>m bs. mc_to_vec M m = Some bs \<longrightarrow> mc_from_slice M bs = Some m)"

datatype transport_error =
    EncodeError | OutgoingTooLarge nat | CipherFailed cipher_error | ChannelClosed | OversizedFrame nat
  | DecodeError | InvalidFrameLength nat | StreamRead

definition MAX_PLAINTEXT_BYTES :: nat where
  "MAX_PLAINTEXT_BYTES = 4 * 1024 * 1024 - 24"

definition RECV_FRAME_BYTES :: nat where
  "RECV_FRAME_BYTES = 4 * 1024 * 1024 + 4"

text \<open>The length is cast to 32 bits.\<close>

definition length_framed :: "bytes \<Rightarrow> bytes" where
  "length_framed payload = le_bytes 4 (unat (word_of_nat (length payload) :: u32)) @ payload"

record relay_transport =
  rt_tx_cipher :: "session_cipher option"
  rt_rx_cipher :: "session_cipher option"

definition relay_new :: relay_transport where
  "relay_new = \<lparr>rt_tx_cipher = None, rt_rx_cipher = None\<rparr>"

definition install_ciphers :: "session_cipher \<Rightarrow> session_cipher \<Rightarrow> relay_transport \<Rightarrow> relay_transport" where
  "install_ciphers tx rx T = T\<lparr>rt_tx_cipher := Some tx, rt_rx_cipher := Some rx\<rparr>"

text \<open>An optional cipher on the way out and on the way in.\<close>

definition seal_opt :: "aead \<Rightarrow> session_cipher option \<Rightarrow> bytes \<Rightarrow> (transport_error + bytes) \<times> session_cipher option" where
  "seal_opt A c data =
     (case c of
        None \<Rightarrow> (Ok data, None)
      | Some C \<Rightarrow>
          (case cipher_encrypt A C data of
             (Inl e, C') \<Rightarrow> (Err (CipherFailed e), Some C')
           | (Inr ct, C') \<Rightarrow> (Ok ct, Some C')))"

definition open_opt :: "aead \<Rightarrow> session_cipher option \<Rightarrow> bytes \<Rightarrow> (transport_error + bytes) \<times> session_cipher option" where
  "open_opt A c payload =
     (case c of
        None \<Rightarrow> (Ok payload, None)
      | Some C \<Rightarrow>
          (case cipher_decrypt A C payload of
             (Inl e, C') \<Rightarrow> (Err (CipherFailed e), Some C')
           | (Inr pt, C') \<Rightarrow> (Ok pt, Some C')))"

text \<open>\<open>RelayTransport::send_raw\<close>; the result is the frame put into the queue, \<open>up\<close> tells whether it is open.\<close>

definition relay_send_raw :: "aead \<Rightarrow> bool \<Rightarrow> relay_transport \<Rightarrow> bytes \<Rightarrow> (transport_error + bytes) \<times> relay_transport" where
  "relay_send_raw A up T data =
     (if length data > MAX_PLAINTEXT_BYTES then (Err (OutgoingTooLarge (length data)), T)
      else
        (case seal_opt A (rt_tx_cipher T) data of
           (Inl e, c) \<Rightarrow> (Err e, T\<lparr>rt_tx_cipher := c\<rparr>)
         | (Inr payload, c) \<Rightarrow>
             (if up then Ok (length_framed payload) else Err ChannelClosed, T\<lparr>rt_tx_cipher := c\<rparr>)))"

definition relay_send_msg :: "msg_codec \<Rightarrow> aead \<Rightarrow> bool \<Rightarrow> relay_transport \<Rightarrow> msg \<Rightarrow> (transport_error + bytes) \<times> relay_transport" where
  "relay_send_msg M A up T m =
     (case mc_to_vec M m of
        None \<Rightarrow> (Err EncodeError, T)
      | Some encoded \<Rightarrow>
          if length encoded > MAX_PLAINTEXT_BYTES then (Err (OutgoingTooLarge (length encoded)), T)
          else
            (case seal_opt A (rt_tx_cipher T) encoded of
               (Inl e, c) \<Rightarrow> (Err e, T\<lparr>rt_tx_cipher := c\<rparr>)
             | (Inr payload, c) \<Rightarrow>
                 (if up then Ok (length_framed payload) else Err ChannelClosed, T\<lparr>rt_tx_cipher := c\<rparr>)))"

text \<open>The next frame of the queue; \<open>None\<close> when the queue was closed. The length field is not read.\<close>

definition relay_recv_msg :: "msg_codec \<Rightarrow> aead \<Rightarrow> relay_transport \<Rightarrow> bytes option \<Rightarrow> (transport_error + msg option) \<times> relay_transport" where
  "relay_recv_msg M A T input =
     (case input of
        None \<Rightarrow> (Ok None, T)
      | Some fr \<Rightarrow>
          if length fr < 4 then (Ok None, T)
          else if length fr > RECV_FRAME_BYTES then (Err (OversizedFrame (length fr)), T)
          else
            (case open_opt A (rt_rx_cipher T) (drop 4 fr) of
               (Inl e, c) \<Rightarrow> (Err e, T\<lparr>rt_rx_cipher := c\<rparr>)
             | (Inr plain, c) \<Rightarrow>
                 (case mc_from_slice M plain of
                    None \<Rightarrow> (Err DecodeError, T\<lparr>rt_rx_cipher := c\<rparr>)
                  | Some m \<Rightarrow> (Ok (Some m), T\<lparr>rt_rx_cipher := c\<rparr>))))"

text \<open>\<open>Connection\<close>: always encrypted, and without a limit on what is sent.\<close>

record connection =
  cn_tx_cipher :: session_cipher
  cn_rx_cipher :: session_cipher

definition connection_send :: "msg_codec \<Rightarrow> aead \<Rightarrow> bool \<Rightarrow> connection \<Rightarrow> msg \<Rightarrow> (transport_error + bytes) \<times> connection" where
  "connection_send M A up N m =
     (case mc_to_vec M m of
        None \<Rightarrow> (Err EncodeError, N)
      | Some encoded \<Rightarrow>
          (case cipher_encrypt A (cn_tx_cipher N) encoded of
             (Inl e, C) \<Rightarrow> (Err (CipherFailed e), N\<lparr>cn_tx_cipher := C\<rparr>)
           | (Inr ct, C) \<Rightarrow> (if up then Ok (length_framed ct) else Err ChannelClosed, N\<lparr>cn_tx_cipher := C\<rparr>)))"

definition connection_recv :: "msg_codec \<Rightarrow> aead \<Rightarrow> connection \<Rightarrow> bytes option \<Rightarrow> (transport_error + msg option) \<times> connection" where
  "connection_recv M A N input =
     (case input of
        None \<Rightarrow> (Ok None, N)
      | Some fr \<Rightarrow>
          if length fr < 4 then (Ok None, N)
          else if length fr > RECV_FRAME_BYTES then (Err (OversizedFrame (length fr)), N)
          else
            (case cipher_decrypt A (cn_rx_cipher N) (drop 4 fr) of
               (Inl e, C) \<Rightarrow> (Err (CipherFailed e), N\<lparr>cn_rx_cipher := C\<rparr>)
             | (Inr plain, C) \<Rightarrow>
                 (case mc_from_slice M plain of
                    None \<Rightarrow> (Err DecodeError, N\<lparr>cn_rx_cipher := C\<rparr>)
                  | Some m \<Rightarrow> (Ok (Some m), N\<lparr>cn_rx_cipher := C\<rparr>))))"

text \<open>
  A QUIC send stream appends to the bytes in flight. \<open>ok_len\<close> and \<open>ok_body\<close> tell whether the two writes
  succeed; a failed write leaves nothing of its argument on the stream here.
\<close>

definition quic_send_raw :: "aead \<Rightarrow> bool \<Rightarrow> bool \<Rightarrow> session_cipher \<Rightarrow> bytes \<Rightarrow> (transport_error + unit) \<times> bytes \<times> session_cipher" where
  "quic_send_raw A ok_len ok_body C data =
     (if length data > MAX_PLAINTEXT_BYTES then (Err (OutgoingTooLarge (length data)), [], C)
      else
        (case cipher_encrypt A C data of
           (Inl e, C') \<Rightarrow> (Err (CipherFailed e), [], C')
         | (Inr ct, C') \<Rightarrow>
             (let hdr = le_bytes 4 (unat (word_of_nat (length ct) :: u32)) in
              if \<not> ok_len then (Err ChannelClosed, [], C')
              else if \<not> ok_body then (Err ChannelClosed, hdr, C')
              else (Ok (), hdr @ ct, C'))))"

definition quic_send_msg :: "msg_codec \<Rightarrow> aead \<Rightarrow> bool \<Rightarrow> bool \<Rightarrow> session_cipher \<Rightarrow> msg \<Rightarrow> (transport_error + unit) \<times> bytes \<times> session_cipher" where
  "quic_send_msg M A ok_len ok_body C m =
     (case mc_to_vec M m of
        None \<Rightarrow> (Err EncodeError, [], C)
      | Some encoded \<Rightarrow> quic_send_raw A ok_len ok_body C encoded)"

text \<open>
  Receiving takes bytes off the stream: \<open>read_exact\<close> fails when the stream ends too early, and the bytes
  it has read are gone.
\<close>

definition quic_recv_raw :: "aead \<Rightarrow> session_cipher \<Rightarrow> bytes \<Rightarrow> (transport_error + bytes option) \<times> bytes \<times> session_cipher" where
  "quic_recv_raw A C stream =
     (if length stream < 4 then (Ok None, [], C)
      else
        (let len = from_le (take 4 stream); rest = drop 4 stream in
         if len = 0 \<or> len > 4 * 1024 * 1024 then (Err (InvalidFrameLength len), rest, C)
         else if length rest < len then (Err StreamRead, [], C)
         else
           (case cipher_decrypt A C (take len rest) of
              (Inl e, C') \<Rightarrow> (Err (CipherFailed e), drop len rest, C')
            | (Inr plain, C') \<Rightarrow> (Ok (Some plain), drop len rest, C'))))"

definition quic_recv_msg :: "msg_codec \<Rightarrow> aead \<Rightarrow> session_cipher \<Rightarrow> bytes \<Rightarrow> (transport_error + msg option) \<times> bytes \<times> session_cipher" where
  "quic_recv_msg M A C stream =
     (case quic_recv_raw A C stream of
        (Inl e, rest, C') \<Rightarrow> (Err e, rest, C')
      | (Inr None, rest, C') \<Rightarrow> (Ok None, rest, C')
      | (Inr (Some plain), rest, C') \<Rightarrow>
          (case mc_from_slice M plain of
             None \<Rightarrow> (Err DecodeError, rest, C')
           | Some m \<Rightarrow> (Ok (Some m), rest, C')))"

section \<open>The contract of a message channel\<close>

text \<open>
  What \<open>MsgChannel\<close> promises its users: as long as sender and receiver are in step, whatever the sender
  hands over is what the receiver gets next, and they stay in step.
\<close>

locale msg_channel =
  fixes send :: "'s \<Rightarrow> msg \<Rightarrow> (transport_error + 'f) \<times> 's"
    and recv :: "'r \<Rightarrow> 'f \<Rightarrow> (transport_error + msg option) \<times> 'r"
    and in_step :: "'s \<Rightarrow> 'r \<Rightarrow> bool"
  assumes delivers: "in_step s r \<Longrightarrow> send s m = (Ok f, s') \<Longrightarrow> \<exists>r'. recv r f = (Ok (Some m), r') \<and> in_step s' r'"
begin

fun send_all :: "'s \<Rightarrow> msg list \<Rightarrow> (transport_error + 'f list) \<times> 's" where
  "send_all s [] = (Ok [], s)"
| "send_all s (m # ms) =
     (case send s m of
        (Inl e, s') \<Rightarrow> (Err e, s')
      | (Inr f, s') \<Rightarrow> (case send_all s' ms of (Inl e, s'') \<Rightarrow> (Err e, s'') | (Inr fs, s'') \<Rightarrow> (Ok (f # fs), s'')))"

fun recv_all :: "'r \<Rightarrow> 'f list \<Rightarrow> (transport_error + msg option) list \<times> 'r" where
  "recv_all r [] = ([], r)"
| "recv_all r (f # fs) = (case recv r f of (x, r') \<Rightarrow> case recv_all r' fs of (xs, r'') \<Rightarrow> (x # xs, r''))"

lemma delivers_all:
  "in_step s r \<Longrightarrow> send_all s ms = (Ok fs, s') \<Longrightarrow>
   \<exists>r'. recv_all r fs = (map (\<lambda>m. Ok (Some m)) ms, r') \<and> in_step s' r'"
proof (induction ms arbitrary: s r fs)
  case (Cons m ms)
  then obtain f s1 fs1 where f: "send s m = (Ok f, s1)" "send_all s1 ms = (Ok fs1, s')" "fs = f # fs1"
    by (auto split: prod.splits sum.splits)
  obtain r1 where "recv r f = (Ok (Some m), r1)" "in_step s1 r1" using delivers [OF Cons.prems(1) f(1)] by blast
  with Cons.IH [OF _ f(2), of r1] f(3) show ?case by auto
qed auto

lemma send_all_take: "send_all s ms = (Ok fs, s') \<Longrightarrow> \<exists>s''. send_all s (take k ms) = (Ok (take k fs), s'')"
proof (induction ms arbitrary: s fs k)
  case (Cons m ms)
  then obtain f s1 fs1 where f: "send s m = (Ok f, s1)" "send_all s1 ms = (Ok fs1, s')" "fs = f # fs1"
    by (auto split: prod.splits sum.splits)
  show ?case
  proof (cases k)
    case (Suc j)
    obtain s2 where "send_all s1 (take j ms) = (Ok (take j fs1), s2)" using Cons.IH [OF f(2)] by blast
    then show ?thesis by (simp add: Suc f)
  qed simp
qed simp

text \<open>A channel that passes on only the first frames delivers the first messages.\<close>

lemma delivers_take:
  assumes "in_step s r" "send_all s ms = (Ok fs, s')"
  shows "fst (recv_all r (take k fs)) = map (\<lambda>m. Ok (Some m)) (take k ms)"
  using send_all_take [OF assms(2), of k] delivers_all [OF assms(1)] by (metis fst_conv)

end

section \<open>Ciphers in step\<close>

text \<open>A receiving cipher that has seen only numbers below the sender's counter, under the same key.\<close>

definition ciphers_in_step :: "session_cipher \<Rightarrow> session_cipher \<Rightarrow> bool" where
  "ciphers_in_step C D \<longleftrightarrow> sc_key_bytes C = sc_key_bytes D \<and>
     (rw_initialised (sc_replay D) \<longrightarrow> rw_highest (sc_replay D) < sc_send_nonce C)"

lemma ciphers_in_step_new: "ciphers_in_step (cipher_new k) (cipher_new k)"
  by (simp add: ciphers_in_step_def cipher_new_def replay_default_def)

lemma check_next_seq:
  assumes "rw_initialised w \<longrightarrow> rw_highest w < sq"
  obtains w' where "check_and_record_seq w sq = (Ok (), w')" "rw_initialised w'" "rw_highest w' = sq"
proof (cases "rw_initialised w")
  case True
  with assms that show ?thesis by (simp add: check_and_record_seq_def Let_def)
next
  case False
  with that show ?thesis by (simp add: check_and_record_seq_def)
qed

lemma seal_open:
  assumes "aead_correct A" "ciphers_in_step C D" "cipher_encrypt A C pt = (Ok ct, C')"
  shows "\<exists>D'. cipher_decrypt A D ct = (Ok pt, D') \<and> ciphers_in_step C' D'" and "length ct = length pt + 24"
proof -
  obtain body where b: "aead_seal A (sc_key_bytes C) (nonce_from_u64 (sc_send_nonce C)) pt = Some body"
    "ct = le_bytes 8 (unat (sc_send_nonce C)) @ body" "C' = C\<lparr>sc_send_nonce := sc_send_nonce C + 1\<rparr>"
    "sc_send_nonce C < 0xFFFFFFFFFFFFFFFF - 1"
    using assms(3) by (auto simp: cipher_encrypt_def Let_def split: if_splits option.splits)
  show l: "length ct = length pt + 24" using aead_seal_length [OF assms(1) b(1)] b(2) by simp
  have key: "sc_key_bytes D = sc_key_bytes C" using assms(2) by (simp add: ciphers_in_step_def)
  obtain w where w: "check_and_record_seq (sc_replay D) (sc_send_nonce C) = (Ok (), w)" "rw_initialised w" "rw_highest w = sc_send_nonce C"
    using check_next_seq assms(2) unfolding ciphers_in_step_def by blast
  have "cipher_decrypt A D ct = (Ok pt, D\<lparr>sc_replay := w\<rparr>)"
    using decrypt_passed [of ct D "()" w A] l w(1) aead_open_seal [OF assms(1) b(1)]
    by (simp add: b(2) MIN_CIPHERTEXT_LEN_def frame_seq_frame key)
  moreover have "sc_send_nonce C \<noteq> - 1" using b(4) by auto
  then have "sc_send_nonce C < sc_send_nonce C + 1" by (simp add: inc_less_eq_self_iff_eq flip: not_le)
  then have "ciphers_in_step C' (D\<lparr>sc_replay := w\<rparr>)"
    using key w by (simp add: ciphers_in_step_def b(3))
  ultimately show "\<exists>D'. cipher_decrypt A D ct = (Ok pt, D') \<and> ciphers_in_step C' D'" by blast
qed

section \<open>The three channels keep the contract\<close>

lemma from_le_length_framed:
  "length p < 2 ^ 32 \<Longrightarrow> from_le (take 4 (length_framed p)) = length p \<and> drop 4 (length_framed p) = p"
  by (simp add: length_framed_def from_le_bytes unat_of_nat del: le_bytes.simps)

lemma length_length_framed [simp]: "length (length_framed p) = length p + 4"
  by (simp add: length_framed_def)

lemma drop_length_framed [simp]: "drop 4 (length_framed p) = p"
  by (simp add: length_framed_def del: le_bytes.simps)

definition relay_in_step :: "relay_transport \<Rightarrow> relay_transport \<Rightarrow> bool" where
  "relay_in_step S R \<longleftrightarrow>
     (case (rt_tx_cipher S, rt_rx_cipher R) of
        (None, None) \<Rightarrow> True
      | (Some C, Some D) \<Rightarrow> ciphers_in_step C D
      | _ \<Rightarrow> False)"

lemma seal_opt_open_opt:
  assumes "aead_correct A" "relay_in_step S R" "seal_opt A (rt_tx_cipher S) pt = (Ok ct, c)"
  shows "\<exists>d. open_opt A (rt_rx_cipher R) ct = (Ok pt, d) \<and> relay_in_step (S\<lparr>rt_tx_cipher := c\<rparr>) (R\<lparr>rt_rx_cipher := d\<rparr>)"
    and "length ct \<le> length pt + 24"
  using assms seal_open [OF assms(1)]
  by (fastforce simp: relay_in_step_def seal_opt_def open_opt_def split: option.splits prod.splits sum.splits)+

lemma relay_delivers:
  assumes "aead_correct A" "msg_codec_ok M" "relay_in_step S R" "relay_send_msg M A up S m = (Ok f, S')"
  shows "\<exists>R'. relay_recv_msg M A R (Some f) = (Ok (Some m), R') \<and> relay_in_step S' R'"
proof -
  obtain e ct c where e: "mc_to_vec M m = Some e" "length e \<le> MAX_PLAINTEXT_BYTES" "seal_opt A (rt_tx_cipher S) e = (Ok ct, c)"
    "f = length_framed ct" "S' = S\<lparr>rt_tx_cipher := c\<rparr>"
    using assms(4) by (auto simp: relay_send_msg_def split: option.splits if_splits prod.splits sum.splits)
  obtain d where d: "open_opt A (rt_rx_cipher R) ct = (Ok e, d)" "relay_in_step S' (R\<lparr>rt_rx_cipher := d\<rparr>)" "length ct \<le> length e + 24"
    using seal_opt_open_opt [OF assms(1,3) e(3)] e(5) by blast
  have "mc_from_slice M e = Some m" using assms(2) e(1) by (simp add: msg_codec_ok_def)
  with d e(2,4) show ?thesis
    by (simp add: relay_recv_msg_def RECV_FRAME_BYTES_def MAX_PLAINTEXT_BYTES_def)
qed

interpretation relay_ch: msg_channel "relay_send_msg M A up" "\<lambda>R f. relay_recv_msg M A R (Some f)"
    "\<lambda>S R. aead_correct A \<and> msg_codec_ok M \<and> relay_in_step S R" for M A up
  by unfold_locales (use relay_delivers in blast)

text \<open>\<open>Connection\<close> keeps it only for messages that fit: nothing bounds what it sends.\<close>

definition codec_fits :: "msg_codec \<Rightarrow> bool" where
  "codec_fits M \<longleftrightarrow> (\<forall>m bs. mc_to_vec M m = Some bs \<longrightarrow> length bs \<le> MAX_PLAINTEXT_BYTES)"

lemma connection_delivers:
  assumes "aead_correct A" "msg_codec_ok M" "ciphers_in_step (cn_tx_cipher S) (cn_rx_cipher R)"
    and "connection_send M A up S m = (Ok f, S')" "mc_to_vec M m = Some e" "length e \<le> MAX_PLAINTEXT_BYTES"
  shows "\<exists>R'. connection_recv M A R (Some f) = (Ok (Some m), R') \<and> ciphers_in_step (cn_tx_cipher S') (cn_rx_cipher R')"
proof -
  obtain ct C where c: "cipher_encrypt A (cn_tx_cipher S) e = (Ok ct, C)" "f = length_framed ct" "S' = S\<lparr>cn_tx_cipher := C\<rparr>"
    using assms(4,5) by (auto simp: connection_send_def split: if_splits prod.splits sum.splits)
  obtain D where "cipher_decrypt A (cn_rx_cipher R) ct = (Ok e, D)" "ciphers_in_step C D" "length ct = length e + 24"
    using seal_open [OF assms(1,3) c(1)] by blast
  moreover have "mc_from_slice M e = Some m" using assms(2,5) by (simp add: msg_codec_ok_def)
  ultimately show ?thesis using c(2,3) assms(6)
    by (simp add: connection_recv_def RECV_FRAME_BYTES_def MAX_PLAINTEXT_BYTES_def)
qed

interpretation connection_ch: msg_channel "connection_send M A up" "\<lambda>R f. connection_recv M A R (Some f)"
    "\<lambda>S R. aead_correct A \<and> msg_codec_ok M \<and> codec_fits M \<and> ciphers_in_step (cn_tx_cipher S) (cn_rx_cipher R)" for M A up
proof (unfold_locales, elim conjE)
  fix S R :: connection and m f S'
  assume a: "aead_correct A" "msg_codec_ok M" "codec_fits M" "ciphers_in_step (cn_tx_cipher S) (cn_rx_cipher R)"
    and s: "connection_send M A up S m = (Ok f, S')"
  obtain e where "mc_to_vec M m = Some e" using s by (auto simp: connection_send_def split: option.splits)
  with a s connection_delivers [of A M S R up m f S' e]
  show "\<exists>R'. connection_recv M A R (Some f) = (Ok (Some m), R') \<and>
    aead_correct A \<and> msg_codec_ok M \<and> codec_fits M \<and> ciphers_in_step (cn_tx_cipher S') (cn_rx_cipher R')"
    by (auto simp: codec_fits_def)
qed

lemma connection_oversized:
  assumes "connection_send M A True S m = (Ok f, S')" "mc_to_vec M m = Some e" "length e > MAX_PLAINTEXT_BYTES" "aead_correct A"
  shows "connection_recv M A R (Some f) = (Err (OversizedFrame (length f)), R)"
proof -
  obtain ct C where c: "cipher_encrypt A (cn_tx_cipher S) e = (Ok ct, C)" "f = length_framed ct"
    using assms(1,2) by (auto simp: connection_send_def split: prod.splits sum.splits)
  have "ciphers_in_step (cn_tx_cipher S) (cipher_new (sc_key_bytes (cn_tx_cipher S)))"
    by (simp add: ciphers_in_step_def cipher_new_def replay_default_def)
  then have "length ct = length e + 24" using seal_open(2) [OF assms(4) _ c(1)] by blast
  with c(2) assms(3) show ?thesis
    by (simp add: connection_recv_def RECV_FRAME_BYTES_def MAX_PLAINTEXT_BYTES_def)
qed

text \<open>A QUIC stream: a frame followed by anything yields the message and leaves the rest unread.\<close>

lemma quic_send_raw_Ok:
  assumes "aead_correct A" "ciphers_in_step C D" "quic_send_raw A ok1 ok2 C data = (Ok (), f, C')"
  shows "\<exists>D'. quic_recv_raw A D (f @ rest) = (Ok (Some data), rest, D') \<and> ciphers_in_step C' D'"
proof -
  obtain ct where c: "cipher_encrypt A C data = (Ok ct, C')" "f = length_framed ct" "length data \<le> MAX_PLAINTEXT_BYTES"
    using assms(3) by (auto simp: quic_send_raw_def Let_def length_framed_def split: if_splits prod.splits sum.splits)
  obtain D' where D: "cipher_decrypt A D ct = (Ok data, D')" "ciphers_in_step C' D'" "length ct = length data + 24"
    using seal_open [OF assms(1,2) c(1)] by blast
  have l: "length ct < 2 ^ 32" "0 < length ct" "length ct \<le> 4 * 1024 * 1024"
    using D(3) c(3) by (simp_all add: MAX_PLAINTEXT_BYTES_def)
  have "from_le (take 4 (length_framed ct @ rest)) = length ct" "drop 4 (length_framed ct @ rest) = ct @ rest"
    using from_le_length_framed [OF l(1)] by simp_all
  with l D(1,2) show ?thesis by (simp add: quic_recv_raw_def Let_def c(2))
qed

lemma quic_delivers:
  assumes "aead_correct A" "msg_codec_ok M" "ciphers_in_step C D" "quic_send_msg M A ok1 ok2 C m = (Ok (), f, C')"
  shows "\<exists>D'. quic_recv_msg M A D (f @ rest) = (Ok (Some m), rest, D') \<and> ciphers_in_step C' D'"
proof -
  obtain e where e: "mc_to_vec M m = Some e" "quic_send_raw A ok1 ok2 C e = (Ok (), f, C')"
    using assms(4) by (auto simp: quic_send_msg_def split: option.splits)
  moreover have "mc_from_slice M e = Some m" using assms(2) e(1) by (simp add: msg_codec_ok_def)
  ultimately show ?thesis using quic_send_raw_Ok [OF assms(1,3) e(2), of rest] by (auto simp: quic_recv_msg_def)
qed

text \<open>As a channel: the receiver holds the unread bytes; what is sent is appended to them.\<close>

definition quic_tx :: "msg_codec \<Rightarrow> aead \<Rightarrow> session_cipher \<Rightarrow> msg \<Rightarrow> (transport_error + bytes) \<times> session_cipher" where
  "quic_tx M A C m = (case quic_send_msg M A True True C m of (Inl e, f, C') \<Rightarrow> (Err e, C') | (Inr _, f, C') \<Rightarrow> (Ok f, C'))"

definition quic_rx :: "msg_codec \<Rightarrow> aead \<Rightarrow> session_cipher \<times> bytes \<Rightarrow> bytes \<Rightarrow> (transport_error + msg option) \<times> session_cipher \<times> bytes" where
  "quic_rx M A R f = (case quic_recv_msg M A (fst R) (snd R @ f) of (x, rest, D) \<Rightarrow> (x, D, rest))"

interpretation quic_ch: msg_channel "quic_tx M A" "quic_rx M A"
    "\<lambda>C R. aead_correct A \<and> msg_codec_ok M \<and> ciphers_in_step C (fst R) \<and> snd R = []" for M A
proof (unfold_locales, elim conjE)
  fix C :: session_cipher and R :: "session_cipher \<times> bytes" and m f C'
  assume a: "aead_correct A" "msg_codec_ok M" "ciphers_in_step C (fst R)" "snd R = []" and s: "quic_tx M A C m = (Ok f, C')"
  have "quic_send_msg M A True True C m = (Ok (), f, C')"
    using s by (auto simp: quic_tx_def split: prod.splits sum.splits)
  from quic_delivers [OF a(1-3) this, of "[]"] a
  show "\<exists>R'. quic_rx M A R f = (Ok (Some m), R') \<and>
    aead_correct A \<and> msg_codec_ok M \<and> ciphers_in_step C' (fst R') \<and> snd R' = []"
    by (auto simp: quic_rx_def)
qed

section \<open>From the handshake to the channel\<close>

lemma split_directional_fresh:
  assumes "split_directional X k is_host = Ok (tx, rx)"
  shows "\<exists>a b. tx = cipher_new a \<and> rx = cipher_new b"
  using assms by (auto simp: split_directional_def derive_subkey_def Let_def split: option.splits if_splits)

lemma session_ciphers_fresh:
  assumes "session_ciphers X es eph sid is_host = Ok (tx, rx)"
  shows "\<exists>a b. tx = cipher_new a \<and> rx = cipher_new b"
  using assms split_directional_fresh by (auto simp: session_ciphers_def split: sum.splits)

lemma handshake_ciphers:
  assumes "hs_ext_ok X"
    and h: "host_handshake X hid hfts he sid (Inr (Some (MsgHello (viewer_hello X vid ve vfts)))) True = ([MsgHelloAck ack], Ok h)"
    and v: "viewer_handshake X vid vfts ve True (Inr (Some (MsgHelloAck ack))) = (sent, Ok v)"
  shows "\<exists>a b. hr_tx h = cipher_new a \<and> hr_rx h = cipher_new b \<and> hr_tx v = cipher_new b \<and> hr_rx v = cipher_new a"
proof -
  have acc: "host_accept X hid hfts he sid (viewer_hello X vid ve vfts) = Ok (ack, h)"
    using h by (auto simp: host_handshake_def split: if_splits sum.splits prod.splits)
  have "verify_field X (he_pubkey (viewer_hello X vid ve vfts)) = Ok (x_public (hx_x X) ve, ed_verifying_key (hx_ed X) vid)"
    using verify_pubkey_field [OF assms(1)] by (simp add: viewer_hello_def)
  with acc obtain codec acodec where c: "session_ciphers X he (x_public (hx_x X) ve) sid True = Ok (hr_tx h, hr_rx h)"
    "ack = host_hello_ack X hid he sid codec acodec (ft_audio hfts)"
    by (auto simp: host_accept_def split: option.splits sum.splits prod.splits)
  have "session_ciphers X ve (x_public (hx_x X) he) sid False = Ok (hr_rx h, hr_tx h)"
    using session_ciphers_mirror [OF _ c(1)] assms(1) by (simp add: hs_ext_ok_def)
  from viewer_on_ack [OF assms(1) this] v have "hr_tx v = hr_rx h" "hr_rx v = hr_tx h" by (auto simp: c(2))
  with session_ciphers_fresh [OF c(1)] show ?thesis by auto
qed

text \<open>The two ends of a session once each has installed its ciphers.\<close>

definition session_end :: "handshake_result \<Rightarrow> relay_transport" where
  "session_end res = install_ciphers (hr_tx res) (hr_rx res) relay_new"

lemma session_in_step:
  assumes "hs_ext_ok X"
    and "host_handshake X hid hfts he sid (Inr (Some (MsgHello (viewer_hello X vid ve vfts)))) True = ([MsgHelloAck ack], Ok h)"
    and "viewer_handshake X vid vfts ve True (Inr (Some (MsgHelloAck ack))) = (sent, Ok v)"
  shows "relay_in_step (session_end v) (session_end h)" "relay_in_step (session_end h) (session_end v)"
  using handshake_ciphers [OF assms] ciphers_in_step_new
  by (auto simp: relay_in_step_def session_end_def install_ciphers_def relay_new_def)

text \<open>The frames of an encrypted relay transport are 28 bytes longer than the encoded messages.\<close>

lemma relay_send_frame:
  assumes "aead_correct A" "rt_tx_cipher S = Some C" "relay_send_msg M A up S m = (Ok f, S')"
  shows "\<exists>e. mc_to_vec M m = Some e \<and> length f = length e + 28" "rt_tx_cipher S' \<noteq> None"
proof -
  obtain e ct C' where e: "mc_to_vec M m = Some e" "cipher_encrypt A C e = (Ok ct, C')" "f = length_framed ct" "S' = S\<lparr>rt_tx_cipher := Some C'\<rparr>"
    using assms(2,3) by (auto simp: relay_send_msg_def seal_opt_def split: option.splits if_splits prod.splits sum.splits)
  have "length ct = length e + 24"
    using e(2) aead_seal_length [OF assms(1)] by (auto simp: cipher_encrypt_def Let_def split: if_splits option.splits)
  with e show "\<exists>e. mc_to_vec M m = Some e \<and> length f = length e + 28" "rt_tx_cipher S' \<noteq> None" by simp_all
qed

lemma relay_send_all_frames:
  assumes "aead_correct A" "rt_tx_cipher S \<noteq> None" "relay_ch.send_all M A up S ms = (Ok fs, S')"
  shows "list_all2 (\<lambda>m f. \<exists>e. mc_to_vec M m = Some e \<and> length f = length e + 28) ms fs"
  using assms(2,3)
proof (induction ms arbitrary: S fs)
  case (Cons m ms)
  then obtain f s1 fs1 where f: "relay_send_msg M A up S m = (Ok f, s1)" "relay_ch.send_all M A up s1 ms = (Ok fs1, S')" "fs = f # fs1"
    by (auto split: prod.splits sum.splits)
  obtain C where "rt_tx_cipher S = Some C" using Cons.prems(1) by auto
  from relay_send_frame [OF assms(1) this f(1)] Cons.IH [OF _ f(2)] f(3) show ?case by simp
qed simp

lemma wit_handshake:
  "\<exists>ack h v.
    host_handshake demo_hs_ext [1] wit_features [2] 7 (Inr (Some (MsgHello (viewer_hello demo_hs_ext [3] [4] wit_features)))) True =
      ([MsgHelloAck ack], Ok h) \<and>
    viewer_handshake demo_hs_ext [3] wit_features [4] True (Inr (Some (MsgHelloAck ack))) =
      ([MsgHello (viewer_hello demo_hs_ext [3] [4] wit_features)], Ok v)"
proof -
  have k: "hx_hkdf demo_hs_ext salt k info \<noteq> None" for salt k info by (simp add: demo_hs_ext_def)
  from session_ciphers_total [OF k] obtain tx rx where
    c: "session_ciphers demo_hs_ext [2] (x_public (hx_x demo_hs_ext) [4]) 7 True = Ok (tx, rx)" by blast
  have "session_ciphers demo_hs_ext [4] (x_public (hx_x demo_hs_ext) [2]) 7 False = Ok (rx, tx)"
    using session_ciphers_mirror [OF _ c] demo_hs_ext_ok by (simp add: hs_ext_ok_def)
  note v = viewer_on_ack [OF demo_hs_ext_ok this, of "[3]" wit_features "[1]" Vp9 Opus "ft_audio wit_features"]
  have "\<exists>h. host_handshake demo_hs_ext [1] wit_features [2] 7 (Inr (Some (MsgHello (viewer_hello demo_hs_ext [3] [4] wit_features)))) True =
      ([MsgHelloAck (host_hello_ack demo_hs_ext [1] [2] 7 Vp9 Opus (ft_audio wit_features))], Ok h)"
    using c verify_pubkey_field [OF demo_hs_ext_ok, of "[3]" "[4]"] wit_negotiate
    by (simp add: host_handshake_def host_accept_def viewer_hello_def)
  with v show ?thesis by blast
qed

definition demo_msg_codec :: msg_codec where
  "demo_msg_codec = \<lparr>mc_to_vec = (\<lambda>m. if m = MsgKeyFrame then Some [1] else if m = MsgRequestClipboard then Some [2, 2] else None),
     mc_from_slice = (\<lambda>b. if b = [1] then Some MsgKeyFrame else if b = [2, 2] then Some MsgRequestClipboard else None)\<rparr>"

lemma demo_msg_codec_ok: "msg_codec_ok demo_msg_codec"
  by (simp add: msg_codec_ok_def demo_msg_codec_def)

lemma wit_relay_send:
  assumes "rt_tx_cipher T = Some C" "sc_send_nonce C < 5" "mc_to_vec demo_msg_codec m = Some bs"
  shows "\<exists>f C'. relay_send_msg demo_msg_codec demo_aead True T m = (Ok f, T\<lparr>rt_tx_cipher := Some C'\<rparr>) \<and> sc_send_nonce C' = sc_send_nonce C + 1"
proof -
  have "sc_send_nonce C < 0xFFFFFFFFFFFFFFFE" by (rule less_trans [OF assms(2)]) simp
  moreover have "length bs \<le> MAX_PLAINTEXT_BYTES"
    using assms(3) by (auto simp: demo_msg_codec_def MAX_PLAINTEXT_BYTES_def split: if_splits)
  ultimately show ?thesis using assms(1,3)
    by (intro exI [of _ "C\<lparr>sc_send_nonce := sc_send_nonce C + 1\<rparr>"] exI)
       (simp add: relay_send_msg_def seal_opt_def cipher_encrypt_def demo_aead_def Let_def not_le)
qed

end
