(* ===== verification/Constellation.thy ===== *)
theory Constellation
  imports Handshake
begin

text \<open>
  Device federation (\<open>miru-constellation/src/lib.rs\<close>): devices signed into a constellation by its key,
  their presence, and the tokens that hand a session over to another device. Ed25519 and base64 are
  parameters; a map from ids is a partial function.
\<close>

section \<open>Definitions\<close>

datatype form_factor = Desktop | Laptop | Phone | Tablet | Server | Embedded

datatype device_status = Active | Idle | Sleeping | Offline

record device_capabilities =
  dc_displays :: "(u32 \<times> u32) list"
  dc_has_microphone :: bool
  dc_has_speakers :: bool
  dc_has_camera :: bool
  dc_has_hw_encode :: bool
  dc_battery_pct :: "u8 option"
  dc_form_factor :: form_factor
  dc_friendly_name :: string
  dc_os_family :: string

record device_join =
  dj_device_id :: uuid
  dj_device_pubkey_b64 :: string
  dj_joined_at :: u64
  dj_constellation_signature_b64 :: string

record device_presence =
  dp_device_id :: uuid
  dp_capabilities :: device_capabilities
  dp_status :: device_status
  dp_last_seen :: u64
  dp_signal_url :: "string option"

record constellation =
  co_pubkey :: bytes
  co_members :: "uuid \<rightharpoonup> device_join"
  co_presence :: "uuid \<rightharpoonup> device_presence"

definition constellation_new :: "bytes \<Rightarrow> constellation" where
  "constellation_new pubkey = \<lparr>co_pubkey = pubkey, co_members = Map.empty, co_presence = Map.empty\<rparr>"

definition join_blob :: "bytes \<Rightarrow> u64 \<Rightarrow> uuid \<Rightarrow> bytes" where
  "join_blob device_pubkey joined_at device_id = device_pubkey @ le_bytes 8 (unat joined_at) @ uuid_bytes device_id"

definition issue_join :: "ed25519 \<Rightarrow> base64 \<Rightarrow> uuid \<Rightarrow> u64 \<Rightarrow> bytes \<Rightarrow> bytes \<Rightarrow> device_join" where
  "issue_join E B device_id now constellation_key device_pubkey =
     \<lparr>dj_device_id = device_id, dj_device_pubkey_b64 = b64_encode B device_pubkey, dj_joined_at = now,
      dj_constellation_signature_b64 = b64_encode B (ed_sign E constellation_key (join_blob device_pubkey now device_id))\<rparr>"

datatype join_error = JoinBase64 | PkLen | JoinSigLen | JoinSignatureInvalid | NotAMember | HandoffExpired

definition accept_join :: "ed25519 \<Rightarrow> base64 \<Rightarrow> constellation \<Rightarrow> device_join \<Rightarrow> (join_error + unit) \<times> constellation" where
  "accept_join E B K join =
     (case b64_decode B (dj_device_pubkey_b64 join) of
        None \<Rightarrow> (Err JoinBase64, K)
      | Some pk \<Rightarrow>
          if length pk \<noteq> 32 then (Err PkLen, K)
          else
            (case b64_decode B (dj_constellation_signature_b64 join) of
               None \<Rightarrow> (Err JoinBase64, K)
             | Some sig \<Rightarrow>
                 if length sig \<noteq> 64 then (Err JoinSigLen, K)
                 else if \<not> ed_verify_strict E (co_pubkey K) (join_blob pk (dj_joined_at join) (dj_device_id join)) sig
                 then (Err JoinSignatureInvalid, K)
                 else (Ok (), K\<lparr>co_members := (co_members K)(dj_device_id join \<mapsto> join)\<rparr>)))"

definition update_presence :: "constellation \<Rightarrow> device_presence \<Rightarrow> (join_error + unit) \<times> constellation" where
  "update_presence K p =
     (if co_members K (dp_device_id p) = None then (Err NotAMember, K)
      else (Ok (), K\<lparr>co_presence := (co_presence K)(dp_device_id p \<mapsto> p)\<rparr>))"

text \<open>The presences of all members, in no particular order.\<close>

definition constellation_snapshot :: "constellation \<Rightarrow> device_presence set" where
  "constellation_snapshot K = {p. \<exists>i \<in> dom (co_members K). co_presence K i = Some p}"

record handoff_token =
  ho_session_id :: uuid
  ho_from_device :: uuid
  ho_to_device :: uuid
  ho_expires_at :: u64
  ho_signature_b64 :: string

definition MAX_HANDOFF_TTL_SECS :: u64 where
  "MAX_HANDOFF_TTL_SECS = 300"

definition handoff_blob :: "uuid \<Rightarrow> uuid \<Rightarrow> uuid \<Rightarrow> u64 \<Rightarrow> bytes" where
  "handoff_blob session_id from_device to_device expires_at =
     uuid_bytes session_id @ uuid_bytes from_device @ uuid_bytes to_device @ le_bytes 8 (unat expires_at)"

definition sat_add64 :: "u64 \<Rightarrow> u64 \<Rightarrow> u64" where
  "sat_add64 a b = (if unat a + unat b < 2 ^ 64 then a + b else - 1)"

definition handoff_issue :: "ed25519 \<Rightarrow> base64 \<Rightarrow> u64 \<Rightarrow> bytes \<Rightarrow> uuid \<Rightarrow> uuid \<Rightarrow> uuid \<Rightarrow> u64 \<Rightarrow> handoff_token" where
  "handoff_issue E B now constellation_key session_id from_device to_device ttl_secs =
     (let expires_at = sat_add64 now (min ttl_secs MAX_HANDOFF_TTL_SECS)
      in \<lparr>ho_session_id = session_id, ho_from_device = from_device, ho_to_device = to_device, ho_expires_at = expires_at,
          ho_signature_b64 = b64_encode B (ed_sign E constellation_key (handoff_blob session_id from_device to_device expires_at))\<rparr>)"

definition handoff_verify :: "ed25519 \<Rightarrow> base64 \<Rightarrow> u64 \<Rightarrow> handoff_token \<Rightarrow> bytes \<Rightarrow> join_error + unit" where
  "handoff_verify E B now t constellation_pubkey =
     (if now > ho_expires_at t then Err HandoffExpired
      else
        (case b64_decode B (ho_signature_b64 t) of
           None \<Rightarrow> Err JoinBase64
         | Some sig \<Rightarrow>
             if length sig \<noteq> 64 then Err JoinSigLen
             else if \<not> ed_verify_strict E constellation_pubkey
                         (handoff_blob (ho_session_id t) (ho_from_device t) (ho_to_device t) (ho_expires_at t)) sig
             then Err JoinSignatureInvalid
             else Ok ()))"

section \<open>Members are signed in\<close>

datatype constellation_call = AcceptJoin device_join | UpdatePresence device_presence

fun constellation_step :: "ed25519 \<Rightarrow> base64 \<Rightarrow> constellation \<Rightarrow> constellation_call \<Rightarrow> constellation" where
  "constellation_step E B K (AcceptJoin j) = snd (accept_join E B K j)"
| "constellation_step E B K (UpdatePresence p) = snd (update_presence K p)"

text \<open>A join record that the constellation key has signed for its own id.\<close>

definition join_signed :: "ed25519 \<Rightarrow> base64 \<Rightarrow> bytes \<Rightarrow> device_join \<Rightarrow> bool" where
  "join_signed E B key j \<longleftrightarrow>
     (\<exists>pk sig. b64_decode B (dj_device_pubkey_b64 j) = Some pk \<and> length pk = 32 \<and>
        b64_decode B (dj_constellation_signature_b64 j) = Some sig \<and> length sig = 64 \<and>
        ed_verify_strict E key (join_blob pk (dj_joined_at j) (dj_device_id j)) sig)"

lemma accept_join_iff:
  "snd (accept_join E B K j) =
     (if join_signed E B (co_pubkey K) j then K\<lparr>co_members := (co_members K)(dj_device_id j \<mapsto> j)\<rparr> else K)"
  by (auto simp: accept_join_def join_signed_def split: option.splits)

lemma accept_join_Ok: "fst (accept_join E B K j) = Ok () \<longleftrightarrow> join_signed E B (co_pubkey K) j"
  by (auto simp: accept_join_def join_signed_def split: option.splits)

definition constellation_inv :: "ed25519 \<Rightarrow> base64 \<Rightarrow> bytes \<Rightarrow> constellation \<Rightarrow> bool" where
  "constellation_inv E B key K \<longleftrightarrow> co_pubkey K = key \<and>
     (\<forall>i j. co_members K i = Some j \<longrightarrow> dj_device_id j = i \<and> join_signed E B key j) \<and>
     (\<forall>i p. co_presence K i = Some p \<longrightarrow> dp_device_id p = i \<and> i \<in> dom (co_members K))"

lemma constellation_inv_step: "constellation_inv E B key K \<Longrightarrow> constellation_inv E B key (constellation_step E B K c)"
proof (cases c)
  case (AcceptJoin j)
  assume "constellation_inv E B key K"
  with AcceptJoin accept_join_iff [of E B K j] show ?thesis
    by (auto simp: constellation_inv_def split: if_splits)
next
  case (UpdatePresence p)
  assume "constellation_inv E B key K"
  with UpdatePresence show ?thesis by (auto simp: constellation_inv_def update_presence_def)
qed

lemma constellation_inv_run: "constellation_inv E B key (foldl (constellation_step E B) (constellation_new key) cs)"
proof -
  have "constellation_inv E B key (foldl (constellation_step E B) K cs)" if "constellation_inv E B key K" for K
    using that by (induction cs arbitrary: K) (simp_all add: constellation_inv_step)
  moreover have "constellation_inv E B key (constellation_new key)"
    by (simp add: constellation_inv_def constellation_new_def)
  ultimately show ?thesis by blast
qed

text \<open>
  Only signed-in devices are shown: whatever joins and presence updates arrive, in every order, each
  presence in the snapshot belongs to a member whose join record carries a strict signature of the
  constellation key over that member's public key, joining time and id.\<close>

theorem snapshot_members_signed:
  assumes "K = foldl (constellation_step E B) (constellation_new key) cs" "p \<in> constellation_snapshot K"
  shows "\<exists>j. co_members K (dp_device_id p) = Some j \<and> dj_device_id j = dp_device_id p \<and> join_signed E B key j"
  using constellation_inv_run [of E B key cs] assms by (force simp: constellation_inv_def constellation_snapshot_def)

definition wit_join :: device_join where
  "wit_join = issue_join demo_ed25519 demo_base64 5 100 [7] (replicate 32 9)"

definition wit_presence :: device_presence where
  "wit_presence = \<lparr>dp_device_id = 5, dp_capabilities = \<lparr>dc_displays = [], dc_has_microphone = False, dc_has_speakers = False,
     dc_has_camera = False, dc_has_hw_encode = False, dc_battery_pct = None, dc_form_factor = Server, dc_friendly_name = ''s'',
     dc_os_family = ''linux''\<rparr>, dp_status = Active, dp_last_seen = 101, dp_signal_url = None\<rparr>"

lemma issue_join_signed:
  assumes "ed25519_correct E" "base64_correct B" "length pk = 32"
  shows "join_signed E B (ed_verifying_key E sk) (issue_join E B i now sk pk)"
  using assms by (simp add: join_signed_def issue_join_def base64_correctD ed25519_correctD)

theorem snapshot_members_signed_witness:
  "\<exists>j. co_members (foldl (constellation_step demo_ed25519 demo_base64) (constellation_new (ed_verifying_key demo_ed25519 [7]))
        [AcceptJoin wit_join, UpdatePresence wit_presence]) 5 = Some j \<and>
     join_signed demo_ed25519 demo_base64 (ed_verifying_key demo_ed25519 [7]) j"
proof -
  let ?key = "ed_verifying_key demo_ed25519 [7]"
  let ?K = "foldl (constellation_step demo_ed25519 demo_base64) (constellation_new ?key) [AcceptJoin wit_join, UpdatePresence wit_presence]"
  have "join_signed demo_ed25519 demo_base64 ?key wit_join"
    unfolding wit_join_def by (rule issue_join_signed [OF demo_ed25519_correct demo_base64_correct]) simp
  then have "wit_presence \<in> constellation_snapshot ?K"
    by (simp add: constellation_snapshot_def accept_join_iff constellation_new_def update_presence_def)
       (auto simp: wit_join_def issue_join_def wit_presence_def)
  from snapshot_members_signed [OF refl this] show ?thesis by (auto simp: wit_presence_def)
qed

section \<open>Handing a session over\<close>

lemma uuid_bytes_length [simp]: "length (uuid_bytes u) = 16"
  by (simp add: uuid_bytes_def be_bytes_def)

definition uuid_of :: "bytes \<Rightarrow> uuid" where
  "uuid_of bs = word_of_nat (from_be bs)"

lemma uuid_bytes_of:
  assumes "length bs = 16"
  shows "uuid_bytes (uuid_of bs) = bs"
proof -
  have "from_be bs < 2 ^ 128" using from_le_bound [of "rev bs"] assms by (simp add: from_be_def)
  then have "unat (uuid_of bs) = from_be bs" by (simp add: uuid_of_def unat_of_nat)
  then show ?thesis using le_bytes_from_le [of "rev bs"] assms by (simp add: uuid_bytes_def be_bytes_def from_be_def)
qed

lemma u64_bytes_of:
  assumes "length bs = 8"
  shows "le_bytes 8 (unat (word_of_nat (from_le bs) :: u64)) = bs"
proof -
  have "from_le bs < 2 ^ 64" using from_le_bound [of bs] assms by simp
  then have "unat (word_of_nat (from_le bs) :: u64) = from_le bs" by (simp add: unat_of_nat)
  then show ?thesis using le_bytes_from_le [of bs] assms by simp
qed

text \<open>
  Handing over: a token issued under the constellation key verifies with that key until its expiry time,
  which is at most 300 seconds after it was issued, and never afterwards.\<close>

lemma handoff_roundtrip:
  assumes "ed25519_correct E" "base64_correct B" "unat now + 300 < 2 ^ 64"
    and "t = handoff_issue E B now sk session_id from_device to_device ttl"
  shows "ho_expires_at t \<le> now + 300 \<and>
    handoff_verify E B now' t (ed_verifying_key E sk) = (if now' > ho_expires_at t then Err HandoffExpired else Ok ())"
proof -
  have m: "unat (min ttl MAX_HANDOFF_TTL_SECS) \<le> 300"
    by (cases "ttl \<le> 300") (auto simp: min_def MAX_HANDOFF_TTL_SECS_def word_le_nat_alt)
  have "unat (now + min ttl MAX_HANDOFF_TTL_SECS) = unat now + unat (min ttl MAX_HANDOFF_TTL_SECS)"
    by (rule unat_add_lem [THEN iffD1]) (use assms(3) m in simp)
  moreover have "unat (now + 300) = unat now + 300"
    using assms(3) unat_add_lem [of now 300] by simp
  ultimately have "now + min ttl MAX_HANDOFF_TTL_SECS \<le> now + 300" using m by (simp add: word_le_nat_alt)
  then show ?thesis using assms(1,2,3) m
    by (simp add: assms(4) handoff_issue_def handoff_verify_def Let_def sat_add64_def base64_correctD ed25519_correctD)
qed

text \<open>
  The same bytes are signed for a membership and for a handover: both blobs are 56 bytes long and carry
  nothing that tells them apart.
\<close>

definition handoff_of_join :: "bytes \<Rightarrow> device_join \<Rightarrow> handoff_token" where
  "handoff_of_join pk j =
     (let blob = join_blob pk (dj_joined_at j) (dj_device_id j)
      in \<lparr>ho_session_id = uuid_of (take 16 blob), ho_from_device = uuid_of (take 16 (drop 16 blob)),
          ho_to_device = uuid_of (take 16 (drop 32 blob)), ho_expires_at = word_of_nat (from_le (drop 48 blob)),
          ho_signature_b64 = dj_constellation_signature_b64 j\<rparr>)"

definition join_of_handoff :: "base64 \<Rightarrow> handoff_token \<Rightarrow> device_join" where
  "join_of_handoff B t =
     (let blob = handoff_blob (ho_session_id t) (ho_from_device t) (ho_to_device t) (ho_expires_at t)
      in \<lparr>dj_device_id = uuid_of (drop 40 blob), dj_device_pubkey_b64 = b64_encode B (take 32 blob),
          dj_joined_at = word_of_nat (from_le (take 8 (drop 32 blob))),
          dj_constellation_signature_b64 = ho_signature_b64 t\<rparr>)"

lemma handoff_blob_of_join:
  assumes "length pk = 32" "t = handoff_of_join pk j"
  shows "handoff_blob (ho_session_id t) (ho_from_device t) (ho_to_device t) (ho_expires_at t) = join_blob pk (dj_joined_at j) (dj_device_id j)"
proof -
  let ?b = "join_blob pk (dj_joined_at j) (dj_device_id j)"
  have l: "length ?b = 56" using assms(1) by (simp add: join_blob_def)
  have "handoff_blob (ho_session_id t) (ho_from_device t) (ho_to_device t) (ho_expires_at t) =
      take 16 ?b @ take 16 (drop 16 ?b) @ take 16 (drop 32 ?b) @ drop 48 ?b"
    using l by (simp add: assms(2) handoff_of_join_def handoff_blob_def Let_def uuid_bytes_of u64_bytes_of del: le_bytes.simps)
  also have "\<dots> = take 16 ?b @ take 16 (drop 16 ?b) @ take 16 (drop 16 (drop 16 ?b)) @ drop 16 (drop 16 (drop 16 ?b))" by simp
  also have "\<dots> = ?b" by (simp only: append_take_drop_id)
  finally show ?thesis .
qed

lemma join_blob_of_handoff:
  assumes "j = join_of_handoff B t" "blob = handoff_blob (ho_session_id t) (ho_from_device t) (ho_to_device t) (ho_expires_at t)"
  shows "join_blob (take 32 blob) (dj_joined_at j) (dj_device_id j) = blob"
proof -
  have l: "length blob = 56" by (simp add: assms(2) handoff_blob_def)
  have "join_blob (take 32 blob) (dj_joined_at j) (dj_device_id j) = take 32 blob @ take 8 (drop 32 blob) @ drop 40 blob"
    using l by (simp add: assms(1) join_of_handoff_def join_blob_def Let_def uuid_bytes_of u64_bytes_of flip: assms(2) del: le_bytes.simps)
  also have "\<dots> = take 32 blob @ take 8 (drop 32 blob) @ drop 8 (drop 32 blob)" by simp
  also have "\<dots> = blob" by (simp only: append_take_drop_id)
  finally show ?thesis .
qed

text \<open>
  Memberships and handovers can be mistaken for each other. The signature of every membership record
  is also a valid signature of a handover token that expires at a time taken from the device's random id,
  and every valid handover token is also a membership record that the constellation accepts, for a new
  device id and a public key made of the session and the outgoing device.\<close>

theorem signatures_confused:
  assumes "base64_correct B"
  shows "(join_signed E B (co_pubkey K) j \<longrightarrow>
      (\<exists>pk. b64_decode B (dj_device_pubkey_b64 j) = Some pk \<and>
        handoff_verify E B (ho_expires_at (handoff_of_join pk j)) (handoff_of_join pk j) (co_pubkey K) = Ok ())) \<and>
    (handoff_verify E B now t (co_pubkey K) = Ok () \<longrightarrow>
      (\<exists>K'. accept_join E B K (join_of_handoff B t) = (Ok (), K') \<and>
        co_members K' (dj_device_id (join_of_handoff B t)) = Some (join_of_handoff B t)))"
proof (intro conjI impI)
  assume "join_signed E B (co_pubkey K) j"
  then obtain pk sig where j: "b64_decode B (dj_device_pubkey_b64 j) = Some pk" "length pk = 32"
    "b64_decode B (dj_constellation_signature_b64 j) = Some sig" "length sig = 64"
    "ed_verify_strict E (co_pubkey K) (join_blob pk (dj_joined_at j) (dj_device_id j)) sig"
    by (auto simp: join_signed_def)
  have "ho_signature_b64 (handoff_of_join pk j) = dj_constellation_signature_b64 j" by (simp add: handoff_of_join_def Let_def)
  with j handoff_blob_of_join [OF j(2) refl, of j]
  show "\<exists>pk. b64_decode B (dj_device_pubkey_b64 j) = Some pk \<and>
      handoff_verify E B (ho_expires_at (handoff_of_join pk j)) (handoff_of_join pk j) (co_pubkey K) = Ok ()"
    by (simp add: handoff_verify_def)
next
  let ?j = "join_of_handoff B t" and ?blob = "handoff_blob (ho_session_id t) (ho_from_device t) (ho_to_device t) (ho_expires_at t)"
  assume "handoff_verify E B now t (co_pubkey K) = Ok ()"
  then obtain sig where s: "b64_decode B (ho_signature_b64 t) = Some sig" "length sig = 64"
    "ed_verify_strict E (co_pubkey K) ?blob sig"
    by (auto simp: handoff_verify_def split: if_splits option.splits)
  have "b64_decode B (dj_device_pubkey_b64 ?j) = Some (take 32 ?blob)" "dj_constellation_signature_b64 ?j = ho_signature_b64 t"
    using b64_decode_encode [OF assms] by (simp_all add: join_of_handoff_def Let_def)
  moreover have "length (take 32 ?blob) = 32" by (simp add: handoff_blob_def)
  ultimately have "join_signed E B (co_pubkey K) ?j"
    using s join_blob_of_handoff [OF refl refl, of t B] by (simp add: join_signed_def)
  then show "\<exists>K'. accept_join E B K ?j = (Ok (), K') \<and> co_members K' (dj_device_id ?j) = Some ?j"
    using accept_join_Ok [of E B K ?j] accept_join_iff [of E B K ?j] by (cases "accept_join E B K ?j") auto
qed

theorem signatures_confused_witness:
  "(\<exists>pk. b64_decode demo_base64 (dj_device_pubkey_b64 wit_join) = Some pk \<and>
     handoff_verify demo_ed25519 demo_base64 (ho_expires_at (handoff_of_join pk wit_join)) (handoff_of_join pk wit_join)
       (ed_verifying_key demo_ed25519 [7]) = Ok ()) \<and>
   (\<exists>K'. accept_join demo_ed25519 demo_base64 (constellation_new (ed_verifying_key demo_ed25519 [7]))
       (join_of_handoff demo_base64 (handoff_issue demo_ed25519 demo_base64 100 [7] 1 2 3 60)) = (Ok (), K'))"
proof -
  let ?K = "constellation_new (ed_verifying_key demo_ed25519 [7])"
  have k: "co_pubkey ?K = ed_verifying_key demo_ed25519 [7]" by (simp add: constellation_new_def)
  have "join_signed demo_ed25519 demo_base64 (co_pubkey ?K) wit_join"
    unfolding wit_join_def k by (rule issue_join_signed [OF demo_ed25519_correct demo_base64_correct]) simp
  moreover have "handoff_verify demo_ed25519 demo_base64 100 (handoff_issue demo_ed25519 demo_base64 100 [7] 1 2 3 60) (co_pubkey ?K) = Ok ()"
  proof -
    have "ho_expires_at (handoff_issue demo_ed25519 demo_base64 100 [7] 1 2 3 60) = 160"
      by (simp add: handoff_issue_def Let_def sat_add64_def MAX_HANDOFF_TTL_SECS_def)
    with handoff_roundtrip [OF demo_ed25519_correct demo_base64_correct _ refl, of 100 "[7]" 1 2 3 60 100]
    show ?thesis by (simp add: k)
  qed
  ultimately show ?thesis using signatures_confused [OF demo_base64_correct, of demo_ed25519 ?K wit_join 100
    "handoff_issue demo_ed25519 demo_base64 100 [7] 1 2 3 60"] unfolding k by blast
qed

end
