(* ===== verification/Nat_Traversal.thy ===== *)
theory Nat_Traversal
  imports Text_Bytes
begin

unbundle bit_operations_syntax

text \<open>
  Finding the public address and opening a UDP path (\<open>miru-transport/src/nat.rs\<close>): STUN requests and
  responses, the search over the STUN servers, hole punching and the guess of the NAT type.

  The network is what it delivers: the outcome of each request, and for hole punching the clock reading
  and the outcome of each receive.
\<close>

section \<open>STUN\<close>

definition STUN_SERVERS :: "string list" where
  "STUN_SERVERS = [''stun.l.google.com:19302'', ''stun1.l.google.com:19302'', ''stun.cloudflare.com:3478'', ''stun.nextcloud.com:443'']"

text \<open>An IPv4 socket address.\<close>

type_synonym sock_addr = "u32 \<times> u16"

definition stun_request :: "bytes \<Rightarrow> bytes" where
  "stun_request tx_id = be_bytes 2 1 @ be_bytes 2 0 @ be_bytes 4 0x2112A442 @ tx_id"

datatype stun_error = StunTooShort | StunNotFound | StunPanic | StunIo

text \<open>
  The search for the address attribute. An access past the end would panic; \<open>(n + 3) AND NOT 3\<close> rounds
  up to a multiple of four.
\<close>

definition align4 :: "nat \<Rightarrow> nat" where
  "align4 n = (n + 3) div 4 * 4"

definition be16_at :: "bytes \<Rightarrow> nat \<Rightarrow> nat option" where
  "be16_at buf i =
     (case (byte_at buf i, byte_at buf (i + 1)) of (Some a, Some b) \<Rightarrow> Some (256 * a + b) | _ \<Rightarrow> None)"

function stun_scan :: "bytes \<Rightarrow> nat \<Rightarrow> stun_error + sock_addr" where
  "stun_scan buf i =
     (if i + 4 \<le> length buf
      then (case (be16_at buf i, be16_at buf (i + 2)) of
              (Some attr_type, Some attr_len) \<Rightarrow>
                (let val_start = i + 4 in
                 if val_start + attr_len > length buf then Err StunNotFound
                 else if attr_type = 0x0020 \<and> attr_len \<ge> 4
                 then (case (byte_at buf (val_start + 1), be16_at buf (val_start + 2)) of
                         (Some family, Some xor_port) \<Rightarrow>
                           (if family = 1 \<and> attr_len \<ge> 8
                            then (case (be16_at buf (val_start + 4), be16_at buf (val_start + 6)) of
                                    (Some hi, Some lo) \<Rightarrow>
                                      Ok (word_of_nat (65536 * hi + lo) XOR 0x2112A442, word_of_nat xor_port XOR 0x2112)
                                  | _ \<Rightarrow> Err StunPanic)
                            else stun_scan buf (val_start + align4 attr_len))
                       | _ \<Rightarrow> Err StunPanic)
                 else stun_scan buf (val_start + align4 attr_len))
            | _ \<Rightarrow> Err StunPanic)
      else Err StunNotFound)"
  by pat_completeness auto
termination
  by (relation "measure (\<lambda>(buf, i). length buf - i)") auto

declare stun_scan.simps [simp del]

definition parse_stun_xor_mapped :: "bytes \<Rightarrow> stun_error + sock_addr" where
  "parse_stun_xor_mapped buf = (if length buf < 20 then Err StunTooShort else stun_scan buf 20)"

text \<open>A request: \<open>None\<close> is a failed send or receive or the time-out; a response is cut to 1024 bytes.\<close>

definition stun_binding_request :: "bytes option \<Rightarrow> stun_error + sock_addr" where
  "stun_binding_request response =
     (case response of None \<Rightarrow> Err StunIo | Some buf \<Rightarrow> parse_stun_xor_mapped (take 1024 buf))"

fun discover_loop :: "(string \<Rightarrow> bytes option) \<Rightarrow> string list \<Rightarrow> sock_addr option" where
  "discover_loop net [] = None"
| "discover_loop net (server # servers) =
     (case stun_binding_request (net server) of Inr addr \<Rightarrow> Some addr | Inl _ \<Rightarrow> discover_loop net servers)"

definition discover_public_addr :: "(string \<Rightarrow> bytes option) \<Rightarrow> sock_addr option" where
  "discover_public_addr net = discover_loop net STUN_SERVERS"

section \<open>NAT type\<close>

datatype nat_type = OpenNat | FullCone | Restricted | Symmetric | Cgnat | UnknownNat

fun is_punchable :: "nat_type \<Rightarrow> bool" where
  "is_punchable OpenNat = True"
| "is_punchable FullCone = True"
| "is_punchable Restricted = True"
| "is_punchable _ = False"

definition detect_nat_type :: "bool \<Rightarrow> (string \<Rightarrow> bytes option) \<Rightarrow> nat_type" where
  "detect_nat_type bind_ok net =
     (if \<not> bind_ok then UnknownNat
      else
        (case (stun_binding_request (net (STUN_SERVERS ! 0)), stun_binding_request (net (STUN_SERVERS ! 2))) of
           (Inr a, Inr b) \<Rightarrow> if snd a = snd b then FullCone else Symmetric
         | (Inr _, Inl _) \<Rightarrow> Restricted
         | (Inl _, Inr _) \<Rightarrow> Restricted
         | (Inl _, Inl _) \<Rightarrow> UnknownNat))"

section \<open>Hole punching\<close>

definition PUNCH :: bytes where
  "PUNCH = as_bytes ''MIRU-PUNCH''"

definition PUNCH_ACK :: bytes where
  "PUNCH_ACK = as_bytes ''MIRU-PUNCH-ACK''"

text \<open>One round: the clock at its start, and what came in: nothing (time-out or error) or a datagram.\<close>

type_synonym punch_round = "nat \<times> (sock_addr \<times> bytes) option"

datatype punch_result = Punched | PunchTimeout | PunchPending

text \<open>The packets sent and the result; \<open>PunchPending\<close> when the given rounds are used up.\<close>

fun punch_to_peer :: "nat \<Rightarrow> sock_addr \<Rightarrow> punch_round list \<Rightarrow> bytes list \<times> punch_result" where
  "punch_to_peer deadline peer [] = ([], PunchPending)"
| "punch_to_peer deadline peer ((now, input) # rounds) =
     (if now > deadline then ([], PunchTimeout)
      else
        (case input of
           None \<Rightarrow> (case punch_to_peer deadline peer rounds of (out, r) \<Rightarrow> (PUNCH # out, r))
         | Some (from, data) \<Rightarrow>
             (let payload = take 64 data in
              if from = peer \<and> payload = PUNCH then ([PUNCH, PUNCH_ACK], Punched)
              else if from = peer \<and> payload = PUNCH_ACK then ([PUNCH], Punched)
              else (case punch_to_peer deadline peer rounds of (out, r) \<Rightarrow> (PUNCH # out, r)))))"

section \<open>Responses are read safely\<close>

lemma be16_at_Some: "i + 2 \<le> length buf \<Longrightarrow> \<exists>n. be16_at buf i = Some n"
  by (simp add: be16_at_def byte_at_Some)

lemma stun_scan_safe: "stun_scan buf i \<noteq> Err StunPanic"
proof (induction buf i rule: stun_scan.induct)
  case (1 buf i)
  show ?case
  proof (cases "i + 4 \<le> length buf")
    case True
    then obtain ty n where a: "be16_at buf i = Some ty" "be16_at buf (i + 2) = Some n"
      using be16_at_Some [of i buf] be16_at_Some [of "i + 2" buf] by auto
    show ?thesis
    proof (cases "i + 4 + n > length buf")
      case False
      have eq: "stun_scan buf i =
        (if ty = 0x0020 \<and> n \<ge> 4
         then (case (byte_at buf (i + 4 + 1), be16_at buf (i + 4 + 2)) of
                 (Some family, Some xor_port) \<Rightarrow>
                   (if family = 1 \<and> n \<ge> 8
                    then (case (be16_at buf (i + 4 + 4), be16_at buf (i + 4 + 6)) of
                            (Some hi, Some lo) \<Rightarrow> Ok (word_of_nat (65536 * hi + lo) XOR 0x2112A442, word_of_nat xor_port XOR 0x2112)
                          | _ \<Rightarrow> Err StunPanic)
                    else stun_scan buf (i + 4 + align4 n))
               | _ \<Rightarrow> Err StunPanic)
         else stun_scan buf (i + 4 + align4 n))"
        using True a False by (subst stun_scan.simps) (simp add: Let_def)
      consider (short) "\<not> (ty = 0x0020 \<and> n \<ge> 4)" | (attr) "ty = 0x0020" "n \<ge> 4" by blast
      then show ?thesis
      proof cases
        case short
        with 1(2) [OF True refl a refl] False eq show ?thesis by simp
      next
        case attr
        then obtain f q where f: "byte_at buf (i + 4 + 1) = Some f" "be16_at buf (i + 4 + 2) = Some q"
          using False be16_at_Some [of "i + 4 + 2" buf] byte_at_Some [of "i + 4 + 1" buf] by auto
        show ?thesis
        proof (cases "f = 1 \<and> n \<ge> 8")
          case True
          then obtain h l where "be16_at buf (i + 4 + 4) = Some h" "be16_at buf (i + 4 + 6) = Some l"
            using False be16_at_Some [of "i + 4 + 4" buf] be16_at_Some [of "i + 4 + 6" buf] by auto
          with eq attr f True show ?thesis by simp
        next
          case f8: False
          have "stun_scan buf (i + 4 + align4 n) \<noteq> Err StunPanic"
            using 1(1) [OF True refl a refl False _ refl f] attr f8 by simp
          moreover have "stun_scan buf i = stun_scan buf (i + 4 + align4 n)" unfolding eq using attr f f8 by auto
          ultimately show ?thesis by simp
        qed
      qed
    qed (use True a in \<open>simp add: stun_scan.simps [of buf i] Let_def\<close>)
  qed (simp add: stun_scan.simps [of buf i])
qed

section \<open>Addresses are recovered\<close>

text \<open>
  The response of a server: a header, other attributes with their padding, and the mapped address.
\<close>

definition stun_attr :: "nat \<Rightarrow> bytes \<Rightarrow> bytes" where
  "stun_attr ty val = be_bytes 2 ty @ be_bytes 2 (length val) @ val @ replicate (align4 (length val) - length val) 0"

definition xor_mapped :: "sock_addr \<Rightarrow> bytes" where
  "xor_mapped a = stun_attr 0x0020 ([0, 1] @ be_bytes 2 (unat (snd a XOR 0x2112)) @ be_bytes 4 (unat (fst a XOR 0x2112A442)))"

lemma be_bytes_length [simp]: "length (be_bytes k n) = k"
  by (simp add: be_bytes_def)

lemma le_bytes_2: "le_bytes 2 n = [word_of_nat (n mod 256), word_of_nat (n div 256 mod 256)]"
  unfolding numeral_2_eq_2 by simp

lemma be_bytes_2: "n < 65536 \<Longrightarrow> \<exists>a b. be_bytes 2 n = [a, b] \<and> 256 * unat a + unat b = n"
  by (simp add: be_bytes_def le_bytes_2 unat_of_nat)

lemma be_bytes_4:
  assumes "n < 2 ^ 32"
  shows "\<exists>a b c d. be_bytes 4 n = [a, b, c, d] \<and> 65536 * (256 * unat a + unat b) + (256 * unat c + unat d) = n"
proof -
  have "\<exists>a b c d. xs = [a, b, c, d]" if "length xs = Suc (Suc (Suc (Suc 0)))" for xs :: bytes
    using that by (auto simp: length_Suc_conv)
  then obtain a b c d where l: "le_bytes 4 n = [d, c, b, a]" using le_bytes_length [of 4 n] by fastforce
  have "from_le [d, c, b, a] = n" using from_le_bytes [of n 4] assms unfolding l by simp
  then show ?thesis by (simp add: be_bytes_def l)
qed

text \<open>Reading inside a list that is put together of a prefix, the bytes read, and a rest.\<close>

lemma byte_at_app: "byte_at (pre @ b # post) (length pre) = Some (unat b)"
  by (simp add: byte_at_def)

lemma be16_at_app: "be16_at (pre @ a # b # post) (length pre) = Some (256 * unat a + unat b)"
  by (simp add: be16_at_def byte_at_def nth_append)

lemma be16_at_be:
  assumes "n < 65536"
  shows "be16_at (pre @ be_bytes 2 n @ post) (length pre) = Some n"
  using be_bytes_2 [OF assms] be16_at_app by auto

lemma align4_ge: "n \<le> align4 n"
  unfolding align4_def using div_mult_mod_eq [of "n + 3" 4] mod_less_divisor [of 4 "n + 3"] by linarith

lemma stun_attr_length: "length (stun_attr ty val) = 4 + align4 (length val)"
  using align4_ge [of "length val"] by (simp add: stun_attr_def)

text \<open>An attribute of another type is skipped.\<close>

lemma stun_skip:
  assumes "ty \<noteq> 0x0020" "ty < 65536" "length val < 65536"
  shows "stun_scan (pre @ stun_attr ty val @ post) (length pre) = stun_scan (pre @ stun_attr ty val @ post) (length (pre @ stun_attr ty val))"
proof -
  let ?pad = "replicate (align4 (length val) - length val) 0"
  let ?buf = "pre @ stun_attr ty val @ post"
  have 1: "be16_at ?buf (length pre) = Some ty"
    using be16_at_be [OF assms(2), of pre "be_bytes 2 (length val) @ val @ ?pad @ post"] by (simp add: stun_attr_def)
  have 2: "be16_at ?buf (length pre + 2) = Some (length val)"
    using be16_at_be [OF assms(3), of "pre @ be_bytes 2 ty" "val @ ?pad @ post"] by (simp add: stun_attr_def)
  have "length pre + 4 + length val \<le> length ?buf" by (simp add: stun_attr_def)
  with 1 2 assms(1) show ?thesis
    by (subst stun_scan.simps) (simp add: Let_def stun_attr_length ac_simps)
qed

lemma stun_found:
  "stun_scan (pre @ xor_mapped a @ post) (length pre) = Ok a"
proof -
  let ?p = "unat (snd a XOR 0x2112)" and ?ip = "unat (fst a XOR 0x2112A442)"
  have p: "?p < 65536" using unsigned_less [of "snd a XOR 0x2112", where 'a = nat] by simp
  have ip: "?ip < 2 ^ 32" using unsigned_less [of "fst a XOR 0x2112A442", where 'a = nat] by simp
  obtain a1 b1 where pb: "be_bytes 2 ?p = [a1, b1]" "256 * unat a1 + unat b1 = ?p" using be_bytes_2 [OF p] by auto
  obtain a2 b2 c2 d2 where ib: "be_bytes 4 ?ip = [a2, b2, c2, d2]" "65536 * (256 * unat a2 + unat b2) + (256 * unat c2 + unat d2) = ?ip"
    using be_bytes_4 [OF ip] by auto
  have x: "xor_mapped a = [0, 0x20, 0, 8, 0, 1, a1, b1, a2, b2, c2, d2]"
    by (simp add: xor_mapped_def stun_attr_def pb ib align4_def) (simp add: be_bytes_def le_bytes_2)
  let ?buf = "pre @ xor_mapped a @ post"
  have r: "be16_at ?buf (length pre) = Some 0x20" "be16_at ?buf (length pre + 2) = Some 8"
    "byte_at ?buf (length pre + 4 + 1) = Some 1" "be16_at ?buf (length pre + 4 + 2) = Some ?p"
    "be16_at ?buf (length pre + 4 + 4) = Some (256 * unat a2 + unat b2)" "be16_at ?buf (length pre + 4 + 6) = Some (256 * unat c2 + unat d2)"
    by (simp_all add: x be16_at_def byte_at_def nth_append pb(2))
  have "(word_of_nat ?ip XOR 0x2112A442, word_of_nat ?p XOR 0x2112) = a"
    by (cases a) (simp add: xor.assoc)
  then show ?thesis
    using r ib(2) x by (subst stun_scan.simps) (simp add: Let_def)
qed

lemma stun_scan_attrs:
  assumes "list_all (\<lambda>(ty, val). ty \<noteq> 0x0020 \<and> ty < 65536 \<and> length val < 65536) attrs"
  shows "stun_scan (pre @ concat (map (\<lambda>(ty, val). stun_attr ty val) attrs) @ xor_mapped a @ post) (length pre) = Ok a"
  using assms
proof (induction attrs arbitrary: pre)
  case Nil
  then show ?case by (simp add: stun_found)
next
  case (Cons x attrs)
  obtain ty val where x: "x = (ty, val)" by (cases x)
  have "stun_scan (pre @ stun_attr ty val @ concat (map (\<lambda>(ty, val). stun_attr ty val) attrs) @ xor_mapped a @ post) (length pre) =
    stun_scan ((pre @ stun_attr ty val) @ concat (map (\<lambda>(ty, val). stun_attr ty val) attrs) @ xor_mapped a @ post) (length (pre @ stun_attr ty val))"
    using stun_skip [of ty val pre "concat (map (\<lambda>(ty, val). stun_attr ty val) attrs) @ xor_mapped a @ post"] Cons.prems x by simp
  also have "\<dots> = Ok a" using Cons.IH [of "pre @ stun_attr ty val"] Cons.prems by simp
  finally show ?case using x by simp
qed

text \<open>
  STUN responses are read correctly: whatever bytes arrive, reading them never goes past the end; and
  a response that holds the mapped address after any other attributes, padded as the standard says,
  yields exactly that address and port.\<close>

theorem stun_response_read:
  assumes "length header = 20" "list_all (\<lambda>(ty, val). ty \<noteq> 0x0020 \<and> ty < 65536 \<and> length val < 65536) attrs"
  shows "parse_stun_xor_mapped buf \<noteq> Err StunPanic \<and>
    parse_stun_xor_mapped (header @ concat (map (\<lambda>(ty, val). stun_attr ty val) attrs) @ xor_mapped a @ post) = Ok a"
  using stun_scan_safe [of buf 20] stun_scan_attrs [OF assms(2), of header a post] assms(1)
  by (simp add: parse_stun_xor_mapped_def)

theorem stun_response_read_witness:
  "parse_stun_xor_mapped (replicate 20 0 @ stun_attr 0x8022 [1, 2, 3] @ xor_mapped (0xC0000201, 54321)) = Ok (0xC0000201, 54321)"
  using stun_response_read [of "replicate 20 0" "[(0x8022, [1, 2, 3])]" "[]" "(0xC0000201, 54321)" "[]"] by simp

section \<open>Hole punching\<close>

text \<open>Success means that the peer itself answered in time.\<close>

lemma punched_by_peer:
  assumes "punch_to_peer deadline peer rounds = (out, Punched)"
  shows "\<exists>now data. (now, Some (peer, data)) \<in> set rounds \<and> now \<le> deadline \<and> take 64 data \<in> {PUNCH, PUNCH_ACK}"
  using assms
proof (induction rounds arbitrary: out)
  case (Cons r rounds)
  obtain now input where r: "r = (now, input)" by (cases r)
  consider (now) data where "input = Some (peer, data)" "take 64 data \<in> {PUNCH, PUNCH_ACK}" "now \<le> deadline"
    | (later) out' where "punch_to_peer deadline peer rounds = (out', Punched)"
    using Cons.prems unfolding r by (auto simp: Let_def split: if_splits option.splits prod.splits)
  then show ?case using Cons.IH by cases (use r in auto)
qed simp

text \<open>
  A loop whose clock passes the deadline has ended: with enough rounds it is never left undecided.\<close>

lemma punch_ends:
  assumes "(now, input) \<in> set rounds" "deadline < now"
  shows "snd (punch_to_peer deadline peer rounds) \<noteq> PunchPending"
  using assms
  by (induction rounds) (auto simp: Let_def split: option.splits prod.splits if_splits)

end
