(* ===== verification/Discovery.thy ===== *)
theory Discovery
  imports Text_Bytes Constellation "HOL-Library.AList"
begin

unbundle bit_operations_syntax

text \<open>
  Peers on the local network (\<open>miru-discovery/src/lib.rs\<close>): what a device advertises, how an
  advertisement of another device is read, and the table of known peers. The mDNS daemon is the list of
  the services it resolves and removes; the table is an association list. Also the device ids of
  \<open>miru-common/src/session.rs\<close>.
\<close>

section \<open>Definitions\<close>

definition SERVICE_TYPE :: string where
  "SERVICE_TYPE = ''_miru._tcp.local.''"

definition MAX_PEERS :: nat where
  "MAX_PEERS = 256"

record local_advertisement =
  la_device_id :: string
  la_constellation_pubkey :: string
  la_friendly_name :: string
  la_form_factor :: form_factor
  la_port :: u16
  la_capabilities :: device_capabilities

record discovered_peer =
  pe_device_id :: string
  pe_constellation_pubkey :: string
  pe_friendly_name :: string
  pe_form_factor :: form_factor
  pe_addresses :: "string list"
  pe_port :: u16
  pe_last_seen :: nat
  pe_full_name :: string

text \<open>A resolved service, as the daemon reports it.\<close>

record service_info =
  si_properties :: "(string \<times> string) list"
  si_addresses :: "string list"
  si_port :: u16
  si_fullname :: string

fun form_tag :: "form_factor \<Rightarrow> string" where
  "form_tag Desktop = ''desktop''"
| "form_tag Laptop = ''laptop''"
| "form_tag Phone = ''phone''"
| "form_tag Tablet = ''tablet''"
| "form_tag Server = ''server''"
| "form_tag Embedded = ''embedded''"

definition advert_txt :: "local_advertisement \<Rightarrow> (string \<times> string) list" where
  "advert_txt a =
     [(''device_id'', la_device_id a), (''constellation'', la_constellation_pubkey a), (''name'', la_friendly_name a),
      (''form'', form_tag (la_form_factor a)), (''os'', dc_os_family (la_capabilities a))]"

text \<open>\<open>{:x}\<close>.\<close>

fun show_hex :: "nat \<Rightarrow> string" where
  "show_hex n = (if n < 16 then [hex_digit n] else show_hex (n div 16) @ [hex_digit (n mod 16)])"

declare show_hex.simps [simp del]

text \<open>The DNS label; \<open>hasher\<close> is the standard library's default hasher.\<close>

definition safe_id :: "(string \<Rightarrow> u64) \<Rightarrow> string \<Rightarrow> string" where
  "safe_id hasher device_id =
     (let s = map to_ascii_lower (take 12 (filter is_ascii_alphanumeric device_id))
      in if s = [] then show_hex (unat (hasher device_id AND 0xFFFFFFFF)) else s)"

definition instance_name :: "(string \<Rightarrow> u64) \<Rightarrow> string \<Rightarrow> string" where
  "instance_name hasher device_id = ''miru-'' @ safe_id hasher device_id"

definition parse_form :: "string option \<Rightarrow> form_factor" where
  "parse_form s =
     (case s of
        Some t \<Rightarrow>
          (if t = ''desktop'' then Desktop else if t = ''laptop'' then Laptop else if t = ''phone'' then Phone
           else if t = ''tablet'' then Tablet else if t = ''server'' then Server else if t = ''embedded'' then Embedded
           else Desktop)
      | None \<Rightarrow> Desktop)"

text \<open>\<open>parse_peer\<close>; of two properties with one key the later counts.\<close>

definition parse_peer :: "nat \<Rightarrow> service_info \<Rightarrow> discovered_peer option" where
  "parse_peer now info =
     (let txt = map_of (rev (si_properties info)) in
      case txt ''device_id'' of
        None \<Rightarrow> None
      | Some device_id \<Rightarrow>
          if device_id = [] \<or> length device_id > 32 then None
          else
            Some \<lparr>pe_device_id = device_id,
              pe_constellation_pubkey = take_chars 128 (case txt ''constellation'' of None \<Rightarrow> [] | Some c \<Rightarrow> c),
              pe_friendly_name = take_chars 64 (case txt ''name'' of None \<Rightarrow> [] | Some n \<Rightarrow> n),
              pe_form_factor = parse_form (txt ''form''), pe_addresses = si_addresses info, pe_port = si_port info,
              pe_last_seen = now, pe_full_name = si_fullname info\<rparr>)"

type_synonym peer_table = "(string \<times> discovered_peer) list"

datatype service_event = ServiceResolved service_info | ServiceRemoved string | OtherServiceEvent

fun on_service_event :: "string \<Rightarrow> nat \<Rightarrow> peer_table \<Rightarrow> service_event \<Rightarrow> peer_table" where
  "on_service_event our_id now peers (ServiceResolved info) =
     (case parse_peer now info of
        None \<Rightarrow> peers
      | Some peer \<Rightarrow>
          if pe_device_id peer = our_id then peers
          else if length peers \<ge> MAX_PEERS \<and> map_of peers (pe_device_id peer) = None then peers
          else AList.update (pe_device_id peer) peer peers)"
| "on_service_event our_id now peers (ServiceRemoved full_name) = filter (\<lambda>(_, p). pe_full_name p \<noteq> full_name) peers"
| "on_service_event our_id now peers OtherServiceEvent = peers"

definition peer_snapshot :: "string option \<Rightarrow> peer_table \<Rightarrow> discovered_peer list" where
  "peer_snapshot constellation peers =
     filter (\<lambda>p. case constellation of None \<Rightarrow> True | Some c \<Rightarrow> pe_constellation_pubkey p = c) (map snd peers)"

definition prune_stale :: "nat \<Rightarrow> nat \<Rightarrow> peer_table \<Rightarrow> peer_table" where
  "prune_stale now older_than peers = filter (\<lambda>(_, p). now - pe_last_seen p < older_than) peers"

text \<open>What happens to the table: an event of the daemon, or a user asking for stale peers to go.\<close>

datatype table_op = TableEvent service_event | TablePrune nat

fun table_step :: "string \<Rightarrow> peer_table \<Rightarrow> nat \<times> table_op \<Rightarrow> peer_table" where
  "table_step our_id peers (now, TableEvent ev) = on_service_event our_id now peers ev"
| "table_step our_id peers (now, TablePrune older) = prune_stale now older peers"

text \<open>\<open>DeviceId::new\<close>, from the hexadecimal form of a UUID.\<close>

definition device_id_new :: "uuid \<Rightarrow> string" where
  "device_id_new u = (let s = map to_ascii_upper (take 8 (hex_encode (uuid_bytes u))) in take 4 s @ ''-'' @ drop 4 s)"

section \<open>The table stays bounded\<close>

definition peer_ok :: "string \<Rightarrow> string \<times> discovered_peer \<Rightarrow> bool" where
  "peer_ok our_id e \<longleftrightarrow> fst e = pe_device_id (snd e) \<and> fst e \<noteq> our_id \<and> fst e \<noteq> [] \<and> length (fst e) \<le> 32 \<and>
     chars_count (pe_friendly_name (snd e)) \<le> 64 \<and> chars_count (pe_constellation_pubkey (snd e)) \<le> 128"

definition table_ok :: "string \<Rightarrow> peer_table \<Rightarrow> bool" where
  "table_ok our_id peers \<longleftrightarrow> distinct (map fst peers) \<and> length peers \<le> MAX_PEERS \<and> list_all (peer_ok our_id) peers"

lemma parse_peer_ok:
  assumes "parse_peer now info = Some p" "pe_device_id p \<noteq> our_id"
  shows "peer_ok our_id (pe_device_id p, p)"
  using assms take_chars_count by (auto simp: parse_peer_def peer_ok_def Let_def split: option.splits if_splits)

lemma table_ok_filter: "table_ok our_id peers \<Longrightarrow> table_ok our_id (filter Q peers)"
  by (auto simp: table_ok_def list_all_iff distinct_map_filter intro: le_trans [OF length_filter_le])

lemma table_ok_update:
  assumes "table_ok our_id peers" "peer_ok our_id (k, p)" "length peers < MAX_PEERS \<or> map_of peers k \<noteq> None"
  shows "table_ok our_id (AList.update k p peers)"
proof -
  have "distinct (map fst (AList.update k p peers))" using assms(1) by (simp add: table_ok_def distinct_update)
  moreover have "length (AList.update k p peers) \<le> MAX_PEERS" using assms(1,3) by (auto simp: length_alist_update table_ok_def map_of_eq_None_iff)
  moreover have "list_all (peer_ok our_id) (AList.update k p peers)"
    using assms(1,2) set_alist_update [of k p peers] by (auto simp: table_ok_def list_all_iff)
  ultimately show ?thesis by (simp add: table_ok_def)
qed

lemma table_ok_step: "table_ok our_id peers \<Longrightarrow> table_ok our_id (table_step our_id peers e)"
proof (induction our_id peers e rule: table_step.induct)
  case (1 our_id peers now ev)
  show ?case
  proof (cases ev)
    case (ServiceResolved info)
    show ?thesis
    proof (cases "parse_peer now info")
      case (Some p)
      then show ?thesis
        using 1 ServiceResolved table_ok_update [OF 1 parse_peer_ok [OF Some]] by (auto simp: not_le)
    qed (use 1 ServiceResolved in simp)
  qed (use 1 table_ok_filter in auto)
next
  case (2 our_id peers now older)
  then show ?case by (simp add: prune_stale_def table_ok_filter)
qed

text \<open>
  A flood of advertisements stays bounded: whatever services are announced, removed and pruned, in
  every order, the table has at most 256 peers with distinct ids, never this device itself, and no id
  longer than 32 bytes, no name longer than 64 characters and no key text longer than 128 is kept.\<close>

theorem peer_table_bounded:
  assumes "peers = foldl (table_step our_id) [] ops"
  shows "distinct (map fst peers) \<and> length peers \<le> 256 \<and>
    (\<forall>p \<in> set (peer_snapshot c peers). pe_device_id p \<noteq> our_id \<and> length (pe_device_id p) \<le> 32 \<and>
       chars_count (pe_friendly_name p) \<le> 64 \<and> chars_count (pe_constellation_pubkey p) \<le> 128)"
proof -
  have "table_ok our_id (foldl (table_step our_id) t ops)" if "table_ok our_id t" for t
    using that by (induction ops arbitrary: t) (simp_all add: table_ok_step)
  then have "table_ok our_id peers" unfolding assms by (simp add: table_ok_def)
  then show ?thesis
    by (fastforce simp: table_ok_def MAX_PEERS_def peer_snapshot_def list_all_iff peer_ok_def)
qed

definition wit_service :: service_info where
  "wit_service = \<lparr>si_properties = [(''device_id'', ''AB''), (''name'', ''pc'')], si_addresses = [''10.0.0.2''], si_port = 1,
     si_fullname = ''miru-ab._miru._tcp.local.''\<rparr>"

theorem peer_table_bounded_witness:
  "\<exists>p. foldl (table_step ''ME'') [] [(5, TableEvent (ServiceResolved wit_service)), (6, TablePrune 60)] = [(''AB'', p)] \<and>
     length (pe_device_id p) \<le> 32 \<and> chars_count (pe_friendly_name p) \<le> 64"
proof -
  obtain p where p: "foldl (table_step ''ME'') [] [(5, TableEvent (ServiceResolved wit_service)), (6, TablePrune 60)] = [(''AB'', p)]"
    by (simp add: parse_peer_def wit_service_def Let_def MAX_PEERS_def prune_stale_def)
  from peer_table_bounded [OF p [symmetric], of None] p show ?thesis by (simp add: peer_snapshot_def)
qed

section \<open>Advertisements are understood\<close>

lemma parse_form_tag: "parse_form (Some (form_tag f)) = f"
  by (cases f) (simp_all add: parse_form_def)


lemma length_utf8_chars: "length (utf8_chars s) \<le> length s"
  by (induction s rule: utf8_chars.induct) (auto intro: le_trans [OF _ length_dropWhile_le])

lemma take_chars_all: "length s \<le> n \<Longrightarrow> take_chars n s = s"
  using length_utf8_chars [of s] by (simp add: take_chars_def)

text \<open>
  Devices understand each other's advertisements: a device whose id has 1 to 32 bytes, and whose name
  and key text fit the limits, is entered by every other device with exactly the id, name, key, form
  factor and port it advertises.\<close>

theorem advertisement_roundtrip:
  assumes "la_device_id a \<noteq> []" "length (la_device_id a) \<le> 32" "length (la_friendly_name a) \<le> 64"
    and "length (la_constellation_pubkey a) \<le> 128" "la_device_id a \<noteq> our_id" "length peers < MAX_PEERS"
    and "info = \<lparr>si_properties = advert_txt a, si_addresses = addrs, si_port = la_port a, si_fullname = fullname\<rparr>"
  shows "map_of (on_service_event our_id now peers (ServiceResolved info)) (la_device_id a) =
    Some \<lparr>pe_device_id = la_device_id a, pe_constellation_pubkey = la_constellation_pubkey a,
      pe_friendly_name = la_friendly_name a, pe_form_factor = la_form_factor a, pe_addresses = addrs,
      pe_port = la_port a, pe_last_seen = now, pe_full_name = fullname\<rparr>"
proof -
  have props: "map_of (rev (advert_txt a)) ''device_id'' = Some (la_device_id a)"
    "map_of (rev (advert_txt a)) ''constellation'' = Some (la_constellation_pubkey a)"
    "map_of (rev (advert_txt a)) ''name'' = Some (la_friendly_name a)"
    "map_of (rev (advert_txt a)) ''form'' = Some (form_tag (la_form_factor a))"
    by (simp_all add: advert_txt_def)
  show ?thesis using assms(1-6)
    by (simp add: assms(7) parse_peer_def props Let_def take_chars_all parse_form_tag update_conv' not_le [symmetric])
qed

definition wit_advert :: local_advertisement where
  "wit_advert = \<lparr>la_device_id = ''ABCD-1234'', la_constellation_pubkey = ''k'', la_friendly_name = ''pc'', la_form_factor = Tablet,
     la_port = 21116, la_capabilities = dp_capabilities wit_presence\<rparr>"

theorem advertisement_roundtrip_witness:
  "map_option pe_form_factor (map_of (on_service_event ''ME'' 9 [] (ServiceResolved \<lparr>si_properties = advert_txt wit_advert,
     si_addresses = [], si_port = 21116, si_fullname = ''f''\<rparr>)) ''ABCD-1234'') = Some Tablet"
  using advertisement_roundtrip [of wit_advert "''ME''" "[]" _ "[]" "''f''" 9, OF _ _ _ _ _ _ refl]
  by (simp add: wit_advert_def MAX_PEERS_def)

text \<open>Generated ids are accepted: nine bytes, so within the limit of 32.\<close>

lemma device_id_new_length: "length (device_id_new u) = 9"
  by (simp add: device_id_new_def Let_def hex_encode_length)

end
