(* ===== verification/Frames.thy ===== *)
theory Frames
  imports Text_Bytes Messages
begin

text \<open>
  Captured and decoded pictures: the colour arithmetic (\<open>miru-codec/src/color.rs\<close>), the conversions to
  planar YUV (\<open>miru-host/src/capture_loop.rs\<close>, \<open>miru-codec/src/decoder.rs\<close>) and back
  (\<open>miru-codec/src/jpeg.rs\<close>), the codec lists (\<open>miru-codec/src/lib.rs\<close>, \<open>hw.rs\<close>), the checks of the
  JPEG encoder (\<open>encoder.rs\<close>) and the capture loop. A read or write past the end of a buffer panics.

  Compression itself (libvpx, FFmpeg, the \<open>image\<close> crate) is a parameter.
\<close>

section \<open>Colour arithmetic\<close>

text \<open>All sums stay far below \<open>2 ^ 31\<close>; the arithmetic shift is the division that rounds down.\<close>

definition clampi :: "int \<Rightarrow> int \<Rightarrow> int \<Rightarrow> int" where
  "clampi lo hi x = (if x < lo then lo else if x > hi then hi else x)"

definition bt601_y :: "int \<Rightarrow> int \<Rightarrow> int \<Rightarrow> byte" where
  "bt601_y r g b = word_of_int (clampi 16 235 ((66 * r + 129 * g + 25 * b + 128) div 256 + 16))"

definition bt601_uv :: "int \<Rightarrow> int \<Rightarrow> int \<Rightarrow> byte \<times> byte" where
  "bt601_uv r g b =
     (let cb = (- 38 * r - 74 * g + 112 * b + 128) div 256 + 128;
          cr = (112 * r - 94 * g - 18 * b + 128) div 256 + 128
      in (word_of_int (clampi 16 240 cb), word_of_int (clampi 16 240 cr)))"

section \<open>Captured frames\<close>

datatype pixel_format = Bgra32 | Nv12 | I420 | Rgba32

record raw_frame =
  rf_display_idx :: u8
  rf_width :: u32
  rf_height :: u32
  rf_stride :: u32
  rf_format :: pixel_format
  rf_data :: bytes
  rf_timestamp_ms :: u64

text \<open>Writes into a plane, and into the two chroma planes at the same index; a failed read is \<open>Inl\<close>.\<close>

fun write_all :: "(index_panic + nat \<times> byte) list \<Rightarrow> bytes \<Rightarrow> index_panic + bytes" where
  "write_all [] p = Ok p"
| "write_all (Inl e # ws) p = Err e"
| "write_all (Inr (i, v) # ws) p = (if i < length p then write_all ws (p[i := v]) else Err IndexPanic)"

fun write_uv :: "(index_panic + nat \<times> byte \<times> byte) list \<Rightarrow> bytes \<Rightarrow> bytes \<Rightarrow> index_panic + bytes \<times> bytes" where
  "write_uv [] u v = Ok (u, v)"
| "write_uv (Inl e # ws) u v = Err e"
| "write_uv (Inr (i, a, b) # ws) u v =
     (if i < length u \<and> i < length v then write_uv ws (u[i := a]) (v[i := b]) else Err IndexPanic)"

text \<open>\<open>(0..n).step_by(2)\<close>.\<close>

definition step_by_2 :: "nat \<Rightarrow> nat list" where
  "step_by_2 n = map (\<lambda>k. 2 * k) [0..<(n + 1) div 2]"

definition y_write :: "bytes \<Rightarrow> nat \<Rightarrow> nat \<Rightarrow> nat \<Rightarrow> nat \<Rightarrow> nat \<Rightarrow> nat \<Rightarrow> nat \<Rightarrow> index_panic + nat \<times> byte" where
  "y_write src stride w r_off g_off b_off row col =
     (let i = row * stride + col * 4 in
      case (byte_at src (i + r_off), byte_at src (i + g_off), byte_at src (i + b_off)) of
        (Some r, Some g, Some b) \<Rightarrow> Ok (row * w + col, bt601_y (int r) (int g) (int b))
      | _ \<Rightarrow> Err IndexPanic)"

definition block_avg :: "bytes \<Rightarrow> nat \<Rightarrow> nat \<Rightarrow> nat \<Rightarrow> nat \<Rightarrow> nat \<Rightarrow> nat \<Rightarrow> int option" where
  "block_avg src stride r0 r1 c0 c1 off =
     (case (byte_at src (r0 * stride + c0 * 4 + off), byte_at src (r0 * stride + c1 * 4 + off),
            byte_at src (r1 * stride + c0 * 4 + off), byte_at src (r1 * stride + c1 * 4 + off)) of
        (Some a, Some b, Some c, Some d) \<Rightarrow> Some (int (a + b + c + d) div 4)
      | _ \<Rightarrow> None)"

definition uv_write :: "bytes \<Rightarrow> nat \<Rightarrow> nat \<Rightarrow> nat \<Rightarrow> nat \<Rightarrow> nat \<Rightarrow> nat \<Rightarrow> nat \<Rightarrow> nat \<Rightarrow> index_panic + nat \<times> byte \<times> byte" where
  "uv_write src stride w h r_off g_off b_off row col =
     (let r1 = min (row + 1) (h - 1); c1 = min (col + 1) (w - 1);
          avg = block_avg src stride row r1 col c1
      in case (avg r_off, avg g_off, avg b_off) of
           (Some r, Some g, Some b) \<Rightarrow> (let (u, v) = bt601_uv r g b in Ok ((row div 2) * (w div 2) + col div 2, u, v))
         | _ \<Rightarrow> Err IndexPanic)"

definition packed32_to_i420 :: "raw_frame \<Rightarrow> nat \<Rightarrow> nat \<Rightarrow> nat \<Rightarrow> index_panic + bytes" where
  "packed32_to_i420 f r_off g_off b_off =
     (let w = unat (rf_width f); h = unat (rf_height f); src = rf_data f; stride = unat (rf_stride f);
          y_size = w * h; uv_size = (w div 2) * (h div 2)
      in case write_all (concat (map (\<lambda>row. map (y_write src stride w r_off g_off b_off row) [0..<w]) [0..<h])) (replicate y_size 0) of
           Inl e \<Rightarrow> Err e
         | Inr y_plane \<Rightarrow>
             (case write_uv (concat (map (\<lambda>row. map (uv_write src stride w h r_off g_off b_off row) (step_by_2 w)) (step_by_2 h)))
                     (replicate uv_size 0) (replicate uv_size 0) of
                Inl e \<Rightarrow> Err e
              | Inr (u_plane, v_plane) \<Rightarrow> Ok (y_plane @ u_plane @ v_plane)))"

definition bgra_to_i420 :: "raw_frame \<Rightarrow> index_panic + bytes" where
  "bgra_to_i420 f = packed32_to_i420 f 2 1 0"

definition rgba_to_i420 :: "raw_frame \<Rightarrow> index_panic + bytes" where
  "rgba_to_i420 f = packed32_to_i420 f 0 1 2"

text \<open>The results of a list of computations, the first panic otherwise.\<close>

fun collect :: "(index_panic + 'a) list \<Rightarrow> index_panic + 'a list" where
  "collect [] = Ok []"
| "collect (Inl e # xs) = Err e"
| "collect (Inr x # xs) = (case collect xs of Inl e \<Rightarrow> Err e | Inr ys \<Rightarrow> Ok (x # ys))"

text \<open>The rows of the luma plane are copied one after the other; the chroma bytes are taken apart.\<close>

definition nv12_to_i420 :: "raw_frame \<Rightarrow> index_panic + bytes" where
  "nv12_to_i420 f =
     (let w = unat (rf_width f); h = unat (rf_height f); stride = unat (rf_stride f); src = rf_data f;
          uv_w = w div 2; uv_h = h div 2
      in case collect (map (\<lambda>row. if row * stride + w \<le> length src then Ok (take w (drop (row * stride) src)) else Err IndexPanic) [0..<h]) of
           Inl e \<Rightarrow> Err e
         | Inr rows \<Rightarrow>
             if stride * h > length src then Err IndexPanic
             else
               (let uv = drop (stride * h) src in
                case write_uv
                       (concat (map (\<lambda>row. map (\<lambda>col.
                          if row * stride > length uv then Err IndexPanic
                          else (let src_row = drop (row * stride) uv in
                                if col * 2 + 1 < length src_row then Ok (row * uv_w + col, src_row ! (col * 2), src_row ! (col * 2 + 1))
                                else Err IndexPanic)) [0..<uv_w]) [0..<uv_h]))
                       (replicate (uv_w * uv_h) 0) (replicate (uv_w * uv_h) 0) of
                  Inl e \<Rightarrow> Err e
                | Inr (u, v) \<Rightarrow> Ok (concat rows @ u @ v)))"

definition frame_to_i420 :: "raw_frame \<Rightarrow> index_panic + bytes" where
  "frame_to_i420 f =
     (case rf_format f of
        I420 \<Rightarrow> Ok (rf_data f) | Bgra32 \<Rightarrow> bgra_to_i420 f | Nv12 \<Rightarrow> nv12_to_i420 f | Rgba32 \<Rightarrow> rgba_to_i420 f)"

section \<open>Decoded pictures\<close>

text \<open>A decoded RGB image of the given size is the function of column and row that \<open>get_pixel\<close> is.\<close>

type_synonym rgb_image = "nat \<Rightarrow> nat \<Rightarrow> byte \<times> byte \<times> byte"

definition chan :: "nat \<Rightarrow> byte \<times> byte \<times> byte \<Rightarrow> int" where
  "chan c px = (case px of (r, g, b) \<Rightarrow> uint (if c = 0 then r else if c = 1 then g else b))"

definition rgb_avg :: "rgb_image \<Rightarrow> nat \<Rightarrow> nat \<Rightarrow> nat \<Rightarrow> nat \<Rightarrow> nat \<Rightarrow> int" where
  "rgb_avg rgb x0 x1 y0 y1 c =
     (chan c (rgb x0 y0) + chan c (rgb x1 y0) + chan c (rgb x0 y1) + chan c (rgb x1 y1)) div 4"

definition rgb_to_i420 :: "rgb_image \<Rightarrow> nat \<Rightarrow> nat \<Rightarrow> bytes \<times> bytes \<times> bytes" where
  "rgb_to_i420 rgb w h =
     (let y = concat (map (\<lambda>row. map (\<lambda>col. bt601_y (chan 0 (rgb col row)) (chan 1 (rgb col row)) (chan 2 (rgb col row))) [0..<w]) [0..<h]);
          uv = concat (map (\<lambda>row. map (\<lambda>col.
                 (let x0 = col * 2; y0 = row * 2; x1 = min (x0 + 1) (w - 1); y1 = min (y0 + 1) (h - 1); avg = rgb_avg rgb x0 x1 y0 y1
                  in bt601_uv (avg 0) (avg 1) (avg 2))) [0..<w div 2]) [0..<h div 2])
      in (y, map fst uv, map snd uv))"

text \<open>Back to packed RGB. The three bytes of a pixel are written at three times its number.\<close>

definition rgb_pixel :: "byte \<Rightarrow> byte \<Rightarrow> byte \<Rightarrow> bytes" where
  "rgb_pixel y u v =
     (let c = uint y - 16; d = uint u - 128; e = uint v - 128
      in [word_of_int (clampi 0 255 ((298 * c + 409 * e + 128) div 256)),
          word_of_int (clampi 0 255 ((298 * c - 100 * d - 208 * e + 128) div 256)),
          word_of_int (clampi 0 255 ((298 * c + 516 * d + 128) div 256))])"

definition rgb_at :: "bytes \<Rightarrow> bytes \<Rightarrow> bytes \<Rightarrow> nat \<Rightarrow> nat \<Rightarrow> nat \<Rightarrow> index_panic + bytes" where
  "rgb_at y_plane u_plane v_plane w row col =
     (let i = row * w + col; uv_idx = (row div 2) * (w div 2) + col div 2 in
      if i < length y_plane \<and> uv_idx < length u_plane \<and> uv_idx < length v_plane
      then Ok (rgb_pixel (y_plane ! i) (u_plane ! uv_idx) (v_plane ! uv_idx))
      else Err IndexPanic)"

definition i420_planes_to_rgb :: "bytes \<Rightarrow> bytes \<Rightarrow> bytes \<Rightarrow> nat \<Rightarrow> nat \<Rightarrow> index_panic + bytes" where
  "i420_planes_to_rgb y_plane u_plane v_plane w h =
     (let uv_needed = (w div 2) * (h div 2) in
      if length y_plane < w * h \<or> length u_plane < uv_needed \<or> length v_plane < uv_needed then Ok []
      else map_sum id concat (collect (concat (map (\<lambda>row. map (rgb_at y_plane u_plane v_plane w row) [0..<w]) [0..<h]))))"

section \<open>Loops over a picture\<close>

lemma concat_rows:
  "concat (map (\<lambda>r. map (g r) [0..<w]) [0..<h]) = map (\<lambda>k. g (k div w) (k mod w)) [0..<h * w]"
proof (induction h)
  case (Suc h)
  have "map (g h) [0..<w] = map (\<lambda>k. g (k div w) (k mod w)) [h * w..<Suc h * w]"
    by (rule nth_equalityI) (simp_all add: add.commute)
  moreover have "[0..<Suc h * w] = [0..<h * w] @ [h * w..<Suc h * w]"
    using upt_add_eq_append [of 0 "h * w" w] by (simp add: add.commute)
  ultimately show ?case using Suc by simp
qed simp

lemma write_all_seq:
  "m \<le> n \<Longrightarrow> length p = n \<Longrightarrow> take m p = map f [0..<m] \<Longrightarrow>
   write_all (map (\<lambda>k. Ok (k, f k)) [m..<n]) p = Ok (map f [0..<n])"
proof (induction "n - m" arbitrary: m p)
  case 0
  then show ?case by simp
next
  case (Suc d)
  then have "m < n" by simp
  then have "[m..<n] = m # [Suc m..<n]" by (simp add: upt_conv_Cons)
  moreover have "take (Suc m) (p[m := f m]) = map f [0..<Suc m]"
    using Suc.prems \<open>m < n\<close> by (simp add: take_Suc_conv_app_nth)
  ultimately show ?case using Suc.hyps(1) [of "Suc m" "p[m := f m]"] Suc.hyps(2) Suc.prems(2) \<open>m < n\<close> by simp
qed

lemma write_uv_seq:
  "m \<le> n \<Longrightarrow> length p = n \<Longrightarrow> length q = n \<Longrightarrow> take m p = map f [0..<m] \<Longrightarrow> take m q = map g [0..<m] \<Longrightarrow>
   write_uv (map (\<lambda>k. Ok (k, f k, g k)) [m..<n]) p q = Ok (map f [0..<n], map g [0..<n])"
proof (induction "n - m" arbitrary: m p q)
  case 0
  then show ?case by simp
next
  case (Suc d)
  then have "m < n" by simp
  then have "[m..<n] = m # [Suc m..<n]" by (simp add: upt_conv_Cons)
  moreover have "take (Suc m) (p[m := f m]) = map f [0..<Suc m]" "take (Suc m) (q[m := g m]) = map g [0..<Suc m]"
    using Suc.prems \<open>m < n\<close> by (simp_all add: take_Suc_conv_app_nth)
  ultimately show ?case
    using Suc.hyps(1) [of "Suc m" "p[m := f m]" "q[m := g m]"] Suc.hyps(2) Suc.prems(2,3) \<open>m < n\<close> by simp
qed

text \<open>One write out of range is enough for a panic.\<close>

lemma write_uv_panic:
  "Ok (i, a, b) \<in> set ws \<Longrightarrow> length u \<le> i \<Longrightarrow> write_uv ws u v = Err IndexPanic"
proof (induction ws u v rule: write_uv.induct)
  case (2 e ws u v)
  show ?case by (cases e) simp
qed auto

lemma step_by_2_even: "even n \<Longrightarrow> step_by_2 n = map (\<lambda>k. 2 * k) [0..<n div 2]"
  by (simp add: step_by_2_def)

section \<open>Packed frames\<close>

text \<open>The rows of the picture lie inside the buffer.\<close>

definition frame_fits :: "raw_frame \<Rightarrow> bool" where
  "frame_fits f \<longleftrightarrow>
     (unat (rf_height f) - 1) * unat (rf_stride f) + unat (rf_width f) * 4 \<le> length (rf_data f) \<and>
     unat (rf_width f) * 4 \<le> unat (rf_stride f)"

text \<open>The picture in a packed buffer.\<close>

definition frame_image :: "raw_frame \<Rightarrow> nat \<Rightarrow> nat \<Rightarrow> nat \<Rightarrow> rgb_image" where
  "frame_image f r_off g_off b_off col row =
     (let i = row * unat (rf_stride f) + col * 4 in (rf_data f ! (i + r_off), rf_data f ! (i + g_off), rf_data f ! (i + b_off)))"

lemma pixel_inside:
  assumes "frame_fits f" "row < unat (rf_height f)" "col < unat (rf_width f)" "off < 4"
  shows "row * unat (rf_stride f) + col * 4 + off < length (rf_data f)"
proof -
  have "row * unat (rf_stride f) \<le> (unat (rf_height f) - 1) * unat (rf_stride f)"
    by (rule mult_le_mono1) (use assms(2) in simp)
  with assms show ?thesis unfolding frame_fits_def by linarith
qed

lemma y_write_Ok:
  assumes "frame_fits f" "row < unat (rf_height f)" "col < unat (rf_width f)" "r_off < 4" "g_off < 4" "b_off < 4"
  shows "y_write (rf_data f) (unat (rf_stride f)) w r_off g_off b_off row col =
    (let px = frame_image f r_off g_off b_off col row in Ok (row * w + col, bt601_y (chan 0 px) (chan 1 px) (chan 2 px)))"
  using pixel_inside [OF assms(1-3,4)] pixel_inside [OF assms(1-3,5)] pixel_inside [OF assms(1-3,6)]
  by (simp add: y_write_def byte_at_Some frame_image_def chan_def Let_def)

lemma block_avg_Some:
  assumes "frame_fits f" "r0 < unat (rf_height f)" "r1 < unat (rf_height f)" "c0 < unat (rf_width f)" "c1 < unat (rf_width f)" "off < 4"
  shows "block_avg (rf_data f) (unat (rf_stride f)) r0 r1 c0 c1 off =
    Some ((uint (rf_data f ! (r0 * unat (rf_stride f) + c0 * 4 + off)) + uint (rf_data f ! (r0 * unat (rf_stride f) + c1 * 4 + off)) +
      uint (rf_data f ! (r1 * unat (rf_stride f) + c0 * 4 + off)) + uint (rf_data f ! (r1 * unat (rf_stride f) + c1 * 4 + off))) div 4)"
  using pixel_inside [OF assms(1,2,4,6)] pixel_inside [OF assms(1,2,5,6)] pixel_inside [OF assms(1,3,4,6)] pixel_inside [OF assms(1,3,5,6)]
  by (simp add: block_avg_def byte_at_Some)

lemma uv_write_Ok:
  assumes "frame_fits f" "row < unat (rf_height f)" "col < unat (rf_width f)" "r_off < 4" "g_off < 4" "b_off < 4"
  shows "uv_write (rf_data f) (unat (rf_stride f)) (unat (rf_width f)) (unat (rf_height f)) r_off g_off b_off row col =
    (let x1 = min (col + 1) (unat (rf_width f) - 1); y1 = min (row + 1) (unat (rf_height f) - 1);
         avg = rgb_avg (frame_image f r_off g_off b_off) col x1 row y1
     in Ok ((row div 2) * (unat (rf_width f) div 2) + col div 2, bt601_uv (avg 0) (avg 1) (avg 2)))"
proof -
  let ?x1 = "min (col + 1) (unat (rf_width f) - 1)" and ?y1 = "min (row + 1) (unat (rf_height f) - 1)"
  have 1: "?y1 < unat (rf_height f)" "?x1 < unat (rf_width f)" using assms(2,3) by auto
  note a = block_avg_Some [OF assms(1,2) 1(1) assms(3) 1(2)]
  show ?thesis
    unfolding uv_write_def Let_def a [OF assms(4)] a [OF assms(5)] a [OF assms(6)]
    by (simp add: rgb_avg_def chan_def frame_image_def Let_def split: prod.split)
qed

lemma y_plane_eq:
  assumes "frame_fits f" "r_off < 4" "g_off < 4" "b_off < 4" "w = unat (rf_width f)" "h = unat (rf_height f)"
  shows "write_all (concat (map (\<lambda>row. map (y_write (rf_data f) (unat (rf_stride f)) w r_off g_off b_off row) [0..<w]) [0..<h]))
      (replicate (w * h) 0) = Ok (fst (rgb_to_i420 (frame_image f r_off g_off b_off) w h))"
proof -
  define g where "g row col = (let px = frame_image f r_off g_off b_off col row in bt601_y (chan 0 px) (chan 1 px) (chan 2 px))" for row col
  have "concat (map (\<lambda>row. map (y_write (rf_data f) (unat (rf_stride f)) w r_off g_off b_off row) [0..<w]) [0..<h]) =
      concat (map (\<lambda>row. map (\<lambda>col. Ok (row * w + col, g row col)) [0..<w]) [0..<h])"
    using y_write_Ok [OF assms(1) _ _ assms(2-4)] assms(5,6)
    by (intro arg_cong [of _ _ concat] map_cong refl) (simp add: g_def Let_def)
  also have "\<dots> = map (\<lambda>k. Ok (k, g (k div w) (k mod w))) [0..<h * w]"
    by (simp add: concat_rows)
  finally have "write_all (concat (map (\<lambda>row. map (y_write (rf_data f) (unat (rf_stride f)) w r_off g_off b_off row) [0..<w]) [0..<h]))
      (replicate (w * h) 0) = Ok (map (\<lambda>k. g (k div w) (k mod w)) [0..<h * w])"
    using write_all_seq [of 0 "h * w" "replicate (w * h) 0" "\<lambda>k. g (k div w) (k mod w)"] by (simp add: mult.commute)
  then show ?thesis by (simp add: rgb_to_i420_def Let_def g_def concat_rows)
qed

lemma uv_planes_eq:
  assumes "frame_fits f" "r_off < 4" "g_off < 4" "b_off < 4" "w = unat (rf_width f)" "h = unat (rf_height f)" "even w" "even h"
  shows "write_uv (concat (map (\<lambda>row. map (uv_write (rf_data f) (unat (rf_stride f)) w h r_off g_off b_off row) (step_by_2 w)) (step_by_2 h)))
      (replicate (w div 2 * (h div 2)) 0) (replicate (w div 2 * (h div 2)) 0) =
    Ok (snd (rgb_to_i420 (frame_image f r_off g_off b_off) w h))"
proof -
  let ?img = "frame_image f r_off g_off b_off" and ?w2 = "w div 2" and ?h2 = "h div 2"
  define g where "g row col = (let x0 = col * 2; y0 = row * 2; x1 = min (x0 + 1) (w - 1); y1 = min (y0 + 1) (h - 1);
      avg = rgb_avg ?img x0 x1 y0 y1 in bt601_uv (avg 0) (avg 1) (avg 2))" for row col
  have u: "uv_write (rf_data f) (unat (rf_stride f)) w h r_off g_off b_off (2 * a) (2 * b) = Ok (a * ?w2 + b, g a b)"
    if "a < ?h2" "b < ?w2" for a b
  proof -
    have "2 * a < h" "2 * b < w" using that by auto
    then show ?thesis using uv_write_Ok [OF assms(1) _ _ assms(2-4), of "2 * a" "2 * b"] assms(5,6)
      by (simp add: g_def Let_def mult.commute)
  qed
  have "concat (map (\<lambda>row. map (uv_write (rf_data f) (unat (rf_stride f)) w h r_off g_off b_off row) (step_by_2 w)) (step_by_2 h)) =
      concat (map (\<lambda>a. map (\<lambda>b. Ok (a * ?w2 + b, g a b)) [0..<?w2]) [0..<?h2])"
    using u unfolding step_by_2_even [OF assms(7)] step_by_2_even [OF assms(8)] map_map
    by (intro arg_cong [of _ _ concat] map_cong refl) simp
  also have "\<dots> = map (\<lambda>k. Ok (k, fst (g (k div ?w2) (k mod ?w2)), snd (g (k div ?w2) (k mod ?w2)))) [0..<?h2 * ?w2]"
    by (simp only: concat_rows div_mult_mod_eq prod.collapse)
  finally have "write_uv (concat (map (\<lambda>row. map (uv_write (rf_data f) (unat (rf_stride f)) w h r_off g_off b_off row) (step_by_2 w)) (step_by_2 h)))
      (replicate (?w2 * ?h2) 0) (replicate (?w2 * ?h2) 0) =
    Ok (map (\<lambda>k. fst (g (k div ?w2) (k mod ?w2))) [0..<?h2 * ?w2], map (\<lambda>k. snd (g (k div ?w2) (k mod ?w2))) [0..<?h2 * ?w2])"
    using write_uv_seq [of 0 "?h2 * ?w2" "replicate (?w2 * ?h2) 0" "replicate (?w2 * ?h2) 0"
      "\<lambda>k. fst (g (k div ?w2) (k mod ?w2))" "\<lambda>k. snd (g (k div ?w2) (k mod ?w2))"] by (simp add: mult.commute)
  moreover have "snd (rgb_to_i420 ?img w h) =
      (let uv = concat (map (\<lambda>a. map (g a) [0..<?w2]) [0..<?h2]) in (map fst uv, map snd uv))"
    by (simp add: rgb_to_i420_def Let_def g_def [abs_def])
  ultimately show ?thesis by (simp add: concat_rows Let_def comp_def)
qed

lemma uv_write_last_panics:
  assumes "frame_fits f" "r_off < 4" "g_off < 4" "b_off < 4" "w = unat (rf_width f)" "h = unat (rf_height f)"
    and "0 < w" "0 < h" "odd w \<or> odd h"
  shows "write_uv (concat (map (\<lambda>row. map (uv_write (rf_data f) (unat (rf_stride f)) w h r_off g_off b_off row) (step_by_2 w)) (step_by_2 h)))
      (replicate (w div 2 * (h div 2)) 0) (replicate (w div 2 * (h div 2)) 0) = Err IndexPanic"
proof -
  define a where "a = (h + 1) div 2 - 1"
  define b where "b = (w + 1) div 2 - 1"
  have a: "a < (h + 1) div 2" "2 * a < h" and b: "b < (w + 1) div 2" "2 * b < w"
    using assms(7,8) by (auto simp: a_def b_def)
  have "h div 2 * (w div 2) \<le> a * (w div 2) + b"
  proof (cases "odd h")
    case True
    then have "a = h div 2" by (auto simp: a_def elim: oddE)
    then show ?thesis by simp
  next
    case False
    then have "odd w" "a = h div 2 - 1" using assms(9) by (auto simp: a_def elim!: evenE oddE)
    then have "b = w div 2" "h div 2 = Suc a" using False assms(8) by (auto simp: b_def elim!: evenE oddE)
    then show ?thesis by simp
  qed
  moreover obtain u v where "uv_write (rf_data f) (unat (rf_stride f)) w h r_off g_off b_off (2 * a) (2 * b) = Ok (a * (w div 2) + b, u, v)"
    using uv_write_Ok [OF assms(1) _ _ assms(2-4), of "2 * a" "2 * b"] a(2) b(2) assms(5,6) by (simp add: Let_def) (metis surj_pair)
  then have "Ok (a * (w div 2) + b, u, v) \<in>
      set (concat (map (\<lambda>row. map (uv_write (rf_data f) (unat (rf_stride f)) w h r_off g_off b_off row) (step_by_2 w)) (step_by_2 h)))"
    using a(1) b(1) by (force simp: step_by_2_def)
  ultimately show ?thesis by (intro write_uv_panic) (auto simp: mult.commute)
qed

text \<open>
  C31. The two colour conversions agree: for a packed picture with even sides whose rows lie in the buffer
  (whatever the padding and the order of the channels), the capture path yields the planes the decoder
  path computes for the same pixels, in the order Y, U, V; when a side is odd it panics.\<close>

theorem packed32_agrees:
  assumes "frame_fits f" "r_off < 4" "g_off < 4" "b_off < 4" "0 < rf_width f" "0 < rf_height f"
  shows "packed32_to_i420 f r_off g_off b_off =
    (if even (unat (rf_width f)) \<and> even (unat (rf_height f))
     then (case rgb_to_i420 (frame_image f r_off g_off b_off) (unat (rf_width f)) (unat (rf_height f)) of (y, u, v) \<Rightarrow> Ok (y @ u @ v))
     else Err IndexPanic)"
proof -
  have p: "0 < unat (rf_width f)" "0 < unat (rf_height f)" using assms(5,6) by (simp_all add: word_less_nat_alt)
  note y = y_plane_eq [OF assms(1-4) refl refl]
  show ?thesis
  proof (cases "even (unat (rf_width f)) \<and> even (unat (rf_height f))")
    case True
    obtain py pu pv where img: "rgb_to_i420 (frame_image f r_off g_off b_off) (unat (rf_width f)) (unat (rf_height f)) = (py, pu, pv)"
      by (metis surj_pair)
    have even: "even (unat (rf_width f))" "even (unat (rf_height f))" using True by auto
    show ?thesis
      using y uv_planes_eq [OF assms(1-4) refl refl even] True unfolding packed32_to_i420_def Let_def img by simp
  next
    case False
    then have "odd (unat (rf_width f)) \<or> odd (unat (rf_height f))" by blast
    from uv_write_last_panics [OF assms(1-4) refl refl p this] y False show ?thesis
      by (auto simp: packed32_to_i420_def Let_def)
  qed
qed

definition wit_frame32 :: "u32 \<Rightarrow> raw_frame" where
  "wit_frame32 w = \<lparr>rf_display_idx = 0, rf_width = w, rf_height = 2, rf_stride = 12, rf_format = Bgra32,
     rf_data = replicate 24 255, rf_timestamp_ms = 0\<rparr>"

theorem packed32_agrees_witness:
  "bgra_to_i420 (wit_frame32 2) = Ok [235, 235, 235, 235, 128, 128] \<and> bgra_to_i420 (wit_frame32 3) = Err IndexPanic"
proof -
  have "rgb_to_i420 (frame_image (wit_frame32 2) 2 1 0) 2 2 = ([235, 235, 235, 235], [128], [128])" by code_simp
  then have "bgra_to_i420 (wit_frame32 2) = Ok [235, 235, 235, 235, 128, 128]"
    using packed32_agrees [of "wit_frame32 2" 2 1 0] by (simp add: bgra_to_i420_def wit_frame32_def frame_fits_def)
  moreover have "bgra_to_i420 (wit_frame32 3) = Err IndexPanic"
    using packed32_agrees [of "wit_frame32 3" 2 1 0] by (simp add: bgra_to_i420_def wit_frame32_def frame_fits_def)
  ultimately show ?thesis ..
qed

section \<open>Decoded planes\<close>

lemma collect_Ok: "(\<And>x. x \<in> set xs \<Longrightarrow> f x = Ok (g x)) \<Longrightarrow> collect (map f xs) = Ok (map g xs)"
  by (induction xs) simp_all

lemma collect_panic: "Err IndexPanic \<in> set xs \<Longrightarrow> collect xs = Err IndexPanic"
proof (induction xs rule: collect.induct)
  case (2 e xs)
  show ?case by (cases e) simp
qed auto

lemma chroma_inside:
  assumes "row < h" "col < w" "even w" "even (h :: nat)"
  shows "(row div 2) * (w div 2) + col div 2 < (w div 2) * (h div 2)"
proof -
  have c: "col div 2 < w div 2" and r: "row div 2 < h div 2" using assms by (auto elim!: evenE)
  have "(row div 2) * (w div 2) + col div 2 < Suc (row div 2) * (w div 2)" using c by simp
  also have "\<dots> \<le> (h div 2) * (w div 2)" using r by (intro mult_le_mono1) simp
  finally show ?thesis by (simp add: mult.commute)
qed

lemma luma_inside: "row < h \<Longrightarrow> col < (w :: nat) \<Longrightarrow> row * w + col < w * h"
proof -
  assume "row < h" "col < w"
  then have "row * w + col < Suc row * w" by simp
  also have "\<dots> \<le> h * w" using \<open>row < h\<close> by (intro mult_le_mono1) simp
  finally show ?thesis by (simp add: mult.commute)
qed

text \<open>
  Decoded pictures with an odd side: for the tightly packed planes the decoders
  produce, the conversion to RGB yields every pixel when both sides are even, and panics when one is odd,
  although its size check is meant to return an empty picture instead of panicking.\<close>

lemma planes_to_rgb_eq:
  assumes "length py = w * h" "length pu = (w div 2) * (h div 2)" "length pv = (w div 2) * (h div 2)" "0 < w" "0 < h"
  shows "i420_planes_to_rgb py pu pv w h =
    (if even w \<and> even h
     then Ok (concat (map (\<lambda>k. rgb_pixel (py ! k) (pu ! ((k div w div 2) * (w div 2) + k mod w div 2)) (pv ! ((k div w div 2) * (w div 2) + k mod w div 2))) [0..<h * w]))
     else Err IndexPanic)"
proof -
  let ?l = "map (\<lambda>k. rgb_at py pu pv w (k div w) (k mod w)) [0..<h * w]"
  have eq: "i420_planes_to_rgb py pu pv w h = map_sum id concat (collect ?l)"
    using assms(1-3) by (simp add: i420_planes_to_rgb_def Let_def concat_rows)
  have k: "k div w < h" "k mod w < w" if "k < h * w" for k
    using that assms(4) by (simp_all add: less_mult_imp_div_less)
  show ?thesis
  proof (cases "even w \<and> even h")
    case True
    have "rgb_at py pu pv w (k div w) (k mod w) =
        Ok (rgb_pixel (py ! k) (pu ! ((k div w div 2) * (w div 2) + k mod w div 2)) (pv ! ((k div w div 2) * (w div 2) + k mod w div 2)))"
      if "k \<in> set [0..<h * w]" for k
      using that chroma_inside [OF k [of k]] True luma_inside [OF k [of k]] assms(1-3) by (simp add: rgb_at_def Let_def)
    then have "collect ?l = Ok (map (\<lambda>k. rgb_pixel (py ! k) (pu ! ((k div w div 2) * (w div 2) + k mod w div 2))
        (pv ! ((k div w div 2) * (w div 2) + k mod w div 2))) [0..<h * w])" by (rule collect_Ok)
    with True show ?thesis by (simp add: eq)
  next
    case False
    have last: "(w div 2) * (h div 2) \<le> ((h - 1) div 2) * (w div 2) + (w - 1) div 2"
    proof (cases "odd h")
      case True
      then have "(h - 1) div 2 = h div 2" by (auto elim: oddE)
      then show ?thesis by (simp add: mult.commute)
    next
      case False
      then have "(w - 1) div 2 = w div 2" "h div 2 = Suc ((h - 1) div 2)"
        using \<open>\<not> (even w \<and> even h)\<close> assms(5) by (auto elim!: evenE oddE)
      then show ?thesis by simp
    qed
    let ?k = "(h - 1) * w + (w - 1)"
    have "?k < h * w" using luma_inside [of "h - 1" h "w - 1" w] assms(4,5) by (simp add: mult.commute)
    moreover have "(a * w + b) div w = a" "(a * w + b) mod w = b" if "b < w" for a b using that by simp_all
    from this [of "w - 1" "h - 1"] assms(4) have "?k div w = h - 1" "?k mod w = w - 1" by simp_all
    then have "rgb_at py pu pv w (?k div w) (?k mod w) = Err IndexPanic"
      using last assms(2) by (simp add: rgb_at_def Let_def)
    ultimately have "Err IndexPanic \<in> set ?l" by (force simp: image_iff)
    then have "collect ?l = Err IndexPanic" by (rule collect_panic)
    with False show ?thesis by (auto simp: eq)
  qed
qed

lemma planes_to_rgb_example:
  "i420_planes_to_rgb [235, 16, 235, 16] [128] [128] 2 2 = Ok [255, 255, 255, 0, 0, 0, 255, 255, 255, 0, 0, 0] \<and>
   i420_planes_to_rgb [235, 16, 235] [] [] 3 1 = Err IndexPanic"
proof -
  have "concat (map (\<lambda>k. rgb_pixel ([235, 16, 235, 16] ! k) ([128] ! ((k div 2 div 2) * (2 div 2) + k mod 2 div 2))
      ([128] ! ((k div 2 div 2) * (2 div 2) + k mod 2 div 2))) [0..<2 * 2]) = [255, 255, 255, 0, 0, 0, 255, 255, 255, 0, 0, 0]" by code_simp
  with planes_to_rgb_eq [of "[235, 16, 235, 16]" 2 2 "[128]" "[128]"] planes_to_rgb_eq [of "[235, 16, 235]" 3 1 "[]" "[]"]
  show ?thesis by simp
qed

text \<open>A grey level survives the way there and back within one step.\<close>

lemma grey_uv: "bt601_uv v v v = (128, 128)"
  by (simp add: bt601_uv_def clampi_def)

lemma grey_roundtrip:
  assumes "0 \<le> v" "v \<le> 255"
  shows "list_all (\<lambda>c. \<bar>uint c - v\<bar> \<le> 1) (rgb_pixel (bt601_y v v v) 128 128)"
proof -
  have div256: "256 * (n div 256) \<le> n \<and> n < 256 * (n div 256) + 256" for n :: int
    using div_mult_mod_eq [of n 256] pos_mod_bound [of 256 n] pos_mod_sign [of 256 n] by linarith
  define q where "q = (220 * v + 128) div 256"
  define r where "r = (298 * q + 128) div 256"
  have q: "256 * q \<le> 220 * v + 128" "220 * v + 128 < 256 * q + 256" "0 \<le> q" "q \<le> 219"
    using div256 [of "220 * v + 128"] assms unfolding q_def by linarith+
  have r: "256 * r \<le> 298 * q + 128" "298 * q + 128 < 256 * r + 256" "0 \<le> r" "r \<le> 255"
    using div256 [of "298 * q + 128"] q unfolding r_def by linarith+
  have "66 * v + 129 * v + 25 * v + 128 = 220 * v + 128" by simp
  then have "bt601_y v v v = word_of_int (q + 16)" using q by (simp add: bt601_y_def clampi_def q_def)
  moreover have u: "uint (word_of_int n :: byte) = n" if "0 \<le> n" "n < 256" for n
    using that by (simp add: uint_word_of_int_eq take_bit_int_eq_self)
  ultimately have "uint (bt601_y v v v) = q + 16" using u [of "q + 16"] q by simp
  then have "rgb_pixel (bt601_y v v v) 128 128 = [word_of_int r, word_of_int r, word_of_int r]"
    using r by (simp add: rgb_pixel_def Let_def clampi_def r_def)
  moreover have "uint (word_of_int r :: byte) = r" using u [of r] r by simp
  moreover have "\<bar>r - v\<bar> \<le> 1" using q r assms by linarith
  ultimately show ?thesis by simp
qed

end
