(* ===== verification/Capture_Loop.thy ===== *)
theory Capture_Loop
  imports Frames Handshake
begin

text \<open>
  The capture thread (\<open>miru-host/src/capture_loop.rs\<close>) with the encoders and decoders it and the viewer
  may construct (\<open>miru-codec/src/lib.rs\<close>, \<open>encoder.rs\<close>, \<open>decoder.rs\<close>, \<open>hw.rs\<close>).

  A video encoder is a parameter: how it is opened, what it returns for a picture, and how its bit rate is
  changed. One turn of the loop is a function of the quality targets it reads, the answer of the frame
  controller, the outcome of the capture and the state of the queue to the session; waiting for the next
  frame time is left out.
\<close>

section \<open>Which codecs exist\<close>

text \<open>The features of the build, and the hardware encoders that can be opened.\<close>

record build =
  bu_vpx :: bool
  bu_ffmpeg :: bool

datatype hw_encoder = Nvenc | Amf | Qsv | VideoToolbox | Vaapi

fun hw_codecs :: "hw_encoder \<Rightarrow> video_codec list" where
  "hw_codecs Nvenc = [Av1, H265, H264]"
| "hw_codecs Amf = [Av1, H265, H264]"
| "hw_codecs Qsv = [Av1, H265, H264]"
| "hw_codecs VideoToolbox = [H265, H264]"
| "hw_codecs Vaapi = [H265, H264]"

text \<open>\<open>open_hw\<close>: the first probed encoder that has the codec and opens.\<close>

definition open_hw :: "hw_encoder list \<Rightarrow> (hw_encoder \<Rightarrow> video_codec \<Rightarrow> bool) \<Rightarrow> video_codec \<Rightarrow> hw_encoder option" where
  "open_hw probed opens codec = List.find (\<lambda>hw. codec \<in> set (hw_codecs hw) \<and> opens hw codec) probed"

datatype encoder_kind = VpxKind video_codec | JpegKind | HwKind hw_encoder

text \<open>\<open>Encoder::new\<close>; \<open>vpx_ok\<close> tells whether libvpx accepts the configuration.\<close>

fun encoder_new :: "build \<Rightarrow> bool \<Rightarrow> hw_encoder list \<Rightarrow> (hw_encoder \<Rightarrow> video_codec \<Rightarrow> bool) \<Rightarrow> video_codec \<Rightarrow> encoder_kind option" where
  "encoder_new F vpx_ok probed opens Vp9 = (if bu_vpx F \<and> vpx_ok then Some (VpxKind Vp9) else None)"
| "encoder_new F vpx_ok probed opens Vp8 = (if bu_vpx F \<and> vpx_ok then Some (VpxKind Vp8) else None)"
| "encoder_new F vpx_ok probed opens Jpeg = Some JpegKind"
| "encoder_new F vpx_ok probed opens c = (if bu_ffmpeg F then map_option HwKind (open_hw probed opens c) else None)"

text \<open>\<open>Decoder::new\<close>.\<close>

fun decoder_new :: "build \<Rightarrow> bool \<Rightarrow> video_codec \<Rightarrow> bool" where
  "decoder_new F vpx_ok Vp9 = (bu_vpx F \<and> vpx_ok)"
| "decoder_new F vpx_ok Vp8 = (bu_vpx F \<and> vpx_ok)"
| "decoder_new F vpx_ok Jpeg = True"
| "decoder_new F vpx_ok c = False"

definition hw_codecs_that_open :: "hw_encoder list \<Rightarrow> (hw_encoder \<Rightarrow> video_codec \<Rightarrow> bool) \<Rightarrow> video_codec list" where
  "hw_codecs_that_open probed opens = filter (\<lambda>c. open_hw probed opens c \<noteq> None) [Av1, H265, H264]"

definition available_codecs :: "build \<Rightarrow> hw_encoder list \<Rightarrow> (hw_encoder \<Rightarrow> video_codec \<Rightarrow> bool) \<Rightarrow> video_codec list" where
  "available_codecs F probed opens =
     (if bu_ffmpeg F then hw_codecs_that_open probed opens else []) @ (if bu_vpx F then [Vp9, Vp8] else []) @ [Jpeg]"

definition is_hardware_codec :: "video_codec \<Rightarrow> bool" where
  "is_hardware_codec c \<longleftrightarrow> c \<in> {Av1, H264, H265}"

definition has_hw_encode :: "build \<Rightarrow> hw_encoder list \<Rightarrow> (hw_encoder \<Rightarrow> video_codec \<Rightarrow> bool) \<Rightarrow> bool" where
  "has_hw_encode F probed opens = list_ex is_hardware_codec (available_codecs F probed opens)"

section \<open>The JPEG encoder\<close>

record encoded_packet =
  ep_keyframe :: bool
  ep_data :: bytes
  ep_timestamp_ms :: u64
  ep_duration_ms :: u32

record jpeg_encoder =
  je_width :: u32
  je_height :: u32
  je_quality :: u8

definition jpeg_encoder_new :: "u32 \<Rightarrow> u32 \<Rightarrow> jpeg_encoder" where
  "jpeg_encoder_new w h = \<lparr>je_width = w, je_height = h, je_quality = 80\<rparr>"

datatype jpeg_error = JpegTooLarge | JpegBufferSmall nat | JpegPanic | JpegCompress

text \<open>\<open>compress\<close> is the \<open>image\<close> crate on a packed RGB picture.\<close>

definition jpeg_encode ::
  "(bytes \<Rightarrow> u32 \<Rightarrow> u32 \<Rightarrow> u8 \<Rightarrow> bytes option) \<Rightarrow> jpeg_encoder \<Rightarrow> bytes \<Rightarrow> u32 \<Rightarrow> u32 \<Rightarrow> u64 \<Rightarrow> jpeg_error + encoded_packet" where
  "jpeg_encode compress J i420 width height ts_ms =
     (if width > 32768 \<or> height > 32768 then Err JpegTooLarge
      else
        (let w = unat width; h = unat height; y_size = w * h; uv_size = (w div 2) * (h div 2) in
         if length i420 < y_size + 2 * uv_size then Err (JpegBufferSmall (length i420))
         else
           (case i420_planes_to_rgb (take y_size i420) (take uv_size (drop y_size i420)) (take uv_size (drop (y_size + uv_size) i420)) w h of
              Inl _ \<Rightarrow> Err JpegPanic
            | Inr rgb \<Rightarrow>
                (case compress rgb width height (je_quality J) of
                   None \<Rightarrow> Err JpegCompress
                 | Some data \<Rightarrow> Ok \<lparr>ep_keyframe = True, ep_data = data, ep_timestamp_ms = ts_ms, ep_duration_ms = 0\<rparr>))))"

text \<open>
  The quality for a bit rate. The product of the sides wraps at 32 bits; without pixels the quotient is
  infinite, or not a number when the rate is zero too, which becomes 0.
\<close>

definition jpeg_update_bitrate :: "jpeg_encoder \<Rightarrow> u32 \<Rightarrow> jpeg_encoder" where
  "jpeg_update_bitrate J kbps =
     (let pixels = unat (je_width J * je_height J) in
      if pixels = 0 then J\<lparr>je_quality := (if kbps = 0 then 0 else 95)\<rparr>
      else
        (let bits_per_pixel = to_f64 (to_f64 (of_nat (unat kbps) * 1000) / to_f64 (of_nat pixels * 30))
         in J\<lparr>je_quality := word_of_int \<lfloor>clampf 30 95 (to_f64 (bits_per_pixel * 200))\<rfloor>\<rparr>))"

section \<open>The capture loop\<close>

record 'e encoder_ext =
  ex_new :: "video_codec \<Rightarrow> u32 \<Rightarrow> u32 \<Rightarrow> u8 \<Rightarrow> u32 \<Rightarrow> 'e option"
  ex_encode :: "'e \<Rightarrow> bytes \<Rightarrow> u32 \<Rightarrow> u32 \<Rightarrow> u64 \<Rightarrow> bool \<Rightarrow> (unit + encoded_packet option) \<times> 'e"
  ex_update_bitrate :: "'e \<Rightarrow> u32 \<Rightarrow> 'e"

record capture_config =
  cg_codec :: video_codec
  cg_display_idx :: u8
  cg_target_fps :: u8
  cg_bitrate_kbps :: u32

record 'e capture_state =
  cp_encoder :: "'e option"
  cp_seq :: u64
  cp_force_keyframe :: bool
  cp_cur_fps :: u8
  cp_cur_bitrate :: u32

definition capture_init :: "capture_config \<Rightarrow> 'e capture_state" where
  "capture_init cfg =
     \<lparr>cp_encoder = None, cp_seq = 0, cp_force_keyframe = True, cp_cur_fps = cg_target_fps cfg, cp_cur_bitrate = cg_bitrate_kbps cfg\<rparr>"

datatype grab = Grabbed raw_frame | NoChange | GrabFailed

datatype queue_state = QueueRoom | QueueFull | QueueGone

record capture_turn =
  ct_fps :: u8
  ct_bitrate :: u32
  ct_should_capture :: bool
  ct_grab :: grab
  ct_queue :: queue_state

definition read_targets :: "'e encoder_ext \<Rightarrow> capture_turn \<Rightarrow> 'e capture_state \<Rightarrow> 'e capture_state" where
  "read_targets X t S =
     (let S1 = (if ct_fps t > 0 \<and> ct_fps t \<noteq> cp_cur_fps S then S\<lparr>cp_cur_fps := ct_fps t\<rparr> else S)
      in if ct_bitrate t > 0 \<and> ct_bitrate t \<noteq> cp_cur_bitrate S1
         then S1\<lparr>cp_cur_bitrate := ct_bitrate t, cp_encoder := map_option (\<lambda>e. ex_update_bitrate X e (ct_bitrate t)) (cp_encoder S1)\<rparr>
         else S1)"

definition video_frame_of :: "capture_config \<Rightarrow> raw_frame \<Rightarrow> encoded_packet \<Rightarrow> u64 \<Rightarrow> video_frame" where
  "video_frame_of cfg f packet sq =
     \<lparr>vf_seq = sq, vf_display_idx = cg_display_idx cfg, vf_keyframe = ep_keyframe packet, vf_codec = cg_codec cfg,
      vf_data = ep_data packet, vf_width = rf_width f, vf_height = rf_height f, vf_timestamp_ms = ep_timestamp_ms packet,
      vf_color_primaries = CpBt709, vf_transfer = TfBt709, vf_color_range = CrLimited, vf_hdr_metadata = None\<rparr>"

datatype turn_end = TurnNext | TurnStop | TurnPanic

text \<open>
  What a turn leaves behind: how it ended, and when the encoder produced a packet, whether a key frame had
  been asked for, the frame, and whether it got into the queue.
\<close>

definition encode_turn ::
  "'e encoder_ext \<Rightarrow> capture_config \<Rightarrow> capture_turn \<Rightarrow> raw_frame \<Rightarrow> 'e \<Rightarrow> 'e capture_state
    \<Rightarrow> turn_end \<times> (bool \<times> video_frame \<times> bool) option \<times> 'e capture_state" where
  "encode_turn X cfg t f enc S =
     (case frame_to_i420 f of
        Inl _ \<Rightarrow> (TurnPanic, None, S)
      | Inr i420 \<Rightarrow>
          (case ex_encode X enc i420 (rf_width f) (rf_height f) (rf_timestamp_ms f) (cp_force_keyframe S) of
             (Inr (Some packet), enc') \<Rightarrow>
               (let S1 = S\<lparr>cp_encoder := Some enc', cp_force_keyframe := False, cp_seq := cp_seq S + 1\<rparr>;
                    vf = video_frame_of cfg f packet (cp_seq S1)
                in case ct_queue t of
                     QueueRoom \<Rightarrow> (TurnNext, Some (cp_force_keyframe S, vf, True), S1)
                   | QueueFull \<Rightarrow> (TurnNext, Some (cp_force_keyframe S, vf, False), S1\<lparr>cp_force_keyframe := True\<rparr>)
                   | QueueGone \<Rightarrow> (TurnStop, Some (cp_force_keyframe S, vf, False), S1))
           | (_, enc') \<Rightarrow> (TurnNext, None, S\<lparr>cp_encoder := Some enc'\<rparr>)))"

definition capture_loop_turn ::
  "'e encoder_ext \<Rightarrow> capture_config \<Rightarrow> 'e capture_state \<Rightarrow> capture_turn
    \<Rightarrow> turn_end \<times> (bool \<times> video_frame \<times> bool) option \<times> 'e capture_state" where
  "capture_loop_turn X cfg S0 t =
     (let S = read_targets X t S0 in
      if \<not> ct_should_capture t then (TurnNext, None, S)
      else
        (case ct_grab t of
           Grabbed f \<Rightarrow>
             (case cp_encoder S of
                Some enc \<Rightarrow> encode_turn X cfg t f enc S
              | None \<Rightarrow>
                  (case ex_new X (cg_codec cfg) (rf_width f) (rf_height f) (cp_cur_fps S) (cp_cur_bitrate S) of
                     None \<Rightarrow> (TurnNext, None, S)
                   | Some enc \<Rightarrow> encode_turn X cfg t f enc (S\<lparr>cp_encoder := Some enc\<rparr>)))
         | _ \<Rightarrow> (TurnNext, None, S)))"

text \<open>The loop: the packets of the turns until it stops or panics.\<close>

fun capture_run ::
  "'e encoder_ext \<Rightarrow> capture_config \<Rightarrow> 'e capture_state \<Rightarrow> capture_turn list \<Rightarrow> turn_end \<times> (bool \<times> video_frame \<times> bool) list" where
  "capture_run X cfg S [] = (TurnNext, [])"
| "capture_run X cfg S (t # ts) =
     (case capture_loop_turn X cfg S t of
        (TurnNext, out, S') \<Rightarrow>
          (case capture_run X cfg S' ts of (r, outs) \<Rightarrow> (r, (case out of None \<Rightarrow> [] | Some p \<Rightarrow> [p]) @ outs))
      | (r, out, S') \<Rightarrow> (r, case out of None \<Rightarrow> [] | Some p \<Rightarrow> [p]))"

section \<open>Numbers and key frames\<close>

text \<open>
  \<open>chained n ask ps\<close>: the packets \<open>ps\<close> are numbered from \<open>n + 1\<close> on, a key frame is asked for in the first
  one exactly when \<open>ask\<close> holds, and in every other one exactly when the packet before it was dropped.
\<close>

fun chained :: "u64 \<Rightarrow> bool \<Rightarrow> (bool \<times> video_frame \<times> bool) list \<Rightarrow> bool" where
  "chained n ask [] = True"
| "chained n ask ((asked, vf, sent) # ps) \<longleftrightarrow> asked = ask \<and> vf_seq vf = n + 1 \<and> chained (n + 1) (\<not> sent) ps"

lemma read_targets_keeps [simp]:
  "cp_seq (read_targets X t S) = cp_seq S" "cp_force_keyframe (read_targets X t S) = cp_force_keyframe S"
  by (simp_all add: read_targets_def Let_def)

lemma encode_turn_cases:
  assumes "encode_turn X cfg t f enc S = (r, out, S')"
  shows "(out = None \<and> cp_seq S' = cp_seq S \<and> cp_force_keyframe S' = cp_force_keyframe S) \<or>
    (\<exists>vf sent. out = Some (cp_force_keyframe S, vf, sent) \<and> vf_seq vf = cp_seq S + 1 \<and> cp_seq S' = cp_seq S + 1 \<and>
       (r = TurnNext \<longrightarrow> cp_force_keyframe S' = (\<not> sent)))"
  using assms
  by (auto simp: encode_turn_def video_frame_of_def Let_def split: sum.splits prod.splits option.splits queue_state.splits)

lemma capture_turn_cases:
  assumes "capture_loop_turn X cfg S t = (r, out, S')"
  shows "(out = None \<and> cp_seq S' = cp_seq S \<and> cp_force_keyframe S' = cp_force_keyframe S) \<or>
    (\<exists>vf sent. out = Some (cp_force_keyframe S, vf, sent) \<and> vf_seq vf = cp_seq S + 1 \<and> cp_seq S' = cp_seq S + 1 \<and>
       (r = TurnNext \<longrightarrow> cp_force_keyframe S' = (\<not> sent)))"
  using assms
  by (auto simp: capture_loop_turn_def Let_def split: if_splits grab.splits option.splits dest!: encode_turn_cases)

lemma chained_run: "chained (cp_seq S) (cp_force_keyframe S) (snd (capture_run X cfg S ts))"
proof (induction ts arbitrary: S)
  case (Cons t ts)
  obtain r out S' where t: "capture_loop_turn X cfg S t = (r, out, S')" by (metis surj_pair)
  from capture_turn_cases [OF t] Cons.IH [of S'] show ?case
    by (cases r) (auto simp: t split: prod.splits)
qed simp

text \<open>
  C32. Key frames are asked for at the right time: in every run of the capture loop, whatever the encoder,
  the targets, the captures and the queue do, the frames are numbered 1, 2, 3, ..., and the encoder is
  asked for a key frame in exactly the first one and those that follow a dropped one.\<close>

theorem keyframes_after_drops:
  assumes "capture_run X cfg (capture_init cfg) ts = (r, ps)" "k < length ps"
  shows "vf_seq (fst (snd (ps ! k))) = word_of_nat (Suc k) \<and>
    (fst (ps ! k) \<longleftrightarrow> k = 0 \<or> \<not> snd (snd (ps ! (k - 1))))"
proof -
  have c: "chained n ask qs \<Longrightarrow> j < length qs \<Longrightarrow>
      vf_seq (fst (snd (qs ! j))) = n + word_of_nat (Suc j) \<and>
      (fst (qs ! j) \<longleftrightarrow> (if j = 0 then ask else \<not> snd (snd (qs ! (j - 1)))))" for n ask qs j
  proof (induction n ask qs arbitrary: j rule: chained.induct)
    case (2 n ask asked vf sent ps)
    then show ?case by (cases j) (auto simp: add.assoc nth_Cons')
  qed simp
  have "chained 0 True ps"
    using chained_run [of "capture_init cfg" X cfg ts] assms(1) by (simp add: capture_init_def)
  from c [OF this assms(2)] show ?thesis by auto
qed

definition wit_encoder :: "unit encoder_ext" where
  "wit_encoder = \<lparr>ex_new = (\<lambda>_ _ _ _ _. Some ()),
     ex_encode = (\<lambda>_ i420 _ _ ts kf. (Ok (Some \<lparr>ep_keyframe = kf, ep_data = i420, ep_timestamp_ms = ts, ep_duration_ms = 0\<rparr>), ())),
     ex_update_bitrate = (\<lambda>_ _. ())\<rparr>"

definition wit_config :: capture_config where
  "wit_config = \<lparr>cg_codec = Vp9, cg_display_idx = 0, cg_target_fps = 30, cg_bitrate_kbps = 2000\<rparr>"

definition wit_turn :: "queue_state \<Rightarrow> capture_turn" where
  "wit_turn q = \<lparr>ct_fps = 30, ct_bitrate = 2000, ct_should_capture = True,
     ct_grab = Grabbed \<lparr>rf_display_idx = 0, rf_width = 2, rf_height = 2, rf_stride = 2, rf_format = I420, rf_data = [1, 2, 3, 4, 5, 6], rf_timestamp_ms = 7\<rparr>,
     ct_queue = q\<rparr>"

theorem keyframes_after_drops_witness:
  "\<exists>ps. capture_run wit_encoder wit_config (capture_init wit_config) [wit_turn QueueRoom, wit_turn QueueFull, wit_turn QueueRoom] = (TurnNext, ps) \<and>
     length ps = 3 \<and> vf_seq (fst (snd (ps ! 2))) = 3 \<and> fst (ps ! 2)"
proof -
  obtain ps where ps: "capture_run wit_encoder wit_config (capture_init wit_config) [wit_turn QueueRoom, wit_turn QueueFull, wit_turn QueueRoom] = (TurnNext, ps)"
    "length ps = 3" "\<not> snd (snd (ps ! 1))"
    by (simp add: capture_loop_turn_def encode_turn_def read_targets_def wit_turn_def capture_init_def wit_config_def wit_encoder_def
        frame_to_i420_def Let_def)
  from keyframes_after_drops [OF ps(1), of 2] ps show ?thesis by simp
qed

section \<open>Codecs a viewer offers\<close>

lemma advertised_encodable:
  assumes "c \<in> set (available_codecs F probed opens)"
  shows "encoder_new F True probed opens c \<noteq> None"
  using assms by (cases c) (auto simp: available_codecs_def hw_codecs_that_open_def split: if_splits)

lemma decodable_iff:
  assumes "c \<in> set (available_codecs F probed opens)"
  shows "decoder_new F True c \<longleftrightarrow> \<not> is_hardware_codec c"
  using assms by (cases c) (auto simp: available_codecs_def hw_codecs_that_open_def is_hardware_codec_def split: if_splits)

text \<open>
  A viewer can negotiate a codec it cannot decode. It offers the codecs its build can \<open>encode\<close>; the
  codec agreed on with a host can be decoded exactly when it is not a hardware codec. A build without
  FFmpeg never offers one; with FFmpeg and hardware for AV1 on both sides, AV1 is chosen and cannot be
  decoded.\<close>

theorem negotiated_codec_undecodable:
  assumes "negotiate host_codecs (available_codecs F probed opens) = Some c"
  shows "(decoder_new F True c \<longleftrightarrow> \<not> is_hardware_codec c) \<and> (\<not> bu_ffmpeg F \<longrightarrow> decoder_new F True c) \<and>
    (bu_ffmpeg F \<and> open_hw probed opens Av1 \<noteq> None \<and> Av1 \<in> set host_codecs \<longrightarrow> c = Av1 \<and> \<not> decoder_new F True c)"
proof -
  have c: "c \<in> set (available_codecs F probed opens)" and
    best: "\<And>d. d \<in> set host_codecs \<Longrightarrow> d \<in> set (available_codecs F probed opens) \<Longrightarrow> codec_rank c \<le> codec_rank d"
    using assms by (auto simp: negotiate_Some)
  have "decoder_new F True c" if "\<not> bu_ffmpeg F"
    using c that by (cases c) (auto simp: available_codecs_def split: if_splits)
  moreover have "c = Av1" if "bu_ffmpeg F" "open_hw probed opens Av1 \<noteq> None" "Av1 \<in> set host_codecs"
  proof -
    have "Av1 \<in> set (available_codecs F probed opens)" using that by (simp add: available_codecs_def hw_codecs_that_open_def)
    from best [OF that(3) this] have "codec_rank c = 0" by (simp add: codec_rank_def CODEC_PRIORITY_def)
    then show ?thesis by (cases c) (simp_all add: codec_rank_def CODEC_PRIORITY_def)
  qed
  ultimately show ?thesis using decodable_iff [OF c] by auto
qed

theorem negotiated_codec_undecodable_witness:
  "negotiate [Av1, Vp9, Jpeg] (available_codecs \<lparr>bu_vpx = True, bu_ffmpeg = True\<rparr> [Nvenc] (\<lambda>_ _. True)) = Some Av1 \<and>
   \<not> decoder_new \<lparr>bu_vpx = True, bu_ffmpeg = True\<rparr> True Av1"
proof -
  have n: "negotiate [Av1, Vp9, Jpeg] (available_codecs \<lparr>bu_vpx = True, bu_ffmpeg = True\<rparr> [Nvenc] (\<lambda>_ _. True)) = Some Av1"
    by (simp add: negotiate_def CODEC_PRIORITY_def available_codecs_def hw_codecs_that_open_def open_hw_def)
  from negotiated_codec_undecodable [OF n] n show ?thesis by (simp add: is_hardware_codec_def)
qed

text \<open>The quality set for a bit rate is one the encoder accepts, whenever the picture has pixels.\<close>

lemma jpeg_quality_bounds:
  assumes "je_width J * je_height J \<noteq> 0"
  shows "30 \<le> je_quality (jpeg_update_bitrate J kbps) \<and> je_quality (jpeg_update_bitrate J kbps) \<le> 95"
proof -
  have p: "unat (je_width J * je_height J) \<noteq> 0" using assms by (simp add: unat_eq_zero)
  define q where "q = clampf 30 95 (to_f64 (to_f64 (to_f64 (of_nat (unat kbps) * 1000) / to_f64 (of_nat (unat (je_width J * je_height J)) * 30)) * 200))"
  have "30 \<le> q" "q \<le> 95" using clampf_bounds [of 30 95] by (auto simp: q_def)
  then have "30 \<le> \<lfloor>q\<rfloor>" "\<lfloor>q\<rfloor> \<le> 95" by linarith+
  moreover have "je_quality (jpeg_update_bitrate J kbps) = word_of_int \<lfloor>q\<rfloor>"
    using p by (simp add: jpeg_update_bitrate_def Let_def q_def)
  moreover have "uint (word_of_int n :: u8) = n" if "0 \<le> n" "n < 256" for n
    using that by (simp add: uint_word_of_int_eq take_bit_int_eq_self)
  ultimately show ?thesis by (simp add: word_le_def)
qed

end
