(* ===== verification/Viewer_Session.thy ===== *)
theory Viewer_Session
  imports Viewer Frames Signaling Audit_Log Discovery
begin

text \<open>
  A session of the viewer from the signal server to its end (\<open>run\<close> in
  \<open>miru-client/src-tauri/src/session.rs\<close>), and what its user interface asks of it (\<open>state.rs\<close>): the
  recording in progress, the audit log of the agents, the peers on the local network.

  The decoder is a parameter. One turn of the loop is a function of what woke it: the cancel signal, a
  command of the user, or a message of the host.
\<close>

section \<open>Finding the host\<close>

text \<open>Events of the signal server, in order; the end of the list is the end of the connection.\<close>

fun wait_registered :: "signal_event list \<Rightarrow> signal_event list" where
  "wait_registered [] = []"
| "wait_registered (e # es) = (case e of Registered _ _ \<Rightarrow> es | _ \<Rightarrow> wait_registered es)"

datatype offer_error = SignalFailed string | SignalGone

definition pub_addr_text :: "string option \<Rightarrow> u16 option \<Rightarrow> string option" where
  "pub_addr_text host_addr host_port =
     (case (host_addr, host_port) of
        (Some a, Some p) \<Rightarrow> Some (a @ '':'' @ show_nat (unat p))
      | (Some a, None) \<Rightarrow> Some a
      | _ \<Rightarrow> None)"

fun wait_offer :: "string option \<Rightarrow> signal_event list \<Rightarrow> offer_error + (string \<times> u16 \<times> string) \<times> string option" where
  "wait_offer pub [] = Err SignalGone"
| "wait_offer pub (ConnectAcked _ _ host_addr host_port # es) = wait_offer (pub_addr_text host_addr host_port) es"
| "wait_offer pub (IncomingConnection token relay_addr relay_port # es) = Ok ((relay_addr, relay_port, token), pub)"
| "wait_offer pub (SignalError code message # es) = Err (SignalFailed message)"
| "wait_offer pub (_ # es) = wait_offer pub es"

section \<open>The session loop\<close>

record decoded_frame =
  df_width :: u32
  df_height :: u32
  df_y_plane :: bytes
  df_u_plane :: bytes
  df_v_plane :: bytes
  df_timestamp_ms :: u64

record 'd decoder_ext =
  dx_new :: "video_codec \<Rightarrow> 'd option"
  dx_decode :: "'d \<Rightarrow> bytes \<Rightarrow> u64 \<Rightarrow> (unit + decoded_frame option) \<times> 'd"
  dx_compress :: "bytes \<Rightarrow> u32 \<Rightarrow> u32 \<Rightarrow> u8 \<Rightarrow> bytes option"

text \<open>\<open>i420_to_jpeg\<close>: the inner option is the result of the JPEG compressor.\<close>

definition i420_to_jpeg :: "'d decoder_ext \<Rightarrow> decoded_frame \<Rightarrow> u8 \<Rightarrow> index_panic + bytes option" where
  "i420_to_jpeg X f quality =
     (case i420_planes_to_rgb (df_y_plane f) (df_u_plane f) (df_v_plane f) (unat (df_width f)) (unat (df_height f)) of
        Inl e \<Rightarrow> Err e
      | Inr rgb \<Rightarrow> Ok (dx_compress X rgb (df_width f) (df_height f) quality))"

record 'd viewer_session =
  vs_counters :: viewer_counters
  vs_stats :: session_stats
  vs_decoder :: "'d option"
  vs_recording :: "recording_state option"

text \<open>
  What surrounds a turn: the clocks, the two switches of the interface, whether a send to the host and to
  the audio thread succeeds, and what the recording files do.
\<close>

record viewer_env =
  ve_instant :: nat
  ve_now_ms :: u64
  ve_webcodecs :: bool
  ve_muted :: bool
  ve_send_ok :: bool
  ve_audio_room :: bool
  ve_rec_io :: "bool \<times> nat option \<times> nat option"

datatype viewer_effect =
    ToHost msg
  | EmitPacket string bool u64 string
  | EmitFrame nat nat bool string
  | EmitDisplays "display_info list"
  | EmitQos u8 u32 u8
  | EmitClipboard string
  | PlayAudio audio_frame

datatype view_end = ViewOn | ViewEnd | ViewPanic

definition count_shown :: "viewer_env \<Rightarrow> 'd viewer_session \<Rightarrow> 'd viewer_session" where
  "count_shown E S =
     (case count_frame (ve_instant E) (vs_counters S) (vs_stats S) of (C, s) \<Rightarrow> S\<lparr>vs_counters := C, vs_stats := s\<rparr>)"

definition record_shown :: "viewer_env \<Rightarrow> bytes \<Rightarrow> 'd viewer_session \<Rightarrow> 'd viewer_session" where
  "record_shown E jpeg S =
     (case ve_rec_io E of
        (meta_ok, io_frames, io_offsets) \<Rightarrow>
          S\<lparr>vs_recording := map_option (\<lambda>R. write_recording_frame meta_ok io_frames io_offsets R jpeg) (vs_recording S)\<rparr>)"

text \<open>Frames of other codecs go through the decoder, which is made when the first one arrives.\<close>

definition show_decoded ::
  "'d decoder_ext \<Rightarrow> base64 \<Rightarrow> viewer_env \<Rightarrow> video_frame \<Rightarrow> 'd viewer_session \<Rightarrow> view_end \<times> viewer_effect list \<times> 'd viewer_session" where
  "show_decoded X B E vf S0 =
     (let S = (if vs_decoder S0 = None then S0\<lparr>vs_decoder := dx_new X (vf_codec vf)\<rparr> else S0) in
      case vs_decoder S of
        None \<Rightarrow> (ViewOn, [], S)
      | Some d \<Rightarrow>
          (case dx_decode X d (vf_data vf) (vf_timestamp_ms vf) of
             (Inr (Some f), d') \<Rightarrow>
               (let S1 = count_shown E (S\<lparr>vs_decoder := Some d'\<rparr>) in
                case i420_to_jpeg X f 85 of
                  Inl _ \<Rightarrow> (ViewPanic, [], S1)
                | Inr None \<Rightarrow> (ViewOn, [], S1)
                | Inr (Some jpeg) \<Rightarrow>
                    (ViewOn, [EmitFrame (unat (df_width f)) (unat (df_height f)) (vf_keyframe vf) (b64_encode B jpeg)],
                     record_shown E jpeg S1))
           | (_, d') \<Rightarrow> (ViewOn, [], S\<lparr>vs_decoder := Some d'\<rparr>)))"

definition on_host_frame ::
  "'d decoder_ext \<Rightarrow> base64 \<Rightarrow> viewer_env \<Rightarrow> video_frame \<Rightarrow> 'd viewer_session \<Rightarrow> view_end \<times> viewer_effect list \<times> 'd viewer_session" where
  "on_host_frame X B E vf S0 =
     (let S = S0\<lparr>vs_counters := track_seq (vs_counters S0) vf\<rparr> in
      if ve_webcodecs E \<and> vf_codec vf \<in> {Vp9, Vp8}
      then (ViewOn,
            [EmitPacket (if vf_codec vf = Vp8 then ''vp8'' else ''vp9'') (vf_keyframe vf) (vf_timestamp_ms vf) (b64_encode B (vf_data vf))],
            count_shown E S)
      else if vf_codec vf = Jpeg
      then (case jpeg_dimensions (vf_data vf) of
              Inl _ \<Rightarrow> (ViewPanic, [], count_shown E S)
            | Inr dims \<Rightarrow>
                (let (w, h) = (case dims of None \<Rightarrow> (0, 0) | Some d \<Rightarrow> d)
                 in (ViewOn, [EmitFrame w h (vf_keyframe vf) (b64_encode B (vf_data vf))],
                     record_shown E (vf_data vf) (count_shown E S))))
      else show_decoded X B E vf S)"

definition on_host_msg ::
  "'d decoder_ext \<Rightarrow> base64 \<Rightarrow> bool \<Rightarrow> viewer_env \<Rightarrow> msg \<Rightarrow> 'd viewer_session \<Rightarrow> view_end \<times> viewer_effect list \<times> 'd viewer_session" where
  "on_host_msg X B audio_enabled E m S =
     (case m of
        MsgVideoFrame vf \<Rightarrow> on_host_frame X B E vf S
      | MsgPing ts \<Rightarrow>
          (ViewOn, if ve_send_ok E then [ToHost (pong_for (ve_now_ms E) ts)] else [],
           S\<lparr>vs_stats := (vs_stats S)\<lparr>st_rtt_ms := ucast (sat_sub (ve_now_ms E) ts)\<rparr>\<rparr>)
      | MsgAudioFrame af \<Rightarrow>
          (ViewOn, if audio_enabled \<and> \<not> ve_muted E \<and> ve_audio_room E then [PlayAudio af] else [], S)
      | MsgDisplayList ds \<Rightarrow> (ViewOn, [EmitDisplays (cap_display_list ds)], S)
      | MsgQosUpdate u \<Rightarrow> (ViewOn, [EmitQos (qu_fps u) (qu_bitrate_kbps u) (qu_quality u)], S)
      | MsgClipboardSync cs \<Rightarrow> (ViewOn, (case clipboard_text cs of None \<Rightarrow> [] | Some s \<Rightarrow> [EmitClipboard s]), S)
      | MsgClose r \<Rightarrow> (ViewEnd, [], S)
      | _ \<Rightarrow> (ViewOn, [], S))"

datatype viewer_event = UserCancel | UserCommand "msg option" | FromHost "unit + msg option"

definition close_by_user :: msg where
  "close_by_user = MsgClose \<lparr>cl_code = 1000, cl_reason = ''user''\<rparr>"

fun viewer_step ::
  "'d decoder_ext \<Rightarrow> base64 \<Rightarrow> bool \<Rightarrow> viewer_env \<Rightarrow> viewer_event \<Rightarrow> 'd viewer_session \<Rightarrow> view_end \<times> viewer_effect list \<times> 'd viewer_session" where
  "viewer_step X B audio E UserCancel S = (ViewEnd, if ve_send_ok E then [ToHost close_by_user] else [], S)"
| "viewer_step X B audio E (UserCommand None) S = (ViewEnd, [], S)"
| "viewer_step X B audio E (UserCommand (Some m)) S = (if ve_send_ok E then (ViewOn, [ToHost m], S) else (ViewEnd, [], S))"
| "viewer_step X B audio E (FromHost (Inl _)) S = (ViewEnd, [], S)"
| "viewer_step X B audio E (FromHost (Inr None)) S = (ViewEnd, [], S)"
| "viewer_step X B audio E (FromHost (Inr (Some m))) S = on_host_msg X B audio E m S"

fun viewer_run ::
  "'d decoder_ext \<Rightarrow> base64 \<Rightarrow> bool \<Rightarrow> 'd viewer_session \<Rightarrow> (viewer_env \<times> viewer_event) list \<Rightarrow> view_end \<times> viewer_effect list \<times> 'd viewer_session" where
  "viewer_run X B audio S [] = (ViewOn, [], S)"
| "viewer_run X B audio S ((E, ev) # evs) =
     (case viewer_step X B audio E ev S of
        (ViewOn, eff, S') \<Rightarrow> (case viewer_run X B audio S' evs of (r, effs, S'') \<Rightarrow> (r, eff @ effs, S''))
      | (r, eff, S') \<Rightarrow> (r, eff, S'))"

section \<open>What leaves the session\<close>

text \<open>The effects of one host message, by kind.\<close>

definition to_host_ok :: "viewer_env \<Rightarrow> viewer_event \<Rightarrow> msg \<Rightarrow> bool" where
  "to_host_ok E ev m \<longleftrightarrow>
     (case ev of
        UserCancel \<Rightarrow> m = close_by_user
      | UserCommand c \<Rightarrow> c = Some m
      | FromHost (Inr (Some (MsgPing ts))) \<Rightarrow> m = pong_for (ve_now_ms E) ts
      | _ \<Rightarrow> False)"

definition effect_ok :: "bool \<Rightarrow> viewer_env \<Rightarrow> viewer_event \<Rightarrow> viewer_effect \<Rightarrow> bool" where
  "effect_ok audio E ev eff \<longleftrightarrow>
     (case eff of
        ToHost m \<Rightarrow> to_host_ok E ev m
      | EmitDisplays ds \<Rightarrow> length ds \<le> 16 \<and> list_all (\<lambda>d. chars_count (di_name d) \<le> 64) ds
      | EmitClipboard s \<Rightarrow> length s \<le> 1048576 \<and> utf8_valid s
      | PlayAudio af \<Rightarrow> audio \<and> \<not> ve_muted E \<and> ev = FromHost (Inr (Some (MsgAudioFrame af)))
      | EmitPacket codec key ts data \<Rightarrow> ve_webcodecs E
      | EmitFrame w h key data \<Rightarrow> True
      | EmitQos fps kbps q \<Rightarrow> True)"

lemma cap_display_list_ok:
  "length (cap_display_list ds) \<le> 16" "list_all (\<lambda>d. chars_count (di_name d) \<le> 64) (cap_display_list ds)"
  using take_chars_count [of 64] by (auto simp: cap_display_list_def MAX_DISPLAYS_def list_all_iff)

lemma clipboard_text_ok: "clipboard_text cs = Some s \<Longrightarrow> length s \<le> 1048576 \<and> utf8_valid s"
  by (auto simp: clipboard_text_def VIEWER_CLIP_BYTES_def Let_def split: if_splits)

lemma show_decoded_ok: "list_all (effect_ok audio E ev) (fst (snd (show_decoded X B E vf S)))"
  by (auto simp: show_decoded_def Let_def effect_ok_def split: option.splits prod.splits sum.splits)

lemma on_host_frame_ok: "list_all (effect_ok audio E ev) (fst (snd (on_host_frame X B E vf S)))"
  using show_decoded_ok [of audio E ev X B vf]
  by (auto simp: on_host_frame_def Let_def effect_ok_def split: option.splits prod.splits sum.splits)

lemma viewer_step_ok: "list_all (effect_ok audio E ev) (fst (snd (viewer_step X B audio E ev S)))"
proof (cases "(X, B, audio, E, ev, S)" rule: viewer_step.cases)
  case (6 X' B' audio' E' m S')
  then show ?thesis
    using cap_display_list_ok clipboard_text_ok on_host_frame_ok
    by (auto simp: on_host_msg_def effect_ok_def to_host_ok_def split: msg.splits option.splits)
qed (auto simp: effect_ok_def to_host_ok_def)

lemma viewer_run_ok:
  "eff \<in> set (fst (snd (viewer_run X B audio S evs))) \<Longrightarrow> \<exists>(E, ev) \<in> set evs. effect_ok audio E ev eff"
proof (induction X B audio S evs rule: viewer_run.induct)
  case (2 X B audio S E ev evs)
  obtain r effs S' where s: "viewer_step X B audio E ev S = (r, effs, S')" by (metis prod_cases3)
  then have ok: "list_all (effect_ok audio E ev) effs" using viewer_step_ok [of audio E ev X B S] by simp
  from 2 s ok show ?case
    by (cases r) (force simp: list_all_iff split: prod.splits)+
qed simp

text \<open>
  C24. What a session of the viewer lets out, for every decoder, every sequence of events and every host:
  each message sent to the host is a command of the user, the close message after a cancel, or the pong
  for a ping with that ping's time stamp; the interface is given at most 16 displays with names of at most 64
  characters, clipboard text of at most 1 MiB that is valid UTF-8, raw packets only while it decodes
  itself; audio is played only when the session has audio and is not muted.
\<close>

theorem viewer_effects_bounded:
  assumes "viewer_run X B audio S evs = (r, effs, S')" and "eff \<in> set effs"
  shows "\<exists>(E, ev) \<in> set evs.
    (case eff of
        ToHost m \<Rightarrow>
          ev = UserCancel \<and> m = close_by_user \<or> ev = UserCommand (Some m) \<or>
          (\<exists>ts. ev = FromHost (Inr (Some (MsgPing ts))) \<and> m = MsgPong ts (ve_now_ms E))
      | EmitDisplays ds \<Rightarrow> length ds \<le> 16 \<and> list_all (\<lambda>d. chars_count (di_name d) \<le> 64) ds
      | EmitClipboard s \<Rightarrow> length s \<le> 1048576 \<and> utf8_valid s
      | PlayAudio af \<Rightarrow> audio \<and> \<not> ve_muted E \<and> ev = FromHost (Inr (Some (MsgAudioFrame af)))
      | EmitPacket codec key ts data \<Rightarrow> ve_webcodecs E
      | EmitFrame w h key data \<Rightarrow> True
      | EmitQos fps kbps q \<Rightarrow> True)"
proof -
  from viewer_run_ok [of eff X B audio S evs] assms obtain E ev
    where e: "(E, ev) \<in> set evs" "effect_ok audio E ev eff" by auto
  then show ?thesis
    by (intro bexI [of _ "(E, ev)"])
       (auto simp: effect_ok_def to_host_ok_def pong_for_def split: viewer_effect.splits viewer_event.splits
          sum.splits option.splits msg.splits)
qed

definition wit_view_env :: viewer_env where
  "wit_view_env = \<lparr>ve_instant = 0, ve_now_ms = 7, ve_webcodecs = False, ve_muted = False, ve_send_ok = True,
     ve_audio_room = True, ve_rec_io = (True, None, None)\<rparr>"

definition wit_decoder_ext :: "decoded_frame \<Rightarrow> unit decoder_ext" where
  "wit_decoder_ext f = \<lparr>dx_new = (\<lambda>_. Some ()), dx_decode = (\<lambda>d _ _. (Inr (Some f), d)), dx_compress = (\<lambda>rgb _ _ _. Some rgb)\<rparr>"

definition wit_view_session :: "unit viewer_session" where
  "wit_view_session =
     \<lparr>vs_counters = \<lparr>vc_frame_count = 0, vc_frames_since_update = 0, vc_last_update = 0, vc_bytes_since_update = 0,
        vc_last_seq = None, vc_seq_gaps = 0, vc_seq_total = 0\<rparr>,
      vs_stats = \<lparr>st_fps = 0, st_bitrate_kbps = 0, st_rtt_ms = 0, st_bytes_recv = 0, st_frames_decoded = 0,
        st_packet_loss_pct = 0\<rparr>,
      vs_decoder = None, vs_recording = None\<rparr>"

definition wit_flat_frame :: "u32 \<Rightarrow> u32 \<Rightarrow> decoded_frame" where
  "wit_flat_frame w h =
     \<lparr>df_width = w, df_height = h, df_y_plane = replicate (unat w * unat h) 16,
      df_u_plane = replicate ((unat w div 2) * (unat h div 2)) 128, df_v_plane = replicate ((unat w div 2) * (unat h div 2)) 128,
      df_timestamp_ms = 0\<rparr>"

theorem viewer_effects_bounded_witness:
  "viewer_run (wit_decoder_ext (wit_flat_frame 2 2)) demo_base64 True wit_view_session
     [(wit_view_env, FromHost (Inr (Some (MsgPing 5)))), (wit_view_env, UserCancel)]
     = (ViewEnd, [ToHost (MsgPong 5 7), ToHost close_by_user],
        wit_view_session\<lparr>vs_stats := (vs_stats wit_view_session)\<lparr>st_rtt_ms := 2\<rparr>\<rparr>) \<and>
   (MsgPong 5 7 = close_by_user \<or> MsgPong 5 7 = MsgPong 5 (ve_now_ms wit_view_env))"
proof -
  have run: "viewer_run (wit_decoder_ext (wit_flat_frame 2 2)) demo_base64 True wit_view_session
     [(wit_view_env, FromHost (Inr (Some (MsgPing 5)))), (wit_view_env, UserCancel)]
     = (ViewEnd, [ToHost (MsgPong 5 7), ToHost close_by_user],
        wit_view_session\<lparr>vs_stats := (vs_stats wit_view_session)\<lparr>st_rtt_ms := 2\<rparr>\<rparr>)"
    by (simp add: on_host_msg_def wit_view_env_def pong_for_def sat_sub_def wit_view_session_def)
  from viewer_effects_bounded [OF run, of "ToHost (MsgPong 5 7)"] run show ?thesis by auto
qed

section \<open>Decoded pictures\<close>

text \<open>
  Showing a decoded picture: for the tightly packed planes the decoders produce, the session goes on
  when both sides of the picture are even, with the picture handed to the interface as soon as the
  compressor gives one; when a side is odd, the conversion indexes past the end of a chroma plane and the
  viewer panics, although the size check before it is meant to give an empty picture instead.
\<close>

theorem decoded_picture_shown:
  assumes "vs_decoder S = Some d" and "dx_decode X d (vf_data vf) (vf_timestamp_ms vf) = (Inr (Some f), d')"
    and "unat (df_width f) = w" "unat (df_height f) = h" "0 < w" "0 < h"
    and "length (df_y_plane f) = w * h" "length (df_u_plane f) = (w div 2) * (h div 2)"
      "length (df_v_plane f) = (w div 2) * (h div 2)"
  shows "(odd w \<or> odd h \<longrightarrow> fst (show_decoded X B E vf S) = ViewPanic) \<and>
    (even w \<and> even h \<longrightarrow> fst (show_decoded X B E vf S) = ViewOn \<and>
      (\<exists>rgb. length rgb = 3 * (w * h) \<and>
        (\<forall>jpeg. dx_compress X rgb (df_width f) (df_height f) 85 = Some jpeg \<longrightarrow>
           fst (snd (show_decoded X B E vf S)) = [EmitFrame w h (vf_keyframe vf) (b64_encode B jpeg)])))"
proof (cases "even w \<and> even h")
  case True
  have [simp]: "length (rgb_pixel a b c) = 3" for a b c by (simp add: rgb_pixel_def Let_def)
  from True planes_to_rgb_eq [OF assms(7-9,5,6)] obtain rgb where
    r: "i420_planes_to_rgb (df_y_plane f) (df_u_plane f) (df_v_plane f) w h = Ok rgb" "length rgb = 3 * (w * h)"
    by (simp add: length_concat o_def sum_list_triv)
  with assms(1-4) True show ?thesis
    by (auto simp: show_decoded_def Let_def i420_to_jpeg_def split: option.splits intro!: exI [of _ rgb])
next
  case False
  with planes_to_rgb_eq [OF assms(7-9,5,6)]
  have "i420_planes_to_rgb (df_y_plane f) (df_u_plane f) (df_v_plane f) w h = Err IndexPanic" by auto
  with assms(1-4) False show ?thesis by (auto simp: show_decoded_def Let_def i420_to_jpeg_def)
qed

definition wit_vp9 :: video_frame where
  "wit_vp9 = \<lparr>vf_seq = 0, vf_display_idx = 0, vf_keyframe = True, vf_codec = Vp9, vf_data = [], vf_width = 3, vf_height = 1,
     vf_timestamp_ms = 0, vf_color_primaries = CpBt709, vf_transfer = TfBt709, vf_color_range = CrLimited,
     vf_hdr_metadata = None\<rparr>"

theorem decoded_picture_shown_witness:
  "fst (show_decoded (wit_decoder_ext (wit_flat_frame 3 1)) demo_base64 wit_view_env wit_vp9 (wit_view_session\<lparr>vs_decoder := Some ()\<rparr>)) = ViewPanic \<and>
   fst (show_decoded (wit_decoder_ext (wit_flat_frame 2 2)) demo_base64 wit_view_env wit_vp9 (wit_view_session\<lparr>vs_decoder := Some ()\<rparr>)) = ViewOn"
  using decoded_picture_shown [of "wit_view_session\<lparr>vs_decoder := Some ()\<rparr>" "()" "wit_decoder_ext (wit_flat_frame 3 1)" wit_vp9
      "wit_flat_frame 3 1" "()" 3 1 demo_base64 wit_view_env]
    decoded_picture_shown [of "wit_view_session\<lparr>vs_decoder := Some ()\<rparr>" "()" "wit_decoder_ext (wit_flat_frame 2 2)" wit_vp9
      "wit_flat_frame 2 2" "()" 2 2 demo_base64 wit_view_env]
  by (simp add: wit_decoder_ext_def wit_flat_frame_def)

section \<open>Offers\<close>

text \<open>
  The wait for an offer ends with the relay that the first connection offer names, or with the first
  error; events of other kinds only change the address shown.
\<close>

lemma wait_offer_first:
  assumes "\<forall>e \<in> set es. (\<forall>t a p. e \<noteq> IncomingConnection t a p) \<and> (\<forall>c m. e \<noteq> SignalError c m)"
  shows "\<exists>pub'. wait_offer pub (es @ IncomingConnection t a p # rest) = Ok ((a, p, t), pub')"
    and "wait_offer pub (es @ SignalError c m # rest) = Err (SignalFailed m)"
    and "wait_offer pub es = Err SignalGone"
  using assms by (induction pub es rule: wait_offer.induct) auto

end
