(* ===== verification/Viewer_Commands.thy ===== *)
theory Viewer_Commands
  imports Viewer_Session Json
begin

text \<open>
  What the user interface of the viewer can ask for (\<open>commands.rs\<close> and the methods of \<open>AppState\<close> in
  \<open>state.rs\<close>): the switches, messages for the running session, the answer to a pairing prompt, recordings
  and their list, the audit log of the agents, the devices on the local network and the trusted ones.
\<close>

section \<open>Messages for the session\<close>

text \<open>The command channel of the session, as the sender sees it.\<close>

datatype command_channel = NoSession | ChannelClosed | ChannelOpen

datatype command_error = SessionClosed | NoActiveSession | ClipboardTooLarge | TextTooLong | UnknownInputKind string

definition send_msg_cmd :: "command_channel \<Rightarrow> msg \<Rightarrow> command_error + msg list" where
  "send_msg_cmd ch m =
     (case ch of NoSession \<Rightarrow> Ok [] | ChannelClosed \<Rightarrow> Err SessionClosed | ChannelOpen \<Rightarrow> Ok [m])"

definition MAX_CLIPBOARD_BYTES :: nat where
  "MAX_CLIPBOARD_BYTES = 10 * 1024 * 1024"

definition send_clipboard :: "command_channel \<Rightarrow> string \<Rightarrow> command_error + msg list" where
  "send_clipboard ch t =
     (if length t > MAX_CLIPBOARD_BYTES then Err ClipboardTooLarge
      else send_msg_cmd ch (MsgClipboardSync \<lparr>cs_format = ClipText, cs_data = as_bytes t\<rparr>))"

definition request_clipboard :: "command_channel \<Rightarrow> command_error + msg list" where
  "request_clipboard ch = send_msg_cmd ch MsgRequestClipboard"

definition send_qos_hint :: "command_channel \<Rightarrow> string \<Rightarrow> u8 \<Rightarrow> u8 \<Rightarrow> command_error + msg list" where
  "send_qos_hint ch mode max_fps min_quality =
     send_msg_cmd ch (MsgQosHint \<lparr>qh_mode = mode, qh_max_fps = max_fps, qh_min_quality = min_quality\<rparr>)"

definition select_display_cmd :: "command_channel \<Rightarrow> u8 \<Rightarrow> command_error + msg list" where
  "select_display_cmd ch idx = send_msg_cmd ch (MsgSelectDisplay idx)"

text \<open>\<open>send_file_transfer\<close>, which insists on a session.\<close>

definition send_file_transfer ::
  "(bytes \<Rightarrow> bytes) \<Rightarrow> command_channel \<Rightarrow> uuid \<Rightarrow> string \<Rightarrow> bytes \<Rightarrow> command_error + msg list" where
  "send_file_transfer sha256 ch uid name data =
     (case ch of
        NoSession \<Rightarrow> Err NoActiveSession
      | ChannelClosed \<Rightarrow> Err SessionClosed
      | ChannelOpen \<Rightarrow> Ok (map MsgFileTransfer (file_messages sha256 uid name data)))"

text \<open>
  The prompt of the pairing gate: the sender the session left in its slot, which an answer takes. The second
  component is the answer delivered.
\<close>

datatype pairing_slot = NoPrompt | PromptPending

definition confirm_pairing :: "pairing_slot option \<Rightarrow> bool \<Rightarrow> pairing_slot option \<times> bool option" where
  "confirm_pairing slot accept =
     (case slot of
        Some PromptPending \<Rightarrow> (Some NoPrompt, Some accept)
      | _ \<Rightarrow> (slot, None))"

section \<open>Recordings\<close>

datatype fs_node = FsFile "bytes option" | FsDir "(string \<times> fs_node) list option"

fun dir_size :: "fs_node \<Rightarrow> u64"
  and entries_size :: "(string \<times> fs_node) list \<Rightarrow> u64" where
  "dir_size (FsDir (Some es)) = entries_size es"
| "dir_size (FsDir None) = 0"
| "dir_size (FsFile c) = 0"
| "entries_size [] = 0"
| "entries_size ((nm, FsDir d) # es) = dir_size (FsDir d) + entries_size es"
| "entries_size ((nm, FsFile (Some c)) # es) = word_of_nat (length c) + entries_size es"
| "entries_size ((nm, FsFile None) # es) = entries_size es"

record active_recording = recording_state +
  ar_dir :: string
  ar_session_id :: string
  ar_start_ts_ms :: u64

record viewer_recording_summary =
  rs_path :: string
  rs_session_id :: string
  rs_start_ts_ms :: u64
  rs_duration_ms :: u64
  rs_frame_count :: u64
  rs_size_bytes :: u64

definition begin_recording :: "string \<Rightarrow> string \<Rightarrow> u64 \<Rightarrow> active_recording" where
  "begin_recording recordings session_id now_unix =
     recording_state.extend start_recording
       (active_recording.fields (recordings @ ''/'' @ session_id) session_id (now_unix * 1000))"

text \<open>The container on disk.\<close>

definition recording_files :: "active_recording \<Rightarrow> (string \<times> fs_node) list" where
  "recording_files R = [(''frames.bin'', FsFile (Some (rg_frames R))), (''offsets.bin'', FsFile (Some (rg_offsets R)))]"

definition recording_meta :: "active_recording \<Rightarrow> u64 \<Rightarrow> json" where
  "recording_meta R duration =
     JObj [(''duration_ms'', JNum (PosInt duration)), (''frame_count'', JNum (PosInt (rg_frame_count R))),
           (''session_id'', JStr (ar_session_id R)), (''start_ts_ms'', JNum (PosInt (ar_start_ts_ms R)))]"

datatype stop_error = NoActiveRecording | MetaWriteFailed

text \<open>
  \<open>stop_recording\<close>: the result, the recording left in the slot, and the files of the recording's directory
  afterwards. The release build subtracts with wrap-around.
\<close>

definition stop_recording ::
  "(json \<Rightarrow> string) \<Rightarrow> u64 \<Rightarrow> bool \<Rightarrow> active_recording option
    \<Rightarrow> (stop_error + viewer_recording_summary) \<times> active_recording option \<times> (string \<times> fs_node) list option" where
  "stop_recording print now_unix write_ok slot =
     (case slot of
        None \<Rightarrow> (Err NoActiveRecording, None, None)
      | Some R \<Rightarrow>
          (let duration = now_unix * 1000 - ar_start_ts_ms R;
               sz = dir_size (FsDir (Some (recording_files R)));
               meta = as_bytes (print (recording_meta R duration))
           in if write_ok
              then (Ok \<lparr>rs_path = ar_dir R, rs_session_id = ar_session_id R, rs_start_ts_ms = ar_start_ts_ms R,
                      rs_duration_ms = duration, rs_frame_count = rg_frame_count R, rs_size_bytes = sz\<rparr>,
                    None, Some (recording_files R @ [(''meta.json'', FsFile (Some meta))]))
              else (Err MetaWriteFailed, None, Some (recording_files R))))"

text \<open>\<open>read_to_string\<close> and \<open>from_str\<close>, with \<open>Null\<close> for everything that fails.\<close>

definition read_meta :: "(string \<Rightarrow> json option) \<Rightarrow> fs_node \<Rightarrow> json" where
  "read_meta parse node =
     (case node of
        FsFile (Some c) \<Rightarrow>
          (let s = map (\<lambda>b. char_of (unat b)) c
           in if utf8_valid s then (case parse s of Some j \<Rightarrow> j | None \<Rightarrow> JNull) else JNull)
      | _ \<Rightarrow> JNull)"

definition summary_of :: "(string \<Rightarrow> json option) \<Rightarrow> string \<Rightarrow> string \<times> fs_node \<Rightarrow> viewer_recording_summary option" where
  "summary_of parse dir entry =
     (case entry of
        (nm, FsDir (Some es)) \<Rightarrow>
          (case map_of es ''meta.json'' of
             None \<Rightarrow> None
           | Some node \<Rightarrow>
               (let meta = read_meta parse node;
                    u64_field = (\<lambda>k. case Option.bind (value_get meta k) as_u64 of Some n \<Rightarrow> n | None \<Rightarrow> 0)
                in Some \<lparr>rs_path = dir @ ''/'' @ nm,
                         rs_session_id = (case Option.bind (value_get meta ''session_id'') as_str of Some s \<Rightarrow> s | None \<Rightarrow> []),
                         rs_start_ts_ms = u64_field ''start_ts_ms'', rs_duration_ms = u64_field ''duration_ms'',
                         rs_frame_count = u64_field ''frame_count'', rs_size_bytes = dir_size (FsDir (Some es))\<rparr>))
      | _ \<Rightarrow> None)"

text \<open>\<open>list_recordings\<close>: the newest first; the sort is stable.\<close>

definition list_recordings :: "(string \<Rightarrow> json option) \<Rightarrow> string \<Rightarrow> fs_node \<Rightarrow> viewer_recording_summary list" where
  "list_recordings parse dir node =
     (case node of
        FsDir (Some entries) \<Rightarrow>
          sort_key (\<lambda>s. - uint (rs_start_ts_ms s)) (List.map_filter (summary_of parse dir) entries)
      | _ \<Rightarrow> [])"

section \<open>The audit log\<close>

record audit_summary =
  as_total_entries :: u64
  as_chain_intact :: bool
  as_last_entry_seq :: u64
  as_last_entry_ts_ms :: u64

datatype audit_view_error = AuditUnreadable | AuditUnserializable | AuditSlicePanic

text \<open>\<open>None\<close> is a log that does not exist.\<close>

definition audit_summary_of :: "audit_ext \<Rightarrow> string option \<Rightarrow> audit_view_error + audit_summary" where
  "audit_summary_of X content_opt =
     (case content_opt of
        None \<Rightarrow> Ok \<lparr>as_total_entries = 0, as_chain_intact = True, as_last_entry_seq = 0, as_last_entry_ts_ms = 0\<rparr>
      | Some content \<Rightarrow>
          (case parse_lines (ax_from_str X) (file_lines content) of
             None \<Rightarrow> Err AuditUnreadable
           | Some entries \<Rightarrow>
               Ok \<lparr>as_total_entries = word_of_nat (length entries),
                   as_chain_intact = (case audit_open X (Some content) of Inr _ \<Rightarrow> True | Inl _ \<Rightarrow> False),
                   as_last_entry_seq = (if entries = [] then 0 else ae_seq (last entries)),
                   as_last_entry_ts_ms = (if entries = [] then 0 else ae_timestamp_ms (last entries))\<rparr>))"

fun capability_debug :: "capability \<Rightarrow> string" where
  "capability_debug ScreenRead = ''ScreenRead''"
| "capability_debug PointerMove = ''PointerMove''"
| "capability_debug PointerClick = ''PointerClick''"
| "capability_debug KeyType = ''KeyType''"
| "capability_debug KeyCombo = ''KeyCombo''"
| "capability_debug ClipboardRead = ''ClipboardRead''"
| "capability_debug ClipboardWrite = ''ClipboardWrite''"
| "capability_debug FileRead = ''FileRead''"
| "capability_debug FileWrite = ''FileWrite''"
| "capability_debug ShellExec = ''ShellExec''"
| "capability_debug OpenUrl = ''OpenUrl''"

fun outcome_lower :: "audit_outcome \<Rightarrow> string" where
  "outcome_lower AuditOk = ''ok''"
| "outcome_lower AuditDenied = ''denied''"
| "outcome_lower AuditError = ''error''"

record audit_entry_view =
  av_seq :: u64
  av_timestamp_ms :: u64
  av_token_jti :: string
  av_capability :: string
  av_action :: json
  av_confirmed :: "bool option"
  av_outcome :: string
  av_hash_short :: string

definition entry_view :: "audit_ext \<Rightarrow> audit_entry \<Rightarrow> audit_view_error + audit_entry_view" where
  "entry_view X e =
     (case audit_hash X e of
        Inl _ \<Rightarrow> Err AuditUnserializable
      | Inr hash \<Rightarrow>
          if length hash < 12 then Err AuditSlicePanic
          else Ok \<lparr>av_seq = ae_seq e, av_timestamp_ms = ae_timestamp_ms e, av_token_jti = ae_token_jti e,
                 av_capability = capability_debug (ae_capability e), av_action = ae_action e, av_confirmed = ae_confirmed e,
                 av_outcome = outcome_lower (ae_outcome e), av_hash_short = take 12 hash\<rparr>)"

fun view_lines :: "audit_ext \<Rightarrow> string list \<Rightarrow> audit_view_error + audit_entry_view list" where
  "view_lines X [] = Ok []"
| "view_lines X (line # lines) =
     (if \<not> utf8_valid line then Err AuditUnreadable
      else if is_blank line then view_lines X lines
      else (case ax_from_str X line of
              None \<Rightarrow> Err AuditUnreadable
            | Some e \<Rightarrow>
                (case entry_view X e of
                   Inl err \<Rightarrow> Err err
                 | Inr v \<Rightarrow> map_sum id ((#) v) (view_lines X lines))))"

definition audit_entries_view :: "audit_ext \<Rightarrow> u64 option \<Rightarrow> string option \<Rightarrow> audit_view_error + audit_entry_view list" where
  "audit_entries_view X limit content_opt =
     (case content_opt of
        None \<Rightarrow> Ok []
      | Some content \<Rightarrow>
          map_sum id (\<lambda>vs. take (unat (case limit of Some n \<Rightarrow> n | None \<Rightarrow> 100)) (rev vs)) (view_lines X (file_lines content)))"

section \<open>Devices\<close>

record lan_peer =
  lp_device_id :: string
  lp_friendly_name :: string
  lp_addresses :: "string list"
  lp_port :: u16
  lp_form_factor :: string

fun lan_form :: "form_factor \<Rightarrow> string" where
  "lan_form Laptop = ''laptop''"
| "lan_form Phone = ''phone''"
| "lan_form Tablet = ''tablet''"
| "lan_form Server = ''server''"
| "lan_form _ = ''desktop''"

text \<open>Times in seconds; \<open>None\<close> is a viewer whose discovery did not start.\<close>

definition discover_lan_peers :: "nat \<Rightarrow> peer_table option \<Rightarrow> lan_peer list \<times> peer_table option" where
  "discover_lan_peers now disc =
     (case disc of
        None \<Rightarrow> ([], None)
      | Some peers \<Rightarrow>
          (let peers' = prune_stale now 60 peers
           in (map (\<lambda>p. \<lparr>lp_device_id = pe_device_id p, lp_friendly_name = pe_friendly_name p, lp_addresses = pe_addresses p,
                      lp_port = pe_port p, lp_form_factor = lan_form (pe_form_factor p)\<rparr>) (peer_snapshot None peers'),
               Some peers')))"

record constellation_device =
  cd_device_id :: string
  cd_name :: string
  cd_form_factor :: string
  cd_status :: string
  cd_last_seen_secs_ago :: u64
  cd_addresses :: "string list"

definition constellation_device_of :: "u64 \<Rightarrow> trusted_peer \<Rightarrow> constellation_device" where
  "constellation_device_of now_unix p =
     \<lparr>cd_device_id = tp_device_id p, cd_name = (case tp_friendly_name p of Some n \<Rightarrow> n | None \<Rightarrow> tp_device_id p),
      cd_form_factor = ''desktop'', cd_status = ''offline'', cd_last_seen_secs_ago = sat_sub now_unix (tp_last_seen p),
      cd_addresses = []\<rparr>"

section \<open>Stopped recordings are listed\<close>

lemma bytes_to_string [simp]: "map (\<lambda>b. char_of (unat b)) (as_bytes s) = s"
  by (simp add: as_bytes_def o_def unat_of_char_byte)

lemma entries_size_append: "entries_size (es @ fs) = entries_size es + entries_size fs"
proof (induction es)
  case (Cons e es)
  obtain nm node where "e = (nm, node)" by (cases e)
  with Cons show ?case
    by (cases node; cases "case node of FsFile c \<Rightarrow> c | _ \<Rightarrow> None") (auto simp: add.assoc)
qed simp

text \<open>
  A recording that was stopped is found again: when its metadata was written, the list of the
  recordings shows it with the same path, session, times and frame count, and a size larger by the
  metadata file; the list is ordered with the newest first. The assumption on the JSON library is that it
  reads back what it printed.
\<close>

theorem stopped_recording_listed:
  assumes "stop_recording print now True (Some R) = (Ok s, slot, Some files)"
    and "parse (print (recording_meta R (now * 1000 - ar_start_ts_ms R))) = Some (recording_meta R (now * 1000 - ar_start_ts_ms R))"
    and "utf8_valid (print (recording_meta R (now * 1000 - ar_start_ts_ms R)))"
    and "(ar_session_id R, FsDir (Some files)) \<in> set entries" and "ar_dir R = dir @ ''/'' @ ar_session_id R"
  shows "slot = None \<and>
    s\<lparr>rs_size_bytes := rs_size_bytes s + word_of_nat (length (print (recording_meta R (now * 1000 - ar_start_ts_ms R))))\<rparr>
      \<in> set (list_recordings parse dir (FsDir (Some entries))) \<and>
    sorted_wrt (\<lambda>a b. rs_start_ts_ms b \<le> rs_start_ts_ms a) (list_recordings parse dir (FsDir (Some entries)))"
proof -
  let ?m = "recording_meta R (now * 1000 - ar_start_ts_ms R)"
  let ?s = "s\<lparr>rs_size_bytes := rs_size_bytes s + word_of_nat (length (print ?m))\<rparr>"
  from assms(1) have s: "s = \<lparr>rs_path = ar_dir R, rs_session_id = ar_session_id R, rs_start_ts_ms = ar_start_ts_ms R,
      rs_duration_ms = now * 1000 - ar_start_ts_ms R, rs_frame_count = rg_frame_count R,
      rs_size_bytes = entries_size (recording_files R)\<rparr>" and slot: "slot = None"
    and f: "files = recording_files R @ [(''meta.json'', FsFile (Some (as_bytes (print ?m))))]"
    by (auto simp: stop_recording_def Let_def)
  have m: "map_of files ''meta.json'' = Some (FsFile (Some (as_bytes (print ?m))))"
    by (simp add: f recording_files_def)
  have "summary_of parse dir (ar_session_id R, FsDir (Some files)) = Some ?s"
    using assms(2,3,5)
    by (simp add: summary_of_def m read_meta_def Let_def)
       (simp add: s f entries_size_append recording_meta_def as_bytes_def)
  then have "?s \<in> set (List.map_filter (summary_of parse dir) entries)"
    using assms(4) by (force simp: List.map_filter_def image_iff)
  moreover have "sorted_wrt (\<lambda>a b. rs_start_ts_ms b \<le> rs_start_ts_ms a) (list_recordings parse dir (FsDir (Some entries)))"
  proof -
    have "sorted (map (\<lambda>s. - uint (rs_start_ts_ms s)) (list_recordings parse dir (FsDir (Some entries))))"
      by (simp add: list_recordings_def)
    then show ?thesis by (simp add: sorted_map word_le_def)
  qed
  ultimately show ?thesis using slot by (simp add: list_recordings_def)
qed

definition wit_active :: active_recording where
  "wit_active = begin_recording ''/r'' ''s1'' 5"

theorem stopped_recording_listed_witness:
  "\<lparr>rs_path = ''/r/s1'', rs_session_id = ''s1'', rs_start_ts_ms = 5000, rs_duration_ms = 2000, rs_frame_count = 0, rs_size_bytes = 1\<rparr>
     \<in> set (list_recordings (\<lambda>_. Some (recording_meta wit_active 2000)) ''/r''
          (FsDir (Some [(''s1'', FsDir (Some (recording_files wit_active @ [(''meta.json'', FsFile (Some (as_bytes ''m'')))])))])))"
proof -
  have f: "ar_dir wit_active = ''/r/s1'' \<and> ar_session_id wit_active = ''s1'' \<and> ar_start_ts_ms wit_active = 5000 \<and> rg_frame_count wit_active = 0 \<and>
      rg_frames wit_active = [] \<and> rg_offsets wit_active = []"
    by (simp add: wit_active_def begin_recording_def start_recording_def recording_state.defs active_recording.defs)
  have "stop_recording (\<lambda>_. ''m'') 7 True (Some wit_active) =
      (Ok \<lparr>rs_path = ''/r/s1'', rs_session_id = ''s1'', rs_start_ts_ms = 5000, rs_duration_ms = 2000, rs_frame_count = 0, rs_size_bytes = 0\<rparr>, None,
       Some (recording_files wit_active @ [(''meta.json'', FsFile (Some (as_bytes ''m'')))]))"
    using f by (simp add: stop_recording_def Let_def recording_files_def)
  from stopped_recording_listed [OF this, of "\<lambda>_. Some (recording_meta wit_active 2000)"
      "[(''s1'', FsDir (Some (recording_files wit_active @ [(''meta.json'', FsFile (Some (as_bytes ''m'')))])))]" "''/r''"] f
  show ?thesis by (simp add: utf8_valid_def)
qed

section \<open>The audit log is shown as it is\<close>

lemma map_sum_Ok_iff: "map_sum id f r = Ok y \<longleftrightarrow> (\<exists>x. r = Ok x \<and> y = f x)"
  by (cases r) auto

lemma view_lines_parse:
  "view_lines X ls = Ok vs \<longleftrightarrow>
     (\<exists>es. parse_lines (ax_from_str X) ls = Some es \<and> list_all2 (\<lambda>e v. entry_view X e = Ok v) es vs)"
  by (induction X ls arbitrary: vs rule: view_lines.induct)
     (auto split: option.splits sum.splits simp: list_all2_Cons1 map_sum_Ok_iff)

lemma view_lines_Ok:
  assumes "parse_lines (ax_from_str X) ls = Some es" "\<forall>e \<in> set es. \<exists>v. entry_view X e = Ok v"
  shows "\<exists>vs. view_lines X ls = Ok vs \<and> list_all2 (\<lambda>e v. entry_view X e = Ok v) es vs"
proof -
  from assms(2) have "\<exists>vs. list_all2 (\<lambda>e v. entry_view X e = Ok v) es vs"
    by (induction es) (auto simp: list_all2_Cons1)
  with assms(1) show ?thesis by (auto simp: view_lines_parse)
qed

lemma entry_view_total:
  assumes "audit_codec_ok X e" "\<forall>bs. length (ax_sha256 X bs) = 32"
  shows "\<exists>v. entry_view X e = Ok v \<and> av_seq v = ae_seq e \<and> av_action v = ae_action e \<and> av_token_jti v = ae_token_jti e"
proof -
  from audit_codecD [OF assms(1)] obtain l where "audit_hash X e = Ok (hex_encode (ax_sha256 X (as_bytes l)))" by blast
  with assms(2) show ?thesis by (simp add: entry_view_def hex_encode_length)
qed

text \<open>
  What the viewer shows of the audit log: for a log of any number of appended entries, the summary
  reports their number, an intact chain and the last entry; the list of entries shows the last ones, the
  newest first, as many as asked for. In general a log that is shown at all is reported intact exactly when
  its chain verifies.
\<close>

theorem audit_log_shown:
  assumes "\<forall>e \<in> set (audit_run_entries X fresh_log rs). audit_codec_ok X e" and "\<forall>bs. length (ax_sha256 X bs) = 32"
    and "es = audit_run_entries X fresh_log rs" and "content = al_file (audit_run X fresh_log rs)"
  shows "audit_summary_of X (Some content) =
      Ok \<lparr>as_total_entries = word_of_nat (length rs), as_chain_intact = True,
          as_last_entry_seq = (if rs = [] then 0 else ae_seq (last es)),
          as_last_entry_ts_ms = (if rs = [] then 0 else ae_timestamp_ms (last es))\<rparr> \<and>
    (\<exists>vs. audit_entries_view X (Some limit) (Some content) = Ok vs \<and>
       map av_seq vs = map ae_seq (take (unat limit) (rev es)) \<and> map av_action vs = map ae_action (take (unat limit) (rev es))) \<and>
    (\<forall>c s. audit_summary_of X (Some c) = Ok s \<longrightarrow> as_chain_intact s = (\<exists>n. verify_path X c = Ok n))"
proof -
  have wf: "audit_wf X (audit_run X fresh_log rs) es"
    using audit_run_wf [OF audit_wf_fresh assms(1)] by (simp add: assms(3))
  then have p: "parse_lines (ax_from_str X) (file_lines content) = Some es"
    by (simp add: audit_wf_def audit_entries_def assms(4))
  have o: "audit_open X (Some content) = Ok (audit_run X fresh_log rs)"
    using audit_wf_reopen [OF wf] by (simp add: assms(4))
  have l: "length es = length rs" by (simp add: assms(3) audit_run_entries_length)
  then have "es = [] \<longleftrightarrow> rs = []" by auto
  then have sm: "audit_summary_of X (Some content) =
      Ok \<lparr>as_total_entries = word_of_nat (length rs), as_chain_intact = True,
          as_last_entry_seq = (if rs = [] then 0 else ae_seq (last es)),
          as_last_entry_ts_ms = (if rs = [] then 0 else ae_timestamp_ms (last es))\<rparr>"
    by (simp add: audit_summary_of_def p o l)
  obtain vs where vs: "view_lines X (file_lines content) = Ok vs" "list_all2 (\<lambda>e v. entry_view X e = Ok v) es vs"
    using view_lines_Ok [OF p] entry_view_total assms(1,2,3) by blast
  have "list_all2 (\<lambda>e v. av_seq v = ae_seq e \<and> av_action v = ae_action e) es vs"
    using vs(2) by (rule list_all2_mono) (auto simp: entry_view_def split: sum.splits if_splits)
  then have eq: "map av_seq vs = map ae_seq es" "map av_action vs = map ae_action es"
    by (auto simp: list_all2_conv_all_nth intro!: nth_equalityI)
  have "audit_entries_view X (Some limit) (Some content) = Ok (take (unat limit) (rev vs))"
    by (simp add: audit_entries_view_def vs(1))
  moreover have "map av_seq (take (unat limit) (rev vs)) = map ae_seq (take (unat limit) (rev es))"
    "map av_action (take (unat limit) (rev vs)) = map ae_action (take (unat limit) (rev es))"
    by (simp_all add: eq rev_map [symmetric] take_map [symmetric])
  moreover have "as_chain_intact s = (\<exists>n. verify_path X c = Ok n)" if "audit_summary_of X (Some c) = Ok s" for c s
    using that by (auto simp: audit_summary_of_def audit_open_def verify_path_def split: option.splits sum.splits)
  ultimately show ?thesis using sm by blast
qed

definition wit_view_ext :: audit_ext where
  "wit_view_ext = wit_audit_ext\<lparr>ax_sha256 := (\<lambda>_. replicate 32 0)\<rparr>"

theorem audit_log_shown_witness:
  "audit_summary_of wit_view_ext (Some (al_file (audit_run wit_view_ext fresh_log [hd wit_requests]))) =
     Ok \<lparr>as_total_entries = 1, as_chain_intact = True, as_last_entry_seq = 0, as_last_entry_ts_ms = 10\<rparr>"
proof -
  have e: "audit_run_entries wit_view_ext fresh_log [hd wit_requests] = [wit_entry0]"
    by (simp add: wit_view_ext_def wit_audit_defs redact_image_field_def)
  have "audit_codec_ok wit_view_ext wit_entry0"
    using wit_codec_ok(1) by (simp add: audit_codec_ok_def wit_view_ext_def)
  with e have "\<forall>e \<in> set (audit_run_entries wit_view_ext fresh_log [hd wit_requests]). audit_codec_ok wit_view_ext e" by simp
  moreover have "\<forall>bs. length (ax_sha256 wit_view_ext bs) = 32" by (simp add: wit_view_ext_def)
  ultimately show ?thesis using audit_log_shown [OF _ _ refl refl, of wit_view_ext "[hd wit_requests]" 5]
    by (simp only: e) (simp add: wit_entry0_def)
qed

section \<open>When a device was last seen\<close>

text \<open>
  The list of devices always shows a device as seen just now: the gate stores the time of a
  connection in milliseconds and the list subtracts it from a time in seconds, so the age stays zero until the
  clock in seconds passes the stored milliseconds, a thousand times the time since 1970.
\<close>

theorem last_seen_always_zero:
  assumes "viewer_gate J B sha now_ms io answer H device_id key = (Ok (), H', prompted)"
    and "now_unix \<le> now_ms"
  shows "\<exists>p. ha_acl H' device_id = Some p \<and> tp_last_seen p = now_ms \<and>
    cd_last_seen_secs_ago (constellation_device_of now_unix p) = 0"
proof -
  from assms(1) have "\<exists>p. ha_acl H' device_id = Some p \<and> tp_last_seen p = now_ms"
    by (auto simp: viewer_gate_def acl_check_def acl_touch_def acl_trust_def Let_def
        split: option.splits trust_decision.splits bool.splits if_splits)
  with assms(2) show ?thesis by (auto simp: constellation_device_of_def sat_sub_def)
qed

theorem last_seen_always_zero_witness:
  "cd_last_seen_secs_ago (constellation_device_of 1800000000
     (the (ha_acl (fst (snd (viewer_gate wit_acl_codec demo_base64 (\<lambda>b. b) 1700000000000 AclDone (Some True)
        \<lparr>ha_acl = Map.empty, ha_files = \<lparr>af_main = None, af_tmp = None, af_bak = None\<rparr>\<rparr> ''D'' [1]))) ''D''))) = 0"
proof -
  let ?H = "\<lparr>ha_acl = Map.empty, ha_files = \<lparr>af_main = None, af_tmp = None, af_bak = None\<rparr>\<rparr>"
  obtain H1 where h: "viewer_gate wit_acl_codec demo_base64 (\<lambda>b. b) 1700000000000 AclDone (Some True) ?H ''D'' [1] = (Ok (), H1, True)"
    by (simp add: viewer_gate_def acl_check_def Let_def)
  from last_seen_always_zero [OF h, of 1800000000] obtain p where
    "ha_acl H1 ''D'' = Some p" "cd_last_seen_secs_ago (constellation_device_of 1800000000 p) = 0" by auto
  with h show ?thesis by simp
qed

end
