(* ===== verification/Mcp_Stdio.thy ===== *)
theory Mcp_Stdio
  imports Mcp_Server
begin

text \<open>
  The tool server on standard input and output: the list of tools (\<open>miru-mcp/src/tools.rs\<close>), the messages of
  the protocol (\<open>protocol.rs\<close>) and the loop that answers one JSON-RPC request per line (\<open>lib.rs\<close>).

  The JSON library's reading of a request and of the parameters of a tool call is a parameter; an
  answer is kept as a value and not printed.
\<close>

section \<open>The tools on offer\<close>

record tool_definition =
  td_name :: string
  td_description :: string
  td_input_schema :: json

definition typed :: "string \<Rightarrow> json" where
  "typed t = jobj [(''type'', JStr t)]"

definition schema :: "(string \<times> json) list \<Rightarrow> (string \<times> json) list \<Rightarrow> json" where
  "schema extra props = jobj ([(''type'', JStr ''object'')] @ extra @ [(''properties'', jobj props)])"

definition needs :: "string list \<Rightarrow> (string \<times> json) list" where
  "needs ks = [(''required'', JArr (map JStr ks))]"

definition unit_number :: json where
  "unit_number = jobj [(''type'', JStr ''number''), (''minimum'', json_of_nat 0), (''maximum'', json_of_nat 1)]"

definition definitions :: "tool_definition list" where
  "definitions =
     [\<lparr>td_name = ''miru_screen_capture'',
       td_description = ''Capture the current screen of the connected Miru host. Returns a base64 PNG image. Use this to see what's on the screen before deciding what action to take.'',
       td_input_schema = schema []
         [(''display'', jobj [(''type'', JStr ''integer''),
             (''description'', JStr ''Display index (0 = primary). Optional, defaults to 0.''), (''default'', json_of_nat 0)]),
          (''region'', jobj [(''type'', JStr ''object''),
             (''description'', JStr ''Optional sub-region to capture in normalized coords (0-1).''),
             (''properties'', jobj [(''x'', typed ''number''), (''y'', typed ''number''), (''width'', typed ''number''),
                (''height'', typed ''number'')])])]\<rparr>,
      \<lparr>td_name = ''miru_mouse_move'',
       td_description = ''Move the mouse cursor to the given normalized position (0-1). Coordinate (0,0) is top-left, (1,1) is bottom-right.'',
       td_input_schema = schema (needs [''x'', ''y'']) [(''x'', unit_number), (''y'', unit_number)]\<rparr>,
      \<lparr>td_name = ''miru_mouse_click'',
       td_description = ''Click a mouse button at the given normalized position. Button defaults to 'left'. Use 'double' to double-click.'',
       td_input_schema = schema (needs [''x'', ''y''])
         [(''x'', typed ''number''), (''y'', typed ''number''),
          (''button'', jobj [(''type'', JStr ''string''), (''enum'', JArr (map JStr [''left'', ''right'', ''middle''])),
             (''default'', JStr ''left'')]),
          (''double'', jobj [(''type'', JStr ''boolean''), (''default'', JBool False)])]\<rparr>,
      \<lparr>td_name = ''miru_scroll'',
       td_description = ''Scroll the mouse wheel at the given position. Positive dy = scroll up.'',
       td_input_schema = schema (needs [''dy''])
         [(''x'', typed ''number''), (''y'', typed ''number''),
          (''dx'', jobj [(''type'', JStr ''number''), (''default'', json_of_nat 0)]), (''dy'', typed ''number'')]\<rparr>,
      \<lparr>td_name = ''miru_key_type'',
       td_description = ''Type the given text string. Use this for plain text entry '' @ [CHR 0xE2, CHR 0x80, CHR 0x94] @
         '' for keyboard shortcuts use miru_key_combo instead.'',
       td_input_schema = schema (needs [''text''])
         [(''text'', jobj [(''type'', JStr ''string''), (''maxLength'', json_of_nat 4096)])]\<rparr>,
      \<lparr>td_name = ''miru_key_combo'',
       td_description = ''Send a keyboard shortcut. Format: modifiers separated by '+', e.g. 'Ctrl+C', 'Cmd+Shift+T', 'Alt+Tab'. Modifiers: Ctrl, Cmd (Meta), Shift, Alt. Then a single key.'',
       td_input_schema = schema (needs [''combo'']) [(''combo'', typed ''string'')]\<rparr>,
      \<lparr>td_name = ''miru_clipboard_read'',
       td_description = ''Read the host's current clipboard contents. Returns the text on the host clipboard. The request is sent to the host and the response arrives asynchronously (up to 2 s). Use this before miru_key_type to inspect what was copied, or after asking the user to copy something.'',
       td_input_schema = schema [] []\<rparr>,
      \<lparr>td_name = ''miru_clipboard_write'',
       td_description = ''Set the host's clipboard contents to the given text.'',
       td_input_schema = schema (needs [''text''])
         [(''text'', jobj [(''type'', JStr ''string''), (''maxLength'', json_of_nat 1048576)])]\<rparr>,
      \<lparr>td_name = ''miru_open_url'',
       td_description = ''Open a URL in the host's default web browser.'',
       td_input_schema = schema (needs [''url''])
         [(''url'', jobj [(''type'', JStr ''string''), (''format'', JStr ''uri''), (''pattern'', JStr ''^https?://'')])]\<rparr>,
      \<lparr>td_name = ''miru_status'',
       td_description = ''Get the connection status, agent token expiry, and recent activity.'',
       td_input_schema = schema [] []\<rparr>]"

section \<open>Requests and responses\<close>

definition MCP_PROTOCOL_VERSION :: string where
  "MCP_PROTOCOL_VERSION = ''2024-11-05''"

record rpc_request =
  rq_jsonrpc :: string
  rq_id :: "json option"
  rq_method :: string
  rq_params :: "json option"

datatype rpc_error_code = PARSE_ERROR | METHOD_NOT_FOUND | INVALID_PARAMS

fun error_number :: "rpc_error_code \<Rightarrow> int" where
  "error_number PARSE_ERROR = - 32700"
| "error_number METHOD_NOT_FOUND = - 32601"
| "error_number INVALID_PARAMS = - 32602"

record rpc_error =
  re_code :: int
  re_message :: string

record rpc_response =
  rr_id :: json
  rr_result :: "json option"
  rr_error :: "rpc_error option"

definition response_ok :: "json \<Rightarrow> json \<Rightarrow> rpc_response" where
  "response_ok rid result = \<lparr>rr_id = rid, rr_result = Some result, rr_error = None\<rparr>"

definition response_err :: "json \<Rightarrow> rpc_error_code \<Rightarrow> string \<Rightarrow> rpc_response" where
  "response_err rid code message =
     \<lparr>rr_id = rid, rr_result = None, rr_error = Some \<lparr>re_code = error_number code, re_message = message\<rparr>\<rparr>"

definition initialize_result :: json where
  "initialize_result =
     jobj [(''protocolVersion'', JStr MCP_PROTOCOL_VERSION),
       (''capabilities'', jobj [(''tools'', jobj [(''listChanged'', JBool False)])]),
       (''serverInfo'', jobj [(''name'', JStr ''miru-mcp''), (''version'', JStr ''0.1.0'')])]"

definition tool_list_result :: json where
  "tool_list_result =
     jobj [(''tools'', JArr (map (\<lambda>t. jobj [(''name'', JStr (td_name t)), (''description'', JStr (td_description t)),
       (''inputSchema'', td_input_schema t)]) definitions))]"

fun content_json :: "content \<Rightarrow> json" where
  "content_json (ContentText t) = jobj [(''type'', JStr ''text''), (''text'', JStr t)]"
| "content_json (ContentImage data mime) =
     jobj [(''type'', JStr ''image''), (''data'', JStr data), (''mimeType'', JStr mime)]"

definition call_result_json :: "tool_call_result \<Rightarrow> json" where
  "call_result_json r = jobj [(''content'', JArr (map content_json (tr_content r))), (''isError'', JBool (tr_is_error r))]"

text \<open>The reading of JSON text, with the library's error text, and the text of an error value.\<close>

record rpc_ext =
  rx_request :: "string \<Rightarrow> string + rpc_request"
  rx_call_params :: "json \<Rightarrow> string + (string \<times> json)"
  rx_show_error :: "mcp_error \<Rightarrow> string"

section \<open>One request\<close>

definition handle_request :: "rpc_ext \<Rightarrow> mcp_env \<Rightarrow> rpc_request \<Rightarrow> mcp_server \<Rightarrow> rpc_response option \<times> mcp_server" where
  "handle_request R E req s =
     (let rid = (case rq_id req of Some i \<Rightarrow> i | None \<Rightarrow> JNull);
          answer = (\<lambda>result s'. (if rq_id req = None then None else Some (response_ok rid result), s'))
      in if rq_method req = ''initialize'' then answer initialize_result s
         else if rq_method req = ''initialized'' \<or> rq_method req = ''notifications/initialized'' then (None, s)
         else if rq_method req = ''tools/list'' then answer tool_list_result s
         else if rq_method req = ''tools/call''
         then (case rq_params req of
                 None \<Rightarrow> (Some (response_err rid INVALID_PARAMS ''missing params''), s)
               | Some p \<Rightarrow>
                   (case rx_call_params R p of
                      Inl e \<Rightarrow> (Some (response_err rid INVALID_PARAMS (''bad params: '' @ e)), s)
                    | Inr (name, args) \<Rightarrow>
                        (case handle_tool_call (rx_show_error R) E name args s of
                           (r, s') \<Rightarrow> answer (call_result_json r) s')))
         else if rq_method req = ''ping'' then answer (jobj []) s
         else (Some (response_err rid METHOD_NOT_FOUND (''method not found: '' @ rq_method req)), s))"

text \<open>
  \<open>run_stdio\<close>: each line with the environment it finds. A line that is not UTF-8 makes the reader fail,
  which ends the loop; a blank line is skipped.
\<close>

fun run_stdio :: "rpc_ext \<Rightarrow> (mcp_env \<times> string) list \<Rightarrow> mcp_server \<Rightarrow> rpc_response list \<times> mcp_server" where
  "run_stdio R [] s = ([], s)"
| "run_stdio R ((E, line) # ls) s =
     (if \<not> utf8_valid line then ([], s)
      else if is_blank line then run_stdio R ls s
      else
        (let (resp, s') = (case rx_request R line of
               Inr req \<Rightarrow> handle_request R E req s
             | Inl e \<Rightarrow> (Some (response_err JNull PARSE_ERROR (''parse error: '' @ e)), s))
         in case run_stdio R ls s' of (out, s'') \<Rightarrow> (case resp of None \<Rightarrow> out | Some r \<Rightarrow> r # out, s'')))"

section \<open>Listed tools\<close>

text \<open>The dispatcher knows no tool that is not listed, and no tool is listed twice.\<close>

lemma unlisted_tool_refused:
  "name \<notin> td_name ` set definitions \<Longrightarrow> dispatch E name args = mfail (UnknownTool name)"
  "distinct (map td_name definitions)"
  by (simp_all add: definitions_def dispatch_def)

section \<open>Answers\<close>

definition known_methods :: "string set" where
  "known_methods = {''initialize'', ''tools/list'', ''tools/call'', ''ping''}"

definition bad_call :: "rpc_ext \<Rightarrow> rpc_request \<Rightarrow> bool" where
  "bad_call R req \<longleftrightarrow> rq_method req = ''tools/call'' \<and>
     (case rq_params req of None \<Rightarrow> True | Some p \<Rightarrow> \<not> is_ok (rx_call_params R p))"

text \<open>
  Which requests are answered: a request with an id gets exactly one answer, with its own id and either
  a result or an error, unless it is the initialized notice; a notification (no id) is carried out without an
  answer, except that an unknown method or bad parameters of a tool call are answered with the id null,
  which the JSON-RPC specification forbids.
\<close>

theorem rpc_answers:
  "(fst (handle_request R E req s) \<noteq> None \<longleftrightarrow>
      rq_method req \<notin> {''initialized'', ''notifications/initialized''} \<and>
      (rq_id req \<noteq> None \<or> rq_method req \<notin> known_methods \<or> bad_call R req)) \<and>
   (\<forall>r. fst (handle_request R E req s) = Some r \<longrightarrow>
      rr_id r = (case rq_id req of Some i \<Rightarrow> i | None \<Rightarrow> JNull) \<and> (rr_result r = None) \<noteq> (rr_error r = None))"
proof (cases "rq_method req = ''tools/call''")
  case True
  then show ?thesis
    by (auto simp: handle_request_def Let_def response_ok_def response_err_def known_methods_def bad_call_def
        split: option.splits sum.splits prod.splits)
next
  case False
  then show ?thesis
    by (auto simp: handle_request_def Let_def response_ok_def response_err_def known_methods_def bad_call_def
        split: option.splits)
qed

definition wit_rpc_ext :: rpc_ext where
  "wit_rpc_ext =
     \<lparr>rx_request = (\<lambda>s. if s = ''ping''
        then Ok \<lparr>rq_jsonrpc = ''2.0'', rq_id = Some (json_of_nat 1), rq_method = ''ping'', rq_params = None\<rparr>
        else Ok \<lparr>rq_jsonrpc = ''2.0'', rq_id = None, rq_method = s, rq_params = None\<rparr>),
      rx_call_params = (\<lambda>_. Ok (''miru_status'', JNull)), rx_show_error = (\<lambda>_. ''e'')\<rparr>"

theorem rpc_answers_witness:
  "\<exists>r. fst (handle_request wit_rpc_ext wit_mcp_env
     \<lparr>rq_jsonrpc = ''2.0'', rq_id = None, rq_method = ''no/such'', rq_params = None\<rparr> wit_mcp) = Some r \<and> rr_id r = JNull"
  using rpc_answers [of wit_rpc_ext wit_mcp_env "\<lparr>rq_jsonrpc = ''2.0'', rq_id = None, rq_method = ''no/such'', rq_params = None\<rparr>" wit_mcp]
  by (auto simp: known_methods_def)

end
