(* ===== verification/Mcp_Main.thy ===== *)
theory Mcp_Main
  imports Mcp_Stdio File_Transfer Viewer_Session
begin

text \<open>
  The tool server as a program (\<open>miru-mcp/src/main.rs\<close>): the check of the parent process
  (\<open>parent_check.rs\<close>), the choice of the issuer key, the start-up, the rule that answers confirmation
  requests, and the bridge to a remote host (\<open>remote_bridge.rs\<close>).
\<close>

section \<open>The parent process\<close>

definition ALLOWED_PARENTS :: "string list" where
  "ALLOWED_PARENTS =
     [''claude'', ''claude-desktop'', ''Claude'', ''Claude.exe'', ''cursor'', ''Cursor'', ''Cursor.exe'', ''continue'',
      ''codex'', ''codex-cli'', ''code'', ''Code'', ''Code.exe'', ''code-insiders'', ''mcp'', ''mcp-cli'', ''smithery'',
      ''node'', ''python'', ''python3'']"

text \<open>
  No character outside ASCII has a lower-case form that occurs in the list, so lowering the ASCII
  letters decides the comparison.
\<close>

definition matches_allowlist :: "string \<Rightarrow> bool" where
  "matches_allowlist name =
     (let low = map to_ascii_lower name
      in list_ex (\<lambda>allowed. let a = map to_ascii_lower allowed in low = a \<or> low = a @ ''.exe'') ALLOWED_PARENTS)"

text \<open>\<open>PPid:\<close> in \<open>/proc/self/status\<close>.\<close>

definition parse_u32 :: "string \<Rightarrow> u32 option" where
  "parse_u32 s = map_option word_of_nat (parse_uint (2 ^ 32) s)"

fun parent_pid_lines :: "string list \<Rightarrow> u32 option" where
  "parent_pid_lines [] = None"
| "parent_pid_lines (line # lines) =
     (if starts_with ''PPid:'' line then parse_u32 (trim_end (trim_start (drop 5 line))) else parent_pid_lines lines)"

definition parent_pid :: "string option \<Rightarrow> u32 option" where
  "parent_pid status = (case status of None \<Rightarrow> None
     | Some content \<Rightarrow> if utf8_valid content then parent_pid_lines (file_lines content) else None)"

datatype parent_reason = NotInAllowlist string | FilenameUnreadable | ExeUnresolved u32

record parent_check =
  pk_ppid :: u32
  pk_exe :: "string option"
  pk_allowed :: bool
  pk_reason :: "parent_reason option"

definition check_parent :: "string option \<Rightarrow> (u32 \<Rightarrow> string option) \<Rightarrow> parent_check option" where
  "check_parent status read_exe =
     (case parent_pid status of
        None \<Rightarrow> None
      | Some ppid \<Rightarrow>
          (let exe = read_exe ppid;
               (allowed, reason) =
                 (case exe of
                    None \<Rightarrow> (False, Some (ExeUnresolved ppid))
                  | Some p \<Rightarrow>
                      (case path_file_name p of
                         None \<Rightarrow> (False, Some FilenameUnreadable)
                       | Some name \<Rightarrow>
                           if \<not> utf8_valid name then (False, Some FilenameUnreadable)
                           else if matches_allowlist name then (True, None) else (False, Some (NotInAllowlist name))))
           in Some \<lparr>pk_ppid = ppid, pk_exe = exe, pk_allowed = allowed, pk_reason = reason\<rparr>))"

section \<open>The issuer of the token\<close>

datatype issuer_error =
    IssuerMalformed | IssuerPayloadBase64 | IssuerPayloadJson | IssuerClaimBase64 | IssuerClaimLength
  | IssuerOverrideBase64 | IssuerOverrideMismatch | IssuerKeyInvalid

text \<open>
  \<open>parse_issuer\<close>; \<open>claim\<close> reads the field \<open>iss\<close> of a JSON object, \<open>std\<close> is base64 with padding.
\<close>

definition parse_issuer ::
  "token_ext \<Rightarrow> base64 \<Rightarrow> (bytes \<Rightarrow> string option) \<Rightarrow> string \<Rightarrow> string option \<Rightarrow> issuer_error + bytes" where
  "parse_issuer X std claim token issuer_override =
     (case split_on (CHR ''.'') token of
        [p0, p1, p2] \<Rightarrow>
          if p0 \<noteq> ''miru-agent'' then Err IssuerMalformed
          else (case b64_decode (tx_b64url X) p1 of
            None \<Rightarrow> Err IssuerPayloadBase64
          | Some payload_bytes \<Rightarrow>
              (case claim payload_bytes of
                None \<Rightarrow> Err IssuerPayloadJson
              | Some claimed_iss \<Rightarrow>
                  (case b64_decode (tx_b64url X) claimed_iss of
                    None \<Rightarrow> Err IssuerClaimBase64
                  | Some key \<Rightarrow>
                      if length key \<noteq> 32 then Err IssuerClaimLength
                      else
                        (case issuer_override of
                           None \<Rightarrow> if ed_key_ok (tx_ed X) key then Ok key else Err IssuerKeyInvalid
                         | Some e \<Rightarrow>
                             (case (case b64_decode std e of Some k \<Rightarrow> Some k | None \<Rightarrow> b64_decode (tx_b64url X) e) of
                                None \<Rightarrow> Err IssuerOverrideBase64
                              | Some k \<Rightarrow>
                                  if k \<noteq> key then Err IssuerOverrideMismatch
                                  else if ed_key_ok (tx_ed X) key then Ok key else Err IssuerKeyInvalid)))))
      | _ \<Rightarrow> Err IssuerMalformed)"

section \<open>Confirmations without a user\<close>

definition mcp_confirm :: "confirm_request \<Rightarrow> bool" where
  "mcp_confirm r \<longleftrightarrow> cr_capability r \<in> {ScreenRead, PointerMove, PointerClick, KeyType, KeyCombo}"

section \<open>Start-up\<close>

record main_args =
  mn_token :: "string option"
  mn_signal :: string
  mn_host_id :: "string option"
  mn_issuer_pubkey :: "string option"
  mn_insecure :: bool
  mn_env_insecure :: "string option"
  mn_env_display :: bool
  mn_env_force_local :: bool
  mn_env_allow_stub :: bool
  mn_env_display_idx :: "string option"

datatype bridge_kind = RemoteBridgeTo string string | LocalBridgeOn u8 | StubBridgeFor string

datatype main_error =
    NoToken
  | ParentRejected "parent_reason option"
  | ParentCheckFailed
  | IssuerFailed issuer_error
  | TokenFailed token_error
  | AuditOpenFailed audit_error
  | RemoteConnectFailed
  | NoHostConfigured

record main_world =
  mw_status :: "string option"
  mw_read_exe :: "u32 \<Rightarrow> string option"
  mw_unix_now :: u64
  mw_audit_file :: "string option"
  mw_remote_ok :: bool

definition skip_parent_check :: "main_args \<Rightarrow> bool" where
  "skip_parent_check a \<longleftrightarrow> mn_insecure a \<or> (case mn_env_insecure a of None \<Rightarrow> False | Some v \<Rightarrow> v \<noteq> [])"

definition parent_gate :: "main_args \<Rightarrow> main_world \<Rightarrow> main_error + unit" where
  "parent_gate a W =
     (case check_parent (mw_status W) (mw_read_exe W) of
        Some p \<Rightarrow> if pk_allowed p then Ok () else if skip_parent_check a then Ok () else Err (ParentRejected (pk_reason p))
      | None \<Rightarrow> if skip_parent_check a then Ok () else Err ParentCheckFailed)"

definition parse_u8_env :: "string option \<Rightarrow> u8" where
  "parse_u8_env v = (case Option.bind v (parse_uint 256) of Some n \<Rightarrow> word_of_nat n | None \<Rightarrow> 0)"

definition choose_bridge :: "main_args \<Rightarrow> main_world \<Rightarrow> main_error + bridge_kind" where
  "choose_bridge a W =
     (case mn_host_id a of
        Some h \<Rightarrow> if mw_remote_ok W then Ok (RemoteBridgeTo (mn_signal a) h) else Err RemoteConnectFailed
      | None \<Rightarrow>
          if mn_env_display a \<or> mn_env_force_local a then Ok (LocalBridgeOn (parse_u8_env (mn_env_display_idx a)))
          else if mn_env_allow_stub a then Ok (StubBridgeFor (mn_signal a))
          else Err NoHostConfigured)"

definition mcp_main ::
  "token_ext \<Rightarrow> base64 \<Rightarrow> (bytes \<Rightarrow> string option) \<Rightarrow> audit_ext \<Rightarrow> main_args \<Rightarrow> main_world \<Rightarrow> main_error + mcp_server \<times> bridge_kind" where
  "mcp_main X std claim A a W =
     (case mn_token a of
        None \<Rightarrow> Err NoToken
      | Some t \<Rightarrow>
          if is_blank t then Err NoToken
          else (case parent_gate a W of
            Inl e \<Rightarrow> Err e
          | Inr _ \<Rightarrow>
              (case parse_issuer X std claim t (mn_issuer_pubkey a) of
                Inl e \<Rightarrow> Err (IssuerFailed e)
              | Inr vk \<Rightarrow>
                  (case parse_and_verify X t vk (mw_unix_now W) of
                    Inl e \<Rightarrow> Err (TokenFailed e)
                  | Inr token \<Rightarrow>
                      (case audit_open A (mw_audit_file W) of
                        Inl e \<Rightarrow> Err (AuditOpenFailed e)
                      | Inr alog \<Rightarrow>
                          (case choose_bridge a W of
                             Inl e \<Rightarrow> Err e
                           | Inr b \<Rightarrow> Ok (mcp_server_new (agent_open token alog), b)))))))"

section \<open>What the tools leave of the session\<close>

text \<open>\<open>keeps Q m\<close>: the step preserves the property \<open>Q\<close> of the agent session.\<close>

definition keeps :: "(agent_session \<Rightarrow> bool) \<Rightarrow> 'a mcp \<Rightarrow> bool" where
  "keeps Q m \<longleftrightarrow> (\<forall>s. Q (ms_session s) \<longrightarrow> Q (ms_session (snd (m s))))"

named_theorems keeps_intro \<open>steps that preserve a property of the session\<close>

lemma keeps_basic [keeps_intro]:
  "keeps Q (mret a)" "keeps Q (mfail e)" "keeps Q (mguard c e)" "keeps Q (mopt x e)" "keeps Q (bridge reply call)"
  by (auto simp: keeps_def mret_def mfail_def mguard_def mopt_def bridge_def Let_def split: option.splits)

lemma keeps_mbind [keeps_intro]: "keeps Q m \<Longrightarrow> (\<And>a. keeps Q (f a)) \<Longrightarrow> keeps Q (mbind m f)"
  by (auto simp: keeps_def mbind_def split: prod.split sum.split)

lemma keeps_splits [keeps_intro]:
  "keeps Q m \<Longrightarrow> keeps Q m' \<Longrightarrow> keeps Q (if c then m else m')"
  "keeps Q m \<Longrightarrow> (\<And>a. keeps Q (g a)) \<Longrightarrow> keeps Q (case x of None \<Rightarrow> m | Some a \<Rightarrow> g a)"
  "(\<And>e. keeps Q (g1 e)) \<Longrightarrow> (\<And>a. keeps Q (g2 a)) \<Longrightarrow> keeps Q (case y of Inl e \<Rightarrow> g1 e | Inr a \<Rightarrow> g2 a)"
  "(\<And>a b. keeps Q (g3 a b)) \<Longrightarrow> keeps Q (case z of (a, b) \<Rightarrow> g3 a b)"
  by (auto split: option.split sum.split prod.split)

lemma keeps_send_inputs [keeps_intro]: "keeps Q (send_inputs E es)"
  by (induction es) (auto simp: send_input_def intro!: keeps_intro)

text \<open>No approval of a dangerous capability is remembered.\<close>

definition no_dangerous :: "agent_session \<Rightarrow> bool" where
  "no_dangerous S \<longleftrightarrow> (\<forall>e \<in> set (ag_auto_approve S). \<not> requires_confirmation (aa_capability e))"

lemma no_dangerous_log: "ag_auto_approve (snd (session_log X V S cap action conf out)) = ag_auto_approve S"
  by (auto simp: session_log_def split: prod.splits)

lemma mcp_confirm_safe: "requires_confirmation (cr_capability r) \<Longrightarrow> \<not> mcp_confirm r"
  by (auto simp: mcp_confirm_def requires_confirmation_def)

lemma no_dangerous_confirm:
  assumes "no_dangerous S" "confirm_step V mcp_confirm S cap action key = (c, req, S')"
  shows "no_dangerous S'"
  using assms mcp_confirm_safe
  by (auto simp: confirm_step_def is_auto_approved_def no_dangerous_def Let_def split: if_splits bool.splits)

lemma no_dangerous_authorize:
  assumes "no_dangerous S" "authorize X V mcp_confirm S cap action key = (res, req, S')"
  shows "no_dangerous S'"
  using assms(2)
proof (cases rule: authorize_cases)
  case (denied err)
  then have "ag_auto_approve S' = ag_auto_approve S"
    by (auto simp: deny_def split: prod.splits sum.splits dest!: session_log_frameD)
  with assms(1) show ?thesis by (simp add: no_dangerous_def)
next
  case (checked c S1 r)
  then have "ag_auto_approve S' = ag_auto_approve S1" using no_dangerous_log by (metis snd_conv)
  with no_dangerous_confirm [OF assms(1) checked(2)] show ?thesis by (simp add: no_dangerous_def)
qed

lemma keeps_gate:
  assumes "me_confirm E = mcp_confirm"
  shows "keeps no_dangerous (gate E cap action summary)"
  using no_dangerous_authorize assms
  by (auto simp: keeps_def gate_def split: prod.splits sum.splits)

lemma keeps_frame_provenance: "keeps no_dangerous (frame_provenance E d png)"
  using no_dangerous_log
  by (auto simp: keeps_def frame_provenance_def audit_screen_capture_def Let_def no_dangerous_def split: prod.splits)

lemma keeps_read: "keeps Q (\<lambda>s. (f s, s))"
  by (simp add: keeps_def)

lemma keeps_crop_step: "keeps Q (crop_step E args png)"
  using crop_step_pure [of E args png] by (simp add: keeps_def mpure_def)

lemmas keeps_tools = tool_screen_capture_def tool_mouse_move_def tool_mouse_click_def tool_scroll_def tool_key_type_def
  tool_key_combo_def tool_clipboard_read_def tool_clipboard_write_def tool_open_url_def tool_status_def
  coord_def send_input_def Let_def

lemma keeps_dispatch:
  assumes "me_confirm E = mcp_confirm"
  shows "keeps no_dangerous (dispatch E name args)"
  unfolding dispatch_def keeps_tools
  by (intro keeps_intro keeps_gate keeps_frame_provenance keeps_crop_step keeps_read assms)

section \<open>Safety of the running server\<close>

definition harmless :: "bridge_call \<Rightarrow> bool" where
  "harmless c \<longleftrightarrow> (case required_cap c of None \<Rightarrow> True | Some cap \<Rightarrow> \<not> requires_confirmation cap)"

definition server_safe :: "mcp_server \<Rightarrow> bool" where
  "server_safe s \<longleftrightarrow> no_dangerous (ms_session s) \<and> list_all harmless (ms_calls s)"

lemma gate_shut:
  assumes "me_confirm E = mcp_confirm" "no_dangerous (ms_session s)" "requires_confirmation cap"
  shows "\<not> gate_open E cap s"
  using assms mcp_confirm_safe by (auto simp: gate_open_def no_dangerous_def)

lemma dispatch_safe:
  assumes "me_confirm E = mcp_confirm" "server_safe s" "dispatch E name args s = (r, s')"
  shows "server_safe s'"
proof -
  from assms(2) have nd: "no_dangerous (ms_session s)" by (simp add: server_safe_def)
  obtain cs where cs: "ms_calls s' = ms_calls s @ cs" "\<forall>c \<in> set cs. \<forall>cap. required_cap c = Some cap \<longrightarrow> gate_open E cap s"
    using dispatch_new_calls [OF assms(3)] by blast
  have "list_all harmless cs"
    using cs(2) gate_shut [OF assms(1) nd] by (auto simp: list_all_iff harmless_def split: option.splits)
  moreover have "no_dangerous (ms_session s')"
    using keeps_dispatch [OF assms(1), of name args] nd assms(3) unfolding keeps_def by (metis snd_conv)
  ultimately show ?thesis using assms(2) cs(1) by (simp add: server_safe_def)
qed

lemma handle_request_safe:
  assumes "me_confirm E = mcp_confirm" "server_safe s" "handle_request R E req s = (r, s')"
  shows "server_safe s'"
proof -
  have "handle_tool_call sh E name args s = (r', s1) \<Longrightarrow> server_safe s1" for sh name args r' s1
    using dispatch_safe [OF assms(1,2)] by (auto simp: handle_tool_call_def split: prod.splits sum.splits)
  with assms(2,3) show ?thesis
    by (auto simp: handle_request_def Let_def split: if_splits option.splits sum.splits prod.splits)
qed

lemma run_stdio_safe:
  assumes "\<forall>(E, line) \<in> set ls. me_confirm E = mcp_confirm" "server_safe s" "run_stdio R ls s = (out, s')"
  shows "server_safe s'"
  using assms
proof (induction R ls s arbitrary: out s' rule: run_stdio.induct)
  case (2 R E line ls s)
  obtain resp s1 where step: "(case rx_request R line of Inr req \<Rightarrow> handle_request R E req s
      | Inl e \<Rightarrow> (Some (response_err JNull PARSE_ERROR (''parse error: '' @ e)), s)) = (resp, s1)" by fastforce
  have "server_safe s1"
    using step 2(3,4) handle_request_safe by (auto split: sum.splits)
  with 2 step show ?case by (auto split: if_splits prod.splits)
qed auto

text \<open>
  C10. An unattended tool server cannot read the clipboard: started with any token, whatever lines
  arrive and whatever the clocks and the host answer, no clipboard content is read from the
  host, since the rule that stands in for the user refuses the dangerous capabilities and no approval of one
  is ever remembered.
\<close>

theorem unattended_clipboard_safe:
  assumes "mcp_main X std claim A a W = Ok (s, b)" and "\<forall>(E, line) \<in> set ls. me_confirm E = mcp_confirm"
    and "run_stdio R ls s = (out, s')"
  shows "ReadClipboard \<notin> set (ms_calls s')"
proof -
  have "server_safe s"
    using assms(1)
    by (auto simp: mcp_main_def server_safe_def no_dangerous_def mcp_server_new_def agent_open_def open_with_revocation_def
        split: option.splits if_splits sum.splits)
  from run_stdio_safe [OF assms(2) this assms(3)] have "list_all harmless (ms_calls s')" by (simp add: server_safe_def)
  moreover have "\<not> harmless ReadClipboard" by (simp add: harmless_def requires_confirmation_def)
  ultimately show ?thesis unfolding list_all_iff by blast
qed

text \<open>
  The rule that stands in for the user is documented to refuse opening links and writing the clipboard,
  but it is never asked about them: with a token that grants \<open>OpenUrl\<close> and quota left, an unattended server
  opens any link of at most 2048 bytes on the host, although the rule refuses the capability.
\<close>

theorem links_opened_unconfirmed:
  assumes "me_confirm E = mcp_confirm" and "is_ok (fst (try_consume (me_instant E) (ms_limiter s) OpenUrl))"
    and "auth_admissible (me_auth E) (ms_session s) OpenUrl"
    and "is_ok (fst (session_log (me_audit E) (me_auth E) (ms_session s) OpenUrl (jobj [(''url'', JStr url)]) None AuditOk))"
    and "starts_with ''https://'' url" and "length url \<le> 2048"
  shows "ms_calls (snd (dispatch E ''miru_open_url'' (JObj [(''url'', JStr url)]) s)) = ms_calls s @ [OpenUrlCall url] \<and>
    \<not> me_confirm E \<lparr>cr_agent_label = l, cr_capability = OpenUrl, cr_action_summary = m\<rparr>"
proof -
  obtain u rl where rl: "try_consume (me_instant E) (ms_limiter s) OpenUrl = (Inr u, rl)"
    using assms(2) by (metis is_ok.elims(2) prod.collapse)
  obtain n S' where lg: "session_log (me_audit E) (me_auth E) (ms_session s) OpenUrl (jobj [(''url'', JStr url)]) None AuditOk = (Inr n, S')"
    using assms(4) by (metis is_ok.elims(2) prod.collapse)
  have "authorize (me_audit E) (me_auth E) (me_confirm E) (ms_session s) OpenUrl (jobj [(''url'', JStr url)]) ''open_url'' = (Ok (), None, S')"
    using assms(3) lg by (simp add: authorize_admissible confirm_step_def requires_confirmation_def)
  with rl have g: "gate E OpenUrl (jobj [(''url'', JStr url)]) ''open_url'' s = (Ok (), s\<lparr>ms_limiter := rl, ms_session := S'\<rparr>)"
    by (simp add: gate_def)
  have "dispatch E ''miru_open_url'' = tool_open_url E" by (simp add: dispatch_def fun_eq_iff)
  with assms(5,6) g have "ms_calls (snd (dispatch E ''miru_open_url'' (JObj [(''url'', JStr url)]) s)) = ms_calls s @ [OpenUrlCall url]"
    by (auto simp: tool_open_url_def arg_str_def mopt_def mguard_def mret_def mbind_def bridge_def Let_def split: sum.splits)
  then show ?thesis by (simp add: assms(1) mcp_confirm_def)
qed

lemma parent_pid_line:
  assumes "parent_pid_lines lines = Some p"
  shows "\<exists>line \<in> set lines. starts_with ''PPid:'' line \<and> parse_u32 (trim_end (trim_start (drop 5 line))) = Some p"
  using assms by (induction lines) (auto split: if_splits)

lemma parent_gate_Ok:
  assumes "parent_gate a W = Ok ()" "\<not> skip_parent_check a"
  shows "\<exists>status line p exe name. mw_status W = Some status \<and> line \<in> set (file_lines status) \<and> starts_with ''PPid:'' line \<and>
    parse_u32 (trim_end (trim_start (drop 5 line))) = Some p \<and> mw_read_exe W p = Some exe \<and>
    path_file_name exe = Some name \<and> matches_allowlist name"
proof -
  obtain p where p: "parent_pid (mw_status W) = Some p"
      "\<exists>exe name. mw_read_exe W p = Some exe \<and> path_file_name exe = Some name \<and> matches_allowlist name"
    using assms by (auto simp: parent_gate_def check_parent_def Let_def split: option.splits if_splits)
  obtain status where status: "mw_status W = Some status" "parent_pid_lines (file_lines status) = Some p"
    using p(1) by (auto simp: parent_pid_def split: option.splits if_splits)
  from parent_pid_line [OF status(2)] status(1) p(2) show ?thesis by blast
qed

lemma parse_issuer_key:
  assumes "parse_issuer X std claim t (Some e) = Ok vk"
  shows "b64_decode std e = Some vk \<or> b64_decode std e = None \<and> b64_decode (tx_b64url X) e = Some vk"
  using assms by (auto simp: parse_issuer_def split: list.splits if_splits option.splits)

text \<open>
  C11. Start-up lets a token through only behind its checks. Unless the check was switched off explicitly, the parent process, the one named by
  the line \<open>PPid:\<close> of the status file, runs an executable whose file name is on the list of known clients. The token's signature verifies under a key
  of 32 bytes and the token is not expired; with an issuer key given on the command line, in standard base64 or
  else in the URL-safe form, that key is the one; and the session starts with nothing approved and no call made.
\<close>

theorem mcp_main_sound:
  assumes "mcp_main X std claim A a W = Ok (s, b)"
  shows "(skip_parent_check a \<or>
      (\<exists>status line p exe name. mw_status W = Some status \<and> line \<in> set (file_lines status) \<and> starts_with ''PPid:'' line \<and>
         parse_u32 (trim_end (trim_start (drop 5 line))) = Some p \<and> mw_read_exe W p = Some exe \<and>
         path_file_name exe = Some name \<and> matches_allowlist name)) \<and>
    (\<exists>t vk token log. mn_token a = Some t \<and> \<not> is_blank t \<and> length vk = 32 \<and> parse_and_verify X t vk (mw_unix_now W) = Ok token \<and>
       ms_session s = agent_open token log \<and> ag_auto_approve (ms_session s) = [] \<and> ms_calls s = [] \<and>
       mw_unix_now W \<le> tok_exp (payload token) \<and>
       (\<forall>e. mn_issuer_pubkey a = Some e \<longrightarrow>
          b64_decode std e = Some vk \<or> b64_decode std e = None \<and> b64_decode (tx_b64url X) e = Some vk))"
proof -
  from assms obtain t vk token alog where t: "mn_token a = Some t" "\<not> is_blank t" "parent_gate a W = Ok ()"
    "parse_issuer X std claim t (mn_issuer_pubkey a) = Ok vk" "parse_and_verify X t vk (mw_unix_now W) = Ok token"
    "s = mcp_server_new (agent_open token alog)"
    by (auto simp: mcp_main_def split: option.splits if_splits sum.splits)
  have "b64_decode std e = Some vk \<or> b64_decode std e = None \<and> b64_decode (tx_b64url X) e = Some vk"
    if "mn_issuer_pubkey a = Some e" for e
    using t(4) parse_issuer_key unfolding that by blast
  moreover have "length vk = 32"
    using t(4) by (auto simp: parse_issuer_def split: list.splits if_splits option.splits)
  moreover have "mw_unix_now W \<le> tok_exp (payload token)"
    using t(5) by (auto simp: parse_and_verify_def check_payload_def split: list.splits if_splits option.splits)
  moreover have "ag_auto_approve (agent_open token alog) = []" by (simp add: agent_open_def open_with_revocation_def)
  ultimately show ?thesis using t parent_gate_Ok [OF t(3)] by (auto simp: mcp_server_new_def)
qed

lemma self_issued_main:
  assumes "ed25519_correct (tx_ed X)" and "base64_correct (tx_b64url X)" and "t = issue X sk sb cs ttl sc now0 uuid"
    and "tx_from_slice X (canonical_payload_bytes X (payload t)) = Some ((payload t)\<lparr>caps := cs'\<rparr>)"
    and "claim (canonical_payload_bytes X (payload t)) = Some (iss (payload t))"
    and "unat now0 + 900 < 2 ^ 64" "now0 \<le> mw_unix_now W" "mw_unix_now W \<le> tok_exp (payload t)" "unat (mw_unix_now W) + 300 < 2 ^ 64"
    and "mn_token a = Some (token_to_string X t)" "mn_issuer_pubkey a = None"
    and "parent_gate a W = Ok ()" "audit_open A (mw_audit_file W) = Ok alog" "choose_bridge a W = Ok b"
  shows "mcp_main X std claim A a W = Ok (mcp_server_new (agent_open (t\<lparr>payload := (payload t)\<lparr>caps := cs'\<rparr>\<rparr>) alog), b)"
proof -
  let ?vk = "ed_verifying_key (tx_ed X) sk"
  have pv: "parse_and_verify X (token_to_string X t) ?vk (mw_unix_now W) = Ok (t\<lparr>payload := (payload t)\<lparr>caps := cs'\<rparr>\<rparr>)"
    by (rule issued_token_parses [OF assms(1-4,6-9)])
  have "iss (payload t) = b64_encode (tx_b64url X) ?vk" by (simp add: assms(3) issue_payload)
  then have pi: "parse_issuer X std claim (token_to_string X t) None = Ok ?vk"
    using assms(5) split_token_string [OF assms(2)] b64_decode_encode [OF assms(2)] ed25519_correctD [OF assms(1)]
    by (simp add: parse_issuer_def)
  have "\<not> is_blank (token_to_string X t)" by (simp add: token_to_string_def is_blank_def)
  with pv pi assms(10-14) show ?thesis by (simp add: mcp_main_def)
qed

definition wit_args :: main_args where
  "wit_args = \<lparr>mn_token = Some (token_to_string (demo_token_ext wit_payload)
        (issue (demo_token_ext wit_payload) [7] ''agent'' [ScreenRead] 3600 None 1000 5)),
     mn_signal = ''ws'', mn_host_id = None, mn_issuer_pubkey = None, mn_insecure = False, mn_env_insecure = None,
     mn_env_display = True, mn_env_force_local = False, mn_env_allow_stub = False, mn_env_display_idx = Some ''1''\<rparr>"

definition wit_world :: main_world where
  "wit_world = \<lparr>mw_status = Some ''PPid:7'', mw_read_exe = (\<lambda>_. Some ''/usr/bin/Claude''), mw_unix_now = 1500,
     mw_audit_file = None, mw_remote_ok = False\<rparr>"

lemma wit_digits: "parse_u32 ''7'' = Some 7" "parse_u8_env (Some ''1'') = 1"
  by (simp_all add: parse_u32_def parse_u8_env_def parse_uint_def)

lemma wit_parent_gate: "parent_gate wit_args wit_world = Ok ()"
proof -
  have "file_lines ''PPid:7'' = [''PPid:7'']" "utf8_valid ''PPid:7''" "starts_with ''PPid:'' ''PPid:7''"
    "trim_end (trim_start ''7'') = ''7''" by code_simp+
  then have "parent_pid (Some ''PPid:7'') = Some 7" using wit_digits by (simp add: parent_pid_def)
  moreover have "path_file_name ''/usr/bin/Claude'' = Some ''Claude''" by code_simp
  moreover have "matches_allowlist ''Claude''" "utf8_valid ''Claude''" by code_simp+
  ultimately show ?thesis by (simp add: parent_gate_def check_parent_def wit_world_def)
qed

lemma wit_choose_bridge: "choose_bridge wit_args wit_world = Ok (LocalBridgeOn 1)"
proof -
  have "parse_u8_env (Some ''1'') = 1" by (rule wit_digits)
  then show ?thesis by (simp add: choose_bridge_def wit_args_def)
qed

lemma wit_issued_payload: "payload (issue (demo_token_ext wit_payload) [7] ''agent'' [ScreenRead] 3600 None 1000 5) = wit_payload"
  by (simp add: wit_payload_def issue_payload demo_token_ext_def demo_ed25519_def demo_base64_def MAX_TTL_SECS_def)

lemma wit_main:
  "mcp_main (demo_token_ext wit_payload) demo_base64 (\<lambda>_. Some (iss wit_payload)) wit_session_ext wit_args wit_world =
     Ok (mcp_server_new (agent_open (issue (demo_token_ext wit_payload) [7] ''agent'' [ScreenRead] 3600 None 1000 5) fresh_log), LocalBridgeOn 1)"
proof -
  let ?X = "demo_token_ext wit_payload"
  let ?t = "issue ?X [7] ''agent'' [ScreenRead] 3600 None 1000 5"
  have "(?t\<lparr>payload := (payload ?t)\<lparr>caps := [ScreenRead]\<rparr>\<rparr>) = ?t"
    by (simp add: wit_issued_payload) (simp add: issue_def Let_def wit_payload_def demo_token_ext_def demo_ed25519_def demo_base64_def MAX_TTL_SECS_def)
  moreover have "mcp_main ?X demo_base64 (\<lambda>_. Some (iss wit_payload)) wit_session_ext wit_args wit_world =
      Ok (mcp_server_new (agent_open (?t\<lparr>payload := (payload ?t)\<lparr>caps := [ScreenRead]\<rparr>\<rparr>) fresh_log), LocalBridgeOn 1)"
  proof (rule self_issued_main [OF _ _ refl])
    show "ed25519_correct (tx_ed ?X)" "base64_correct (tx_b64url ?X)"
      by (simp_all add: demo_token_ext_def demo_ed25519_correct demo_base64_correct)
    show "tx_from_slice ?X (canonical_payload_bytes ?X (payload ?t)) = Some ((payload ?t)\<lparr>caps := [ScreenRead]\<rparr>)"
      by (simp add: wit_issued_payload) (simp add: demo_token_ext_def wit_payload_def)
    show "audit_open wit_session_ext (mw_audit_file wit_world) = Ok fresh_log"
      by (simp add: audit_open_def wit_world_def fresh_log_def)
  qed (simp_all add: wit_issued_payload wit_parent_gate wit_choose_bridge, simp_all add: wit_world_def wit_args_def wit_payload_def)
  ultimately show ?thesis by simp
qed

text \<open>
  Without an issuer key on the command line, everyone can issue tokens: a token signed with any key at
  all passes start-up, because the key it is verified with is taken from the token itself. Only the
  check of the parent process remains, which the documentation calls an additional filter.
\<close>

theorem self_issued_token_served:
  assumes "ed25519_correct (tx_ed X)" and "base64_correct (tx_b64url X)" and "t = issue X sk sb cs ttl sc now0 uuid"
    and "tx_from_slice X (canonical_payload_bytes X (payload t)) = Some ((payload t)\<lparr>caps := cs'\<rparr>)"
    and "claim (canonical_payload_bytes X (payload t)) = Some (iss (payload t))"
    and "unat now0 + 900 < 2 ^ 64" "now0 \<le> mw_unix_now W" "mw_unix_now W \<le> tok_exp (payload t)" "unat (mw_unix_now W) + 300 < 2 ^ 64"
    and "mn_token a = Some (token_to_string X t)" "mn_issuer_pubkey a = None"
    and "parent_gate a W = Ok ()" "audit_open A (mw_audit_file W) = Ok alog" "choose_bridge a W = Ok b"
  shows "mcp_main X std claim A a W = Ok (mcp_server_new (agent_open (t\<lparr>payload := (payload t)\<lparr>caps := cs'\<rparr>\<rparr>) alog), b)"
  using assms by (rule self_issued_main)

theorem self_issued_token_served_witness:
  "mcp_main (demo_token_ext wit_payload) demo_base64 (\<lambda>_. Some (iss wit_payload)) wit_session_ext wit_args wit_world =
     Ok (mcp_server_new (agent_open (issue (demo_token_ext wit_payload) [7] ''agent'' [ScreenRead] 3600 None 1000 5) fresh_log), LocalBridgeOn 1)"
proof -
  let ?X = "demo_token_ext wit_payload"
  let ?t = "issue ?X [7] ''agent'' [ScreenRead] 3600 None 1000 5"
  have "(?t\<lparr>payload := (payload ?t)\<lparr>caps := [ScreenRead]\<rparr>\<rparr>) = ?t"
    by (simp add: wit_issued_payload) (simp add: issue_def Let_def wit_payload_def demo_token_ext_def demo_ed25519_def demo_base64_def MAX_TTL_SECS_def)
  moreover have "mcp_main ?X demo_base64 (\<lambda>_. Some (iss wit_payload)) wit_session_ext wit_args wit_world =
      Ok (mcp_server_new (agent_open (?t\<lparr>payload := (payload ?t)\<lparr>caps := [ScreenRead]\<rparr>\<rparr>) fresh_log), LocalBridgeOn 1)"
  proof (rule self_issued_token_served [OF _ _ refl])
    show "ed25519_correct (tx_ed ?X)" "base64_correct (tx_b64url ?X)"
      by (simp_all add: demo_token_ext_def demo_ed25519_correct demo_base64_correct)
    show "tx_from_slice ?X (canonical_payload_bytes ?X (payload ?t)) = Some ((payload ?t)\<lparr>caps := [ScreenRead]\<rparr>)"
      by (simp add: wit_issued_payload) (simp add: demo_token_ext_def wit_payload_def)
    show "audit_open wit_session_ext (mw_audit_file wit_world) = Ok fresh_log"
      by (simp add: audit_open_def wit_world_def fresh_log_def)
  qed (simp_all add: wit_issued_payload wit_parent_gate wit_choose_bridge, simp_all add: wit_world_def wit_args_def wit_payload_def)
  ultimately show ?thesis by simp
qed

definition wit_unattended :: mcp_env where
  "wit_unattended = wit_mcp_env\<lparr>me_confirm := mcp_confirm\<rparr>"

theorem unattended_clipboard_safe_witness:
  "\<exists>s out s'. mcp_main (demo_token_ext wit_payload) demo_base64 (\<lambda>_. Some (iss wit_payload)) wit_session_ext wit_args wit_world =
       Ok (s, LocalBridgeOn 1) \<and>
     run_stdio wit_rpc_ext [(wit_unattended, ''ping'')] s = (out, s') \<and> ReadClipboard \<notin> set (ms_calls s')"
proof -
  obtain s where s: "mcp_main (demo_token_ext wit_payload) demo_base64 (\<lambda>_. Some (iss wit_payload)) wit_session_ext wit_args wit_world =
      Ok (s, LocalBridgeOn 1)" using wit_main by blast
  obtain out s' where r: "run_stdio wit_rpc_ext [(wit_unattended, ''ping'')] s = (out, s')" by fastforce
  have "\<forall>(E, line) \<in> set [(wit_unattended, ''ping'')]. me_confirm E = mcp_confirm" by (simp add: wit_unattended_def)
  from unattended_clipboard_safe [OF s this r] s r show ?thesis by blast
qed

theorem mcp_main_sound_witness:
  "\<exists>s t vk token. mcp_main (demo_token_ext wit_payload) demo_base64 (\<lambda>_. Some (iss wit_payload)) wit_session_ext wit_args wit_world =
       Ok (s, LocalBridgeOn 1) \<and> mn_token wit_args = Some t \<and>
     parse_and_verify (demo_token_ext wit_payload) t vk 1500 = Ok token"
proof -
  obtain s where s: "mcp_main (demo_token_ext wit_payload) demo_base64 (\<lambda>_. Some (iss wit_payload)) wit_session_ext wit_args wit_world =
      Ok (s, LocalBridgeOn 1)" using wit_main by blast
  have "mw_unix_now wit_world = 1500" by (simp add: wit_world_def)
  moreover obtain t vk token where "mn_token wit_args = Some t" "parse_and_verify (demo_token_ext wit_payload) t vk (mw_unix_now wit_world) = Ok token"
    using mcp_main_sound [OF s] by blast
  ultimately show ?thesis using s by auto
qed

definition wit_link_server :: mcp_server where
  "wit_link_server = mcp_server_new (agent_open \<lparr>payload = wit_payload\<lparr>caps := [OpenUrl]\<rparr>, signature = []\<rparr> fresh_log)"

theorem links_opened_unconfirmed_witness:
  "ms_calls (snd (dispatch wit_unattended ''miru_open_url'' (JObj [(''url'', JStr ''https://a'')]) wit_link_server)) = [OpenUrlCall ''https://a'']"
proof -
  have "is_ok (fst (try_consume (me_instant wit_unattended) (ms_limiter wit_link_server) OpenUrl))"
    by (simp add: wit_unattended_def wit_mcp_env_def wit_link_server_def mcp_server_new_def try_consume_def rate_limiter_new_def
      bucket_try_consume_def bucket_new_def roll_day_def refill_def refilled_def per_second_def per_minute_def Let_def DAY_def word_le_nat_alt)
  moreover have "auth_admissible (me_auth wit_unattended) (ms_session wit_link_server) OpenUrl"
    by (simp add: auth_admissible_def wit_unattended_def wit_mcp_env_def wit_link_server_def mcp_server_new_def wit_authorize_defs)
  moreover have "is_ok (fst (session_log (me_audit wit_unattended) (me_auth wit_unattended) (ms_session wit_link_server) OpenUrl
      (jobj [(''url'', JStr ''https://a'')]) None AuditOk))"
    by (simp add: wit_unattended_def wit_mcp_env_def wit_link_server_def mcp_server_new_def wit_authorize_defs)
  moreover have "starts_with ''https://'' ''https://a''" by (simp add: starts_with_def)
  moreover have "me_confirm wit_unattended = mcp_confirm" "ms_calls wit_link_server = []"
    by (simp_all add: wit_unattended_def wit_link_server_def mcp_server_new_def)
  ultimately show ?thesis using links_opened_unconfirmed [of wit_unattended wit_link_server "''https://a''"] by simp
qed

end
