(* ===== verification/Remote_Bridge.thy ===== *)
theory Remote_Bridge
  imports Viewer_Session
begin

text \<open>
  The bridge of the tool server to a remote host (\<open>miru-mcp/src/remote_bridge.rs\<close>): the task that
  receives from the relay and keeps the latest picture and clipboard text, and the calls that wait for
  one. The decoder and the conversion of JPEG to PNG are parameters. Time is in nanoseconds.
\<close>

section \<open>The receiving task\<close>

datatype rb_status = RbRunning | RbEnded | RbPanicked

record 'd remote_bridge =
  rb_latest_png :: "bytes option"
  rb_latest_clipboard :: "string option"
  rb_decoder :: "'d option"
  rb_status :: rb_status

definition remote_bridge_new :: "'d remote_bridge" where
  "remote_bridge_new = \<lparr>rb_latest_png = None, rb_latest_clipboard = None, rb_decoder = None, rb_status = RbRunning\<rparr>"

definition store_jpeg :: "(bytes \<Rightarrow> bytes option) \<Rightarrow> bytes \<Rightarrow> 'd remote_bridge \<Rightarrow> 'd remote_bridge" where
  "store_jpeg to_png j RB = (case to_png j of Some png \<Rightarrow> RB\<lparr>rb_latest_png := Some png\<rparr> | None \<Rightarrow> RB)"

definition remote_frame ::
  "'d decoder_ext \<Rightarrow> (bytes \<Rightarrow> bytes option) \<Rightarrow> video_codec \<Rightarrow> video_frame \<Rightarrow> 'd remote_bridge \<Rightarrow> 'd remote_bridge" where
  "remote_frame X to_png codec vf RB0 =
     (if vf_codec vf = Jpeg then store_jpeg to_png (vf_data vf) RB0
      else
        (let RB = (if rb_decoder RB0 = None then RB0\<lparr>rb_decoder := dx_new X codec\<rparr> else RB0) in
         case rb_decoder RB of
           None \<Rightarrow> RB
         | Some d \<Rightarrow>
             (case dx_decode X d (vf_data vf) (vf_timestamp_ms vf) of
                (Inr (Some f), d') \<Rightarrow>
                  (case i420_to_jpeg X f 85 of
                     Inl _ \<Rightarrow> RB\<lparr>rb_decoder := Some d', rb_status := RbPanicked\<rparr>
                   | Inr None \<Rightarrow> RB\<lparr>rb_decoder := Some d'\<rparr>
                   | Inr (Some j) \<Rightarrow> store_jpeg to_png j (RB\<lparr>rb_decoder := Some d'\<rparr>))
              | (_, d') \<Rightarrow> RB\<lparr>rb_decoder := Some d'\<rparr>)))"

definition remote_recv ::
  "'d decoder_ext \<Rightarrow> (bytes \<Rightarrow> bytes option) \<Rightarrow> video_codec \<Rightarrow> unit + msg option \<Rightarrow> 'd remote_bridge \<Rightarrow> 'd remote_bridge" where
  "remote_recv X to_png codec ev RB =
     (if rb_status RB \<noteq> RbRunning then RB
      else (case ev of
        Inr (Some (MsgClipboardSync cs)) \<Rightarrow>
          (case clipboard_text cs of Some t \<Rightarrow> RB\<lparr>rb_latest_clipboard := Some t\<rparr> | None \<Rightarrow> RB)
      | Inr (Some (MsgVideoFrame vf)) \<Rightarrow> remote_frame X to_png codec vf RB
      | Inr (Some (MsgClose r)) \<Rightarrow> RB\<lparr>rb_status := RbEnded\<rparr>
      | Inr None \<Rightarrow> RB\<lparr>rb_status := RbEnded\<rparr>
      | Inr (Some _) \<Rightarrow> RB
      | Inl _ \<Rightarrow> RB\<lparr>rb_status := RbEnded\<rparr>))"

section \<open>Calls that wait\<close>

text \<open>
  A waiting call polls: each poll sees what the task received before it, and the clock. \<open>None\<close> is a call
  that still waits at the end of the list.
\<close>

datatype 'a wait_result = Waiting_still | Got 'a | TimedOut

fun poll_until ::
  "('s \<Rightarrow> 'a option) \<Rightarrow> ('e \<Rightarrow> 's \<Rightarrow> 's) \<Rightarrow> nat \<Rightarrow> 's \<Rightarrow> ('e list \<times> nat) list \<Rightarrow> 'a wait_result \<times> 's" where
  "poll_until look recv deadline RB [] = (Waiting_still, RB)"
| "poll_until look recv deadline RB ((evs, now) # polls) =
     (let RB1 = fold recv evs RB in
      case look RB1 of
        Some a \<Rightarrow> (Got a, RB1)
      | None \<Rightarrow> if now > deadline then (TimedOut, RB1) else poll_until look recv deadline RB1 polls)"

definition SECOND :: nat where
  "SECOND = 1000000000"

definition remote_capture_screen ::
  "'d decoder_ext \<Rightarrow> (bytes \<Rightarrow> bytes option) \<Rightarrow> video_codec \<Rightarrow> nat \<Rightarrow> 'd remote_bridge \<Rightarrow> ((unit + msg option) list \<times> nat) list
    \<Rightarrow> bytes wait_result \<times> 'd remote_bridge" where
  "remote_capture_screen X to_png codec start RB polls =
     poll_until rb_latest_png (remote_recv X to_png codec) (start + 3 * SECOND) RB polls"

datatype clip_error = RequestFailed | NoClipboard

definition remote_read_clipboard ::
  "'d decoder_ext \<Rightarrow> (bytes \<Rightarrow> bytes option) \<Rightarrow> video_codec \<Rightarrow> bool \<Rightarrow> nat \<Rightarrow> 'd remote_bridge \<Rightarrow> ((unit + msg option) list \<times> nat) list
    \<Rightarrow> (clip_error + string) option \<times> 'd remote_bridge" where
  "remote_read_clipboard X to_png codec send_ok start RB polls =
     (let RB0 = RB\<lparr>rb_latest_clipboard := None\<rparr> in
      if \<not> send_ok then (Some (Err RequestFailed), RB0)
      else (case poll_until rb_latest_clipboard (remote_recv X to_png codec) (start + 2 * SECOND) RB0 polls of
              (Waiting_still, RB') \<Rightarrow> (None, RB')
            | (Got t, RB') \<Rightarrow> (Some (Ok t), RB')
            | (TimedOut, RB') \<Rightarrow> (Some (Err NoClipboard), RB')))"

section \<open>Polling\<close>

lemma poll_until_ends:
  "(evs, now) \<in> set polls \<Longrightarrow> deadline < now \<Longrightarrow> fst (poll_until look recv deadline RB polls) \<noteq> Waiting_still"
  by (induction look recv deadline RB polls rule: poll_until.induct) (auto simp: Let_def split: option.splits)

lemma poll_until_got:
  "fst (poll_until look recv deadline RB polls) = Got a \<Longrightarrow> look (snd (poll_until look recv deadline RB polls)) = Some a"
  by (induction look recv deadline RB polls rule: poll_until.induct) (auto simp: Let_def split: option.splits if_splits)

lemma poll_until_invariant:
  assumes "I RB" "\<And>e R evs now. I R \<Longrightarrow> (evs, now) \<in> set polls \<Longrightarrow> e \<in> set evs \<Longrightarrow> I (recv e R)"
  shows "I (snd (poll_until look recv deadline RB polls))"
  using assms
proof (induction look recv deadline RB polls rule: poll_until.induct)
  case (2 look recv deadline RB evs now polls)
  have "I R \<Longrightarrow> set es \<subseteq> set evs \<Longrightarrow> I (fold recv es R)" for es R
  proof (induction es arbitrary: R)
    case (Cons e es)
    with 2(3) [of R evs now e] show ?case by simp
  qed simp
  then have "I (fold recv evs RB)" using 2(2) by blast
  with 2(1) [OF refl] 2(3) show ?case by (auto simp: Let_def split: option.splits)
qed auto

text \<open>
  An agent that reads the remote clipboard gets an answer to this very request: the text returned was sent
  by the host after the request, is valid UTF-8 of at most 1 MiB, and was not left over from earlier; and
  the call ends, with a text or an error, as soon as it looks at the clock more than two seconds after
  it began.
\<close>

theorem remote_clipboard_fresh:
  fixes X :: "'a decoder_ext"
  assumes "remote_read_clipboard X to_png codec send_ok start RB polls = (r, RB')"
  shows "(\<forall>t. r = Some (Ok t) \<longrightarrow>
      (\<exists>(evs, now) \<in> set polls. \<exists>cs. Inr (Some (MsgClipboardSync cs)) \<in> set evs \<and> clipboard_text cs = Some t) \<and>
      length t \<le> 1048576 \<and> utf8_valid t) \<and>
    ((\<exists>(evs, now) \<in> set polls. start + 2000000000 < now) \<longrightarrow> r \<noteq> None)"
proof -
  let ?RB = "RB\<lparr>rb_latest_clipboard := None\<rparr>"
  let ?poll = "poll_until rb_latest_clipboard (remote_recv X to_png codec) (start + 2 * SECOND) ?RB polls"
  let ?I = "\<lambda>R :: 'a remote_bridge. \<forall>t. rb_latest_clipboard R = Some t \<longrightarrow>
      (\<exists>(evs, now) \<in> set polls. \<exists>cs. Inr (Some (MsgClipboardSync cs)) \<in> set evs \<and> clipboard_text cs = Some t)"
  have frame: "rb_latest_clipboard (remote_frame X to_png codec vf R) = rb_latest_clipboard R" for vf and R :: "'a remote_bridge"
    by (auto simp: remote_frame_def store_jpeg_def Let_def split: option.splits prod.splits sum.splits)
  have inv: "?I (snd ?poll)"
  proof (rule poll_until_invariant [where I = ?I])
    fix e evs now and R :: "'a remote_bridge"
    assume "?I R" and "(evs, now) \<in> set polls" "e \<in> set evs"
    then show "?I (remote_recv X to_png codec e R)"
      by (auto simp: remote_recv_def frame split: sum.splits option.splits msg.splits)
  qed simp
  have "(\<exists>(evs, now) \<in> set polls. \<exists>cs. Inr (Some (MsgClipboardSync cs)) \<in> set evs \<and> clipboard_text cs = Some t)"
    if "r = Some (Ok t)" for t
  proof -
    from that assms have "fst ?poll = Got t"
      by (auto simp: remote_read_clipboard_def Let_def split: if_splits prod.splits wait_result.splits)
    from poll_until_got [OF this] inv show ?thesis by blast
  qed
  moreover from this have "length t \<le> 1048576 \<and> utf8_valid t" if "r = Some (Ok t)" for t
    using that clipboard_text_ok by fastforce
  moreover have "r \<noteq> None" if "(evs, now) \<in> set polls" "start + 2000000000 < now" for evs now
    using poll_until_ends [OF that(1), of "start + 2 * SECOND" rb_latest_clipboard "remote_recv X to_png codec" ?RB] that(2) assms
    by (auto simp: remote_read_clipboard_def Let_def SECOND_def split: if_splits prod.splits wait_result.splits)
  ultimately show ?thesis by blast
qed

lemma wit_clip_text: "clipboard_text \<lparr>cs_format = ClipText, cs_data = [65]\<rparr> = Some ''A''"
proof -
  have "map (\<lambda>b. char_of (unat b)) [65 :: byte] = ''A''" "utf8_valid ''A''" by code_simp+
  then show ?thesis by (simp add: clipboard_text_def VIEWER_CLIP_BYTES_def)
qed

theorem remote_clipboard_fresh_witness:
  "\<exists>RB'. remote_read_clipboard (wit_decoder_ext (wit_flat_frame 2 2)) Some Vp9 True 0
      (remote_bridge_new\<lparr>rb_latest_clipboard := Some ''old''\<rparr>)
      [([], 1), ([Inr (Some (MsgClipboardSync \<lparr>cs_format = ClipText, cs_data = [65]\<rparr>))], 2)] = (Some (Ok ''A''), RB') \<and> utf8_valid ''A''"
proof -
  obtain RB' where r: "remote_read_clipboard (wit_decoder_ext (wit_flat_frame 2 2)) Some Vp9 True 0
      (remote_bridge_new\<lparr>rb_latest_clipboard := Some ''old''\<rparr>)
      [([], 1), ([Inr (Some (MsgClipboardSync \<lparr>cs_format = ClipText, cs_data = [65]\<rparr>))], 2)] = (Some (Ok ''A''), RB')"
    using wit_clip_text by (simp add: remote_read_clipboard_def remote_bridge_new_def remote_recv_def SECOND_def)
  from remote_clipboard_fresh [OF r] r show ?thesis by auto
qed

end
