(* ===== verification/Sandbox.thy ===== *)
theory Sandbox
  imports Prelude
begin

text \<open>
  The process sandbox: \<open>miru-sandbox/src/lib.rs\<close>, \<open>linux.rs\<close>, \<open>macos.rs\<close> and \<open>windows.rs\<close>. A policy lists what the process keeps; on Linux it becomes a
  Landlock ruleset and a seccomp filter. The answers of the kernel and of the two crates are arguments
  (\<open>landlock_sys\<close>, \<open>seccomp_sys\<close>); the model returns, beside the outcome the code reports, what the kernel
  controls from then on (\<open>ll_domain\<close>, of which the code sees only the status) and the filter that was installed.
\<close>

subsection \<open>Policy and outcome (\<open>lib.rs\<close>)\<close>

record sandbox_policy =
  read_only :: "string list"
  read_write :: "string list"
  tcp_bind_ports :: "u16 list"
  allow_tcp_connect :: bool
  allow_udp :: bool
  allow_exec :: bool

definition policy_agent_worker :: sandbox_policy where
  "policy_agent_worker = \<lparr>read_only = [], read_write = [], tcp_bind_ports = [], allow_tcp_connect = True,
     allow_udp = True, allow_exec = False\<rparr>"

definition policy_host_daemon :: sandbox_policy where
  "policy_host_daemon = \<lparr>read_only = [], read_write = [], tcp_bind_ports = [21115, 21116, 21117],
     allow_tcp_connect = True, allow_udp = True, allow_exec = False\<rparr>"

definition add_ro :: "string \<Rightarrow> sandbox_policy \<Rightarrow> sandbox_policy" where
  "add_ro p P = P\<lparr>read_only := read_only P @ [p]\<rparr>"

definition add_rw :: "string \<Rightarrow> sandbox_policy \<Rightarrow> sandbox_policy" where
  "add_rw p P = P\<lparr>read_write := read_write P @ [p]\<rparr>"

record sandbox_outcome =
  fs_restricted :: bool
  net_restricted :: bool
  syscall_restricted :: bool
  sb_notes :: "string list"

definition outcome_empty :: sandbox_outcome where
  "outcome_empty = \<lparr>fs_restricted = False, net_restricted = False, syscall_restricted = False, sb_notes = []\<rparr>"

definition push_note :: "string \<Rightarrow> sandbox_outcome \<Rightarrow> sandbox_outcome" where
  "push_note n out = out\<lparr>sb_notes := sb_notes out @ [n]\<rparr>"

subsection \<open>Landlock (\<open>linux.rs\<close>)\<close>

text \<open>
  A rule grants rights below an opened path or at a port. \<open>ll_create\<close> is the creation of a ruleset, with network access handled or
  not; \<open>ll_open\<close> opens a path, \<open>ll_add\<close> adds a rule, \<open>ll_restrict\<close> is \<open>restrict_self\<close>. Each may fail with a message. A successful
  \<open>restrict_self\<close> answers with a status, and the kernel then controls a domain: how many of the file and of the TCP rights, and with
  which rules. The domain is a choice of the kernel that the code never sees; \<open>landlock_documented\<close> below relates it to the status.
\<close>

datatype fs_access = ReadAccess | AllAccess

datatype net_access = BindTcp | ConnectTcp

datatype ll_rule = PathBeneath string fs_access | NetPort u16 net_access

datatype ruleset_status = FullyEnforced | PartiallyEnforced | NotEnforced

datatype coverage = Unrestricted | SomeRights | AllRights

record ll_domain =
  dm_files :: coverage
  dm_net :: coverage
  dm_rules :: "ll_rule list"

record landlock_sys =
  ll_create :: "bool \<Rightarrow> string option"
  ll_open :: "string \<Rightarrow> string option"
  ll_add :: "ll_rule \<Rightarrow> string option"
  ll_restrict :: "bool \<Rightarrow> ll_rule list \<Rightarrow> string + ruleset_status \<times> ll_domain"

fun show_status :: "ruleset_status \<Rightarrow> string" where
  "show_status FullyEnforced = ''FullyEnforced''"
| "show_status PartiallyEnforced = ''PartiallyEnforced''"
| "show_status NotEnforced = ''NotEnforced''"

text \<open>
  The loops that add rules: \<open>Inl\<close> is an early return with the notes so far, after which no ruleset is in force. A path that cannot be opened is
  noted and skipped; a rule that cannot be added ends the set-up.
\<close>

fun add_path_rules ::
  "landlock_sys \<Rightarrow> string \<Rightarrow> fs_access \<Rightarrow> string list \<Rightarrow> sandbox_outcome \<Rightarrow> ll_rule list \<Rightarrow>
    sandbox_outcome + (sandbox_outcome \<times> ll_rule list)" where
  "add_path_rules K kind acc [] out rs = Ok (out, rs)"
| "add_path_rules K kind acc (p # ps) out rs =
     (case ll_open K p of
        Some e \<Rightarrow> add_path_rules K kind acc ps (push_note (''landlock open '' @ kind @ '' '' @ p @ '': '' @ e) out) rs
      | None \<Rightarrow>
          (case ll_add K (PathBeneath p acc) of
             Some e \<Rightarrow> Err (push_note (''landlock '' @ kind @ '' '' @ p @ '': '' @ e) out)
           | None \<Rightarrow> add_path_rules K kind acc ps out (rs @ [PathBeneath p acc])))"

fun add_port_rules ::
  "landlock_sys \<Rightarrow> string \<Rightarrow> net_access \<Rightarrow> u16 list \<Rightarrow> sandbox_outcome \<Rightarrow> ll_rule list \<Rightarrow>
    sandbox_outcome + (sandbox_outcome \<times> ll_rule list)" where
  "add_port_rules K kind acc [] out rs = Ok (out, rs)"
| "add_port_rules K kind acc (p # ps) out rs =
     (case ll_add K (NetPort p acc) of
        Some e \<Rightarrow> Err (push_note (''landlock '' @ kind @ '' '' @ show_nat (unat p) @ '': '' @ e) out)
      | None \<Rightarrow> add_port_rules K kind acc ps out (rs @ [NetPort p acc]))"

definition CONNECT_PORTS :: "u16 list" where
  "CONNECT_PORTS = [80, 443, 21115, 21116, 21117, 3478, 5349]"

text \<open>An early return of one loop skips the rest of the set-up.\<close>

definition then_rules ::
  "sandbox_outcome + (sandbox_outcome \<times> ll_rule list) \<Rightarrow>
    (sandbox_outcome \<Rightarrow> ll_rule list \<Rightarrow> sandbox_outcome + (sandbox_outcome \<times> ll_rule list)) \<Rightarrow>
    sandbox_outcome + (sandbox_outcome \<times> ll_rule list)" where
  "then_rules r f = (case r of Inl out \<Rightarrow> Err out | Inr (out, rs) \<Rightarrow> f out rs)"

definition net_rules ::
  "landlock_sys \<Rightarrow> sandbox_policy \<Rightarrow> bool \<Rightarrow> sandbox_outcome \<Rightarrow> ll_rule list \<Rightarrow>
    sandbox_outcome + (sandbox_outcome \<times> ll_rule list)" where
  "net_rules K P net_handled out rs =
     (if net_handled then
        then_rules (add_port_rules K ''bind'' BindTcp (tcp_bind_ports P) out rs)
          (\<lambda>out' rs'. if allow_tcp_connect P then add_port_rules K ''connect'' ConnectTcp CONNECT_PORTS out' rs'
             else Ok (out', rs'))
      else if tcp_bind_ports P \<noteq> [] \<or> allow_tcp_connect P then
        Ok (push_note ''landlock: network rules skipped (fs-only fallback active)'' out, rs)
      else Ok (out, rs))"

definition stage_rules ::
  "landlock_sys \<Rightarrow> sandbox_policy \<Rightarrow> bool \<Rightarrow> sandbox_outcome \<Rightarrow> sandbox_outcome + (sandbox_outcome \<times> ll_rule list)" where
  "stage_rules K P net_handled out =
     then_rules (add_path_rules K ''ro'' ReadAccess (read_only P) out [])
       (\<lambda>out2 rs2. then_rules (add_path_rules K ''rw'' AllAccess (read_write P) out2 rs2)
          (\<lambda>out3 rs3. net_rules K P net_handled out3 rs3))"

definition ll_engage ::
  "landlock_sys \<Rightarrow> bool \<Rightarrow> sandbox_outcome \<Rightarrow> ll_rule list \<Rightarrow> sandbox_outcome \<times> ll_domain option" where
  "ll_engage K net_handled out rs =
     (case ll_restrict K net_handled rs of
        Inl e \<Rightarrow> (push_note (''landlock restrict_self: '' @ e) out, None)
      | Inr (st, dmn) \<Rightarrow>
          (let fs = (st = FullyEnforced \<or> st = PartiallyEnforced) in
           (push_note (''landlock status: '' @ show_status st)
              (out\<lparr>fs_restricted := fs, net_restricted := net_handled \<and> fs\<rparr>),
            Some dmn)))"

definition apply_landlock ::
  "landlock_sys \<Rightarrow> sandbox_policy \<Rightarrow> sandbox_outcome \<Rightarrow> sandbox_outcome \<times> ll_domain option" where
  "apply_landlock K P out0 =
     (let start =
        (case ll_create K True of
           None \<Rightarrow> Ok (out0, True)
         | Some e \<Rightarrow>
             (let out1 = push_note (''landlock v4 (fs+net) unavailable: '' @ e @ '', retrying fs-only (v3)'') out0 in
              case ll_create K False of
                None \<Rightarrow> Ok (out1, False)
              | Some e2 \<Rightarrow> Err (push_note (''landlock unavailable: '' @ e2) out1)))
      in case start of
           Inl out1 \<Rightarrow> (out1, None)
         | Inr (out1, net_handled) \<Rightarrow>
             (case stage_rules K P net_handled out1 of
                Inl out2 \<Rightarrow> (out2, None)
              | Inr (out2, rs) \<Rightarrow> ll_engage K net_handled out2 rs))"

subsection \<open>Seccomp (\<open>linux.rs\<close>)\<close>

text \<open>
  The filter is the list of system call numbers that kill the process; every other number passes. \<open>sc_arch\<close> is the name of the machine,
  \<open>sc_build\<close>, \<open>sc_compile\<close> and \<open>sc_apply\<close> are the steps of the crate, each failing with a message. A number is negative where the
  machine has no such call.
\<close>

record seccomp_sys =
  sc_arch :: string
  sc_build :: "int list \<Rightarrow> string option"
  sc_compile :: "int list \<Rightarrow> string option"
  sc_apply :: "int list \<Rightarrow> string option"

datatype target_arch = X86_64 | Aarch64

definition target_arch_of :: "string \<Rightarrow> target_arch option" where
  "target_arch_of a = (if a = ''x86_64'' then Some X86_64 else if a = ''aarch64'' then Some Aarch64 else None)"

definition DENY :: "(int \<times> int \<times> string) list" where
  "DENY =
     [(101, 117, ''ptrace''), (165, 40, ''mount''), (166, 39, ''umount2''), (246, 104, ''kexec_load''),
      (321, 280, ''bpf''), (175, 105, ''init_module''), (176, 106, ''delete_module''), (172, -1, ''iopl''),
      (173, -1, ''ioperm''), (171, 162, ''setdomainname''), (170, 161, ''sethostname''), (135, 92, ''personality''),
      (174, -1, ''create_module''), (313, 273, ''finit_module''), (134, -1, ''uselib''), (323, 282, ''userfaultfd''),
      (227, 112, ''clock_settime''), (164, 170, ''settimeofday'')]"

definition EXEC_FAMILY :: "(int \<times> int) list" where
  "EXEC_FAMILY = [(59, 221), (322, 281), (57, -1), (58, -1)]"

fun syscall_nr :: "target_arch \<Rightarrow> int \<times> int \<Rightarrow> int" where
  "syscall_nr X86_64 (x64, a64) = x64"
| "syscall_nr Aarch64 (x64, a64) = a64"

definition rule_numbers :: "target_arch \<Rightarrow> (int \<times> int) list \<Rightarrow> int list" where
  "rule_numbers arch t = filter (\<lambda>nr. \<not> nr < 0) (map (syscall_nr arch) t)"

definition denied_calls :: "sandbox_policy \<Rightarrow> target_arch \<Rightarrow> int list" where
  "denied_calls P arch =
     rule_numbers arch (map (\<lambda>(x, a, n). (x, a)) DENY) @
     (if \<not> allow_exec P then rule_numbers arch EXEC_FAMILY else [])"

definition apply_seccomp ::
  "seccomp_sys \<Rightarrow> sandbox_policy \<Rightarrow> sandbox_outcome \<Rightarrow> sandbox_outcome \<times> int list option" where
  "apply_seccomp Q P out =
     (case target_arch_of (sc_arch Q) of
        None \<Rightarrow> (push_note (''seccomp: unsupported arch '' @ sc_arch Q) out, None)
      | Some arch \<Rightarrow>
          (let rules = denied_calls P arch in
           case sc_build Q rules of
             Some e \<Rightarrow> (push_note (''seccomp build: '' @ e) out, None)
           | None \<Rightarrow>
               (case sc_compile Q rules of
                  Some e \<Rightarrow> (push_note (''seccomp compile: '' @ e) out, None)
                | None \<Rightarrow>
                    (case sc_apply Q rules of
                       Some e \<Rightarrow> (push_note (''seccomp apply: '' @ e) out, None)
                     | None \<Rightarrow> (push_note ''seccomp filter active'' (out\<lparr>syscall_restricted := True\<rparr>), Some rules)))))"

definition sandbox_apply ::
  "landlock_sys \<Rightarrow> seccomp_sys \<Rightarrow> sandbox_policy \<Rightarrow> sandbox_outcome \<times> ll_domain option \<times> int list option" where
  "sandbox_apply K Q P =
     (let (out1, dmn) = apply_landlock K P outcome_empty;
          (out2, filt) = apply_seccomp Q P out1
      in (out2, dmn, filt))"

subsection \<open>Other systems (\<open>macos.rs\<close>, \<open>windows.rs\<close>)\<close>

text \<open>
  On macOS core dumps are switched off and tracing is refused; \<open>None\<close> is a successful call, otherwise the text of the error.
\<close>

definition macos_apply :: "string option \<Rightarrow> string option \<Rightarrow> sandbox_policy \<Rightarrow> sandbox_outcome" where
  "macos_apply rlimit deny_attach P =
     (let o1 = push_note (case rlimit of None \<Rightarrow> ''RLIMIT_CORE=0 (no core dumps)''
            | Some e \<Rightarrow> ''setrlimit(RLIMIT_CORE) failed: '' @ e) outcome_empty;
          o2 = push_note (case deny_attach of None \<Rightarrow> ''PT_DENY_ATTACH applied''
            | Some e \<Rightarrow> ''ptrace(PT_DENY_ATTACH) failed: '' @ e @ '' (often expected when running unsigned)'') o1
      in push_note (''macOS sandbox depends on the bundle's entitlements plist; '' @ ''this runtime layer is supplementary.'') o2)"

text \<open>On Windows privileges are removed from the token; \<open>removed\<close> says for which names that succeeds.\<close>

definition TO_DROP :: "string list" where
  "TO_DROP = [''SeShutdownPrivilege'', ''SeDebugPrivilege'', ''SeLoadDriverPrivilege'', ''SeSystemEnvironmentPrivilege'',
     ''SeRestorePrivilege'', ''SeTakeOwnershipPrivilege'', ''SeTcbPrivilege'', ''SeCreateTokenPrivilege'']"

definition drop_privileges :: "bool \<Rightarrow> (string \<Rightarrow> bool) \<Rightarrow> sandbox_outcome \<Rightarrow> sandbox_outcome" where
  "drop_privileges token_opened removed out =
     (if \<not> token_opened then push_note ''Windows: OpenProcessToken failed'' out
      else push_note (''Windows: dropped '' @ show_nat (length (filter removed TO_DROP)) @ ''/'' @ show_nat (length TO_DROP) @ '' privileges'') out)"

definition windows_apply :: "bool \<Rightarrow> (string \<Rightarrow> bool) \<Rightarrow> sandbox_policy \<Rightarrow> sandbox_outcome" where
  "windows_apply token_opened removed P =
     push_note (''Windows AppContainer is configured at process creation; '' @ ''see installer/wix/miru.wxs for SID + capabilities.'')
       (drop_privileges token_opened removed outcome_empty)"

text \<open>The policy of the tool server (\<open>sandbox_mcp\<close> in \<open>miru-mcp/src/main.rs\<close>); \<open>parent\<close> is the directory of the audit log.\<close>

definition mcp_policy :: "string option \<Rightarrow> sandbox_policy" where
  "mcp_policy parent = add_rw (case parent of Some d \<Rightarrow> d | None \<Rightarrow> ''.'') policy_agent_worker"

subsection \<open>What is put in force\<close>

text \<open>
  What the documentation of Landlock and of its crate says of the status: a fully enforced ruleset controls everything it handles, with its rules;
  a partially enforced one controls some of it (rights that the kernel does not know are dropped, the network rights among them, and the
  rules with them); one that is not enforced controls nothing. Rights that were not handled are never controlled.
\<close>

definition landlock_documented :: "landlock_sys \<Rightarrow> bool" where
  "landlock_documented K \<longleftrightarrow>
     (\<forall>net rs st d. ll_restrict K net rs = Inr (st, d) \<longrightarrow>
        (\<not> net \<longrightarrow> dm_net d = Unrestricted) \<and> set (dm_rules d) \<subseteq> set rs \<and>
        (case st of
           FullyEnforced \<Rightarrow> dm_files d = AllRights \<and> (net \<longrightarrow> dm_net d = AllRights) \<and> dm_rules d = rs
         | PartiallyEnforced \<Rightarrow> dm_files d \<noteq> Unrestricted \<or> dm_net d \<noteq> Unrestricted
         | NotEnforced \<Rightarrow> dm_files d = Unrestricted \<and> dm_net d = Unrestricted))"

text \<open>What a domain lets through: full access to a path, and a TCP connection to a port.\<close>

definition path_beneath :: "string \<Rightarrow> string \<Rightarrow> bool" where
  "path_beneath p q \<longleftrightarrow> q = p \<or> prefix (p @ ''/'') q"

definition dm_can_write :: "ll_domain \<Rightarrow> string \<Rightarrow> bool" where
  "dm_can_write d q \<longleftrightarrow> dm_files d \<noteq> AllRights \<or> (\<exists>p. PathBeneath p AllAccess \<in> set (dm_rules d) \<and> path_beneath p q)"

definition dm_can_connect :: "ll_domain \<Rightarrow> u16 \<Rightarrow> bool" where
  "dm_can_connect d q \<longleftrightarrow> dm_net d \<noteq> AllRights \<or> NetPort q ConnectTcp \<in> set (dm_rules d)"


definition sb_flags :: "sandbox_outcome \<Rightarrow> bool \<times> bool \<times> bool" where
  "sb_flags out = (fs_restricted out, net_restricted out, syscall_restricted out)"

lemma sb_flags_note [simp]: "sb_flags (push_note n out) = sb_flags out"
  by (simp add: sb_flags_def push_note_def)
















text \<open>
  A kernel without network rules, on which one of the paths does not exist, with the answers the crate gives in its default mode: creating
  the ruleset succeeds, and the rights that the kernel does not know are dropped.
\<close>

definition wit_landlock :: landlock_sys where
  "wit_landlock = \<lparr>ll_create = (\<lambda>net. None), ll_open = (\<lambda>p. if p = ''/lib64'' then Some ''ENOENT'' else None), ll_add = (\<lambda>_. None),
     ll_restrict = (\<lambda>net rs. Ok (PartiallyEnforced, \<lparr>dm_files = AllRights, dm_net = Unrestricted,
       dm_rules = filter (\<lambda>r. case r of PathBeneath _ _ \<Rightarrow> True | _ \<Rightarrow> False) rs\<rparr>))\<rparr>"

text \<open>A recent kernel, which enforces every right.\<close>

definition wit_landlock_full :: landlock_sys where
  "wit_landlock_full = wit_landlock\<lparr>ll_restrict := (\<lambda>net rs. Ok (FullyEnforced, \<lparr>dm_files = AllRights,
     dm_net = (if net then AllRights else Unrestricted), dm_rules = rs\<rparr>))\<rparr>"

lemma wit_landlock_documented: "landlock_documented wit_landlock" "landlock_documented wit_landlock_full"
  by (auto simp: landlock_documented_def wit_landlock_def wit_landlock_full_def)

definition wit_seccomp :: seccomp_sys where
  "wit_seccomp = \<lparr>sc_arch = ''aarch64'', sc_build = (\<lambda>_. None), sc_compile = (\<lambda>_. None), sc_apply = (\<lambda>_. None)\<rparr>"

definition wit_policy :: sandbox_policy where
  "wit_policy = add_rw ''/c'' (add_ro ''/lib64'' (add_ro ''/usr'' policy_agent_worker))"


text \<open>
  The one case in which the report says too much: on a documented kernel without network rules the outcome claims a restricted network,
  although no TCP right is controlled, so every port can still be reached.\<close>

theorem net_report_overstated:
  "\<exists>K out d. landlock_documented K \<and> sandbox_apply K wit_seccomp policy_host_daemon = (out, Some d, snd (snd (sandbox_apply K wit_seccomp policy_host_daemon))) \<and>
     net_restricted out \<and> dm_net d = Unrestricted \<and> (\<forall>q. dm_can_connect d q)"
proof -
  let ?r = "sandbox_apply wit_landlock wit_seccomp policy_host_daemon"
  have "map_option dm_net (fst (snd ?r)) = Some Unrestricted" "net_restricted (fst ?r)" by code_simp+
  then obtain d where "?r = (fst ?r, Some d, snd (snd ?r))" "dm_net d = Unrestricted" by (cases ?r) auto
  then show ?thesis
    using wit_landlock_documented(1) \<open>net_restricted (fst ?r)\<close>
    by (intro exI [of _ wit_landlock] exI [of _ "fst ?r"] exI [of _ d]) (simp add: dm_can_connect_def)
qed

lemma exec_denied:
  assumes "sandbox_apply K Q P = (out, ruleset, Some calls)" "\<not> allow_exec P"
  shows "sc_arch Q = ''x86_64'' \<and> {59, 322, 57, 58, 101} \<subseteq> set calls \<and> set calls \<inter> {56, 435} = {} \<or>
    sc_arch Q = ''aarch64'' \<and> {221, 281, 117} \<subseteq> set calls \<and> set calls \<inter> {220, 435} = {}"
proof -
  have "apply_seccomp Q P (fst (apply_landlock K P outcome_empty)) = (out, Some calls)"
    using assms(1) by (auto simp: sandbox_apply_def Let_def split: prod.splits)
  then obtain arch where "target_arch_of (sc_arch Q) = Some arch" "calls = denied_calls P arch"
    by (auto simp: apply_seccomp_def Let_def split: option.splits)
  then show ?thesis
    using assms(2)
    by (cases arch) (auto simp: target_arch_of_def denied_calls_def rule_numbers_def DENY_def EXEC_FAMILY_def split: if_splits)
qed

text \<open>
  Once the filter of a policy without \<open>allow_exec\<close> is installed, no new program can be started and no process traced, on both
  supported machines, while threads can still be created (\<open>clone\<close> and \<open>clone3\<close> pass).\<close>

theorem sandbox_stops_exec:
  assumes "sandbox_apply K Q P = (out, dmn, Some calls)" "\<not> allow_exec P"
  shows "sc_arch Q = ''x86_64'' \<and> {59, 322, 57, 58, 101} \<subseteq> set calls \<and> set calls \<inter> {56, 435} = {} \<or>
    sc_arch Q = ''aarch64'' \<and> {221, 281, 117} \<subseteq> set calls \<and> set calls \<inter> {220, 435} = {}"
  using assms by (rule exec_denied)

theorem sandbox_stops_exec_witness:
  "\<exists>out rs calls. sandbox_apply wit_landlock wit_seccomp wit_policy = (out, rs, Some calls) \<and> 221 \<in> set calls \<and> 220 \<notin> set calls"
proof -
  let ?r = "sandbox_apply wit_landlock wit_seccomp wit_policy"
  have "snd (snd ?r) \<noteq> None" by code_simp
  then obtain calls where eq: "?r = (fst ?r, fst (snd ?r), Some calls)" by (cases ?r) auto
  have "\<not> allow_exec wit_policy" "sc_arch wit_seccomp \<noteq> ''x86_64''" by code_simp+
  then show ?thesis using sandbox_stops_exec [OF eq] eq by auto
qed

text \<open>Outside Linux nothing of the policy is put in force, and the outcome says so.\<close>

lemma no_sandbox_elsewhere:
  "sb_flags (macos_apply rl da P) = (False, False, False)" "sb_flags (windows_apply tk rm P) = (False, False, False)"
  by (simp_all add: macos_apply_def windows_apply_def drop_privileges_def Let_def) (simp_all add: sb_flags_def outcome_empty_def)

end
