(* ===== verification/Host_Program.thy ===== *)
theory Host_Program
  imports Acl Audit_Log Discovery File_Transfer Host_Session Sandbox Text_Bytes
begin

text \<open>
  The host program (\<open>miru-host/src/main.rs\<close>, \<open>headless.rs\<close>): the commands \<open>audit\<close>, \<open>token\<close> and \<open>service\<close> and the start of the
  daemon, on Linux and with the feature \<open>agent\<close>. A command returns a report, a value that carries what is printed, with the exit
  code. The environment, the files and the clock are arguments. Logging and the probes that are only logged are left out.
\<close>

section \<open>Commands\<close>

datatype invocation = RunAudit "string list" | RunToken "string list" | RunService "string list" | RunDaemon

text \<open>The first element of \<open>args\<close> is the name of the program.\<close>

definition main_dispatch :: "string list \<Rightarrow> invocation" where
  "main_dispatch args =
     (case args of
        _ # c # rest \<Rightarrow>
          (if c = ''audit'' then RunAudit rest
           else if c = ''token'' then RunToken rest
           else if c = ''service'' then RunService rest
           else RunDaemon)
      | _ \<Rightarrow> RunDaemon)"

definition detect_headless :: "(string \<Rightarrow> string option) \<Rightarrow> bool" where
  "detect_headless env \<longleftrightarrow> env ''DISPLAY'' = None \<and> env ''WAYLAND_DISPLAY'' = None"

text \<open>\<open>dirs::config_dir\<close> is an argument.\<close>

definition miru_config_dir :: "string option \<Rightarrow> string" where
  "miru_config_dir cfg = path_join (case cfg of Some d \<Rightarrow> d | None \<Rightarrow> ''.'') ''miru''"

subsection \<open>\<open>audit\<close>\<close>

text \<open>
  \<open>files\<close> gives the content of a path: \<open>None\<close> if it does not exist, an error if it cannot be read.
\<close>

datatype confirm_word = Confirmed | Declined | Dash

record audit_row =
  ar_seq :: u64
  ar_capability :: capability
  ar_outcome :: audit_outcome
  ar_confirmed :: confirm_word
  ar_action :: json

definition audit_row_of :: "audit_entry \<Rightarrow> audit_row" where
  "audit_row_of e = \<lparr>ar_seq = ae_seq e, ar_capability = ae_capability e, ar_outcome = ae_outcome e,
     ar_confirmed = (case ae_confirmed e of Some True \<Rightarrow> Confirmed | Some False \<Rightarrow> Declined | None \<Rightarrow> Dash),
     ar_action = ae_action e\<rparr>"

datatype audit_report =
    NoAuditLog string
  | ChainValid u64 string
  | ChainBrokenAt audit_error string
  | AuditRows string "audit_row list"
  | CannotShow audit_error
  | AuditUsage

type_synonym file_view = "string \<Rightarrow> (audit_error + string) option"

definition run_audit_command ::
  "audit_ext \<Rightarrow> string option \<Rightarrow> file_view \<Rightarrow> string list \<Rightarrow> audit_report \<times> nat" where
  "run_audit_command X cfg files args =
     (let subc = (case args of a # _ \<Rightarrow> a | [] \<Rightarrow> ''help'');
          path = (case args of _ # p # _ \<Rightarrow> p | _ \<Rightarrow> path_join (miru_config_dir cfg) ''agent_audit.log'')
      in if subc = ''verify'' then
           (case files path of
              None \<Rightarrow> (NoAuditLog path, 0)
            | Some f \<Rightarrow>
                (case (case f of Inl e \<Rightarrow> Err e | Inr c \<Rightarrow> verify_path X c) of
                   Inr n \<Rightarrow> (ChainValid n path, 0)
                 | Inl e \<Rightarrow> (ChainBrokenAt e path, 1)))
         else if subc = ''show'' then
           (case files path of
              None \<Rightarrow> (NoAuditLog path, 0)
            | Some f \<Rightarrow>
                (case (case f of Inl e \<Rightarrow> Err e | Inr c \<Rightarrow> read_all_verified X c) of
                   Inr es \<Rightarrow> (AuditRows path (map audit_row_of es), 0)
                 | Inl e \<Rightarrow> (CannotShow e, 1)))
         else (AuditUsage, 0))"

subsection \<open>\<open>token\<close>\<close>

fun cli_parse_capability :: "string \<Rightarrow> capability option" where
  "cli_parse_capability s =
     map_of [(''screen_read'', ScreenRead), (''pointer_move'', PointerMove), (''pointer_click'', PointerClick),
       (''key_type'', KeyType), (''key_combo'', KeyCombo), (''clipboard_read'', ClipboardRead),
       (''clipboard_write'', ClipboardWrite), (''file_read'', FileRead), (''file_write'', FileWrite),
       (''shell_exec'', ShellExec), (''open_url'', OpenUrl)] s"

record token_flags =
  tf_cap_str :: "string option"
  tf_ttl_hours :: u64
  tf_label :: string

definition default_flags :: token_flags where
  "default_flags = \<lparr>tf_cap_str = None, tf_ttl_hours = 8, tf_label = ''miru-cli''\<rparr>"

text \<open>The loop over the flags: \<open>Inl\<close> is an unknown flag. A flag at the end of the line has no value.\<close>

fun first_arg :: "'a list \<Rightarrow> 'a option" where
  "first_arg [] = None"
| "first_arg (a # _) = Some a"

fun parse_flags :: "string list \<Rightarrow> token_flags \<Rightarrow> string + token_flags" where
  "parse_flags [] fl = Ok fl"
| "parse_flags (a # rest) fl =
     (if a = ''--cap'' then parse_flags (drop 1 rest) (fl\<lparr>tf_cap_str := first_arg rest\<rparr>)
      else if a = ''--ttl-hours'' then
        parse_flags (drop 1 rest)
          (fl\<lparr>tf_ttl_hours := (case Option.bind (first_arg rest) (parse_uint (2 ^ 64)) of Some n \<Rightarrow> word_of_nat n | None \<Rightarrow> 8)\<rparr>)
      else if a = ''--label'' then
        parse_flags (drop 1 rest) (fl\<lparr>tf_label := (case first_arg rest of Some l \<Rightarrow> l | None \<Rightarrow> tf_label fl)\<rparr>)
      else Err a)"

definition flag_capabilities :: "string option \<Rightarrow> capability list" where
  "flag_capabilities cap_str =
     (case cap_str of
        None \<Rightarrow> assistant_default
      | Some s \<Rightarrow> remdups (List.map_filter (\<lambda>c. cli_parse_capability (trim c)) (split_on (CHR '','') s)))"

datatype token_report =
    TokenUsage
  | UnknownFlag string
  | NoValidCapabilities string
  | ConfigDirFailed
  | IdentityFailed identity_error
  | IssuedToken agent_token string "capability list" u64 bool string

text \<open>
  A report of an issued token carries the token, its printed form, its capabilities, the minutes it lasts, whether they are
  reported as capped, and the fingerprint of the issuer. The product \<open>ttl_hours * 3600\<close> wraps, as in a release build.
  \<open>now\<close> and \<open>now1\<close> are the clock when the token is issued and when its rest is printed.
\<close>

definition run_token_command ::
  "token_ext \<Rightarrow> (bytes \<Rightarrow> bytes) \<Rightarrow> bytes \<Rightarrow> bool \<Rightarrow> identity_io \<Rightarrow> bytes option \<Rightarrow> u64 \<Rightarrow> u64 \<Rightarrow> u128 \<Rightarrow> string list \<Rightarrow>
    token_report \<times> nat \<times> bytes option" where
  "run_token_command X sha256 seed mkdir_ok io id_file now now1 uuid args =
     (if (case args of a # _ \<Rightarrow> a | [] \<Rightarrow> ''help'') \<noteq> ''issue'' then (TokenUsage, 0, id_file)
      else
        (case parse_flags (drop 1 args) default_flags of
           Inl a \<Rightarrow> (UnknownFlag a, 2, id_file)
         | Inr fl \<Rightarrow>
             (let cs = flag_capabilities (tf_cap_str fl) in
              if cs = [] then (NoValidCapabilities (case tf_cap_str fl of Some s \<Rightarrow> s | None \<Rightarrow> []), 2, id_file)
              else if \<not> mkdir_ok then (ConfigDirFailed, 1, id_file)
              else
                (case load_or_create (tx_ed X) seed io id_file of
                   (Inl e, id_file') \<Rightarrow> (IdentityFailed e, 1, id_file')
                 | (Inr ident, id_file') \<Rightarrow>
                     (let requested = tf_ttl_hours fl * 3600;
                          t = issue X (di_signing_key ident) (tf_label fl) cs requested None now uuid;
                          actual = seconds_remaining t now1
                      in (IssuedToken t (token_to_string X t) cs (actual div 60) (actual < requested)
                            (pubkey_fingerprint sha256 (di_verifying_key ident)), 0, id_file'))))))"

subsection \<open>\<open>service\<close>\<close>

datatype service_report = PrintedUnit string | WroteUnit string | UnitWriteFailed | ServiceUsage

text \<open>\<open>unit_text\<close> is the file \<open>res/miru-host.service\<close>; the second component is what is written to the disk.\<close>

definition UNIT_PATH :: string where
  "UNIT_PATH = ''/etc/systemd/system/miru-host.service''"

definition run_service_command :: "string \<Rightarrow> bool \<Rightarrow> string list \<Rightarrow> service_report \<times> (string \<times> string) option" where
  "run_service_command unit_text write_ok args =
     (let subc = (case args of a # _ \<Rightarrow> a | [] \<Rightarrow> ''help'') in
      if subc = ''print-unit'' \<or> subc = ''print'' then (PrintedUnit unit_text, None)
      else if subc = ''install'' then
        (if write_ok then (WroteUnit UNIT_PATH, Some (UNIT_PATH, unit_text)) else (UnitWriteFailed, None))
      else (ServiceUsage, None))"

section \<open>The daemon\<close>

text \<open>
  \<open>load_or_create_device_id\<close> on the content of the file: \<open>io\<close> is \<open>None\<close> if the file operation succeeds, and otherwise the number of
  bytes a failing write left.
\<close>

datatype device_id_error = DeviceIdUnreadable | DeviceIdNotWritten

definition load_or_create_device_id ::
  "uuid \<Rightarrow> nat option \<Rightarrow> string option \<Rightarrow> (device_id_error + string) \<times> string option" where
  "load_or_create_device_id u io file =
     (case file of
        Some c \<Rightarrow> (if io \<noteq> None \<or> \<not> utf8_valid c then (Err DeviceIdUnreadable, file) else (Ok (trim c), file))
      | None \<Rightarrow>
          (let d = device_id_new u in
           case io of None \<Rightarrow> (Ok d, Some d) | Some k \<Rightarrow> (Err DeviceIdNotWritten, Some (take k d))))"

definition host_policy :: "string \<Rightarrow> sandbox_policy" where
  "host_policy config_dir =
     add_ro ''/etc/resolv.conf'' (add_ro ''/etc/ssl'' (add_ro ''/lib64'' (add_ro ''/lib'' (add_ro ''/usr''
       (add_rw config_dir policy_host_daemon)))))"

definition rdv_port :: "(string \<Rightarrow> string option) \<Rightarrow> u16" where
  "rdv_port env =
     (case Option.bind (env ''MIRU_RDV_PORT'') (parse_uint (2 ^ 16)) of Some n \<Rightarrow> word_of_nat n | None \<Rightarrow> 21115)"

definition signal_url :: "(string \<Rightarrow> string option) \<Rightarrow> string" where
  "signal_url env = (case env ''MIRU_SIGNAL'' of Some s \<Rightarrow> s | None \<Rightarrow> ''ws://localhost:21115/ws'')"

definition host_advert :: "(string \<Rightarrow> string option) \<Rightarrow> bool \<Rightarrow> string \<Rightarrow> local_advertisement" where
  "host_advert env hw_encode device_id =
     \<lparr>la_device_id = device_id, la_constellation_pubkey = [],
      la_friendly_name = (case env ''MIRU_FRIENDLY_NAME'' of Some n \<Rightarrow> n | None \<Rightarrow> ''Miru Host ('' @ device_id @ '')''),
      la_form_factor = Desktop, la_port = rdv_port env,
      la_capabilities = \<lparr>dc_displays = [], dc_has_microphone = False, dc_has_speakers = False, dc_has_camera = False,
        dc_has_hw_encode = hw_encode, dc_battery_pct = None, dc_form_factor = Desktop, dc_friendly_name = [],
        dc_os_family = ''linux''\<rparr>\<rparr>"


text \<open>
  The start of the daemon, up to \<open>session::run\<close>. The world gives what the files hold and what each operation does; a failing
  sandbox or discovery does not stop the start.
\<close>

record host_files =
  hf_identity :: "bytes option"
  hf_acl :: acl_files
  hf_device_id :: "string option"

record host_world =
  hw_env :: "string \<Rightarrow> string option"
  hw_config_dir :: "string option"
  hw_mkdir_ok :: bool
  hw_seed :: bytes
  hw_identity_io :: identity_io
  hw_acl_read_ok :: bool
  hw_acl_copy_ok :: bool
  hw_uuid :: uuid
  hw_device_io :: "nat option"
  hw_landlock :: landlock_sys
  hw_seccomp :: seccomp_sys
  hw_hw_encode :: bool

datatype start_error = NoConfigDir | StartIdentity identity_error | StartDeviceId device_id_error

record host_daemon =
  hd_identity :: device_identity
  hd_acl :: host_acl
  hd_device_id :: string
  hd_signal_url :: string
  hd_config_dir :: string
  hd_sandbox :: "sandbox_outcome \<times> ll_domain option \<times> int list option"
  hd_advert :: local_advertisement
  hd_require_pairing_confirm :: bool

definition host_start :: "ed25519 \<Rightarrow> acl_codec \<Rightarrow> host_world \<Rightarrow> host_files \<Rightarrow> (start_error + host_daemon) \<times> host_files" where
  "host_start E J W F =
     (let config_dir = miru_config_dir (hw_config_dir W) in
      if \<not> hw_mkdir_ok W then (Err NoConfigDir, F)
      else
        (case load_or_create E (hw_seed W) (hw_identity_io W) (hf_identity F) of
           (Inl e, idf) \<Rightarrow> (Err (StartIdentity e), F\<lparr>hf_identity := idf\<rparr>)
         | (Inr ident, idf) \<Rightarrow>
             (let acl = start_acl J (hw_acl_read_ok W) (hw_acl_copy_ok W) (hf_acl F);
                  F1 = F\<lparr>hf_identity := idf, hf_acl := ha_files acl\<rparr>
              in case load_or_create_device_id (hw_uuid W) (hw_device_io W) (hf_device_id F) of
                   (Inl e, df) \<Rightarrow> (Err (StartDeviceId e), F1\<lparr>hf_device_id := df\<rparr>)
                 | (Inr d, df) \<Rightarrow>
                     (Ok \<lparr>hd_identity = ident, hd_acl = acl, hd_device_id = d, hd_signal_url = signal_url (hw_env W),
                        hd_config_dir = config_dir,
                        hd_sandbox = sandbox_apply (hw_landlock W) (hw_seccomp W) (host_policy config_dir),
                        hd_advert = host_advert (hw_env W) (hw_hw_encode W) d,
                        hd_require_pairing_confirm = (hw_env W ''MIRU_REQUIRE_PAIRING_CONFIRM'' \<noteq> None)\<rparr>,
                      F1\<lparr>hf_device_id := df\<rparr>))))"

section \<open>Printable text\<close>

definition printable :: "string \<Rightarrow> bool" where
  "printable s = list_all (\<lambda>c. 32 < (of_char c :: nat) \<and> (of_char c :: nat) < 128) s"

lemma printable_blank: "printable s \<Longrightarrow> is_blank s \<longleftrightarrow> s = []"
  by (cases s) (auto simp: printable_def is_blank_def split: list.split)

lemma printable_take_drop: "printable s \<Longrightarrow> printable (take n s) \<and> printable (drop n s)"
  by (auto simp: printable_def list_all_iff dest: in_set_takeD in_set_dropD)

lemma trim_printable:
  assumes "printable s"
  shows "trim s = s"
proof -
  have blank: "is_blank (take n s) \<longleftrightarrow> n = 0 \<or> s = []" "is_blank (drop n s) \<longleftrightarrow> length s \<le> n" for n
    using printable_take_drop [OF assms, of n] printable_blank [of "take n s"] printable_blank [of "drop n s"] by auto
  have "trim_start s = s"
    by (cases "s = []") (simp_all add: trim_start_def blank upt_conv_Cons del: upt_Suc)
  moreover have "trim_end s = s" by (simp add: trim_end_def blank)
  ultimately show ?thesis by (simp add: trim_def)
qed

lemma utf8_printable: "printable s \<Longrightarrow> utf8_valid s"
  unfolding utf8_valid_def printable_def by (induction s) auto

lemma printable_device_id: "printable (device_id_new u)"
proof -
  have digit: "printable [to_ascii_upper (hex_digit n)]" if "n < 16" for n
    using that by (cases "n < 10") (auto simp: printable_def hex_digit_def to_ascii_upper_def is_ascii_lower_def)
  then have byte: "printable (map to_ascii_upper (hex_byte b))" for b
    using digit [of "unat b div 16"] digit [of "unat b mod 16"] unsigned_less [of b, where 'a = nat]
    by (simp add: hex_byte_def printable_def)
  have "printable (map to_ascii_upper (hex_encode bs))" for bs
    by (induction bs) (use byte in \<open>auto simp: hex_encode_def printable_def\<close>)
  then have "printable (map to_ascii_upper (take 8 (hex_encode (uuid_bytes u))))"
    using printable_take_drop by (simp only: take_map [symmetric])
  from printable_take_drop [OF this, of 4]
  have "printable (take 4 (map to_ascii_upper (take 8 (hex_encode (uuid_bytes u)))))"
    "printable (drop 4 (map to_ascii_upper (take 8 (hex_encode (uuid_bytes u)))))" by simp_all
  then show ?thesis by (simp add: device_id_new_def Let_def printable_def)
qed

section \<open>Properties\<close>

lemma device_id_reloaded:
  assumes "load_or_create_device_id u io file = (Ok d, file')"
  shows "load_or_create_device_id u' None file' = (Ok d, file')"
  using assms trim_printable [OF printable_device_id] utf8_printable [OF printable_device_id]
  by (auto simp: load_or_create_device_id_def Let_def split: option.splits if_splits)

lemma identity_reloaded:
  assumes "load_or_create E seed io file = (Ok d, file')" "length seed = 32"
  shows "load_or_create E seed' IdDone file' = (Ok d, file') \<and> di_verifying_key d = ed_verifying_key E (di_signing_key d)"
  using assms by (auto simp: load_or_create_def generate_identity_def Let_def split: option.splits identity_io.splits if_splits)

lemma host_start_Ok:
  assumes "host_start E J W F = (Ok D, F')"
  obtains "load_or_create E (hw_seed W) (hw_identity_io W) (hf_identity F) = (Ok (hd_identity D), hf_identity F')"
    "load_or_create_device_id (hw_uuid W) (hw_device_io W) (hf_device_id F) = (Ok (hd_device_id D), hf_device_id F')"
    "hd_sandbox D = sandbox_apply (hw_landlock W) (hw_seccomp W) (host_policy (hd_config_dir D))"
  using assms by (auto simp: host_start_def Let_def split: prod.splits sum.splits if_splits)

text \<open>
  A host keeps its identity key and its device number over restarts: after a first successful start, every later
  start that can use its files succeeds and runs with the same key and the same number, whatever random values it draws.\<close>

theorem host_restart_keeps_identity:
  assumes "host_start E J W F = (Ok D, F')" "length (hw_seed W) = 32"
    and "hw_mkdir_ok W'" "hw_identity_io W' = IdDone" "hw_device_io W' = None"
  shows "\<exists>D' F''. host_start E J W' F' = (Ok D', F'') \<and> hd_identity D' = hd_identity D \<and> hd_device_id D' = hd_device_id D"
  using assms(1)
proof (cases rule: host_start_Ok)
  case 1
  note ident = identity_reloaded [OF 1(1) assms(2), THEN conjunct1] and dev = device_id_reloaded [OF 1(2)]
  show ?thesis using assms(3-5) by (simp add: host_start_def ident dev Let_def)
qed

text \<open>The names of the capabilities on the command line, and the value of a flag: the one after its last occurrence.\<close>

fun capability_name :: "capability \<Rightarrow> string" where
  "capability_name ScreenRead = ''screen_read''"
| "capability_name PointerMove = ''pointer_move''"
| "capability_name PointerClick = ''pointer_click''"
| "capability_name KeyType = ''key_type''"
| "capability_name KeyCombo = ''key_combo''"
| "capability_name ClipboardRead = ''clipboard_read''"
| "capability_name ClipboardWrite = ''clipboard_write''"
| "capability_name FileRead = ''file_read''"
| "capability_name FileWrite = ''file_write''"
| "capability_name ShellExec = ''shell_exec''"
| "capability_name OpenUrl = ''open_url''"

fun flag_value :: "string \<Rightarrow> string list \<Rightarrow> string option \<Rightarrow> string option" where
  "flag_value f [] v = v"
| "flag_value f [a] v = (if a = f then None else v)"
| "flag_value f (a # b # rest) v = flag_value f rest (if a = f then Some b else v)"

definition requested_capabilities :: "string list \<Rightarrow> capability set" where
  "requested_capabilities args =
     (case flag_value ''--cap'' (drop 1 args) None of
        None \<Rightarrow> {c. \<not> requires_confirmation c}
      | Some s \<Rightarrow> {c. capability_name c \<in> trim ` set (split_on (CHR '','') s)})"

lemma cli_parse_capability_name: "cli_parse_capability s = Some c \<longleftrightarrow> s = capability_name c"
  by (cases c) (auto split: if_splits)

lemma in_map_filter: "y \<in> set (List.map_filter f xs) \<longleftrightarrow> (\<exists>x \<in> set xs. f x = Some y)"
  by (induction xs) (auto simp: List.map_filter_simps split: option.split)

lemma parse_flags_cap:
  "parse_flags args fl = Ok fl' \<Longrightarrow> tf_cap_str fl' = flag_value ''--cap'' args (tf_cap_str fl)"
proof (induction args fl rule: parse_flags.induct)
  case (2 a rest fl)
  then show ?case by (cases rest) (auto split: if_splits)
qed simp

lemma flag_capabilities_requested:
  assumes "parse_flags (drop 1 args) default_flags = Ok fl"
  shows "set (flag_capabilities (tf_cap_str fl)) = requested_capabilities args"
proof (cases "tf_cap_str fl")
  case None
  then show ?thesis
    using parse_flags_cap [OF assms] assistant_default_exact
    by (simp add: requested_capabilities_def flag_capabilities_def default_flags_def)
next
  case (Some s)
  then have "flag_value ''--cap'' (drop 1 args) None = Some s"
    using parse_flags_cap [OF assms] by (simp add: default_flags_def)
  moreover have "set (List.map_filter (\<lambda>c. cli_parse_capability (trim c)) xs) = {c. capability_name c \<in> trim ` set xs}" for xs
    unfolding set_eq_iff in_map_filter cli_parse_capability_name by (simp add: image_iff) metis
  ultimately show ?thesis using Some by (simp add: requested_capabilities_def flag_capabilities_def)
qed

text \<open>
  C13. A token printed by \<open>miru-host token issue\<close> works: the daemon, which loads the same identity file, accepts the printed text as
  long as the token lives, and the accepted token carries exactly the capabilities that were asked for: those whose names stand, apart from white space, between the
  commas of the last \<open>--cap\<close>, and without \<open>--cap\<close> those that need no confirmation. They are never empty, and the token lives at most 15 minutes,
  whatever \<open>--ttl-hours\<close> says. (The JSON codec may give the set of capabilities back in another order.)\<close>

theorem cli_token_accepted:
  assumes "ed25519_correct (tx_ed X)" "base64_correct (tx_b64url X)" "length seed = 32"
    and cmd: "run_token_command X sha256 seed mkdir_ok io idf now now1 uuid args = (IssuedToken t s cs mins capped fpr, code, idf')"
    and codec: "tx_from_slice X (canonical_payload_bytes X (payload t)) = Some ((payload t)\<lparr>caps := cs'\<rparr>)" "set cs' = set (caps (payload t))"
    and time: "unat now + 900 < 2 ^ 64" "now \<le> later" "later \<le> tok_exp (payload t)" "unat later + 300 < 2 ^ 64" "now \<le> now1"
  shows "\<exists>ident tok. load_or_create (tx_ed X) seed' IdDone idf' = (Ok ident, idf') \<and>
    parse_and_verify X s (di_verifying_key ident) later = Ok tok \<and>
    set (caps (payload tok)) = requested_capabilities args \<and> set cs = requested_capabilities args \<and> requested_capabilities args \<noteq> {} \<and>
    tok_exp (payload tok) = tok_exp (payload t) \<and> unat (tok_exp (payload tok)) \<le> unat now + 900 \<and> unat mins \<le> 15"
proof -
  obtain ident lbl ttl fl where load: "load_or_create (tx_ed X) seed io idf = (Ok ident, idf')"
      and t: "t = issue X (di_signing_key ident) lbl cs ttl None now uuid" and s: "s = token_to_string X t"
      and cs: "cs \<noteq> []" and mins: "mins = seconds_remaining t now1 div 60"
      and fl: "parse_flags (drop 1 args) default_flags = Ok fl" "cs = flag_capabilities (tf_cap_str fl)"
    using cmd by (auto simp: run_token_command_def Let_def split: if_splits sum.splits prod.splits)
  from identity_reloaded [OF load assms(3)]
  have ident: "load_or_create (tx_ed X) seed' IdDone idf' = (Ok ident, idf')"
    "di_verifying_key ident = ed_verifying_key (tx_ed X) (di_signing_key ident)" by simp_all
  have parse: "parse_and_verify X s (di_verifying_key ident) later = Ok (t\<lparr>payload := (payload t)\<lparr>caps := cs'\<rparr>\<rparr>)"
    using issued_token_parses [OF assms(1,2) t codec(1) time(1-4)] by (simp add: s ident(2))
  have ex: "unat (tok_exp (payload t)) \<le> unat now + 900"
    using issue_exp [OF time(1)] min_ttl_le [of ttl] unfolding t by simp
  have "unat (seconds_remaining t now1) \<le> 900"
    using ex time(5) unat_sub [of now1 "tok_exp (payload t)"]
    by (cases "now1 \<le> tok_exp (payload t)") (auto simp: seconds_remaining_def sat_sub_def word_le_nat_alt word_less_nat_alt)
  then have "unat mins \<le> 15" by (simp add: mins unat_div)
  moreover have req: "set cs = requested_capabilities args" using flag_capabilities_requested [OF fl(1)] fl(2) by simp
  moreover have "set cs' = set cs" using codec(2) by (simp add: t issue_payload)
  moreover have "requested_capabilities args \<noteq> {}" using cs req [symmetric] by simp
  ultimately show ?thesis using ident(1) parse ex
    by (intro exI [of _ ident] exI [of _ "t\<lparr>payload := (payload t)\<lparr>caps := cs'\<rparr>\<rparr>"]) simp
qed

text \<open>
  The two audit commands agree on every log file: \<open>show\<close> prints entries exactly if \<open>verify\<close> finds the chain intact, and it prints
  as many as \<open>verify\<close> counts. Otherwise both end with exit code 1, so a broken log is never shown.\<close>

theorem audit_commands_agree:
  assumes "files path = Some f"
  shows "(\<exists>n rows. run_audit_command X cfg files [''verify'', path] = (ChainValid n path, 0) \<and>
            run_audit_command X cfg files [''show'', path] = (AuditRows path rows, 0) \<and> n = word_of_nat (length rows)) \<or>
         (\<exists>e e'. run_audit_command X cfg files [''verify'', path] = (ChainBrokenAt e path, 1) \<and>
            run_audit_command X cfg files [''show'', path] = (CannotShow e', 1))"
proof (cases f)
  case (Inl e)
  then show ?thesis using assms by (simp add: run_audit_command_def)
next
  case (Inr c)
  show ?thesis
  proof (cases "read_all_verified X c")
    case (Inl e')
    have "\<nexists>r. replay_chain X c = Ok r"
    proof
      assume "\<exists>r. replay_chain X c = Ok r"
      then obtain r es where "audit_entries X c = Some es" "audit_chain X genesis_hash 0 es = Some r"
        by (auto simp: replay_chain_iff)
      then show False using read_all_verified_iff [of X c es] Inl by auto
    qed
    then obtain e where "verify_path X c = Err e"
      by (cases "replay_chain X c") (auto simp: verify_path_def)
    then show ?thesis using assms \<open>f = Inr c\<close> Inl by (simp add: run_audit_command_def)
  next
    case (Inr es)
    then obtain h n where chain: "audit_entries X c = Some es" "audit_chain X genesis_hash 0 es = Some (h, n)"
      by (auto simp: read_all_verified_iff)
    then have "verify_path X c = Ok n" by (simp add: verify_path_def replay_chain_iff [THEN iffD2])
    moreover have "n = word_of_nat (length es)" using chain(2) by (auto dest: ac.replay_count)
    ultimately show ?thesis using assms \<open>f = Inr c\<close> Inr by (simp add: run_audit_command_def)
  qed
qed


section \<open>Witnesses\<close>

definition wit_host_world :: host_world where
  "wit_host_world = \<lparr>hw_env = (\<lambda>_. None), hw_config_dir = Some ''/home/u/.config'', hw_mkdir_ok = True,
     hw_seed = replicate 32 7, hw_identity_io = IdDone, hw_acl_read_ok = True, hw_acl_copy_ok = True, hw_uuid = 0,
     hw_device_io = None, hw_landlock = wit_landlock_full, hw_seccomp = wit_seccomp, hw_hw_encode = False\<rparr>"

definition wit_host_files :: host_files where
  "wit_host_files = \<lparr>hf_identity = None, hf_acl = \<lparr>af_main = None, af_tmp = None, af_bak = None\<rparr>, hf_device_id = None\<rparr>"

lemma wit_host_start:
  "\<exists>D F'. host_start demo_ed25519 wit_acl_codec wit_host_world wit_host_files = (Ok D, F') \<and>
     hd_config_dir D = ''/home/u/.config/miru'' \<and>
     hd_sandbox D = sandbox_apply wit_landlock_full wit_seccomp (host_policy ''/home/u/.config/miru'')"
  by (simp add: host_start_def wit_host_world_def wit_host_files_def load_or_create_def generate_identity_def
      load_or_create_device_id_def start_acl_def acl_load_def Let_def miru_config_dir_def path_join_def is_absolute_def)

theorem host_restart_keeps_identity_witness:
  "\<exists>D F' D' F''. host_start demo_ed25519 wit_acl_codec wit_host_world wit_host_files = (Ok D, F') \<and>
     host_start demo_ed25519 wit_acl_codec (wit_host_world\<lparr>hw_seed := replicate 32 9, hw_uuid := 77\<rparr>) F' = (Ok D', F'') \<and>
     hd_identity D' = hd_identity D \<and> hd_device_id D' = hd_device_id D"
proof -
  obtain D F' where D: "host_start demo_ed25519 wit_acl_codec wit_host_world wit_host_files = (Ok D, F')"
    using wit_host_start by blast
  have "\<exists>D' F''. host_start demo_ed25519 wit_acl_codec (wit_host_world\<lparr>hw_seed := replicate 32 9, hw_uuid := 77\<rparr>) F' = (Ok D', F'') \<and>
     hd_identity D' = hd_identity D \<and> hd_device_id D' = hd_device_id D"
    by (rule host_restart_keeps_identity [OF D]) (simp_all add: wit_host_world_def)
  with D show ?thesis by blast
qed


theorem audit_commands_agree_witness:
  "\<exists>rows. run_audit_command wit_audit_ext None (\<lambda>_. Some (Ok (''a'' @ CHR 0x0A # ''b'' @ [CHR 0x0A]))) [''show'', ''/l''] = (AuditRows ''/l'' rows, 0) \<and>
     word_of_nat (length rows) = (2 :: u64)"
proof -
  let ?c = "''a'' @ CHR 0x0A # ''b'' @ [CHR 0x0A]"
  let ?fs = "\<lambda>_ :: string. Some (Ok ?c) :: (audit_error + string) option"
  have "verify_path wit_audit_ext ?c = Ok 2"
    by (simp add: verify_path_def replay_chain_def file_lines_def strip_cr_def utf8_valid_def is_blank_def
        wit_audit_ext_def wit_entry0_def wit_entry1_def audit_hash_def)
  then have v: "run_audit_command wit_audit_ext None ?fs [''verify'', ''/l''] = (ChainValid 2 ''/l'', 0)"
    by (simp add: run_audit_command_def)
  show ?thesis
    using audit_commands_agree [of ?fs "''/l''" "Ok ?c" wit_audit_ext None, OF refl] unfolding v by auto
qed

definition wit_issue_args :: "string list" where
  "wit_issue_args = [''issue'', ''--cap'', ''screen_read'', ''--label'', ''agent'']"

lemma wit_issue_flags:
  "parse_flags (drop 1 wit_issue_args) default_flags = Ok \<lparr>tf_cap_str = Some ''screen_read'', tf_ttl_hours = 8, tf_label = ''agent''\<rparr>"
  by (simp add: wit_issue_args_def default_flags_def)

lemma wit_issue_caps: "flag_capabilities (Some ''screen_read'') = [ScreenRead]"
  by code_simp

lemma wit_issue_command:
  "run_token_command (demo_token_ext wit_payload) id seed True IdDone (Some (pad_to 32 [7])) 1000 1000 5 wit_issue_args =
     (let t = issue (demo_token_ext wit_payload) (pad_to 32 [7]) ''agent'' [ScreenRead] 28800 None 1000 5
      in (IssuedToken t (token_to_string (demo_token_ext wit_payload) t) [ScreenRead] 15 True
            (pubkey_fingerprint id (pad_to 32 [7])), 0, Some (pad_to 32 [7])))"
proof -
  obtain rest where args: "wit_issue_args = ''issue'' # rest" by (simp add: wit_issue_args_def)
  have pad: "pad_to 32 (pad_to 32 [7]) = pad_to 32 [7]" by (simp add: pad_to_def)
  show ?thesis
    using wit_issue_flags wit_issue_caps unfolding args
    by (simp add: run_token_command_def load_or_create_def Let_def issue_payload seconds_remaining_def sat_sub_def
        MAX_TTL_SECS_def demo_token_ext_def demo_ed25519_def pad)
qed

theorem cli_token_accepted_witness:
  "\<exists>t s mins capped fpr code idf (ident :: device_identity) tok.
     run_token_command (demo_token_ext wit_payload) id (replicate 32 7) True IdDone (Some (pad_to 32 [7])) 1000 1000 5 wit_issue_args =
       (IssuedToken t s [ScreenRead] mins capped fpr, code, idf) \<and>
     parse_and_verify (demo_token_ext wit_payload) s (di_verifying_key ident) 1500 = Ok tok \<and>
     set (caps (payload tok)) = {ScreenRead} \<and> unat mins \<le> 15"
proof -
  let ?X = "demo_token_ext wit_payload"
  define t where "t = issue ?X (pad_to 32 [7]) ''agent'' [ScreenRead] 28800 None 1000 5"
  have cmd: "run_token_command ?X id (replicate 32 7) True IdDone (Some (pad_to 32 [7])) 1000 1000 5 wit_issue_args =
      (IssuedToken t (token_to_string ?X t) [ScreenRead] 15 True (pubkey_fingerprint id (pad_to 32 [7])), 0, Some (pad_to 32 [7]))"
    unfolding wit_issue_command Let_def t_def by (rule refl)
  have pad: "pad_to 32 (pad_to 32 [7]) = pad_to 32 [7]" by (simp add: pad_to_def)
  have pl: "payload t = wit_payload"
    by (simp add: t_def wit_payload_def issue_payload demo_token_ext_def demo_ed25519_def demo_base64_def MAX_TTL_SECS_def pad)
  have req: "requested_capabilities wit_issue_args = {ScreenRead}"
    using flag_capabilities_requested [OF wit_issue_flags] wit_issue_caps by simp
  have "\<exists>ident tok. load_or_create (tx_ed ?X) [] IdDone (Some (pad_to 32 [7])) = (Ok ident, Some (pad_to 32 [7])) \<and>
    parse_and_verify ?X (token_to_string ?X t) (di_verifying_key ident) 1500 = Ok tok \<and>
    set (caps (payload tok)) = requested_capabilities wit_issue_args \<and> set [ScreenRead] = requested_capabilities wit_issue_args \<and>
    requested_capabilities wit_issue_args \<noteq> {} \<and> tok_exp (payload tok) = tok_exp (payload t) \<and>
    unat (tok_exp (payload tok)) \<le> unat (1000 :: u64) + 900 \<and> unat (15 :: u64) \<le> 15"
  proof (rule cli_token_accepted [OF _ _ _ cmd])
    show "ed25519_correct (tx_ed ?X)" "base64_correct (tx_b64url ?X)"
      by (simp_all add: demo_token_ext_def demo_ed25519_correct demo_base64_correct)
    show "tx_from_slice ?X (canonical_payload_bytes ?X (payload t)) = Some ((payload t)\<lparr>caps := [ScreenRead]\<rparr>)"
      using pl by (simp add: demo_token_ext_def wit_payload_def)
  qed (simp_all add: pl wit_payload_def)
  then obtain ident :: device_identity and tok where "parse_and_verify ?X (token_to_string ?X t) (di_verifying_key ident) 1500 = Ok tok"
      "set (caps (payload tok)) = {ScreenRead}" "unat (15 :: u64) \<le> 15"
    unfolding req by blast
  then show ?thesis using cmd by blast
qed

end
