(* ===== verification/Host_Accept.thy ===== *)
theory Host_Accept
  imports Host_Session Transport Signaling Backoff Capture_Loop
begin

text \<open>
  How a host gets its sessions (\<open>run\<close> and \<open>handle_viewer\<close> of \<open>miru-host/src/session.rs\<close>): the loop that stays registered with the
  signal server and serves every announced viewer, and the steps from the relay connection to the start of a session. The session
  itself is in \<open>Host_Session\<close>.
\<close>

section \<open>Staying registered\<close>

definition SIGNAL_BACKOFF_MAX_SECS :: u64 where
  "SIGNAL_BACKOFF_MAX_SECS = 120"

definition SIGNAL_BACKOFF_BASE_SECS :: u64 where
  "SIGNAL_BACKOFF_BASE_SECS = 5"

definition signal_delay :: "u32 \<Rightarrow> f64 \<Rightarrow> u64" where
  "signal_delay attempt rnd = equal_jitter_secs attempt SIGNAL_BACKOFF_BASE_SECS SIGNAL_BACKOFF_MAX_SECS rnd"

text \<open>
  A round is an attempt to connect with the events that follow; an event \<open>None\<close> is the end of the stream. A viewer is served by a task of
  its own, here its relay address and its token. The flag says whether the round ended; a round that did not is still waiting.
\<close>

datatype signal_round = ConnectFailed | Connected "signal_event option list"

fun signal_events :: "signal_event option list \<Rightarrow> (string \<times> string) list \<times> bool" where
  "signal_events [] = ([], False)"
| "signal_events (None # evs) = ([], True)"
| "signal_events (Some Disconnected # evs) = ([], True)"
| "signal_events (Some (IncomingConnection token relay_addr relay_port) # evs) =
     (let (vs, ended) = signal_events evs
      in ((''ws://'' @ relay_addr @ '':'' @ show_nat (unat relay_port), token) # vs, ended))"
| "signal_events (Some _ # evs) = signal_events evs"

datatype host_action = Serve string string | SleepFor u64

text \<open>The loop of \<open>run\<close> over the rounds that took place, each with its random draw; the attempt counter saturates.\<close>

fun host_signal_loop :: "u32 \<Rightarrow> (f64 \<times> signal_round) list \<Rightarrow> host_action list" where
  "host_signal_loop attempt [] = []"
| "host_signal_loop attempt ((rnd, ConnectFailed) # rounds) =
     SleepFor (signal_delay attempt rnd) # host_signal_loop (sat_add attempt 1) rounds"
| "host_signal_loop attempt ((rnd, Connected evs) # rounds) =
     (let (vs, ended) = signal_events evs in
      map (\<lambda>(url, token). Serve url token) vs @
      (if ended then SleepFor (signal_delay 0 rnd) # host_signal_loop (sat_add 0 1) rounds else []))"

section \<open>Admission of a viewer\<close>

definition host_features :: "build \<Rightarrow> hw_encoder list \<Rightarrow> (hw_encoder \<Rightarrow> video_codec \<Rightarrow> bool) \<Rightarrow> bool \<Rightarrow> features" where
  "host_features F probed opens loopback =
     \<lparr>ft_codecs = available_codecs F probed opens, ft_audio_codecs = [Opus], ft_hw_encode = has_hw_encode F probed opens,
      ft_hw_decode = False, ft_clipboard = True, ft_file_transfer = True, ft_audio = loopback, ft_multi_monitor = True\<rparr>"

text \<open>
  What the steps meet: the relay connects or not, the greeting arrives within 15 seconds or not, the answer can be sent, the
  audit log opens, the capturer starts and knows its displays (\<open>None\<close>: it does not start).
\<close>

record viewer_arrival =
  va_relay_ok :: bool
  va_request :: "recv option"
  va_send_ok :: bool
  va_eph_secret :: bytes
  va_session_id :: uuid
  va_now :: u64
  va_acl_io :: acl_io
  va_audit :: "audit_error + audit_log"
  va_displays :: "display_info list option"

record host_keys =
  hk_identity :: device_identity
  hk_require_confirm :: bool
  hk_agent_feature :: bool
  hk_features :: features

datatype viewer_end =
    RelayFailed
  | HandshakeTimedOut
  | HandshakeFailed handshake_error
  | NotAdmitted pair_error
  | AgentRefused
  | AuditUnavailable
  | CapturerFailed
  | SessionReady handshake_result permission "agent_session option" relay_transport "msg list"

text \<open>
  \<open>handle_viewer\<close> up to the start of the session: its end, and the list of trusted peers after it. The messages of \<open>SessionReady\<close> are
  sent over the encrypted channel first.
\<close>

definition handle_viewer ::
  "hs_ext \<Rightarrow> token_ext \<Rightarrow> acl_codec \<Rightarrow> (bytes \<Rightarrow> bytes) \<Rightarrow> host_keys \<Rightarrow> viewer_arrival \<Rightarrow> host_acl \<Rightarrow> viewer_end \<times> host_acl" where
  "handle_viewer X T J sha256 K V H =
     (if \<not> va_relay_ok V then (RelayFailed, H)
      else
        (case va_request V of
           None \<Rightarrow> (HandshakeTimedOut, H)
         | Some request \<Rightarrow>
             (case snd (host_handshake X (di_signing_key (hk_identity K)) (hk_features K) (va_eph_secret V) (va_session_id V) request (va_send_ok V)) of
                Inl e \<Rightarrow> (HandshakeFailed e, H)
              | Inr res \<Rightarrow>
                  (case admit_peer J (hx_b64 X) sha256 (hk_require_confirm K) (va_now V) (va_acl_io V) H (hr_peer_identity_pubkey res) of
                     (Inl e, H') \<Rightarrow> (NotAdmitted e, H')
                   | (Inr p, H') \<Rightarrow>
                       (case open_gate (hk_agent_feature K) T (va_audit V) (di_verifying_key (hk_identity K)) (va_now V) res of
                          SessionRefused \<Rightarrow> (AgentRefused, H')
                        | SessionError \<Rightarrow> (AuditUnavailable, H')
                        | SessionOpened agent \<Rightarrow>
                            (let relay = install_ciphers (hr_tx res) (hr_rx res) relay_new in
                             case va_displays V of
                               None \<Rightarrow> (CapturerFailed, H')
                             | Some ds \<Rightarrow> (SessionReady res p agent relay [MsgDisplayList ds], H')))))))"

section \<open>Properties\<close>

text \<open>
  A round ends with the stream or with a \<open>Disconnected\<close>; the viewers announced in it are those of the \<open>IncomingConnection\<close> events before
  that, each with the address and the token of its announcement.
\<close>

definition ends_round :: "signal_event option \<Rightarrow> bool" where
  "ends_round e \<longleftrightarrow> e = None \<or> e = Some Disconnected"

definition announcement :: "signal_event option \<Rightarrow> host_action option" where
  "announcement e = (case e of
       Some (IncomingConnection token addr port) \<Rightarrow> Some (Serve (''ws://'' @ addr @ '':'' @ show_nat (unat port)) token)
     | _ \<Rightarrow> None)"

definition announced_viewers :: "signal_round \<Rightarrow> host_action list" where
  "announced_viewers r = (case r of ConnectFailed \<Rightarrow> []
     | Connected evs \<Rightarrow> List.map_filter announcement (takeWhile (\<lambda>e. \<not> ends_round e) evs))"

definition round_ended :: "signal_round \<Rightarrow> bool" where
  "round_ended r = (case r of ConnectFailed \<Rightarrow> True | Connected evs \<Rightarrow> list_ex ends_round evs)"

lemma signal_events_spec:
  "map (\<lambda>(url, token). Serve url token) (fst (signal_events evs)) = announced_viewers (Connected evs)"
  "snd (signal_events evs) = round_ended (Connected evs)"
  by (induction evs rule: signal_events.induct)
    (auto simp: announced_viewers_def round_ended_def ends_round_def announcement_def List.map_filter_simps split: prod.splits)

definition is_serve :: "host_action \<Rightarrow> bool" where
  "is_serve a = (case a of Serve _ _ \<Rightarrow> True | SleepFor _ \<Rightarrow> False)"

lemma is_serve_simps [simp]: "is_serve (Serve url token)" "\<not> is_serve (SleepFor d)"
  by (simp_all add: is_serve_def)

lemma announced_serve: "filter is_serve (announced_viewers r) = announced_viewers r"
  by (cases r) (auto simp: announced_viewers_def signal_events_spec(1) [unfolded announced_viewers_def, simplified, symmetric] filter_id_conv)

lemma signal_delay_range: "2 \<le> unat (signal_delay attempt rnd) \<and> unat (signal_delay attempt rnd) \<le> 120"
proof -
  define t where "t = min (unat (120 :: u64)) (unat (5 :: u64) * 2 ^ unat attempt)"
  have range: "t div 2 \<le> unat (equal_jitter_secs attempt 5 120 rnd) \<and> unat (equal_jitter_secs attempt 5 120 rnd) \<le> t"
    by (rule jitter_in_range) (simp_all add: word_le_nat_alt t_def)
  have "5 \<le> t" "t \<le> 120" by (simp_all add: t_def)
  then have "2 \<le> t div 2" using div_le_mono [of 5 t 2] by simp
  with range \<open>t \<le> 120\<close> show ?thesis
    by (simp add: signal_delay_def SIGNAL_BACKOFF_BASE_SECS_def SIGNAL_BACKOFF_MAX_SECS_def)
qed

lemma host_signal_loop_Connected:
  "host_signal_loop attempt ((rnd, Connected evs) # rounds) =
     announced_viewers (Connected evs) @
     (if round_ended (Connected evs) then SleepFor (signal_delay 0 rnd) # host_signal_loop (sat_add 0 1) rounds else [])"
  using signal_events_spec [of evs] by (cases "signal_events evs") simp

lemma host_signal_loop_serves:
  assumes "list_all (\<lambda>(rnd, r). round_ended r) (butlast rounds)"
  shows "filter is_serve (host_signal_loop attempt rounds) = concat (map (announced_viewers \<circ> snd) rounds)"
  using assms
proof (induction rounds arbitrary: attempt)
  case (Cons x rounds)
  obtain rnd r where x: "x = (rnd, r)" by (cases x)
  have rest: "list_all (\<lambda>(rnd, r). round_ended r) (butlast rounds)" "rounds \<noteq> [] \<Longrightarrow> round_ended r"
    using Cons.prems by (auto simp: x split: if_splits)
  show ?case
  proof (cases r)
    case ConnectFailed
    then show ?thesis using Cons.IH [OF rest(1)] by (simp add: x announced_viewers_def)
  next
    case (Connected evs)
    then show ?thesis
      using Cons.IH [OF rest(1)] rest(2) announced_serve [of r]
      by (cases "rounds = []") (simp_all add: x host_signal_loop_Connected del: host_signal_loop.simps(3))
  qed
qed simp

lemma host_signal_loop_sleeps: "SleepFor s \<in> set (host_signal_loop attempt rounds) \<Longrightarrow> 2 \<le> unat s \<and> unat s \<le> 120"
  by (induction attempt rounds rule: host_signal_loop.induct) (auto simp: signal_delay_range split: prod.splits if_splits)

text \<open>
  C36. A host stays reachable: through any number of failed connections, lost streams and reconnections it serves every viewer that
  was announced before its round ended, once and in order, at the announced relay address and with the announced token, and no other; and between two
  attempts it waits at least two seconds and at most two minutes, however long the outage lasts. Every round but the last has ended; the last may still be running.\<close>

theorem host_keeps_serving:
  assumes "list_all (\<lambda>(rnd, r). round_ended r) (butlast rounds)"
  shows "filter is_serve (host_signal_loop 0 rounds) = concat (map (announced_viewers \<circ> snd) rounds) \<and>
    (\<forall>s. SleepFor s \<in> set (host_signal_loop 0 rounds) \<longrightarrow> 2 \<le> unat s \<and> unat s \<le> 120)"
  using host_signal_loop_serves [OF assms] host_signal_loop_sleeps by blast

lemma handle_viewer_Ready:
  assumes "handle_viewer X T J sha256 K V H = (SessionReady res p agent relay ms, H')"
  obtains request where "va_request V = Some request"
    "snd (host_handshake X (di_signing_key (hk_identity K)) (hk_features K) (va_eph_secret V) (va_session_id V) request (va_send_ok V)) = Ok res"
    "admit_peer J (hx_b64 X) sha256 (hk_require_confirm K) (va_now V) (va_acl_io V) H (hr_peer_identity_pubkey res) = (Ok p, H')"
    "open_gate (hk_agent_feature K) T (va_audit V) (di_verifying_key (hk_identity K)) (va_now V) res = SessionOpened agent"
    "relay = install_ciphers (hr_tx res) (hr_rx res) relay_new"
  using assms
  by (auto simp: handle_viewer_def Let_def split: if_splits option.splits sum.splits prod.splits session_admission.splits)

lemma host_handshake_signed:
  assumes "snd (host_handshake X identity fts eph_secret sid request send_ok) = Ok res"
  shows "\<exists>h eph sig. request = Inr (Some (MsgHello h)) \<and>
    parse_pubkey_field (hx_b64 X) (he_pubkey h) = Ok (eph, hr_peer_identity_pubkey res, sig) \<and>
    ed_verify_strict (hx_ed X) (hr_peer_identity_pubkey res) (challenge eph (hr_peer_identity_pubkey res)) sig"
proof -
  obtain h ack where h: "request = Inr (Some (MsgHello h))" "host_accept X identity fts eph_secret sid h = Ok (ack, res)"
    using assms by (auto simp: host_handshake_def split: sum.splits option.splits msg.splits if_splits prod.splits)
  from host_accept_Ok [OF h(2)] obtain eph where eph: "verify_field X (he_pubkey h) = Ok (eph, hr_peer_identity_pubkey res)" .
  from verify_field_Ok [OF eph] h(1) show ?thesis by blast
qed

text \<open>
  C33. No session starts without admission: when a session is set up, the peer has signed its greeting with the key it is known by, the
  permission of the session is the one the list of trusted peers now holds for that key, a peer in the role of an agent has a gate whose token the host
  itself issued and which is still valid, any other peer has no gate, and everything that follows goes through the ciphers of this
  handshake.\<close>

theorem viewer_admission_sound:
  assumes "handle_viewer X T J sha256 K V H = (SessionReady res p agent relay ms, H')"
  shows "(\<exists>h eph sig. va_request V = Some (Inr (Some (MsgHello h))) \<and>
      parse_pubkey_field (hx_b64 X) (he_pubkey h) = Ok (eph, hr_peer_identity_pubkey res, sig) \<and>
      ed_verify_strict (hx_ed X) (hr_peer_identity_pubkey res) (challenge eph (hr_peer_identity_pubkey res)) sig) \<and>
    map_option tp_permission (ha_acl H' (b64_encode (hx_b64 X) (hr_peer_identity_pubkey res))) = Some p \<and>
    (agent = None \<longleftrightarrow> hr_peer_role res \<noteq> AiAgent) \<and>
    (\<forall>A. agent = Some A \<longrightarrow> (\<exists>s. parse_and_verify T s (di_verifying_key (hk_identity K)) (va_now V) = Ok (ag_token A))) \<and>
    rt_tx_cipher relay = Some (hr_tx res) \<and> rt_rx_cipher relay = Some (hr_rx res)"
proof -
  from assms obtain request where req: "va_request V = Some request"
      and hs: "snd (host_handshake X (di_signing_key (hk_identity K)) (hk_features K) (va_eph_secret V) (va_session_id V) request (va_send_ok V)) = Ok res"
      and acl: "admit_peer J (hx_b64 X) sha256 (hk_require_confirm K) (va_now V) (va_acl_io V) H (hr_peer_identity_pubkey res) = (Ok p, H')"
      and gate: "open_gate (hk_agent_feature K) T (va_audit V) (di_verifying_key (hk_identity K)) (va_now V) res = SessionOpened agent"
      and relay: "relay = install_ciphers (hr_tx res) (hr_rx res) relay_new"
    by (rule handle_viewer_Ready)
  have "map_option tp_permission (ha_acl H' (b64_encode (hx_b64 X) (hr_peer_identity_pubkey res))) = Some p"
    using acl unfolding admit_peer_def Let_def
    by (cases rule: check_or_pair_cases [where H = H and d = "b64_encode (hx_b64 X) (hr_peer_identity_pubkey res)" and B = "hx_b64 X" and
        pk = "hr_peer_identity_pubkey res" and J = J and sha = sha256 and strict = "hk_require_confirm K" and now = "va_now V" and io = "va_acl_io V"])
      auto
  moreover have "(agent = None \<longleftrightarrow> hr_peer_role res \<noteq> AiAgent) \<and>
      (\<forall>A. agent = Some A \<longrightarrow> (\<exists>s. parse_and_verify T s (di_verifying_key (hk_identity K)) (va_now V) = Ok (ag_token A)))"
    using gate by (auto simp: open_gate_def agent_open_def open_with_revocation_def split: if_splits option.splits sum.splits)
  ultimately show ?thesis using host_handshake_signed [OF hs] req relay by (auto simp: install_ciphers_def)
qed

text \<open>
  The list of trusted peers is changed before the token of an agent is looked at, and the role is what the peer says: a new peer that is turned away
  as an agent has been entered with control, so when it comes back in another role it is served without a gate.\<close>

lemma refused_agent_paired:
  assumes "handle_viewer X T J sha256 K V H = (AgentRefused, H')"
    and "snd (host_handshake X (di_signing_key (hk_identity K)) (hk_features K) (va_eph_secret V) (va_session_id V) request (va_send_ok V)) = Ok res"
    and "va_request V = Some request" "ha_acl H (b64_encode (hx_b64 X) (hr_peer_identity_pubkey res)) = None"
  shows "map_option tp_permission (ha_acl H' (b64_encode (hx_b64 X) (hr_peer_identity_pubkey res))) = Some Control"
proof -
  have "\<exists>p. admit_peer J (hx_b64 X) sha256 (hk_require_confirm K) (va_now V) (va_acl_io V) H (hr_peer_identity_pubkey res) = (Ok p, H')"
    using assms(1-3) by (auto simp: handle_viewer_def Let_def split: if_splits sum.splits prod.splits session_admission.splits option.splits)
  then show ?thesis
    using assms(4) by (auto simp: admit_peer_def check_or_pair_def acl_check_def acl_trust_def Let_def split: if_splits)
qed

section \<open>Witnesses\<close>

definition wit_rounds :: "(f64 \<times> signal_round) list" where
  "wit_rounds = [(0, ConnectFailed), (0, Connected [Some (IncomingConnection ''t1'' ''r'' 7), Some Disconnected]),
     (0, Connected [Some (IncomingConnection ''t2'' ''r'' 7), None])]"

theorem host_keeps_serving_witness:
  "filter is_serve (host_signal_loop 0 wit_rounds) = [Serve ''ws://r:7'' ''t1'', Serve ''ws://r:7'' ''t2'']"
proof -
  have seven: "show_nat 7 = ''7''" by code_simp
  have "list_all (\<lambda>(rnd, r). round_ended r) (butlast wit_rounds)" by (simp add: wit_rounds_def round_ended_def ends_round_def)
  from host_keeps_serving [OF this] show ?thesis
    by (simp add: wit_rounds_def announced_viewers_def ends_round_def announcement_def List.map_filter_simps seven)
qed

definition wit_keys :: host_keys where
  "wit_keys = \<lparr>hk_identity = \<lparr>di_signing_key = [1], di_verifying_key = pad_to 32 [1]\<rparr>, hk_require_confirm = False,
     hk_agent_feature = True, hk_features = wit_features\<rparr>"

definition wit_arrival :: viewer_arrival where
  "wit_arrival = \<lparr>va_relay_ok = True, va_request = Some (Inr (Some (MsgHello (viewer_hello demo_hs_ext [3] [4] wit_features)))),
     va_send_ok = True, va_eph_secret = [2], va_session_id = 7, va_now = 100, va_acl_io = AclDone, va_audit = Inl IoError, va_displays = Some []\<rparr>"

definition wit_empty_acl :: host_acl where
  "wit_empty_acl = \<lparr>ha_acl = Map.empty, ha_files = \<lparr>af_main = None, af_tmp = None, af_bak = None\<rparr>\<rparr>"

theorem viewer_admission_sound_witness:
  "\<exists>res p agent relay ms H'.
     handle_viewer demo_hs_ext (demo_token_ext wit_payload) wit_acl_codec id wit_keys wit_arrival wit_empty_acl = (SessionReady res p agent relay ms, H') \<and>
     map_option tp_permission (ha_acl H' (b64_encode (hx_b64 demo_hs_ext) (hr_peer_identity_pubkey res))) = Some p \<and>
     rt_tx_cipher relay = Some (hr_tx res)"
proof -
  obtain sent res where r: "host_handshake demo_hs_ext [1] wit_features [2] 7
      (Inr (Some (MsgHello (viewer_hello demo_hs_ext [3] [4] wit_features)))) True = (sent, Ok res)"
    using wit_host_accepts by blast
  have role: "hr_peer_role res \<noteq> AiAgent"
    using r by (auto simp: host_handshake_def viewer_hello_def split: if_splits sum.splits prod.splits elim!: host_accept_Ok)
  obtain p H' where acl: "admit_peer wit_acl_codec (hx_b64 demo_hs_ext) id False 100 AclDone wit_empty_acl (hr_peer_identity_pubkey res) = (Ok p, H')"
    by (simp add: admit_peer_def check_or_pair_def acl_check_def wit_empty_acl_def Let_def)
  have "handle_viewer demo_hs_ext (demo_token_ext wit_payload) wit_acl_codec id wit_keys wit_arrival wit_empty_acl =
      (SessionReady res p None (install_ciphers (hr_tx res) (hr_rx res) relay_new) [MsgDisplayList []], H')"
    by (simp add: handle_viewer_def wit_keys_def wit_arrival_def r acl open_gate_def role)
  note ready = this
  from viewer_admission_sound [OF ready] ready show ?thesis by blast
qed

end
