(* ===== verification/Audio.thy ===== *)
theory Audio
  imports Frames "HOL-Library.Signed_Division" "HOL-Library.Sublist"
begin

text \<open>
  Sound (\<open>miru-audio/src/lib.rs\<close>, \<open>playback.rs\<close>, \<open>capture.rs\<close> and \<open>miru-host/src/audio_loop.rs\<close>): the encoder cuts samples into frames of 20 ms
  and packs the channel pairs of a surround layout behind each other, the decoder takes them apart, and the player
  fills the buffers of the sound device. The Opus codec is a parameter with states of types \<open>'e\<close> and \<open>'d\<close>.
\<close>

section \<open>Layouts and codec\<close>

definition FRAME_SIZE :: nat where
  "FRAME_SIZE = 960"

definition SAMPLE_RATE :: u32 where
  "SAMPLE_RATE = 48000"

datatype layout = Mono | Stereo | Surround51 | Surround71

fun layout_channels :: "layout \<Rightarrow> u8" where
  "layout_channels Mono = 1"
| "layout_channels Stereo = 2"
| "layout_channels Surround51 = 6"
| "layout_channels Surround71 = 8"

definition from_channels :: "u8 \<Rightarrow> layout option" where
  "from_channels n =
     (if n = 1 then Some Mono else if n = 2 then Some Stereo else if n = 6 then Some Surround51
      else if n = 8 then Some Surround71 else None)"

text \<open>
  \<open>op_new_encoder\<close> and \<open>op_new_decoder\<close> take whether the stream is stereo (and the bit rate); encoding gives at most
  the 1500 bytes of the buffer, decoding the samples that were written.
\<close>

record ('e, 'd) opus =
  op_new_encoder :: "bool \<Rightarrow> int \<Rightarrow> 'e option"
  op_new_decoder :: "bool \<Rightarrow> 'd option"
  op_encode :: "'e \<Rightarrow> f32 list \<Rightarrow> bytes option \<times> 'e"
  op_decode :: "'d \<Rightarrow> bytes \<Rightarrow> f32 list option \<times> 'd"

definition packets_fit :: "('e, 'd) opus \<Rightarrow> bool" where
  "packets_fit C \<longleftrightarrow> (\<forall>e xs b e'. op_encode C e xs = (Some b, e') \<longrightarrow> length b \<le> 1500)"

section \<open>Encoder\<close>

record 'e audio_encoder =
  an_encoders :: "'e list"
  an_layout :: layout
  an_buffer :: "f32 list"
  an_seq :: u64

text \<open>The loop over \<open>remaining\<close>: a stereo stream for each pair, a mono stream for a single channel. The products wrap in \<open>i32\<close>.\<close>

fun new_encoders :: "('e, 'd) opus \<Rightarrow> u32 \<Rightarrow> nat \<Rightarrow> nat \<Rightarrow> 'e list option" where
  "new_encoders C kbps n 0 = Some []"
| "new_encoders C kbps n (Suc 0) = map_option (\<lambda>e. [e]) (op_new_encoder C False (sint (kbps * 1000)))"
| "new_encoders C kbps n (Suc (Suc r)) =
     Option.bind (op_new_encoder C True (sint (kbps * 1000) sdiv int (n div 2)))
       (\<lambda>e. map_option (Cons e) (new_encoders C kbps n r))"

definition audio_encoder_new :: "('e, 'd) opus \<Rightarrow> layout \<Rightarrow> u32 \<Rightarrow> 'e audio_encoder option" where
  "audio_encoder_new C lay kbps =
     (let n = unat (layout_channels lay) in
      map_option (\<lambda>es. \<lparr>an_encoders = es, an_layout = lay, an_buffer = [], an_seq = 0\<rparr>) (new_encoders C kbps n n))"

text \<open>The samples of the channels \<open>p\<close> and \<open>p + 1\<close> of a chunk with \<open>n\<close> interleaved channels.\<close>

definition pair_samples :: "nat \<Rightarrow> f32 list \<Rightarrow> nat \<Rightarrow> f32 list" where
  "pair_samples n chunk p = concat (map (\<lambda>s. [chunk ! (s * n + p), chunk ! (s * n + p + 1)]) [0..<FRAME_SIZE])"

fun encode_pairs :: "('e, 'd) opus \<Rightarrow> nat \<Rightarrow> f32 list \<Rightarrow> nat \<Rightarrow> 'e list \<Rightarrow> bytes option \<times> 'e list" where
  "encode_pairs C n chunk k [] = (Some [], [])"
| "encode_pairs C n chunk k (e # es) =
     (if n \<le> k * 2 + 1 then (Some [], e # es)
      else
        (case op_encode C e (pair_samples n chunk (k * 2)) of
           (None, e') \<Rightarrow> (None, e' # es)
         | (Some b, e') \<Rightarrow>
             (case encode_pairs C n chunk (k + 1) es of
                (None, es') \<Rightarrow> (None, e' # es')
              | (Some rest, es') \<Rightarrow> (Some (le_bytes 2 (length b) @ b @ rest), e' # es'))))"

definition encode_chunk :: "('e, 'd) opus \<Rightarrow> layout \<Rightarrow> f32 list \<Rightarrow> 'e list \<Rightarrow> bytes option \<times> 'e list" where
  "encode_chunk C lay chunk es =
     (if lay = Mono \<or> lay = Stereo then
        (case es of
           [] \<Rightarrow> (None, [])
         | e # rest \<Rightarrow> (case op_encode C e chunk of (r, e') \<Rightarrow> (r, e' # rest)))
      else encode_pairs C (unat (layout_channels lay)) chunk 0 es)"

definition make_frame :: "layout \<Rightarrow> u64 \<Rightarrow> u64 \<Rightarrow> bytes \<Rightarrow> audio_frame" where
  "make_frame lay sq ts data =
     \<lparr>af_seq = sq, af_codec = Opus, af_data = data, af_sample_rate = SAMPLE_RATE,
      af_channels = layout_channels lay, af_timestamp_ms = ts\<rparr>"

text \<open>
  The loop of \<open>encode\<close>; \<open>clock\<close> gives the time at which the frame with a number is made. An error of the codec returns
  at once: the chunk and the frames made so far are lost (\<open>Inl\<close>).
\<close>

definition frame_samples :: "layout \<Rightarrow> nat" where
  "frame_samples lay = FRAME_SIZE * unat (layout_channels lay)"

lemma frame_samples_pos [simp]: "0 < frame_samples lay"
  by (cases lay) (simp_all add: frame_samples_def FRAME_SIZE_def)

function encode_loop :: "('e, 'd) opus \<Rightarrow> (u64 \<Rightarrow> u64) \<Rightarrow> 'e audio_encoder \<Rightarrow> (unit + audio_frame list) \<times> 'e audio_encoder" where
  "encode_loop C clock A =
     (if length (an_buffer A) < frame_samples (an_layout A) then (Ok [], A)
      else
        (let chunk = take (frame_samples (an_layout A)) (an_buffer A);
             A1 = A\<lparr>an_buffer := drop (frame_samples (an_layout A)) (an_buffer A)\<rparr>
         in case encode_chunk C (an_layout A) chunk (an_encoders A) of
              (None, es) \<Rightarrow> (Err (), A1\<lparr>an_encoders := es\<rparr>)
            | (Some data, es) \<Rightarrow>
                (let sq = an_seq A + 1;
                     f = make_frame (an_layout A) sq (clock sq) data
                 in case encode_loop C clock (A1\<lparr>an_encoders := es, an_seq := sq\<rparr>) of
                      (Inl e, A2) \<Rightarrow> (Err e, A2)
                    | (Inr fs, A2) \<Rightarrow> (Ok (f # fs), A2))))"
  by pat_completeness auto
termination
  by (relation "measure (\<lambda>(C, clock, A). length (an_buffer A))")
    (auto simp: not_less intro!: diff_less dest: order.strict_trans2 [OF frame_samples_pos])

declare encode_loop.simps [simp del]

definition audio_encode :: "('e, 'd) opus \<Rightarrow> (u64 \<Rightarrow> u64) \<Rightarrow> 'e audio_encoder \<Rightarrow> f32 list \<Rightarrow> (unit + audio_frame list) \<times> 'e audio_encoder" where
  "audio_encode C clock A samples = encode_loop C clock (A\<lparr>an_buffer := an_buffer A @ samples\<rparr>)"

section \<open>Decoder\<close>

fun new_decoders :: "('e, 'd) opus \<Rightarrow> nat \<Rightarrow> 'd list option" where
  "new_decoders C 0 = Some []"
| "new_decoders C (Suc 0) = map_option (\<lambda>d. [d]) (op_new_decoder C False)"
| "new_decoders C (Suc (Suc r)) = Option.bind (op_new_decoder C True) (\<lambda>d. map_option (Cons d) (new_decoders C r))"

text \<open>The pairs of a surround frame; the output of a pair is a buffer of zeros that the codec writes to.\<close>

definition pair_buffer :: "f32 list \<Rightarrow> f32 list" where
  "pair_buffer xs = take (FRAME_SIZE * 2) (xs @ replicate (FRAME_SIZE * 2) 0)"

datatype decode_error = MalformedAudio | OpusFailed

fun decode_pairs :: "('e, 'd) opus \<Rightarrow> 'd list \<Rightarrow> bytes \<Rightarrow> (decode_error + f32 list list) \<times> 'd list" where
  "decode_pairs C [] data = (Ok [], [])"
| "decode_pairs C (d # ds) data =
     (if length data < 2 then (Ok [], d # ds)
      else
        (let len = from_le (take 2 data); rest = drop 2 data in
         if length rest < len then (Err MalformedAudio, d # ds)
         else
           (case op_decode C d (take len rest) of
              (None, d') \<Rightarrow> (Err OpusFailed, d' # ds)
            | (Some xs, d') \<Rightarrow>
                (case decode_pairs C ds (drop len rest) of
                   (Inl e, ds') \<Rightarrow> (Err e, d' # ds')
                 | (Inr ps, ds') \<Rightarrow> (Ok (pair_buffer xs # ps), d' # ds')))))"

text \<open>Channel \<open>2 * k\<close> and \<open>2 * k + 1\<close> of the output come from pair \<open>k\<close>; a channel without a pair stays silent.\<close>

definition interleave :: "nat \<Rightarrow> f32 list list \<Rightarrow> f32 list" where
  "interleave n pairs =
     concat (map (\<lambda>s. map (\<lambda>c. if c div 2 < length pairs then pairs ! (c div 2) ! (s * 2 + c mod 2) else 0) [0..<n]) [0..<FRAME_SIZE])"

definition audio_decode :: "('e, 'd) opus \<Rightarrow> layout \<Rightarrow> 'd list \<Rightarrow> audio_frame \<Rightarrow> (decode_error + f32 list) \<times> 'd list" where
  "audio_decode C lay ds f =
     (if lay = Mono \<or> lay = Stereo then
        (case ds of
           [] \<Rightarrow> (Err OpusFailed, [])
         | d # rest \<Rightarrow>
             (case op_decode C d (af_data f) of
                (None, d') \<Rightarrow> (Err OpusFailed, d' # rest)
              | (Some xs, d') \<Rightarrow> (Ok (take (frame_samples lay) xs), d' # rest)))
      else
        (case decode_pairs C ds (af_data f) of
           (Inl e, ds') \<Rightarrow> (Err e, ds')
         | (Inr pairs, ds') \<Rightarrow> (Ok (interleave (unat (layout_channels lay)) pairs), ds')))"

section \<open>Player\<close>

text \<open>The queue between the session and the sound device holds eight blocks; a block that does not fit is dropped.\<close>

definition PLAY_QUEUE :: nat where
  "PLAY_QUEUE = 8"

definition play_push :: "f32 list list \<Rightarrow> f32 list \<Rightarrow> f32 list list" where
  "play_push q samples = (if length q < PLAY_QUEUE then q @ [samples] else q)"

text \<open>The callback of the device: it fills a buffer of \<open>need\<close> samples from the rest of the last block and the queue, then with silence.\<close>

function play_fill :: "nat \<Rightarrow> f32 list \<Rightarrow> f32 list list \<Rightarrow> f32 list \<times> f32 list \<times> f32 list list" where
  "play_fill need leftover q =
     (if need = 0 then ([], leftover, q)
      else if leftover = [] then
        (case q of
           [] \<Rightarrow> (replicate need 0, [], [])
         | samples # q' \<Rightarrow> play_fill need samples q')
      else
        (let n = min need (length leftover);
             (out, l', q') = play_fill (need - n) (drop n leftover) q
         in (take n leftover @ out, l', q')))"
  by pat_completeness auto
termination
  by (relation "measure (\<lambda>(need, leftover, q). need + length q)") (auto simp: min_def)

declare play_fill.simps [simp del]

section \<open>Capture\<close>

text \<open>
  \<open>find_loopback_device\<close> on the names of the input devices (\<open>None\<close>: the name cannot be read); \<open>lower\<close> is Unicode lower case.
\<close>

definition find_loopback_device :: "(string \<Rightarrow> string) \<Rightarrow> string option list \<Rightarrow> string option" where
  "find_loopback_device lower devices =
     (case filter (\<lambda>d. case d of None \<Rightarrow> False | Some nm \<Rightarrow> sublist ''monitor'' (lower nm) \<or> sublist ''loopback'' (lower nm)) devices of
        Some nm # _ \<Rightarrow> Some nm
      | _ \<Rightarrow> None)"

text \<open>
  The encoding thread: it takes blocks of samples, and tries to send each frame. The channel to the session has room for eight
  messages; a frame that does not fit is dropped, and a closed channel ends the thread (\<open>None\<close>).
\<close>

definition AUDIO_QUEUE :: nat where
  "AUDIO_QUEUE = 8"

definition audio_try_send :: "bool \<Rightarrow> audio_frame list \<Rightarrow> msg list \<Rightarrow> msg list option" where
  "audio_try_send gone fs q = (if gone \<and> fs \<noteq> [] then None else Some (q @ take (AUDIO_QUEUE - length q) (map MsgAudioFrame fs)))"

definition audio_loop_turn ::
  "('e, 'd) opus \<Rightarrow> (u64 \<Rightarrow> u64) \<Rightarrow> bool \<Rightarrow> f32 list \<Rightarrow> 'e audio_encoder \<times> msg list \<Rightarrow> ('e audio_encoder \<times> msg list) option" where
  "audio_loop_turn C clock gone block st =
     (case st of (A, q) \<Rightarrow>
        (case audio_encode C clock A block of
           (Inl _, A') \<Rightarrow> Some (A', q)
         | (Inr fs, A') \<Rightarrow> map_option (\<lambda>q'. (A', q')) (audio_try_send gone fs q)))"

section \<open>Lemmas\<close>

lemma pair_samples_map: "pair_samples n chunk p = map (\<lambda>i. chunk ! (i div 2 * n + p + i mod 2)) [0..<FRAME_SIZE * 2]"
  using concat_rows [of "\<lambda>s c. chunk ! (s * n + p + c)" 2 FRAME_SIZE]
  by (simp add: pair_samples_def numeral_2_eq_2)

lemma pair_samples_nth:
  assumes "s < FRAME_SIZE" "c < 2"
  shows "pair_samples n chunk p ! (s * 2 + c) = chunk ! (s * n + p + c)"
proof -
  have "s * 2 + c < FRAME_SIZE * 2" "(s * 2 + c) div 2 = s" "(s * 2 + c) mod 2 = c" using assms by auto
  then show ?thesis by (simp add: pair_samples_map)
qed

lemma interleave_map:
  "interleave n pairs =
     map (\<lambda>i. if i mod n div 2 < length pairs then pairs ! (i mod n div 2) ! (i div n * 2 + i mod n mod 2) else 0) [0..<FRAME_SIZE * n]"
  unfolding interleave_def
  by (rule concat_rows [of "\<lambda>s c. if c div 2 < length pairs then pairs ! (c div 2) ! (s * 2 + c mod 2) else 0"])

text \<open>Taking a chunk apart into pairs and putting the pairs together gives the chunk back.\<close>

lemma interleave_pairs:
  assumes "length chunk = FRAME_SIZE * n" "even n"
  shows "interleave n (map (\<lambda>k. pair_samples n chunk (k * 2)) [0..<n div 2]) = chunk"
proof (rule nth_equalityI)
  let ?ps = "map (\<lambda>k. pair_samples n chunk (k * 2)) [0..<n div 2]"
  show "length (interleave n ?ps) = length chunk" by (simp add: interleave_map assms(1))
  fix i assume "i < length (interleave n ?ps)"
  then have i: "i < FRAME_SIZE * n" by (simp add: interleave_map)
  then have n: "0 < n" by (cases n) auto
  have c: "i mod n div 2 < n div 2" using n assms(2) by (metis even_two_times_div_two less_mult_imp_div_less mod_less_divisor mult.commute)
  have s: "i div n < FRAME_SIZE" using i by (simp add: less_mult_imp_div_less)
  have "interleave n ?ps ! i = pair_samples n chunk (i mod n div 2 * 2) ! (i div n * 2 + i mod n mod 2)"
    using i n c by (simp add: interleave_map)
  also have "\<dots> = chunk ! (i div n * n + i mod n div 2 * 2 + i mod n mod 2)"
    by (rule pair_samples_nth [OF s]) simp
  also have "\<dots> = chunk ! i" by (simp add: add.assoc)
  finally show "interleave n ?ps ! i = chunk ! i" .
qed

text \<open>Each pair as if it had a stream of its own.\<close>

fun separate_streams :: "('e, 'd) opus \<Rightarrow> 'e list \<Rightarrow> 'd list \<Rightarrow> f32 list list \<Rightarrow> decode_error + f32 list list" where
  "separate_streams C (e # es) (d # ds) (p # ps) =
     (case op_encode C e p of
        (None, _) \<Rightarrow> Err OpusFailed
      | (Some b, _) \<Rightarrow>
          (case op_decode C d b of
             (None, _) \<Rightarrow> Err OpusFailed
           | (Some xs, _) \<Rightarrow> map_sum id (Cons (pair_buffer xs)) (separate_streams C es ds ps)))"
| "separate_streams C _ _ _ = Ok []"

lemma decode_encode_pairs:
  assumes "packets_fit C" "even n" "length ds = length es" "k + length es = n div 2"
    and "encode_pairs C n chunk k es = (Some data, es')"
  shows "fst (decode_pairs C ds data) = separate_streams C es ds (map (\<lambda>j. pair_samples n chunk (j * 2)) [k..<n div 2])"
  using assms(3-5)
proof (induction es arbitrary: ds k data es')
  case Nil
  then show ?case by simp
next
  case (Cons e es)
  then obtain d ds' where ds: "ds = d # ds'" "length ds' = length es" by (cases ds) auto
  have k: "k < n div 2" "\<not> n \<le> k * 2 + 1" using Cons.prems(2) assms(2) by (auto elim: evenE)
  obtain b e1 rest es1 where b: "op_encode C e (pair_samples n chunk (k * 2)) = (Some b, e1)"
      and rest: "encode_pairs C n chunk (k + 1) es = (Some rest, es1)" and data: "data = le_bytes 2 (length b) @ b @ rest"
    using Cons.prems(3) k(2) by (auto split: prod.splits option.splits)
  have "length b \<le> 1500" using assms(1) b unfolding packets_fit_def by blast
  then have len: "from_le (take 2 data) = length b" unfolding data by (simp add: from_le_bytes)
  have IH: "fst (decode_pairs C ds' rest) = separate_streams C es ds' (map (\<lambda>j. pair_samples n chunk (j * 2)) [Suc k..<n div 2])"
    using Cons.IH [of ds' "k + 1" rest es1] Cons.prems(2) ds(2) rest by simp
  have drop: "drop 2 data = b @ rest" "\<not> length data < 2" unfolding data by simp_all
  have step: "decode_pairs C ds data =
      (case op_decode C d b of
         (None, d') \<Rightarrow> (Err OpusFailed, d' # ds')
       | (Some xs, d') \<Rightarrow>
           (case decode_pairs C ds' rest of
              (Inl e, ds2) \<Rightarrow> (Err e, d' # ds2)
            | (Inr ps, ds2) \<Rightarrow> (Ok (pair_buffer xs # ps), d' # ds2)))"
    using len drop by (simp add: ds(1) split: prod.split option.split)
  show ?case
  proof (cases "decode_pairs C ds' rest")
    case (Pair r ds2)
    then have r: "separate_streams C es ds' (map (\<lambda>j. pair_samples n chunk (j * 2)) [Suc k..<n div 2]) = r" using IH by simp
    obtain xs d1 where dec: "op_decode C d b = (xs, d1)" by (cases "op_decode C d b") auto
    show ?thesis unfolding step unfolding ds(1) upt_conv_Cons [OF k(1)] list.map separate_streams.simps(1) b dec Pair
      by (cases r; cases xs) (simp_all add: dec r)
  qed
qed

section \<open>Properties\<close>

text \<open>
  C34. Surround sound keeps its channels: decoding a frame gives, for every codec whose packets fit its buffer, exactly what each pair of
  channels gives when it is sent through a stream of its own, at the places of the pair; and the pairs of a chunk, put together at those places, are the
  chunk. So no channel is lost, swapped or shifted by the packing, and a codec failure of one pair is reported.\<close>

theorem surround_channels_kept:
  assumes "packets_fit C" "lay = Surround51 \<or> lay = Surround71" "n = unat (layout_channels lay)"
    and "length chunk = frame_samples lay" "length es = n div 2" "length ds = n div 2"
    and "encode_chunk C lay chunk es = (Some data, es')"
    and "pairs = map (\<lambda>k. pair_samples n chunk (k * 2)) [0..<n div 2]"
  shows "fst (audio_decode C lay ds (make_frame lay sq ts data)) = map_sum id (interleave n) (separate_streams C es ds pairs) \<and>
    interleave n pairs = chunk"
proof -
  have n: "even n" "\<not> (lay = Mono \<or> lay = Stereo)" using assms(2,3) by auto
  have "encode_pairs C n chunk 0 es = (Some data, es')" using assms(3,7) n(2) by (simp add: encode_chunk_def)
  then have "fst (decode_pairs C ds data) = separate_streams C es ds pairs"
    using decode_encode_pairs [OF assms(1) n(1), of ds es 0] assms(5,6,8) by simp
  then have "fst (audio_decode C lay ds (make_frame lay sq ts data)) = map_sum id (interleave n) (separate_streams C es ds pairs)"
    using n(2) assms(3) by (cases "decode_pairs C ds data") (auto simp: audio_decode_def make_frame_def split: sum.split)
  moreover have "interleave n pairs = chunk"
    using interleave_pairs [of chunk n] assms(3,4,8) n(1) by (simp add: frame_samples_def)
  ultimately show ?thesis by blast
qed

lemma encode_loop_spec:
  assumes "encode_loop C clock A = (Ok fs, A')"
  shows "length fs = length (an_buffer A) div frame_samples (an_layout A) \<and>
    an_buffer A' = drop (length fs * frame_samples (an_layout A)) (an_buffer A) \<and> an_layout A' = an_layout A \<and>
    map af_seq fs = map (\<lambda>i. an_seq A + word_of_nat (Suc i)) [0..<length fs] \<and> an_seq A' = an_seq A + word_of_nat (length fs)"
  using assms
proof (induction C clock A arbitrary: fs A' rule: encode_loop.induct)
  case (1 C clock A)
  let ?w = "frame_samples (an_layout A)"
  show ?case
  proof (cases "length (an_buffer A) < ?w")
    case True
    then show ?thesis using 1(2) by (simp add: encode_loop.simps [of C clock A])
  next
    case False
    obtain data es where e: "encode_chunk C (an_layout A) (take ?w (an_buffer A)) (an_encoders A) = (Some data, es)"
      using 1(2) False by (simp add: encode_loop.simps [of C clock A] Let_def split: prod.splits option.splits)
    let ?A1 = "A\<lparr>an_buffer := drop ?w (an_buffer A), an_encoders := es, an_seq := an_seq A + 1\<rparr>"
    obtain fs1 where rest: "encode_loop C clock ?A1 = (Ok fs1, A')"
        and fs: "fs = make_frame (an_layout A) (an_seq A + 1) (clock (an_seq A + 1)) data # fs1"
      using 1(2) False e by (auto simp: encode_loop.simps [of C clock A] Let_def split: prod.splits sum.splits)
    note IH = 1(1) [OF False refl refl e [symmetric] refl refl refl, of fs1 A']
    have div: "length (an_buffer A) div ?w = Suc ((length (an_buffer A) - ?w) div ?w)"
      using False le_div_geq [OF frame_samples_pos, of "an_layout A" "length (an_buffer A)"] by simp
    show ?thesis using IH rest
      by (simp add: fs div make_frame_def upt_conv_Cons map_Suc_upt [symmetric] comp_def del: upt_Suc) (simp add: ac_simps)
  qed
qed

text \<open>
  The encoder loses no samples while the codec works: a call makes as many frames as the buffered and the new samples fill, numbered on
  from the last frame, and keeps exactly the samples that do not fill a frame, fewer than one frame of them.\<close>

theorem encoder_cuts_frames:
  assumes "audio_encode C clock A samples = (Ok fs, A')"
  shows "length fs = (length (an_buffer A) + length samples) div frame_samples (an_layout A) \<and>
    an_buffer A' = drop (length fs * frame_samples (an_layout A)) (an_buffer A @ samples) \<and>
    length (an_buffer A') < frame_samples (an_layout A) \<and>
    map af_seq fs = map (\<lambda>i. an_seq A + word_of_nat (Suc i)) [0..<length fs]"
proof -
  note spec = encode_loop_spec [OF assms [unfolded audio_encode_def]]
  then have "an_buffer A' = drop (length fs * frame_samples (an_layout A)) (an_buffer A @ samples)"
    "length fs = (length (an_buffer A) + length samples) div frame_samples (an_layout A)" by (simp_all del: drop_append)
  then have "length (an_buffer A') = (length (an_buffer A) + length samples) mod frame_samples (an_layout A)"
    by (simp del: drop_append add: minus_div_mult_eq_mod)
  then show ?thesis using spec by simp
qed

lemma play_fill_spec:
  assumes "play_fill need leftover q = (out, l', q')"
  shows "out = take need (leftover @ concat q @ replicate need 0) \<and> l' @ concat q' = drop need (leftover @ concat q)"
  using assms
proof (induction need leftover q arbitrary: out l' q' rule: play_fill.induct)
  case (1 need leftover q)
  consider "need = 0" | "need \<noteq> 0" "leftover = []" "q = []" | s q1 where "need \<noteq> 0" "leftover = []" "q = s # q1"
    | "need \<noteq> 0" "leftover \<noteq> []" by (cases q) auto
  then show ?case
  proof cases
    case 4
    let ?n = "min need (length leftover)"
    obtain out1 where rest: "play_fill (need - ?n) (drop ?n leftover) q = (out1, l', q')" and out: "out = take ?n leftover @ out1"
      using 1(3) 4 by (auto simp: play_fill.simps [of need leftover q] Let_def split: prod.splits)
    note IH = 1(2) [OF 4 refl rest]
    show ?thesis
    proof (cases "need \<le> length leftover")
      case True
      then show ?thesis using IH by (simp add: out min_def)
    next
      case False
      then have "take (need - length leftover) (concat q @ replicate (need - length leftover) 0) =
          take (need - length leftover) (concat q @ replicate need (0 :: f32))"
        by (simp add: min_def)
      then show ?thesis using IH False by (simp add: out min_def)
    qed
  next
    case (3 s q1)
    then have "play_fill need s q1 = (out, l', q')" using 1(3) by (simp add: play_fill.simps [of need "[]" "s # q1"])
    from 1(1) [OF 3 this] show ?thesis by (simp add: 3)
  qed (use 1(3) in \<open>auto simp: play_fill.simps [of 0] play_fill.simps [of need "[]" "[]"]\<close>)
qed

text \<open>
  The player plays the pushed samples in their order and without gaps: a buffer of the device receives the next samples of the rest
  and the queue, silence only after the last of them, and what was not played stays for the next buffer.\<close>

theorem playback_in_order:
  "\<exists>l' q'. play_fill need leftover q = (take need (leftover @ concat q @ replicate need 0), l', q') \<and>
     l' @ concat q' = drop need (leftover @ concat q)"
  using play_fill_spec [of need leftover q] by (metis prod_cases3)

lemma play_queue_bounded: "length q \<le> PLAY_QUEUE \<Longrightarrow> length (play_push q xs) \<le> PLAY_QUEUE"
  by (simp add: play_push_def)

lemma audio_queue_bounded:
  "audio_loop_turn C clock gone block (A, q) = Some (A', q') \<Longrightarrow> length q \<le> AUDIO_QUEUE \<Longrightarrow> length q' \<le> AUDIO_QUEUE"
  by (auto simp: audio_loop_turn_def audio_try_send_def split: prod.splits sum.splits if_splits)

lemma loopback_named:
  assumes "find_loopback_device lower devices = Some nm"
  shows "Some nm \<in> set devices \<and> (sublist ''monitor'' (lower nm) \<or> sublist ''loopback'' (lower nm))"
proof -
  let ?P = "\<lambda>d. case d of None \<Rightarrow> False | Some nm \<Rightarrow> sublist ''monitor'' (lower nm) \<or> sublist ''loopback'' (lower nm)"
  from assms obtain ds where "filter ?P devices = Some nm # ds"
    by (auto simp: find_loopback_device_def split: list.splits option.splits)
  then have "Some nm \<in> set (filter ?P devices)" by simp
  then show ?thesis by simp
qed

section \<open>Witnesses\<close>

text \<open>A codec that keeps no samples but marks its packets with the number of the stream.\<close>

definition wit_opus :: "(nat, nat) opus" where
  "wit_opus = \<lparr>op_new_encoder = (\<lambda>_ _. Some 0), op_new_decoder = (\<lambda>_. Some 0),
     op_encode = (\<lambda>e xs. (Some [word_of_nat e], e)), op_decode = (\<lambda>d b. (Some (map (\<lambda>x. real (unat x)) b), d))\<rparr>"

lemma wit_opus_fits: "packets_fit wit_opus"
  by (simp add: packets_fit_def wit_opus_def)

theorem surround_channels_kept_witness:
  "\<exists>data es'. encode_chunk wit_opus Surround51 (replicate (frame_samples Surround51) 0) [1, 2, 3] = (Some data, es') \<and>
     is_ok (fst (audio_decode wit_opus Surround51 [0, 0, 0] (make_frame Surround51 1 5 data)))"
proof -
  let ?chunk = "replicate (frame_samples Surround51) 0 :: f32 list"
  obtain data es' where e: "encode_chunk wit_opus Surround51 ?chunk [1, 2, 3] = (Some data, es')"
    by (simp add: encode_chunk_def wit_opus_def)
  have "fst (audio_decode wit_opus Surround51 [0, 0, 0] (make_frame Surround51 1 5 data)) =
      map_sum id (interleave 6) (separate_streams wit_opus [1, 2, 3] [0, 0, 0] (map (\<lambda>k. pair_samples 6 ?chunk (k * 2)) [0..<6 div 2])) \<and>
      interleave 6 (map (\<lambda>k. pair_samples 6 ?chunk (k * 2)) [0..<6 div 2]) = ?chunk"
    by (rule surround_channels_kept [OF wit_opus_fits _ _ _ _ _ e refl]) simp_all
  moreover have "is_ok (separate_streams wit_opus [1, 2, 3] [0, 0, 0] (map (\<lambda>k. pair_samples 6 ?chunk (k * 2)) [0..<6 div 2]))"
    by (simp add: wit_opus_def upt_rec)
  ultimately have "is_ok (fst (audio_decode wit_opus Surround51 [0, 0, 0] (make_frame Surround51 1 5 data)))"
    by (cases "separate_streams wit_opus [1, 2, 3] [0, 0, 0] (map (\<lambda>k. pair_samples 6 ?chunk (k * 2)) [0..<6 div 2])") simp_all
  with e show ?thesis by blast
qed

definition wit_audio_encoder :: "nat audio_encoder" where
  "wit_audio_encoder = \<lparr>an_encoders = [1], an_layout = Mono, an_buffer = replicate 900 0, an_seq = 4\<rparr>"

theorem encoder_cuts_frames_witness:
  "\<exists>fs A'. audio_encode wit_opus id wit_audio_encoder (replicate 100 0) = (Ok fs, A') \<and> map af_seq fs = [5] \<and> length (an_buffer A') < 960"
proof -
  have fs: "frame_samples Mono = 960" and enc: "op_encode wit_opus e xs = (Some [word_of_nat e], e)" for e xs
    by (simp_all add: frame_samples_def FRAME_SIZE_def wit_opus_def)
  have "\<exists>fs A'. audio_encode wit_opus id wit_audio_encoder (replicate 100 0) = (Ok fs, A')"
    by (simp add: audio_encode_def wit_audio_encoder_def encode_loop.simps [of wit_opus] fs encode_chunk_def enc Let_def)
  then obtain fs A' where e: "audio_encode wit_opus id wit_audio_encoder (replicate 100 0) = (Ok fs, A')" by blast
  from encoder_cuts_frames [OF this] have "length fs = 1" "map af_seq fs = map (\<lambda>i. 4 + word_of_nat (Suc i)) [0..<length fs]"
    "length (an_buffer A') < 960" by (simp_all add: wit_audio_encoder_def fs)
  with e show ?thesis by simp
qed

end
