(* ===== verification/Linux_Capture.thy ===== *)
theory Linux_Capture
  imports Frames
begin

text \<open>
  Screen capture on Linux (\<open>miru-capture/src/platform/linux.rs\<close>): the X11 capturer with its shared memory and its monitors, and the
  capturer of a PipeWire stream granted by the desktop portal. The X server, shared memory and PipeWire are arguments; a read
  past the shared memory, which is undefined in the code, is the error \<open>ReadPastBuffer\<close>.
\<close>

section \<open>X11\<close>

record monitor_geometry =
  mg_x :: int
  mg_y :: int
  mg_width :: u16
  mg_height :: u16
  mg_name :: string
  mg_primary :: bool

record x11_capturer =
  xc_width :: u32
  xc_height :: u32
  xc_shm_len :: nat
  xc_current_display :: u8
  xc_monitors :: "monitor_geometry list"

datatype capture_error =
    X11Connect
  | ScreenTooLarge
  | ShmGet
  | ShmAttach
  | DisplayOutOfRange u8 nat
  | GetImage
  | ReadPastBuffer
  | StreamError
  | ShortFrame nat
  | SingleSource

definition MAX_CAPTURE_DIM :: u32 where
  "MAX_CAPTURE_DIM = 32768"

text \<open>
  What the server answers: the size of the root window (\<open>None\<close>: no connection), whether memory is created and
  attached, and the monitors (\<open>None\<close>: no RandR 1.5). A name that cannot be read is \<open>None\<close>.
\<close>

type_synonym randr_reply = "(int \<times> int \<times> u16 \<times> u16 \<times> string option \<times> bool) list option"

definition refresh_monitors :: "randr_reply \<Rightarrow> x11_capturer \<Rightarrow> x11_capturer" where
  "refresh_monitors reply c =
     (case reply of
        None \<Rightarrow> c\<lparr>xc_monitors := []\<rparr>
      | Some ms \<Rightarrow> c\<lparr>xc_monitors := map (\<lambda>(x, y, w, h, nm, p). \<lparr>mg_x = x, mg_y = y, mg_width = w, mg_height = h,
            mg_name = (case nm of Some s \<Rightarrow> s | None \<Rightarrow> ''unknown''), mg_primary = p\<rparr>) ms\<rparr>)"

definition x11_new :: "(u16 \<times> u16) option \<Rightarrow> bool \<Rightarrow> bool \<Rightarrow> bool \<Rightarrow> randr_reply \<Rightarrow> capture_error + x11_capturer" where
  "x11_new dims shmget_ok shmat_ok attach_ok reply =
     (case dims of
        None \<Rightarrow> Err X11Connect
      | Some (rw, rh) \<Rightarrow>
          (let width = ucast rw :: u32; height = ucast rh :: u32 in
           if width > MAX_CAPTURE_DIM \<or> height > MAX_CAPTURE_DIM then Err ScreenTooLarge
           else if \<not> shmget_ok then Err ShmGet
           else if \<not> shmat_ok then Err ShmAttach
           else if \<not> attach_ok then Err X11Connect
           else Ok (refresh_monitors reply
             \<lparr>xc_width = width, xc_height = height, xc_shm_len = unat width * unat height * 4, xc_current_display = 0, xc_monitors = []\<rparr>)))"

definition x11_displays :: "x11_capturer \<Rightarrow> display_info list" where
  "x11_displays c =
     (if xc_monitors c \<noteq> [] then
        map (\<lambda>(i, m). \<lparr>di_index = word_of_nat i, di_x = mg_x m, di_y = mg_y m, di_width = ucast (mg_width m),
            di_height = ucast (mg_height m), di_refresh_hz = 60, di_name = mg_name m, di_primary = mg_primary m\<rparr>)
          (enumerate 0 (xc_monitors c))
      else [\<lparr>di_index = 0, di_x = 0, di_y = 0, di_width = xc_width c, di_height = xc_height c, di_refresh_hz = 60,
         di_name = '':0'', di_primary = True\<rparr>])"

definition x11_select_display :: "randr_reply \<Rightarrow> u8 \<Rightarrow> x11_capturer \<Rightarrow> (capture_error + unit) \<times> x11_capturer" where
  "x11_select_display reply index c0 =
     (let c = refresh_monitors reply c0 in
      if xc_monitors c \<noteq> [] \<and> length (xc_monitors c) \<le> unat index
      then (Err (DisplayOutOfRange index (length (xc_monitors c))), c)
      else (Ok (), c\<lparr>xc_current_display := index\<rparr>))"

definition capture_region :: "x11_capturer \<Rightarrow> int \<times> int \<times> u16 \<times> u16" where
  "capture_region c =
     (if unat (xc_current_display c) < length (xc_monitors c)
      then (let m = xc_monitors c ! unat (xc_current_display c) in (mg_x m, mg_y m, mg_width m, mg_height m))
      else (0, 0, ucast (xc_width c), ucast (xc_height c)))"

text \<open>\<open>image_ok\<close> is the answer of the server to \<open>shm::get_image\<close> for the region, \<open>shm\<close> the content of the shared memory after it.\<close>

definition x11_next_frame ::
  "(int \<times> int \<times> u16 \<times> u16 \<Rightarrow> bool) \<Rightarrow> bytes \<Rightarrow> u64 \<Rightarrow> x11_capturer \<Rightarrow> capture_error + raw_frame" where
  "x11_next_frame image_ok shm ts c =
     (case capture_region c of (x, y, w, h) \<Rightarrow>
        if \<not> image_ok (x, y, w, h) then Err GetImage
        else
          (let sz = unat w * unat h * 4 in
           if sz > length shm then Err ReadPastBuffer
           else Ok \<lparr>rf_display_idx = xc_current_display c, rf_width = ucast w, rf_height = ucast h, rf_stride = ucast w * 4,
                  rf_format = Bgra32, rf_data = take sz shm, rf_timestamp_ms = ts\<rparr>))"

section \<open>PipeWire\<close>

text \<open>
  The state of the stream: whether it failed, its agreed size and the pixels of its next buffer.
\<close>

record pw_stream =
  pw_errored :: bool
  pw_size :: "(u32 \<times> u32) option"
  pw_pixels :: "bytes option"

definition pw_displays :: "pw_stream \<Rightarrow> display_info list" where
  "pw_displays s =
     (case (case pw_size s of Some wh \<Rightarrow> wh | None \<Rightarrow> (0, 0)) of (w, h) \<Rightarrow>
        [\<lparr>di_index = 0, di_x = 0, di_y = 0, di_width = w, di_height = h, di_refresh_hz = 0, di_name = ''PipeWire (portal)'', di_primary = True\<rparr>])"

definition pw_select_display :: "u8 \<Rightarrow> capture_error + unit" where
  "pw_select_display index = (if index \<noteq> 0 then Err SingleSource else Ok ())"

definition pw_next_frame :: "u64 \<Rightarrow> pw_stream \<Rightarrow> capture_error + raw_frame option" where
  "pw_next_frame ts s =
     (if pw_errored s then Err StreamError
      else
        (case pw_size s of
           None \<Rightarrow> Ok None
         | Some (w, h) \<Rightarrow>
             (case pw_pixels s of
                None \<Rightarrow> Ok None
              | Some pixels \<Rightarrow>
                  (let expected = unat w * unat h * 4 mod 2 ^ 64 in
                   if length pixels < expected then Err (ShortFrame (length pixels))
                   else Ok (Some \<lparr>rf_display_idx = 0, rf_width = w, rf_height = h, rf_stride = w * 4, rf_format = Bgra32,
                          rf_data = take expected pixels, rf_timestamp_ms = ts\<rparr>)))))"

section \<open>Choice of the capturer\<close>

datatype linux_capturer = UseX11 | UsePipeWire

definition linux_capturer_new :: "bool \<Rightarrow> (string \<Rightarrow> string option) \<Rightarrow> linux_capturer" where
  "linux_capturer_new pipewire_feature env = (if pipewire_feature \<and> env ''WAYLAND_DISPLAY'' \<noteq> None then UsePipeWire else UseX11)"

section \<open>Properties\<close>

text \<open>The capturers that can arise: after the start, displays are selected, each time with the monitors of that moment.\<close>

inductive x11_reach :: "x11_capturer \<Rightarrow> bool" where
  started: "x11_new dims a b d reply = Ok c \<Longrightarrow> x11_reach c"
| selected: "x11_reach c \<Longrightarrow> x11_select_display reply index c = (r, c') \<Longrightarrow> x11_reach c'"

lemma refresh_keeps [simp]:
  "xc_width (refresh_monitors reply c) = xc_width c" "xc_height (refresh_monitors reply c) = xc_height c"
  "xc_shm_len (refresh_monitors reply c) = xc_shm_len c"
  by (simp_all add: refresh_monitors_def split: option.split)

lemma x11_reach_inv:
  assumes "x11_reach c"
  shows "xc_shm_len c = unat (xc_width c) * unat (xc_height c) * 4 \<and> unat (xc_width c) \<le> 32768 \<and> unat (xc_height c) \<le> 32768"
  using assms
proof (induction rule: x11_reach.induct)
  case (started dims a b d reply c)
  then show ?case
    by (auto simp: x11_new_def Let_def MAX_CAPTURE_DIM_def word_le_nat_alt not_less split: option.splits if_splits prod.splits)
next
  case (selected c reply index r c')
  then show ?case by (auto simp: x11_select_display_def Let_def split: if_splits)
qed

text \<open>
  The X11 capturer never reads past its shared memory, as long as the monitors lie within the screen it was started on, whatever displays were
  selected before: the memory was sized for the whole screen.\<close>

theorem x11_reads_inside:
  assumes "x11_reach c" "length shm = xc_shm_len c"
    and "\<forall>m \<in> set (xc_monitors c). unat (mg_width m) \<le> unat (xc_width c) \<and> unat (mg_height m) \<le> unat (xc_height c)"
  shows "x11_next_frame image_ok shm ts c \<noteq> Err ReadPastBuffer"
proof -
  obtain x y w h where region: "capture_region c = (x, y, w, h)" by (metis prod_cases4)
  note inv = x11_reach_inv [OF assms(1)]
  have "unat w \<le> unat (xc_width c) \<and> unat h \<le> unat (xc_height c)"
  proof (cases "unat (xc_current_display c) < length (xc_monitors c)")
    case True
    then show ?thesis using region assms(3) by (auto simp: capture_region_def Let_def)
  next
    case False
    then show ?thesis using region inv by (auto simp: capture_region_def unsigned_ucast_eq take_bit_nat_less_eq_self)
  qed
  then have "unat w * unat h * 4 \<le> length shm" using inv assms(2) by (simp add: mult_mono')
  then show ?thesis by (simp add: x11_next_frame_def region Let_def)
qed

lemma unat_u16_u32: "unat (ucast (x :: u16) :: u32) = unat x"
  using unsigned_less [of x, where 'a = nat] by (simp add: unsigned_ucast_eq take_bit_nat_eq_self)

text \<open>
  C37. Every captured picture fits its description: for both capturers the rows that width, height and stride describe lie in the
  data, which is what the colour conversion needs.\<close>

theorem captured_frames_fit:
  assumes "x11_next_frame image_ok shm ts c = Ok f \<or> pw_next_frame ts s = Ok (Some f)"
    and "0 < rf_height f" "unat (rf_width f) * 4 < 2 ^ 32"
  shows "frame_fits f \<and> length (rf_data f) = unat (rf_width f) * unat (rf_height f) * 4"
proof -
  have fits: "frame_fits f" if "length (rf_data f) = unat (rf_width f) * unat (rf_height f) * 4" "rf_stride f = rf_width f * 4"
  proof -
    have st: "unat (rf_stride f) = unat (rf_width f) * 4"
      using assms(3) by (simp add: that(2) unat_mult_lem [THEN iffD1])
    obtain k where "unat (rf_height f) = Suc k" using assms(2) by (metis gr0_implies_Suc unat_gt_0 word_neq_0_conv)
    then show ?thesis using that(1) by (simp add: frame_fits_def st)
  qed
  have "length (rf_data f) = unat (rf_width f) * unat (rf_height f) * 4 \<and> rf_stride f = rf_width f * 4"
    using assms(1)
  proof
    assume "x11_next_frame image_ok shm ts c = Ok f"
    then show ?thesis
      by (auto simp: x11_next_frame_def Let_def unat_u16_u32 split: prod.splits if_splits)
  next
    assume pw: "pw_next_frame ts s = Ok (Some f)"
    have "unat (rf_height f) < 2 ^ 32" using unsigned_less [of "rf_height f", where 'a = nat] by simp
    then have "(unat (rf_width f) * 4) * unat (rf_height f) < 2 ^ 32 * 2 ^ 32"
      by (intro mult_strict_mono assms(3)) simp_all
    then have "unat (rf_width f) * unat (rf_height f) * 4 < 2 ^ 64" by (simp add: ac_simps)
    then have h: "unat (rf_width f) * unat (rf_height f) * 4 mod 2 ^ 64 = unat (rf_width f) * unat (rf_height f) * 4"
      by (rule mod_less)
    obtain w ht pixels where f: "\<not> length pixels < unat w * unat ht * 4 mod 2 ^ 64" "rf_width f = w" "rf_height f = ht"
        "rf_data f = take (unat w * unat ht * 4 mod 2 ^ 64) pixels" "rf_stride f = w * 4"
      using pw by (auto simp: pw_next_frame_def Let_def split: if_splits option.splits)
    show ?thesis using f(1,4,5) h unfolding f(2,3) by simp
  qed
  with fits show ?thesis by blast
qed

text \<open>
  The size of the memory is fixed at the start, but selecting a display reads the monitors again: after the screen has grown, the region of a monitor can be
  larger than the memory, and then only the refusal of the server keeps the read inside.\<close>

definition wit_capturer :: x11_capturer where
  "wit_capturer = \<lparr>xc_width = 4, xc_height = 2, xc_shm_len = 32, xc_current_display = 0,
     xc_monitors = [\<lparr>mg_x = 0, mg_y = 0, mg_width = 4, mg_height = 2, mg_name = ''a'', mg_primary = True\<rparr>]\<rparr>"

lemma wit_capturer_new: "x11_new (Some (4, 2)) True True True (Some [(0, 0, 4, 2, Some ''a'', True)]) = Ok wit_capturer"
  by (simp add: x11_new_def Let_def MAX_CAPTURE_DIM_def refresh_monitors_def wit_capturer_def)

lemma grown_screen_reads_past:
  "x11_next_frame (\<lambda>_. True) (replicate 32 0) ts (snd (x11_select_display (Some [(0, 0, 6, 4, None, True)]) 0 wit_capturer)) = Err ReadPastBuffer"
  by (simp add: x11_next_frame_def x11_select_display_def refresh_monitors_def wit_capturer_def capture_region_def Let_def)

theorem x11_reads_inside_witness: "x11_next_frame (\<lambda>_. True) (replicate 32 7) 0 wit_capturer \<noteq> Err ReadPastBuffer"
  by (rule x11_reads_inside [OF x11_reach.started [OF wit_capturer_new]]) (simp_all add: wit_capturer_def)

theorem captured_frames_fit_witness:
  "\<exists>f. x11_next_frame (\<lambda>_. True) (replicate 32 7) 0 wit_capturer = Ok f \<and> frame_fits f"
proof -
  obtain f where f: "x11_next_frame (\<lambda>_. True) (replicate 32 7) 0 wit_capturer = Ok f" "rf_height f = 2" "rf_width f = 4"
    by (simp add: x11_next_frame_def wit_capturer_def capture_region_def Let_def)
  have "frame_fits f \<and> length (rf_data f) = unat (rf_width f) * unat (rf_height f) * 4"
    by (rule captured_frames_fit [of "\<lambda>_. True" "replicate 32 7" 0 wit_capturer _ "\<lparr>pw_errored = True, pw_size = None, pw_pixels = None\<rparr>"])
      (simp_all add: f)
  with f(1) show ?thesis by blast
qed

end
