(* ===== verification/Uinput.thy ===== *)
theory Uinput
  imports Keymap Backoff
begin

text \<open>
  Input injection on Linux (\<open>miru-input/src/platform/linux.rs\<close>): a virtual device is created with the calls listed in
  \<open>uinput_new\<close>, and an input event becomes a list of raw events written to it. Text is put on the clipboard with the
  program \<open>xclip\<close>, whose run is an argument, and pasted with a key chord.
\<close>

section \<open>The device\<close>

definition EV_SYN :: u16 where "EV_SYN = 0x00"
definition EV_KEY :: u16 where "EV_KEY = 0x01"
definition EV_REL :: u16 where "EV_REL = 0x02"
definition EV_ABS :: u16 where "EV_ABS = 0x03"
definition SYN_REPORT :: u16 where "SYN_REPORT = 0"
definition BTN_LEFT :: u16 where "BTN_LEFT = 0x110"
definition BTN_RIGHT :: u16 where "BTN_RIGHT = 0x111"
definition BTN_MIDDLE :: u16 where "BTN_MIDDLE = 0x112"
definition BTN_SIDE :: u16 where "BTN_SIDE = 0x113"
definition BTN_EXTRA :: u16 where "BTN_EXTRA = 0x114"
definition REL_X :: u16 where "REL_X = 0x00"
definition REL_Y :: u16 where "REL_Y = 0x01"
definition REL_WHEEL :: u16 where "REL_WHEEL = 0x08"
definition REL_HWHEEL :: u16 where "REL_HWHEEL = 0x06"
definition ABS_X :: u16 where "ABS_X = 0x00"
definition ABS_Y :: u16 where "ABS_Y = 0x01"
definition ABS_MAX :: int where "ABS_MAX = 65535"
definition UI_DEV_SETUP :: u32 where "UI_DEV_SETUP = 0x405c5503"
definition UI_ABS_SETUP :: u32 where "UI_ABS_SETUP = 0x40186504"

lemmas event_codes = EV_SYN_def EV_KEY_def EV_REL_def EV_ABS_def SYN_REPORT_def BTN_LEFT_def BTN_RIGHT_def BTN_MIDDLE_def
  BTN_SIDE_def BTN_EXTRA_def REL_X_def REL_Y_def REL_WHEEL_def REL_HWHEEL_def ABS_X_def ABS_Y_def

datatype uinput_call =
    SetEvBit u16
  | SetKeyBit u16
  | SetRelBit u16
  | SetAbsBit u16
  | DevSetup u32 string
  | AbsSetup u32 u16 int int
  | DevCreate
  | DevDestroy

definition setup_calls :: "uinput_call list" where
  "setup_calls =
     [SetEvBit EV_KEY, SetEvBit EV_REL, SetEvBit EV_ABS, SetEvBit EV_SYN] @
     map SetKeyBit [BTN_LEFT, BTN_RIGHT, BTN_MIDDLE, BTN_SIDE, BTN_EXTRA] @
     map (\<lambda>k. SetKeyBit (word_of_nat k)) [0..<768] @
     [SetRelBit REL_X, SetRelBit REL_Y, SetRelBit REL_WHEEL, SetRelBit REL_HWHEEL, SetAbsBit ABS_X, SetAbsBit ABS_Y,
      DevSetup UI_DEV_SETUP ''Miru Virtual Input Device'', AbsSetup UI_ABS_SETUP ABS_X 0 ABS_MAX,
      AbsSetup UI_ABS_SETUP ABS_Y 0 ABS_MAX, DevCreate]"

text \<open>\<open>UinputDevice::new\<close>: whether the device file opens, and whether the last call succeeds.\<close>

datatype device_error = UinputNotOpened | DevCreateFailed

definition uinput_new :: "bool \<Rightarrow> bool \<Rightarrow> device_error + uinput_call list" where
  "uinput_new opened created =
     (if \<not> opened then Err UinputNotOpened else if \<not> created then Err DevCreateFailed else Ok setup_calls)"

record raw_event =
  re_type :: u16
  re_code :: u16
  re_value :: int

definition write_event :: "u16 \<Rightarrow> u16 \<Rightarrow> int \<Rightarrow> raw_event list" where
  "write_event t c v = [\<lparr>re_type = t, re_code = c, re_value = v\<rparr>]"

definition syn :: "raw_event list" where
  "syn = write_event EV_SYN SYN_REPORT 0"

text \<open>\<open>f32 as i32\<close>: truncation, saturating at both ends.\<close>

definition f32_as_i32 :: "f32 \<Rightarrow> int" where
  "f32_as_i32 r = max (- (2 ^ 31)) (min (2 ^ 31 - 1) (if r < 0 then - \<lfloor>- r\<rfloor> else \<lfloor>r\<rfloor>))"

definition mouse_move_abs :: "f32 \<Rightarrow> f32 \<Rightarrow> raw_event list" where
  "mouse_move_abs x y =
     write_event EV_ABS ABS_X (f32_as_i32 (to_f32 (x * of_int ABS_MAX))) @
     write_event EV_ABS ABS_Y (f32_as_i32 (to_f32 (y * of_int ABS_MAX))) @ syn"

definition dev_mouse_button :: "u16 \<Rightarrow> bool \<Rightarrow> raw_event list" where
  "dev_mouse_button b down = write_event EV_KEY b (if down then 1 else 0) @ syn"

definition clicks :: "f32 \<Rightarrow> int" where
  "clicks d = (if d > 0 then 1 else - 1)"

definition dev_scroll :: "f32 \<Rightarrow> f32 \<Rightarrow> raw_event list" where
  "dev_scroll dx dy =
     (if dy \<noteq> 0 then write_event EV_REL REL_WHEEL (clicks dy) else []) @
     (if dx \<noteq> 0 then write_event EV_REL REL_HWHEEL (clicks dx) else []) @
     (if dy \<noteq> 0 \<or> dx \<noteq> 0 then syn else [])"

definition dev_key :: "u32 \<Rightarrow> bool \<Rightarrow> raw_event list" where
  "dev_key scancode down = write_event EV_KEY (ucast scancode) (if down then 1 else 0) @ syn"

section \<open>Injection\<close>

definition evdev_code :: "u32 \<Rightarrow> string option \<Rightarrow> u32" where
  "evdev_code legacy_key code = (case Option.bind code code_to_evdev of Some c \<Rightarrow> ucast c | None \<Rightarrow> legacy_key)"

fun btn_code :: "mouse_button \<Rightarrow> u16" where
  "btn_code LeftButton = BTN_LEFT"
| "btn_code RightButton = BTN_RIGHT"
| "btn_code MiddleButton = BTN_MIDDLE"
| "btn_code X1Button = BTN_SIDE"
| "btn_code X2Button = BTN_EXTRA"

text \<open>
  A run of \<open>xclip\<close>: it is not started, its input cannot be written, or it ends with an exit code, which the code does not look at.
\<close>

datatype xclip_run = NotStarted | InputNotWritten | Exited nat

datatype inject_error = UinputUnavailable | ClipboardWriteFailed

definition set_clipboard_raw :: "xclip_run \<Rightarrow> inject_error + unit" where
  "set_clipboard_raw run = (case run of Exited _ \<Rightarrow> Ok () | _ \<Rightarrow> Err ClipboardWriteFailed)"

definition KEY_LEFTCTRL :: u32 where "KEY_LEFTCTRL = 29"
definition KEY_V :: u32 where "KEY_V = 47"

definition inject_text :: "bool \<Rightarrow> xclip_run \<Rightarrow> inject_error + raw_event list" where
  "inject_text device run =
     (case set_clipboard_raw run of
        Inl e \<Rightarrow> Err e
      | Inr _ \<Rightarrow>
          if \<not> device then Err UinputUnavailable
          else Ok (dev_key KEY_LEFTCTRL True @ dev_key KEY_V True @ dev_key KEY_V False @ dev_key KEY_LEFTCTRL False))"

definition linux_inject :: "bool \<Rightarrow> xclip_run \<Rightarrow> input_kind \<Rightarrow> inject_error + raw_event list" where
  "linux_inject device run k =
     (if \<not> device then Err UinputUnavailable
      else
        (case k of
           MouseMove x y _ \<Rightarrow> Ok (mouse_move_abs x y)
         | MouseDown b x y _ \<Rightarrow> Ok (mouse_move_abs x y @ dev_mouse_button (btn_code b) True)
         | MouseUp b x y _ \<Rightarrow> Ok (mouse_move_abs x y @ dev_mouse_button (btn_code b) False)
         | Scroll dx dy _ _ _ \<Rightarrow> Ok (dev_scroll dx dy)
         | KeyDown key _ code \<Rightarrow> Ok (dev_key (evdev_code key code) True)
         | KeyUp key _ code \<Rightarrow> Ok (dev_key (evdev_code key code) False)
         | TextInput _ \<Rightarrow> inject_text device run))"

section \<open>Properties\<close>

text \<open>The kernel passes on an event of the device only if its type and its code were enabled at the set-up.\<close>

definition event_enabled :: "uinput_call list \<Rightarrow> raw_event \<Rightarrow> bool" where
  "event_enabled calls e \<longleftrightarrow> SetEvBit (re_type e) \<in> set calls \<and>
     (re_type e = EV_SYN \<or> re_type e = EV_KEY \<and> SetKeyBit (re_code e) \<in> set calls \<or>
      re_type e = EV_REL \<and> SetRelBit (re_code e) \<in> set calls \<or> re_type e = EV_ABS \<and> SetAbsBit (re_code e) \<in> set calls)"

text \<open>
  A report is a group of events that takes effect when it is closed with \<open>SYN_REPORT\<close>. A proper report is not empty, holds no other
  \<open>SYN\<close> and no axis or key twice, so that a press and its release are never in one report.
\<close>

definition proper_report :: "raw_event list \<Rightarrow> bool" where
  "proper_report r \<longleftrightarrow> r \<noteq> [] \<and> list_all (\<lambda>e. re_type e \<noteq> EV_SYN) r \<and> distinct (map (\<lambda>e. (re_type e, re_code e)) r)"

definition in_reports :: "raw_event list \<Rightarrow> bool" where
  "in_reports evs \<longleftrightarrow> (\<exists>rs. evs = concat (map (\<lambda>r. r @ syn) rs) \<and> list_all proper_report rs)"

lemma key_enabled: "SetKeyBit c \<in> set setup_calls \<longleftrightarrow> unat c < 768"
proof
  assume "SetKeyBit c \<in> set setup_calls"
  then consider "c \<in> {BTN_LEFT, BTN_RIGHT, BTN_MIDDLE, BTN_SIDE, BTN_EXTRA}" | k where "k < 768" "c = word_of_nat k"
    by (auto simp: setup_calls_def)
  then show "unat c < 768" by cases (auto simp: event_codes unat_of_nat)
qed (auto simp: setup_calls_def image_iff intro!: bexI [of _ "unat c"])

lemma setup_types: "SetEvBit EV_SYN \<in> set setup_calls" "SetEvBit EV_KEY \<in> set setup_calls" "SetEvBit EV_REL \<in> set setup_calls"
  "SetEvBit EV_ABS \<in> set setup_calls"
  by (simp_all add: setup_calls_def)

lemma setup_axes: "SetAbsBit ABS_X \<in> set setup_calls" "SetAbsBit ABS_Y \<in> set setup_calls" "SetRelBit REL_WHEEL \<in> set setup_calls"
  "SetRelBit REL_HWHEEL \<in> set setup_calls"
  by (simp_all add: setup_calls_def)

lemma event_enabled_of:
  "event_enabled setup_calls \<lparr>re_type = EV_SYN, re_code = c, re_value = v\<rparr>"
  "event_enabled setup_calls \<lparr>re_type = EV_ABS, re_code = ABS_X, re_value = v\<rparr>"
  "event_enabled setup_calls \<lparr>re_type = EV_ABS, re_code = ABS_Y, re_value = v\<rparr>"
  "event_enabled setup_calls \<lparr>re_type = EV_REL, re_code = REL_WHEEL, re_value = v\<rparr>"
  "event_enabled setup_calls \<lparr>re_type = EV_REL, re_code = REL_HWHEEL, re_value = v\<rparr>"
  "event_enabled setup_calls \<lparr>re_type = EV_KEY, re_code = c, re_value = v\<rparr> \<longleftrightarrow> unat c < 768"
  by (simp_all add: event_enabled_def setup_types setup_axes key_enabled) (simp add: event_codes)

lemma in_reports_append: "in_reports xs \<Longrightarrow> in_reports ys \<Longrightarrow> in_reports (xs @ ys)"
  unfolding in_reports_def by (metis concat_append list_all_append map_append)

lemma in_reports_single: "proper_report r \<Longrightarrow> in_reports (r @ syn)"
  unfolding in_reports_def by (rule exI [of _ "[r]"]) simp

lemma in_reports_Nil: "in_reports []"
  unfolding in_reports_def by (rule exI [of _ "[]"]) simp

lemma btn_code_small: "unat (btn_code b) < 768"
  by (cases b) (simp_all add: event_codes)

lemma ucast_u16_small: "unat (k :: u32) < 768 \<Longrightarrow> unat (ucast k :: u16) = unat k"
  by (simp add: unsigned_ucast_eq take_bit_nat_eq_self)

lemma ucast_u16_u32: "ucast (ucast (c :: u16) :: u32) = c"
  by (rule bit_eqI) (auto simp: bit_simps dest: bit_imp_le_length)

lemma device_reports:
  "in_reports (mouse_move_abs x y)" "in_reports (dev_scroll dx dy)" "in_reports (dev_key k down)" "in_reports (dev_mouse_button b down)"
proof -
  have "proper_report (write_event EV_ABS ABS_X u @ write_event EV_ABS ABS_Y v)" for u v
    by (simp add: proper_report_def write_event_def event_codes)
  from in_reports_single [OF this] show "in_reports (mouse_move_abs x y)" by (simp add: mouse_move_abs_def)
  have "proper_report (write_event EV_KEY c v)" for c v by (simp add: proper_report_def write_event_def event_codes)
  from in_reports_single [OF this] show "in_reports (dev_key k down)" "in_reports (dev_mouse_button b down)"
    by (simp_all add: dev_key_def dev_mouse_button_def)
  have "proper_report ((if dy \<noteq> 0 then write_event EV_REL REL_WHEEL (clicks dy) else []) @
      (if dx \<noteq> 0 then write_event EV_REL REL_HWHEEL (clicks dx) else []))" if "dy \<noteq> 0 \<or> dx \<noteq> 0"
    using that by (auto simp: proper_report_def write_event_def event_codes)
  from in_reports_single [OF this] show "in_reports (dev_scroll dx dy)"
    by (cases "dy \<noteq> 0 \<or> dx \<noteq> 0") (auto simp: dev_scroll_def in_reports_Nil)
qed

lemma device_enabled:
  "list_all (event_enabled setup_calls) (mouse_move_abs x y)" "list_all (event_enabled setup_calls) (dev_scroll dx dy)"
  "list_all (event_enabled setup_calls) (dev_key k down) \<longleftrightarrow> unat (ucast k :: u16) < 768"
  "list_all (event_enabled setup_calls) (dev_mouse_button (btn_code b) down)"
  by (simp_all add: mouse_move_abs_def dev_scroll_def dev_key_def dev_mouse_button_def
      write_event_def syn_def event_enabled_of btn_code_small)

lemma table_small: "list_all (\<lambda>(k, e, m, v). unat e < 768) key_table"
  unfolding key_table_def by simp

lemma evdev_small:
  assumes "code_to_evdev c = Some e"
  shows "unat e < 768"
  using assms table_small lookup_row [of c]
  by (fastforce simp: code_to_evdev_def present_code_def bind_eq_Some_conv list_all_iff split: if_splits)

text \<open>
  The inputs that the device can express: everything but a key without a known name whose old-style number, cut to 16 bits, is 768 or more.
\<close>

definition key_on_device :: "input_kind \<Rightarrow> bool" where
  "key_on_device k = (case k of
       KeyDown key _ code \<Rightarrow> Option.bind code code_to_evdev \<noteq> None \<or> unat key mod 65536 < 768
     | KeyUp key _ code \<Rightarrow> Option.bind code code_to_evdev \<noteq> None \<or> unat key mod 65536 < 768
     | _ \<Rightarrow> True)"

lemma evdev_code_small:
  "unat (ucast (evdev_code key code) :: u16) < 768 \<longleftrightarrow> Option.bind code code_to_evdev \<noteq> None \<or> unat key mod 65536 < 768"
proof (cases "Option.bind code code_to_evdev")
  case None
  then show ?thesis by (simp add: evdev_code_def unsigned_ucast_eq take_bit_eq_mod)
next
  case (Some e)
  then have "unat e < 768" using evdev_small by (cases code) auto
  then show ?thesis using Some by (simp add: evdev_code_def ucast_u16_u32)
qed

text \<open>
  C35. What is injected reaches the desktop, and exactly what the device can express does: the raw events that an injection writes were all enabled when the
  device was made if and only if the input is not a key press or release without a known name and with an
  old-style number of 768 or more (modulo \<open>2 ^ 16\<close>). In every case the events are a sequence of reports, each
  closed by its own \<open>SYN\<close>, none empty and none with one axis or key twice, so no press is merged with its release.\<close>

theorem injected_events_delivered:
  assumes "uinput_new True True = Ok calls" "linux_inject True run k = Ok evs"
  shows "(list_all (event_enabled calls) evs \<longleftrightarrow> key_on_device k) \<and>
    (\<exists>rs. evs = concat (map (\<lambda>r. r @ syn) rs) \<and> list_all proper_report rs)"
proof -
  have calls: "calls = setup_calls" using assms(1) by (simp add: uinput_new_def)
  have small: "unat (ucast KEY_LEFTCTRL :: u16) < 768" "unat (ucast KEY_V :: u16) < 768"
    by (simp_all add: KEY_LEFTCTRL_def KEY_V_def)
  have "list_all (event_enabled setup_calls) evs \<longleftrightarrow> key_on_device k"
    using assms(2) by (cases k)
      (auto simp: linux_inject_def inject_text_def key_on_device_def device_enabled evdev_code_small small split: sum.splits)
  moreover have "in_reports evs"
    using assms(2) by (cases k)
      (auto simp: linux_inject_def inject_text_def split: sum.splits intro!: in_reports_append device_reports)
  ultimately show ?thesis by (simp add: calls in_reports_def)
qed

lemma f32_as_i32_unit:
  assumes "0 \<le> x" "x \<le> 1"
  shows "0 \<le> f32_as_i32 (to_f32 (x * of_int ABS_MAX)) \<and> f32_as_i32 (to_f32 (x * of_int ABS_MAX)) \<le> ABS_MAX"
proof -
  have x: "0 \<le> x * 65535" "x * 65535 \<le> of_nat 65535" using assms by auto
  have "0 \<le> to_f32 (x * 65535)" using round_bin_nonneg [OF x(1)] by (simp add: to_f32_def)
  moreover have "to_f32 (x * 65535) \<le> 65535" using round_bin_le_nat [OF x, of 24 "- 149"] by (simp add: to_f32_def)
  ultimately have "0 \<le> \<lfloor>to_f32 (x * 65535)\<rfloor>" "\<lfloor>to_f32 (x * 65535)\<rfloor> \<le> 65535" by linarith+
  then show ?thesis using \<open>0 \<le> to_f32 (x * 65535)\<close> by (simp add: f32_as_i32_def ABS_MAX_def)
qed

text \<open>
  A pointer position between 0 and 1 becomes an absolute position within the range the code sets up for its axis, in spite of the
  rounding of single precision.\<close>

theorem pointer_stays_on_axis:
  assumes "0 \<le> x" "x \<le> 1" "0 \<le> y" "y \<le> 1" "linux_inject True run (MouseMove x y d) = Ok evs"
  shows "list_all (\<lambda>e. re_type e = EV_ABS \<longrightarrow> 0 \<le> re_value e \<and> re_value e \<le> ABS_MAX \<and> AbsSetup UI_ABS_SETUP (re_code e) 0 ABS_MAX \<in> set setup_calls) evs"
  using assms f32_as_i32_unit [OF assms(1,2)] f32_as_i32_unit [OF assms(3,4)]
  by (auto simp: linux_inject_def mouse_move_abs_def write_event_def syn_def setup_calls_def EV_SYN_def EV_ABS_def)

definition key_state :: "u16 \<Rightarrow> raw_event list \<Rightarrow> int \<Rightarrow> int" where
  "key_state c evs v = fold (\<lambda>e v. if re_type e = EV_KEY \<and> re_code e = c then re_value e else v) evs v"

lemma text_releases_keys:
  assumes "linux_inject True run (TextInput t) = Ok evs"
  shows "key_state c evs 0 = 0"
proof -
  have "evs = dev_key KEY_LEFTCTRL True @ dev_key KEY_V True @ dev_key KEY_V False @ dev_key KEY_LEFTCTRL False"
    using assms by (auto simp: linux_inject_def inject_text_def split: sum.splits)
  then show ?thesis by (simp add: key_state_def dev_key_def write_event_def syn_def EV_KEY_def EV_SYN_def)
qed

text \<open>
  The exit code of \<open>xclip\<close> is not looked at: text that never reached the clipboard is reported as typed, and the paste chord inserts
  what the clipboard held before.\<close>

lemma failed_clipboard_pastes:
  assumes "0 < code"
  shows "\<exists>evs. linux_inject True (Exited code) (TextInput t) = Ok evs \<and> evs \<noteq> []"
  by (simp add: linux_inject_def inject_text_def set_clipboard_raw_def dev_key_def write_event_def)

text \<open>
  The number of a request that writes \<open>sz\<close> bytes to the device, as the macro \<open>_IOW\<close> of Linux forms it. The set-up structure has 92 bytes,
  the structure for an axis 28. The first request has the right number; the second does not, and since the results of the calls are
  not looked at, the ranges of the axes are never set.\<close>

definition iow :: "nat \<Rightarrow> nat \<Rightarrow> nat \<Rightarrow> u32" where
  "iow type_char nr sz = word_of_nat (2 ^ 30 + sz * 2 ^ 16 + type_char * 2 ^ 8 + nr)"

lemma abs_setup_request_wrong: "UI_DEV_SETUP = iow 0x55 3 92 \<and> UI_ABS_SETUP \<noteq> iow 0x55 4 28"
  by (simp add: UI_DEV_SETUP_def UI_ABS_SETUP_def iow_def)

section \<open>Witnesses\<close>

theorem injected_events_delivered_witness:
  "(\<exists>evs. linux_inject True NotStarted (KeyDown 65 0 (Some ''KeyA'')) = Ok evs \<and> list_all (event_enabled setup_calls) evs) \<and>
   (\<exists>evs. linux_inject True NotStarted (KeyDown 800 0 None) = Ok evs \<and> \<not> list_all (event_enabled setup_calls) evs)"
proof -
  obtain evs where e: "linux_inject True NotStarted (KeyDown 65 0 (Some ''KeyA'')) = Ok evs" by (simp add: linux_inject_def)
  obtain evs' where e': "linux_inject True NotStarted (KeyDown 800 0 None) = Ok evs'" by (simp add: linux_inject_def)
  have new: "uinput_new True True = Ok setup_calls" by (simp add: uinput_new_def)
  have "key_on_device (KeyDown 65 0 (Some ''KeyA''))" "\<not> key_on_device (KeyDown 800 0 None)" by (simp_all add: key_on_device_def)
  with injected_events_delivered [OF new e] injected_events_delivered [OF new e'] e e' show ?thesis by blast
qed

theorem pointer_stays_on_axis_witness:
  "\<exists>evs. linux_inject True NotStarted (MouseMove 1 (1 / 2) 0) = Ok evs \<and>
     list_all (\<lambda>e. re_type e = EV_ABS \<longrightarrow> 0 \<le> re_value e \<and> re_value e \<le> ABS_MAX \<and> AbsSetup UI_ABS_SETUP (re_code e) 0 ABS_MAX \<in> set setup_calls) evs"
proof -
  obtain evs where e: "linux_inject True NotStarted (MouseMove 1 (1 / 2) 0) = Ok evs" by (simp add: linux_inject_def)
  show ?thesis using pointer_stays_on_axis [OF _ _ _ _ e] e by simp
qed

end
