(* ===== verification/Local_Bridge.thy ===== *)
theory Local_Bridge
  imports Linux_Capture Uinput
begin

text \<open>
  The local bridge of the tool server (\<open>miru-mcp/src/local_bridge.rs\<close>): each call of the server is carried out on the machine itself. The capturer,
  the PNG encoder and the browser are arguments; input and clipboard go to \<open>Uinput\<close>. Waiting is a list of observations, each with its time.
\<close>

section \<open>Definitions\<close>

record local_bridge =
  lb_disp :: u8

datatype bridge_error =
    CreateCapturer
  | SelectDisplay capture_error
  | NextFrame capture_error
  | CaptureTimeout
  | UnsupportedFormat pixel_format
  | PngFailed
  | UrlSchemeRefused
  | OpenFailed

fun bgra_rgba :: "bytes \<Rightarrow> bytes" where
  "bgra_rgba (b # g # r # a # rest) = r # g # b # a # bgra_rgba rest"
| "bgra_rgba _ = []"

definition rgba_of :: "bytes \<Rightarrow> pixel_format \<Rightarrow> bridge_error + bytes" where
  "rgba_of data fmt =
     (case fmt of Rgba32 \<Rightarrow> Ok data | Bgra32 \<Rightarrow> Ok (bgra_rgba data) | other \<Rightarrow> Err (UnsupportedFormat other))"

definition encode_png :: "(u32 \<Rightarrow> u32 \<Rightarrow> bytes \<Rightarrow> bytes option) \<Rightarrow> bytes \<Rightarrow> u32 \<Rightarrow> u32 \<Rightarrow> pixel_format \<Rightarrow> bridge_error + bytes" where
  "encode_png png data w h fmt =
     (case rgba_of data fmt of
        Inl e \<Rightarrow> Err e
      | Inr rgba \<Rightarrow> (case png w h rgba of None \<Rightarrow> Err PngFailed | Some out \<Rightarrow> Ok out))"

text \<open>The loop of \<open>capture_frame\<close>; \<open>None\<close> means that it is still waiting after the observations.\<close>

fun capture_poll :: "nat \<Rightarrow> ((capture_error + raw_frame option) \<times> nat) list \<Rightarrow> (bridge_error + raw_frame) option" where
  "capture_poll deadline [] = None"
| "capture_poll deadline ((Inl e, now) # obs) = Some (Err (NextFrame e))"
| "capture_poll deadline ((Inr (Some f), now) # obs) = Some (Ok f)"
| "capture_poll deadline ((Inr None, now) # obs) = (if now > deadline then Some (Err CaptureTimeout) else capture_poll deadline obs)"

definition capture_frame ::
  "(u32 \<Rightarrow> u32 \<Rightarrow> bytes \<Rightarrow> bytes option) \<Rightarrow> bool \<Rightarrow> (u8 \<Rightarrow> capture_error + unit) \<Rightarrow> nat \<Rightarrow>
    ((capture_error + raw_frame option) \<times> nat) list \<Rightarrow> u8 \<Rightarrow> (bridge_error + bytes) option" where
  "capture_frame png created select start_ms obs disp =
     (if \<not> created then Some (Err CreateCapturer)
      else
        (case select disp of
           Inl e \<Rightarrow> Some (Err (SelectDisplay e))
         | Inr _ \<Rightarrow>
             map_option (\<lambda>r. case r of Inl e \<Rightarrow> Err e | Inr f \<Rightarrow> encode_png png (rf_data f) (rf_width f) (rf_height f) (rf_format f))
               (capture_poll (start_ms + 2000) obs)))"

text \<open>The display asked for (\<open>_disp_idx\<close>) is not used.\<close>

definition local_capture_screen ::
  "(u32 \<Rightarrow> u32 \<Rightarrow> bytes \<Rightarrow> bytes option) \<Rightarrow> bool \<Rightarrow> (u8 \<Rightarrow> capture_error + unit) \<Rightarrow> nat \<Rightarrow>
    ((capture_error + raw_frame option) \<times> nat) list \<Rightarrow> local_bridge \<Rightarrow> u8 \<Rightarrow> (bridge_error + bytes) option" where
  "local_capture_screen png created select start_ms obs B disp_idx = capture_frame png created select start_ms obs (lb_disp B)"

definition local_send_input :: "bool \<Rightarrow> xclip_run \<Rightarrow> input_event \<Rightarrow> inject_error + raw_event list" where
  "local_send_input device run evt = linux_inject device run (ie_kind evt)"

text \<open>The text is the data read as UTF-8, with replacement characters where it is not valid; it goes to the clipboard program unread.\<close>

definition local_send_clipboard :: "xclip_run \<Rightarrow> clipboard_sync \<Rightarrow> inject_error + unit" where
  "local_send_clipboard run sync = set_clipboard_raw run"

definition local_open_url :: "(string \<Rightarrow> bool) \<Rightarrow> string \<Rightarrow> bridge_error + unit" where
  "local_open_url browser url =
     (if \<not> prefix ''https://'' url \<and> \<not> prefix ''http://'' url then Err UrlSchemeRefused
      else if browser url then Ok () else Err OpenFailed)"

section \<open>Properties\<close>

lemma bgra_rgba_length: "length (bgra_rgba d) = length d div 4 * 4"
  by (induction d rule: bgra_rgba.induct) auto

lemma bgra_rgba_nth:
  "4 * i + 3 < length d \<Longrightarrow> bgra_rgba d ! (4 * i) = d ! (4 * i + 2) \<and> bgra_rgba d ! (4 * i + 1) = d ! (4 * i + 1) \<and>
    bgra_rgba d ! (4 * i + 2) = d ! (4 * i) \<and> bgra_rgba d ! (4 * i + 3) = d ! (4 * i + 3)"
proof (induction d arbitrary: i rule: bgra_rgba.induct)
  case (1 b g r a rest)
  show ?case
  proof (cases i)
    case (Suc j)
    then show ?thesis using 1 by (simp add: numeral_eq_Suc)
  qed (simp add: numeral_eq_Suc)
qed auto

text \<open>
  A screenshot shows the colours of the screen and comes in time: for a picture from a capturer of Linux, the encoder receives each pixel with red, green
  and blue in their places and nothing left out; and the wait ends at the latest with the first look at the clock two seconds after the start, with
  a picture or an error.\<close>

theorem local_screenshot:
  assumes "rf_format f = Bgra32" "length (rf_data f) = unat (rf_width f) * unat (rf_height f) * 4"
    and "late \<in> set (map snd obs)" "start_ms + 2000 < late"
  shows "(\<exists>rgba. rgba_of (rf_data f) (rf_format f) = Ok rgba \<and> length rgba = length (rf_data f) \<and>
      (\<forall>i < unat (rf_width f) * unat (rf_height f).
         map (\<lambda>k. rgba ! (4 * i + k)) [0, 1, 2, 3] = map (\<lambda>k. rf_data f ! (4 * i + k)) [2, 1, 0, 3])) \<and>
    capture_frame png created select start_ms obs disp \<noteq> None"
proof -
  have "capture_poll (start_ms + 2000) obs \<noteq> None"
    using assms(3,4) by (induction "start_ms + 2000" obs rule: capture_poll.induct) auto
  then have ends: "capture_frame png created select start_ms obs disp \<noteq> None"
    by (auto simp: capture_frame_def split: sum.split)
  have "map (\<lambda>k. bgra_rgba (rf_data f) ! (4 * i + k)) [0, 1, 2, 3] = map (\<lambda>k. rf_data f ! (4 * i + k)) [2, 1, 0, 3]"
    if "i < unat (rf_width f) * unat (rf_height f)" for i
    using bgra_rgba_nth [of i "rf_data f"] that assms(2) by simp
  then show ?thesis using ends assms(1,2) by (simp add: rgba_of_def bgra_rgba_length)
qed

text \<open>The display that the client asks for has no influence.\<close>

lemma local_display_ignored:
  "local_capture_screen png created select start_ms obs B d1 = local_capture_screen png created select start_ms obs B d2"
  by (simp add: local_capture_screen_def)

lemma local_url_scheme: "local_open_url browser url = Ok () \<Longrightarrow> prefix ''https://'' url \<or> prefix ''http://'' url"
  by (simp add: local_open_url_def split: if_splits)

theorem local_screenshot_witness:
  "capture_frame (\<lambda>w h d. Some d) True (\<lambda>_. Ok ()) 0 [(Ok None, 16), (Ok None, 2001)] 0 \<noteq> None \<and>
   (\<exists>rgba. rgba_of [1, 2, 3, 4] Bgra32 = Ok rgba \<and> rgba ! 0 = 3)"
proof -
  let ?f = "\<lparr>rf_display_idx = 0, rf_width = 1, rf_height = 1, rf_stride = 4, rf_format = Bgra32, rf_data = [1, 2, 3, 4], rf_timestamp_ms = 0\<rparr>"
  have f: "rf_format ?f = Bgra32" "length (rf_data ?f) = unat (rf_width ?f) * unat (rf_height ?f) * 4"
    "2001 \<in> set (map snd [(Ok None :: capture_error + raw_frame option, 16), (Ok None, 2001 :: nat)])" "0 + 2000 < (2001 :: nat)"
    by simp_all
  show ?thesis using local_screenshot [OF f, of "\<lambda>w h d. Some d" True "\<lambda>_. Ok ()" 0] by auto
qed

end
