(* ===== verification/Latency.thy ===== *)
theory Latency
  imports Messages
begin

text \<open>
  The latency meters (\<open>miru-common/src/perf.rs\<close>): a smoothed value for each of the five stages of a frame, and their sum. A duration is
  its number of microseconds. The loads and stores of one \<open>record\<close> are taken as one step.
\<close>

section \<open>Definitions\<close>

record latency_meter =
  lm_smoothed_us :: u32
  lm_last_us :: u32
  lm_samples :: u64
  lm_alpha_1024 :: u32

definition latency_meter_new :: latency_meter where
  "latency_meter_new = \<lparr>lm_smoothed_us = 0, lm_last_us = 0, lm_samples = 0, lm_alpha_1024 = 128\<rparr>"

definition clamp_us :: "nat \<Rightarrow> u32" where
  "clamp_us dur = word_of_nat (min dur (2 ^ 32 - 1))"

definition record_latency :: "nat \<Rightarrow> latency_meter \<Rightarrow> latency_meter" where
  "record_latency dur m =
     (let us = clamp_us dur;
          prev = lm_smoothed_us m;
          a = lm_alpha_1024 m;
          new = (if prev = 0 then us
                 else ucast ((ucast (1024 - a) * ucast prev + ucast a * ucast us :: u64) div 1024))
      in m\<lparr>lm_last_us := us, lm_smoothed_us := new, lm_samples := lm_samples m + 1\<rparr>)"

definition smoothed_ms :: "latency_meter \<Rightarrow> f32" where
  "smoothed_ms m = to_f32 (to_f32 (of_nat (unat (lm_smoothed_us m))) / 1000)"

definition last_ms :: "latency_meter \<Rightarrow> f32" where
  "last_ms m = to_f32 (to_f32 (of_nat (unat (lm_last_us m))) / 1000)"

record perf_meters =
  pm_capture :: latency_meter
  pm_encode :: latency_meter
  pm_network :: latency_meter
  pm_decode :: latency_meter
  pm_display :: latency_meter

record perf_snapshot =
  pn_capture_ms :: f32
  pn_encode_ms :: f32
  pn_network_ms :: f32
  pn_decode_ms :: f32
  pn_display_ms :: f32
  pn_total_ms :: f32

definition perf_snapshot_of :: "perf_meters \<Rightarrow> perf_snapshot" where
  "perf_snapshot_of p =
     (let c = smoothed_ms (pm_capture p); e = smoothed_ms (pm_encode p); n = smoothed_ms (pm_network p);
          d = smoothed_ms (pm_decode p); s = smoothed_ms (pm_display p)
      in \<lparr>pn_capture_ms = c, pn_encode_ms = e, pn_network_ms = n, pn_decode_ms = d, pn_display_ms = s,
          pn_total_ms = to_f32 (to_f32 (to_f32 (to_f32 (c + e) + n) + d) + s)\<rparr>)"

section \<open>The smoothed value is an average\<close>

lemma unat_clamp_us: "unat (clamp_us dur) = min dur (2 ^ 32 - 1)"
  by (simp add: clamp_us_def unsigned_of_nat take_bit_nat_eq_self)

lemma ewma_between:
  fixes p u lo hi :: nat
  assumes "lo \<le> p" "p \<le> hi" "lo \<le> u" "u \<le> hi"
  shows "lo \<le> (896 * p + 128 * u) div 1024 \<and> (896 * p + 128 * u) div 1024 \<le> hi"
proof -
  have "1024 * lo \<le> 896 * p + 128 * u" "896 * p + 128 * u \<le> 1024 * hi" using assms by linarith+
  then show ?thesis using div_le_mono [of "1024 * lo" _ 1024] div_le_mono [of _ "1024 * hi" 1024] by simp
qed

lemma unat_ewma:
  fixes p u :: u32
  shows "unat (ucast ((ucast (1024 - 128 :: u32) * ucast p + ucast (128 :: u32) * ucast u :: u64) div 1024) :: u32) =
    (896 * unat p + 128 * unat u) div 1024"
proof -
  have b: "unat p < 2 ^ 32" "unat u < 2 ^ 32" using unsigned_less [of p, where 'a = nat] unsigned_less [of u, where 'a = nat] by simp_all
  have up: "unat (ucast x :: u64) = unat x" for x :: u32
    using unsigned_less [of x, where 'a = nat] by (simp add: unsigned_ucast_eq take_bit_nat_eq_self)
  have div: "unat ((word_of_nat n :: u64) div 1024) = n div 1024" if "n < 2 ^ 64" for n
    using that by (simp add: unat_div unsigned_of_nat take_bit_nat_eq_self)
  have s: "896 * unat p + 128 * unat u < 2 ^ 64" using b by simp
  have sum: "(ucast (1024 - 128 :: u32) * ucast p + ucast (128 :: u32) * ucast u :: u64) = word_of_nat (896 * unat p + 128 * unat u)"
    by (simp add: up [symmetric])
  have "unat ((word_of_nat (896 * unat p + 128 * unat u) :: u64) div 1024) = (896 * unat p + 128 * unat u) div 1024"
    using s by (rule div)
  moreover have "(896 * unat p + 128 * unat u) div 1024 < 2 ^ 32" using b by (simp add: less_mult_imp_div_less)
  ultimately show ?thesis unfolding sum by (simp add: unsigned_ucast_eq take_bit_nat_eq_self)
qed

lemma record_latency_fields [simp]:
  "lm_alpha_1024 (record_latency dur m) = lm_alpha_1024 m" "lm_samples (record_latency dur m) = lm_samples m + 1"
  by (simp_all add: record_latency_def Let_def)

lemma record_latency_between:
  assumes "lm_alpha_1024 m = 128" "lo \<le> unat (clamp_us dur)" "unat (clamp_us dur) \<le> hi"
    and "lm_smoothed_us m = 0 \<or> lo \<le> unat (lm_smoothed_us m) \<and> unat (lm_smoothed_us m) \<le> hi"
  shows "lo \<le> unat (lm_smoothed_us (record_latency dur m)) \<and> unat (lm_smoothed_us (record_latency dur m)) \<le> hi"
  using assms ewma_between [of lo "unat (lm_smoothed_us m)" hi "unat (clamp_us dur)"] unat_ewma [of "lm_smoothed_us m" "clamp_us dur"]
  by (auto simp: record_latency_def Let_def)

text \<open>
  The smoothed latency is an average in spite of integer division and of the restart at zero: after any sequence of measurements it lies between the
  smallest and the largest of them (both cut at the largest number of the type), and the meter counts every measurement.\<close>

theorem latency_between:
  assumes "durs \<noteq> []" "list_all (\<lambda>d. lo \<le> d \<and> d \<le> hi) durs" "hi < 2 ^ 32"
    and "m = fold record_latency durs latency_meter_new"
  shows "lo \<le> unat (lm_smoothed_us m) \<and> unat (lm_smoothed_us m) \<le> hi \<and> lm_samples m = word_of_nat (length durs)"
proof -
  have "lm_alpha_1024 m = 128 \<and> lm_samples m = word_of_nat (length durs) \<and>
      (durs \<noteq> [] \<longrightarrow> lo \<le> unat (lm_smoothed_us m) \<and> unat (lm_smoothed_us m) \<le> hi) \<and> (durs = [] \<longrightarrow> lm_smoothed_us m = 0)"
    using assms(2) unfolding assms(4)
  proof (induction durs rule: rev_induct)
    case (snoc d durs)
    then have d: "lo \<le> unat (clamp_us d)" "unat (clamp_us d) \<le> hi" using assms(3) by (auto simp: unat_clamp_us)
    from snoc have IH: "lm_alpha_1024 (fold record_latency durs latency_meter_new) = 128"
      "lm_samples (fold record_latency durs latency_meter_new) = word_of_nat (length durs)"
      "lm_smoothed_us (fold record_latency durs latency_meter_new) = 0 \<or>
        lo \<le> unat (lm_smoothed_us (fold record_latency durs latency_meter_new)) \<and> unat (lm_smoothed_us (fold record_latency durs latency_meter_new)) \<le> hi"
      by auto
    show ?case using record_latency_between [OF IH(1) d IH(3)] IH(1,2)
      by (simp add: add.commute)
  qed (simp add: latency_meter_new_def)
  then show ?thesis using assms(1) by blast
qed

theorem latency_between_witness:
  "5 \<le> unat (lm_smoothed_us (fold record_latency [5, 9, 7] latency_meter_new)) \<and>
   unat (lm_smoothed_us (fold record_latency [5, 9, 7] latency_meter_new)) \<le> 9"
  using latency_between [of "[5, 9, 7]" 5 9, OF _ _ _ refl] by simp

end
