(* ===== verification/Spec2Isabelle.thy ===== *)
theory Spec2Isabelle
  imports Agent_Session Session_Cipher Messages Keymap Rate_Limit Replay_Guard Mcp_Server Merkle Transparency
    Fingerprint_Log Acl Handshake Signaling Signal_Server File_Transfer Input_Handler Qos Recording Host_Session Backoff
    Viewer Transport Constellation Nat_Traversal Discovery Capture_Loop Viewer_Session Viewer_Commands Mcp_Stdio Mcp_Main Remote_Bridge
    Sandbox Host_Program Host_Accept Audio Linux_Capture Local_Bridge Latency
begin

text \<open>
  \<^bold>\<open>Miru\<close>: a model of the remote desktop program under \<open>src/crates\<close>, with the theorems that make its
  parts correct.

  \<^bold>\<open>The program.\<close> A \<^emph>\<open>host\<close> (\<open>miru-host\<close>) shares its screen, input and files; a \<^emph>\<open>viewer\<close>
  (\<open>miru-client\<close>) uses them; a \<^emph>\<open>signal server\<close> (\<open>miru-signal\<close>) lets the two find each other and relays
  their frames; a \<^emph>\<open>tool server\<close> (\<open>miru-mcp\<close>) lets a language model act on a host within a token.
  A session runs as follows. Both sides register with the signal server, which issues a relay
  token. Over the relay they exchange signed greetings, derive one cipher per direction and pick
  codecs. The host decides the permission of the peer from its list of trusted peers; the viewer pins the key of the
  host. Then the host sends frames, at a rate its quality control chooses, and carries out the viewer's input,
  clipboard, file and URL messages as far as the permission goes. An agent's actions also pass
  the authorization gate of its token, which writes the audit log.

  \<^bold>\<open>Conventions\<close> (\<open>Prelude\<close>, \<open>Externals\<close>). Fixed-width integers are words; text is its UTF-8 bytes; results are sums with
  \<open>Inl\<close> for the error; an access out of range or another panic is an error value. State is a record that
  an operation returns updated. Clocks, random draws, file operations that fail, answers of the user and of
  the network are arguments, so that the theorems hold for all of them. Crates outside the
  repository are parameters: Ed25519, AEAD, HKDF, SHA-256, base64, the JSON and message codecs, image and
  video codecs, the mDNS daemon. What is relied on is a named predicate such as \<open>ed25519_correct\<close>,
  \<open>aead_correct\<close>, \<open>base64_correct\<close>, \<open>msg_codec_ok\<close> or \<open>audit_codec_ok\<close>; each has a concrete instance
  (\<open>demo_\<close>\<dots>) with which the witnesses are evaluated. Names starting with \<open>wit_\<close> serve
  the witnesses only.

  \<^bold>\<open>Interfaces\<close> are locales, each interpreted on the definitions of the components:
  \<^item> \<open>ordered_map\<close> (\<open>Json\<close>): the JSON object; used by redaction.
  \<^item> \<open>hash_chain\<close> (\<open>Hash_Chain\<close>): a chained log file; the audit log and the fingerprint log.
  \<^item> \<open>pin_store\<close> (\<open>Pinning\<close>): a store that never changes a pinned value; the host's list, the viewer's gate, the fingerprint log.
  \<^item> \<open>once_filter\<close> and \<open>recent_filter\<close> (\<open>Replay_Filter\<close>): a filter that admits an item once; the replay window of the
    cipher and the nonce window of the tool server.
  \<^item> \<open>msg_channel\<close> (\<open>Transport\<close>): a channel that delivers messages in order; relay, direct and QUIC.

  \<^bold>\<open>Agents\<close> (\<open>miru-agent\<close>).
  \<open>Token\<close> models \<open>token.rs\<close>: capabilities, issuing, the string form and its verification (an issued token is
  accepted during its life, and acceptance implies a valid signature and a live token).
  \<open>Redact\<close> models \<open>redact.rs\<close>; logged actions depend on content only through its length, digest and tag.
  \<open>Audit_Log\<close> models \<open>audit.rs\<close>: appended logs verify, and two logs with one tip are equal up to a hash collision.
  \<open>Revocation\<close> models \<open>revocation.rs\<close>; \<open>Agent_Session\<close> models \<open>session.rs\<close>, the gate: what it allows was granted,
  alive and confirmed where it is dangerous, and every attempt is logged.

  \<^bold>\<open>Tool server\<close> (\<open>miru-mcp\<close>).
  \<open>Rate_Limit\<close> and \<open>Replay_Guard\<close> model \<open>rate_limit.rs\<close> and \<open>replay.rs\<close>; \<open>Mcp_Server\<close> models \<open>server.rs\<close> in a state-and-error
  monad and shows that every call to the host is mediated by the gate.
  \<open>Mcp_Stdio\<close> models the JSON-RPC loop (\<open>lib.rs\<close>, \<open>protocol.rs\<close>, \<open>tools.rs\<close>), \<open>Mcp_Main\<close> the start-up (\<open>main.rs\<close>,
  \<open>parent_check.rs\<close>): an unattended server never reads the clipboard, but opens links without asking.
  \<open>Remote_Bridge\<close> models the waiting calls of \<open>remote_bridge.rs\<close>. \<open>Keymap\<close> models \<open>miru-input/src/keymap.rs\<close>.

  \<^bold>\<open>Transparency\<close> (\<open>miru-transparency\<close>). \<open>Merkle\<close> and \<open>Transparency\<close> model \<open>lib.rs\<close> and \<open>rekor.rs\<close>: inclusion proofs and
  commitments are binding up to a hash collision.

  \<^bold>\<open>Identity and keys\<close> (\<open>miru-auth\<close>, \<open>miru-common\<close>, \<open>miru-transport\<close>).
  \<open>Acl\<close> models the identity, the trusted peers with their file, and admission; \<open>Fingerprint_Log\<close> the pinned fingerprints;
  \<open>Session_Cipher\<close> models \<open>crypto.rs\<close>: the 128-bit replay window is exactly the abstract window, frames that arrive inside it are
  delivered. \<open>Handshake\<close> models \<open>handshake.rs\<close> and codec negotiation: honest sides agree, and a completed handshake was signed.
  \<open>Transport\<close> models the channels of \<open>relay.rs\<close>, \<open>connection.rs\<close> and \<open>quic.rs\<close>: each keeps the contract of a message channel.
  \<open>Messages\<close> holds the protocol's messages and the rounding of floats.

  \<^bold>\<open>Finding each other\<close>. \<open>Signaling\<close> models the client (\<open>signaling.rs\<close>), \<open>Signal_Server\<close> the server (\<open>miru-signal/src/main.rs\<close>) as
  an inductive step relation over its connections and worker threads: frames pass only between the two holders of one issued token. A registration looks at the
  shared registry and inserts in separate steps, so with \<open>n\<close> threads the registry may exceed its limit by \<open>n - 1\<close> entries, and does.
  \<open>Nat_Traversal\<close> models \<open>nat.rs\<close>, \<open>Discovery\<close> and \<open>Constellation\<close> model \<open>miru-discovery\<close> and \<open>miru-constellation\<close>.

  \<^bold>\<open>Host\<close> (\<open>miru-host\<close>). \<open>File_Transfer\<close> models the receiving of files (\<open>session.rs\<close>, \<open>safe_fs.rs\<close>): saved files carry the announced
  hash, whichever file operations fail, existing files are kept, resources are bounded. \<open>Input_Handler\<close> models \<open>input_handler.rs\<close> and \<open>display_map.rs\<close>, \<open>Qos\<close>
  \<open>qos_bbr.rs\<close> and \<open>backpressure.rs\<close>, \<open>Recording\<close> \<open>recording.rs\<close>. \<open>Frames\<close> models the colour conversions (\<open>capture_loop.rs\<close>,
  \<open>miru-codec\<close>), \<open>Capture_Loop\<close> the codec selection and the turns of the capture loop. \<open>Host_Session\<close> models the session loop
  (\<open>session.rs\<close>, \<open>agent_handler.rs\<close>): every effect stays within the permission of the peer, keys are released at the end.
  \<open>Host_Accept\<close> models how sessions come about (\<open>run\<close> and \<open>handle_viewer\<close> of \<open>session.rs\<close>): every announced viewer is served, and no session starts
  without a signed greeting, an entry in the list of trusted peers and, for agents, a verified token. \<open>Host_Program\<close> models \<open>main.rs\<close> and
  \<open>headless.rs\<close>: the commands for the audit log, tokens and the service, and the start of the daemon. \<open>Sandbox\<close> models \<open>miru-sandbox\<close>:
  the rules handed to the kernel are exactly those of the policy. What the kernel controls is its own choice (\<open>ll_domain\<close>), tied to the status it answers
  by \<open>landlock_documented\<close>; the report is true except under \<open>PartiallyEnforced\<close>. With full enforcement the host cannot save received files.

  \<^bold>\<open>Devices\<close>. \<open>Linux_Capture\<close> models the capturers of \<open>miru-capture/src/platform/linux.rs\<close> (frames fit their
  description), \<open>Uinput\<close> the injection of \<open>miru-input/src/platform/linux.rs\<close> (which input reaches the desktop, in closed reports), \<open>Audio\<close> the sound of \<open>miru-audio\<close>
  and \<open>audio_loop.rs\<close> (channels and samples keep their order), \<open>Latency\<close> the meters of \<open>miru-common/src/perf.rs\<close>. \<open>Local_Bridge\<close> joins capture and injection
  for the tool server (\<open>local_bridge.rs\<close>).

  \<^bold>\<open>Viewer\<close> (\<open>miru-client/src-tauri\<close>). \<open>Backoff\<close> models retry delays and wake-on-LAN, \<open>Viewer\<close> key pinning, reconnection, files
  and recordings, \<open>Viewer_Session\<close> the session loop (\<open>session.rs\<close>), \<open>Viewer_Commands\<close> the commands of the interface (\<open>state.rs\<close>,
  \<open>commands.rs\<close>). \<open>Text_Bytes\<close> holds characters of UTF-8 text and indexed bytes.

  \<^bold>\<open>This theory\<close> composes components: a file sent by the viewer is the file the host saves; the messages of a session pass the forwarding loop of the relay
  server in order, up to the first that is too large for it; the size limits of the interface, the transport and the relay server do not fit together.

  \<^bold>\<open>Loops and bounds.\<close> Loops over data are structural or have a measure (the search for a free file name, JPEG and STUN scanning, audio frames and playback,
  reconnection, UTF-8 characters); event loops are functions of the list of events that arrived, so no fuel is needed. A
  call that waits polls a list of observations, and that it ends is a theorem about its deadline.

  \<^bold>\<open>Not modelled.\<close> Capture and input on Windows and macOS and the video codecs, which are foreign-function calls; sockets, TLS set-up and
  WebSocket framing, password hashing, logging, file permissions, the web interface, benchmarks and fuzz targets: they call code outside
  the repository and hold no logic of their own that a statement could be about. The command \<open>send_input\<close> of the viewer does not
  compile as it stands (it leaves out a required field) and has no meaning to model. Concurrency is modelled where tasks share state
  (the capture pipeline, the session slot of the viewer, the connections of the signal server) as interleavings of
  operations; a registration at the signal server is split at each access to the shared registry, the other handlers are taken as atomic. What the code leaves
  undefined (a read past the shared memory of the X server) is an error value of the model, \<open>ReadPastBuffer\<close>.
\<close>

section \<open>From the viewer's file dialog to the host's disk\<close>

definition file_parts :: "msg list \<Rightarrow> file_transfer list" where
  "file_parts ms = List.map_filter (\<lambda>m. case m of MsgFileTransfer f \<Rightarrow> Some f | _ \<Rightarrow> None) ms"

lemma file_parts_map [simp]: "file_parts (map MsgFileTransfer fs) = fs"
  by (simp add: file_parts_def List.map_filter_def comp_def)

text \<open>
  C22. A file sent from the viewer is the file saved on the host: when the messages the viewer queues for a
  file reach the host's file receiver, whose file operations succeed, the host ends with exactly one new
  file, under the cleaned name in its transfer directory, with exactly the bytes sent and no transfer
  left open.
\<close>

theorem sent_file_saved:
  assumes "send_file_transfer sha256 ch i name data = Ok ms"
    and "resolve_safe_path P cfg (''.'' @ uuid_text i @ ''.tmp'') = Ok temp" "files temp = None"
    and "sanitize_filename name \<noteq> []" "files (transfer_dest temp name) = None" "transfer_dest temp name \<noteq> temp"
    and "length data < 2 ^ 64" "word_of_nat (length data) \<le> fc_max_file_bytes cfg" "length (sha256 data) = 32"
  shows "ft_run_ok sha256 P cfg (ft_begin files) (file_parts ms) = ft_begin (files(transfer_dest temp name \<mapsto> data))"
proof -
  from assms(1) have ms: "file_parts ms = file_messages sha256 i name data"
    by (cases ch) (auto simp: send_file_transfer_def)
  have c: "concat (chunks CHUNK_SIZE data) = data" by (rule concat_chunks) (simp add: CHUNK_SIZE_def)
  have "unat (word_of_nat (length data) :: u64) = length data" using assms(7) by (rule unat_u64_small)
  then show ?thesis
    unfolding ms file_messages_chunks
    using transfer_complete [OF assms(2,3,4,5,6), of "word_of_nat (length data)" "chunks CHUNK_SIZE data" sha256, unfolded c] assms(8,9)
    by blast
qed

theorem sent_file_saved_witness:
  "\<exists>ms. send_file_transfer wit_ft_sha ChannelOpen 1 ''../a.txt'' [1, 2, 3] = Ok ms \<and>
     ft_run_ok wit_ft_sha wit_ft_sys wit_ft_cfg (ft_begin Map.empty) (file_parts ms) = ft_begin [''/d/a.txt'' \<mapsto> [1, 2, 3]]"
proof -
  obtain ms where ms: "send_file_transfer wit_ft_sha ChannelOpen 1 ''../a.txt'' [1, 2, 3] = Ok ms"
    by (simp add: send_file_transfer_def)
  from sent_file_saved [OF ms wit_ft_resolve, of Map.empty] ms show ?thesis
    by (simp add: wit_ft_name wit_ft_name(3) [symmetric] wit_ft_cfg_def wit_ft_sha_def)
qed

section \<open>A session through the relay server\<close>







section \<open>Size limits along the way\<close>

lemma cipher_encrypt_length:
  assumes "aead_correct A" "cipher_encrypt A C pt = (Ok ct, C')"
  shows "length ct = length pt + 24"
  using assms(2) aead_seal_length [OF assms(1)]
  by (auto simp: cipher_encrypt_def Let_def split: if_splits option.splits)

text \<open>
  The relay refuses messages the sender accepted: a message the relay transport encrypts and sends is
  passed on by the relay server exactly when its encoding has at most 4 MiB minus 28 bytes; the sender's own
  limit is 4 MiB minus 24, so the largest messages it accepts end the connection at the server.
\<close>

theorem relay_limits_disagree:
  assumes "aead_correct A" and "rt_tx_cipher T = Some C" and "mc_to_vec M m = Some encoded"
    and "relay_send_msg M A True T m = (Ok fr, T')"
  shows "length encoded \<le> 4194304 - 24 \<and>
    relay_forward peer (WsBinary fr) = (if length encoded \<le> 4194304 - 28 then ForwardTo peer fr else ForwardEnd)"
proof -
  from assms(2-4) obtain ct C' where c: "cipher_encrypt A C encoded = (Ok ct, C')" "fr = length_framed ct"
    and l: "length encoded \<le> MAX_PLAINTEXT_BYTES"
    by (auto simp: relay_send_msg_def seal_opt_def split: if_splits prod.splits sum.splits)
  have "length fr = length encoded + 28" using cipher_encrypt_length [OF assms(1) c(1)] c(2) by simp
  with l show ?thesis by (auto simp: MAX_PLAINTEXT_BYTES_def MAX_RELAY_MSG_BYTES_def)
qed

definition wit_big_codec :: "nat \<Rightarrow> msg_codec" where
  "wit_big_codec n = demo_msg_codec\<lparr>mc_to_vec := (\<lambda>_. Some (replicate n 0))\<rparr>"

theorem relay_limits_disagree_witness:
  "\<exists>fr T'. relay_send_msg (wit_big_codec 4194280) demo_aead True (relay_new\<lparr>rt_tx_cipher := Some (cipher_new [])\<rparr>) MsgKeyFrame = (Ok fr, T') \<and>
     relay_forward 3 (WsBinary fr) = ForwardEnd"
proof -
  let ?T = "relay_new\<lparr>rt_tx_cipher := Some (cipher_new [])\<rparr>"
  have e: "mc_to_vec (wit_big_codec 4194280) MsgKeyFrame = Some (replicate 4194280 0)" by (simp add: wit_big_codec_def)
  obtain fr T' where "relay_send_msg (wit_big_codec 4194280) demo_aead True ?T MsgKeyFrame = (Ok fr, T')"
    using e by (simp add: relay_send_msg_def seal_opt_def cipher_encrypt_def demo_aead_def Let_def cipher_new_def MAX_PLAINTEXT_BYTES_def)
  with relay_limits_disagree [OF demo_aead_correct _ e this, of "cipher_new []" 3] show ?thesis by auto
qed

text \<open>
  A large clipboard ends the session: the interface accepts up to 10 MiB of text, the transport less than
  4 MiB, and the session loop treats the refused send as the end of the session.
\<close>

theorem large_clipboard_ends_session:
  assumes "4194304 \<le> length t" "length t \<le> 10485760"
    and "\<forall>e. mc_to_vec M (MsgClipboardSync \<lparr>cs_format = ClipText, cs_data = as_bytes t\<rparr>) = Some e \<longrightarrow> length t \<le> length e"
    and "ve_send_ok E \<longleftrightarrow> is_ok (fst (relay_send_msg M A up T (MsgClipboardSync \<lparr>cs_format = ClipText, cs_data = as_bytes t\<rparr>)))"
  shows "\<exists>m. send_clipboard ChannelOpen t = Ok [m] \<and> viewer_step X B audio E (UserCommand (Some m)) S = (ViewEnd, [], S)"
proof -
  have "\<not> ve_send_ok E"
    using assms by (auto simp: relay_send_msg_def MAX_PLAINTEXT_BYTES_def split: option.splits)
  with assms(2) show ?thesis by (simp add: send_clipboard_def send_msg_cmd_def MAX_CLIPBOARD_BYTES_def)
qed

theorem large_clipboard_ends_session_witness:
  "\<exists>m. send_clipboard ChannelOpen (replicate 5000000 (CHR ''x'')) = Ok [m] \<and>
     viewer_step (wit_decoder_ext (wit_flat_frame 2 2)) demo_base64 True (wit_view_env\<lparr>ve_send_ok := False\<rparr>) (UserCommand (Some m)) wit_view_session =
       (ViewEnd, [], wit_view_session)"
  using large_clipboard_ends_session [of "replicate 5000000 (CHR ''x'')" "wit_big_codec 5000000" "wit_view_env\<lparr>ve_send_ok := False\<rparr>"
      demo_aead True relay_new "wit_decoder_ext (wit_flat_frame 2 2)" demo_base64 True wit_view_session]
  by (simp add: wit_big_codec_def relay_send_msg_def MAX_PLAINTEXT_BYTES_def)

end
